(* ===== verification/Prelude.thy ===== *)
theory Prelude
  imports Main "HOL-Library.Word" "HOL-Library.AList" "HOL-Library.Sublist" "HOL-Library.Multiset"
begin

unbundle bit_operations_syntax

text \<open>
  The prelude of the development: the names of the machine types, the collections of
  rewrite rules that the component theories fill, and the lemmas on lists, association
  lists and sorting that several components share.

  A Rust \<open>HashMap\<close> is an association list with distinct keys. Its iteration order, which
  Rust leaves unspecified, is the order of the list; no theorem fixes that order, so each
  one holds for every order. Insertion and removal are \<open>AList.update\<close> and
  \<open>AList.delete\<close>, lookup is \<open>map_of\<close>.
\<close>

type_synonym u8 = "8 word"
type_synonym u32 = "32 word"
type_synonym u64 = "64 word"
type_synonym bytes = "u8 list"
type_synonym ('k, 'v) hashmap = "('k \<times> 'v) list"

text \<open>
  What a Rust call gives back: a value, an error value, or a panic (\<open>todo!\<close>, an index out of
  range, an arithmetic overflow). Panics are kept apart from errors because a caller's \<open>?\<close>
  passes an error on but does not stop a panic.
\<close>

datatype ('e, 'a) outcome = Ok 'a | Err 'e | Panic

fun bind_outcome :: "('e, 'a) outcome \<Rightarrow> ('a \<Rightarrow> ('e, 'b) outcome) \<Rightarrow> ('e, 'b) outcome" where
  "bind_outcome (Ok a) f = f a"
| "bind_outcome (Err e) f = Err e"
| "bind_outcome Panic f = Panic"

lemma bind_outcome_Ok: "bind_outcome m f = Ok b \<longleftrightarrow> (\<exists>a. m = Ok a \<and> f a = Ok b)"
  by (cases m) auto

lemma bind_outcome_cong [fundef_cong]:
  "m = m' \<Longrightarrow> (\<And>a. m' = Ok a \<Longrightarrow> f a = g a) \<Longrightarrow> bind_outcome m f = bind_outcome m' g"
  by (cases m') auto

text \<open>\<open>unwrap\<close> and \<open>expect\<close>.\<close>

definition expect :: "'a option \<Rightarrow> (unit, 'a) outcome" where
  "expect x = (case x of Some a \<Rightarrow> Ok a | None \<Rightarrow> Panic)"

subsection \<open>Association lists as hash maps\<close>

abbreviation hm_ok :: "('k, 'v) hashmap \<Rightarrow> bool" where
  "hm_ok m \<equiv> distinct (map fst m)"

definition hm_contains :: "('k, 'v) hashmap \<Rightarrow> 'k \<Rightarrow> bool" where
  "hm_contains m k \<longleftrightarrow> k \<in> set (map fst m)"

lemma hm_contains_iff: "hm_contains m k \<longleftrightarrow> map_of m k \<noteq> None"
  by (simp add: hm_contains_def map_of_eq_None_iff)

lemma map_of_update [simp]: "map_of (AList.update k v m) = (map_of m)(k \<mapsto> v)"
  by (simp add: AList.update_conv')

lemma map_of_delete [simp]: "map_of (AList.delete k m) = (map_of m)(k := None)"
  by (simp add: AList.delete_conv')

lemma fst_set_update: "fst ` set (AList.update k v m) = insert k (fst ` set m)"
  using AList.dom_update [of k v m] by (simp add: dom_map_of_conv_image_fst [symmetric])

lemma set_update: "set (AList.update k v m) \<subseteq> insert (k, v) (set m)"
  by (induction m) auto

lemma set_update_new: "map_of m k = None \<Longrightarrow> set (AList.update k v m) = insert (k, v) (set m)"
  by (induction m) (auto split: if_splits)

lemma hm_ok_update [simp]: "hm_ok m \<Longrightarrow> hm_ok (AList.update k v m)"
  by (rule AList.distinct_update)

lemma hm_ok_delete [simp]: "hm_ok m \<Longrightarrow> hm_ok (AList.delete k m)"
  by (rule AList.distinct_delete)

lemma map_of_set_iff: "hm_ok m \<Longrightarrow> (k, v) \<in> set m \<longleftrightarrow> map_of m k = Some v"
  by (simp add: map_of_eq_Some_iff)

lemma length_update:
  "length (AList.update k v m) = (if map_of m k = None then Suc (length m) else length m)"
proof (induction m)
  case Nil
  then show ?case by simp
next
  case (Cons p m)
  then show ?case by (cases p) auto
qed

lemma length_delete:
  "hm_ok m \<Longrightarrow> length (AList.delete k m) = (if map_of m k = None then length m else length m - 1)"
proof (induction m)
  case Nil
  then show ?case by simp
next
  case (Cons p m)
  obtain a b where p: "p = (a, b)" by (cases p)
  show ?case
  proof (cases "a = k")
    case True
    with Cons.prems p have "k \<notin> fst ` set m" by simp
    then have "AList.delete k m = m"
      by (simp add: AList.delete_idem)
    with True p show ?thesis by simp
  next
    case False
    with Cons p show ?thesis
      by (auto simp: map_of_eq_None_iff split: if_splits)
        (metis One_nat_def Suc_pred image_eqI length_pos_if_in_set fst_conv)
  qed
qed

lemma set_delete: "set (AList.delete k m) = {p \<in> set m. fst p \<noteq> k}"
  by (induction m) auto

subsection \<open>Sums over a hash map\<close>

text \<open>A total kept next to a map changes by the entry an operation adds or takes away.\<close>

lemma sum_list_delete:
  fixes f :: "'v \<Rightarrow> nat"
  assumes "hm_ok m" and "map_of m k = Some v"
  shows "(\<Sum>p\<leftarrow>AList.delete k m. f (snd p)) + f v = (\<Sum>p\<leftarrow>m. f (snd p))"
  using assms
proof (induction m)
  case Nil
  then show ?case by simp
next
  case (Cons p m)
  obtain a b where p: "p = (a, b)" by (cases p)
  show ?case
  proof (cases "a = k")
    case True
    with Cons.prems p have "k \<notin> fst ` set m" by simp
    then have "AList.delete k m = m" by (simp add: AList.delete_idem)
    with True p Cons.prems show ?thesis by simp
  next
    case False
    with Cons p show ?thesis by simp
  qed
qed

lemma sum_list_update_new:
  fixes f :: "'v \<Rightarrow> nat"
  assumes "map_of m k = None"
  shows "(\<Sum>p\<leftarrow>AList.update k v m. f (snd p)) = (\<Sum>p\<leftarrow>m. f (snd p)) + f v"
  using assms
proof (induction m)
  case Nil
  then show ?case by simp
next
  case (Cons p m)
  then show ?case by (cases p) (auto split: if_splits)
qed

lemma sum_list_update_old:
  fixes f :: "'v \<Rightarrow> nat"
  assumes "hm_ok m" and "map_of m k = Some w"
  shows "(\<Sum>p\<leftarrow>AList.update k v m. f (snd p)) + f w = (\<Sum>p\<leftarrow>m. f (snd p)) + f v"
  using assms
proof (induction m)
  case Nil
  then show ?case by simp
next
  case (Cons p m)
  obtain a b where p: "p = (a, b)" by (cases p)
  show ?case
  proof (cases "a = k")
    case True
    with p Cons.prems show ?thesis by simp
  next
    case False
    with Cons p show ?thesis by auto
  qed
qed

lemma sum_list_entry_le:
  fixes f :: "'v \<Rightarrow> nat"
  assumes "(k, v) \<in> set m"
  shows "f v \<le> (\<Sum>p\<leftarrow>m. f (snd p))"
  using assms by (induction m) auto

subsection \<open>Lists\<close>

text \<open>\<open>Iterator::position\<close> and \<open>Vec::remove\<close>, as the Rust code uses them together.\<close>

fun position :: "('a \<Rightarrow> bool) \<Rightarrow> 'a list \<Rightarrow> nat option" where
  "position P [] = None"
| "position P (x # xs) = (if P x then Some 0 else map_option Suc (position P xs))"

definition vec_remove :: "nat \<Rightarrow> 'a list \<Rightarrow> 'a list" where
  "vec_remove i xs = take i xs @ drop (Suc i) xs"

lemma position_None: "position P xs = None \<longleftrightarrow> (\<forall>x\<in>set xs. \<not> P x)"
  by (induction xs) auto

lemma position_Some:
  "position P xs = Some i \<Longrightarrow> i < length xs \<and> P (xs ! i) \<and> (\<forall>j<i. \<not> P (xs ! j))"
proof (induction xs arbitrary: i)
  case Nil
  then show ?case by simp
next
  case (Cons x xs)
  then show ?case
    by (auto split: if_splits simp: less_Suc_eq_0_disj)
qed

lemma mset_vec_remove:
  assumes "i < length xs"
  shows "mset xs = add_mset (xs ! i) (mset (vec_remove i xs))"
proof -
  have "xs = take i xs @ xs ! i # drop (Suc i) xs"
    using assms by (simp add: id_take_nth_drop)
  then have "mset xs = mset (take i xs @ xs ! i # drop (Suc i) xs)"
    by simp
  then show ?thesis
    by (simp add: vec_remove_def)
qed

lemma set_vec_remove: "set (vec_remove i xs) \<subseteq> set xs"
  by (auto simp: vec_remove_def dest: in_set_takeD in_set_dropD)

lemma length_vec_remove: "i < length xs \<Longrightarrow> length (vec_remove i xs) = length xs - 1"
  by (simp add: vec_remove_def)

lemma distinct_vec_remove: "distinct (map f xs) \<Longrightarrow> distinct (map f (vec_remove i xs))"
  by (auto simp: vec_remove_def distinct_map take_map drop_map set_take_disj_set_drop_if_distinct
      intro: inj_on_subset dest: in_set_takeD in_set_dropD)
    (metis distinct_map in_set_dropD in_set_takeD inj_on_eq_iff lessI less_or_eq_imp_le
      set_take_disj_set_drop_if_distinct disjoint_iff)

lemma distinct_iff_count: "distinct xs \<longleftrightarrow> (\<forall>a. count (mset xs) a \<le> 1)"
proof
  assume c: "\<forall>a. count (mset xs) a \<le> 1"
  show "distinct xs"
    unfolding distinct_count_atmost_1
  proof
    fix a
    show "count (mset xs) a = (if a \<in> set xs then 1 else 0)"
    proof (cases "a \<in> set xs")
      case True
      then have "1 \<le> count (mset xs) a"
        using count_greater_eq_one_iff [of "mset xs" a] by simp
      with c [rule_format, of a] have "count (mset xs) a = 1" by (rule le_antisym)
      with True show ?thesis by simp
    qed simp
  qed
qed (simp add: distinct_count_atmost_1)

lemma unat_u8: "unat (b :: u8) < 256"
  using unsigned_less [of b] by simp

lemma mset_filter_not: "mset (filter P xs) + mset (filter (\<lambda>x. \<not> P x) xs) = mset xs"
  by (induction xs) auto

end
