(* ===== verification/JsText.thy ===== *)
theory JsText
  imports Prelude
begin

text \<open>
  Text rewriting of the browser page loader (\<open>flbrowser/src/main.js\<close>, \<open>appendScript\<close>).
  JavaScript's \<open>s.replace(/lit/g, rep)\<close> with a literal pattern is \<open>replace_all\<close>: the
  string is scanned from the left and every match that does not overlap an earlier one is
  replaced. \<open>rewrite_source\<close> is the chain of the three replacements that point a page's
  scripts at the shadow root, and \<open>script_text\<close> the text of the script element that
  \<open>appendScript\<close> builds. The lemmas show what the rewriting leaves in the text.
\<close>

subsection \<open>Global replacement of a literal\<close>

fun strip_prefix :: "'a list \<Rightarrow> 'a list \<Rightarrow> 'a list option" where
  "strip_prefix [] ys = Some ys"
| "strip_prefix (x # xs) [] = None"
| "strip_prefix (x # xs) (y # ys) = (if x = y then strip_prefix xs ys else None)"

lemma strip_prefix_Some: "strip_prefix p s = Some r \<longleftrightarrow> s = p @ r"
  by (induction p s rule: strip_prefix.induct) auto

lemma strip_prefix_None: "strip_prefix p s = None \<longleftrightarrow> \<not> prefix p s"
  by (induction p s rule: strip_prefix.induct) auto

lemma strip_prefix_length: "strip_prefix (p # ps) s = Some r \<Longrightarrow> length r < length s"
  by (auto simp: strip_prefix_Some)

function replace_all :: "'a list \<Rightarrow> 'a list \<Rightarrow> 'a list \<Rightarrow> 'a list" where
  "replace_all [] rep s = s"
| "replace_all (p # ps) rep [] = []"
| "replace_all (p # ps) rep (c # cs) =
     (case strip_prefix (p # ps) (c # cs) of
        Some rest \<Rightarrow> rep @ replace_all (p # ps) rep rest
      | None \<Rightarrow> c # replace_all (p # ps) rep cs)"
  by pat_completeness auto
termination
  by (relation "measure (\<lambda>(p, rep, s). length s)") (auto simp del: strip_prefix.simps dest: strip_prefix_length)

lemma replace_all_Nil [simp]: "replace_all p rep [] = []"
  by (cases p) auto

lemma replace_all_step:
  assumes "p \<noteq> []" and "\<not> prefix p (c # cs)"
  shows "replace_all p rep (c # cs) = c # replace_all p rep cs"
  using assms by (cases p) (auto simp: strip_prefix_None [THEN iffD2] split: option.splits)

lemma replace_all_match:
  assumes "p \<noteq> []"
  shows "replace_all p rep (p @ s) = rep @ replace_all p rep s"
proof -
  obtain a as where p: "p = a # as" using assms by (cases p) auto
  have "strip_prefix (a # as) (a # as @ s) = Some s"
    using strip_prefix_Some [of "a # as" "a # as @ s" s] by simp
  then show ?thesis by (simp add: p)
qed

lemma replace_all_induct [case_names Nil Match Step]:
  assumes "p \<noteq> []"
    and "P []"
    and "\<And>s. P s \<Longrightarrow> P (p @ s)"
    and "\<And>c cs. \<not> prefix p (c # cs) \<Longrightarrow> P cs \<Longrightarrow> P (c # cs)"
  shows "P s"
proof (induction s rule: length_induct)
  case (1 s)
  show ?case
  proof (cases "prefix p s")
    case True
    then obtain r where "s = p @ r" by (auto simp: prefix_def)
    with 1 assms(1,3) show ?thesis by auto
  next
    case False
    then show ?thesis using 1 assms(2,4) by (cases s) auto
  qed
qed

text \<open>A text without the pattern is left as it is.\<close>

lemma replace_all_id: "\<not> sublist p s \<Longrightarrow> replace_all p rep s = s"
proof (induction s)
  case (Cons c cs)
  then have p: "p \<noteq> []" and "\<not> prefix p (c # cs)" and "\<not> sublist p cs"
    by (auto simp: sublist_Cons_right)
  with Cons.IH show ?case by (simp add: replace_all_step)
qed (cases p; simp)

subsection \<open>Patterns closed by a character of their own\<close>

text \<open>
  A word \<open>w\<close> is closed by \<open>z\<close> when its last character is \<open>z\<close> and no other one is. Two
  closed words that begin the same text are equal, which decides every overlap between a
  pattern and a replacement.
\<close>

definition closed_by :: "'a \<Rightarrow> 'a list \<Rightarrow> bool" where
  "closed_by z w \<longleftrightarrow> w \<noteq> [] \<and> last w = z \<and> z \<notin> set (butlast w)"

lemma closed_by_snoc: "closed_by z w \<longleftrightarrow> (\<exists>v. w = v @ [z] \<and> z \<notin> set v)"
  by (cases w rule: rev_cases) (auto simp: closed_by_def)

lemma closed_by_append_eq:
  assumes "closed_by z v" and "closed_by z w" and "v @ xs = w @ ys"
  shows "v = w"
  using assms by (auto simp: closed_by_snoc append_eq_append_conv2 append_eq_Cons_conv Cons_eq_append_conv)

lemma closed_by_suffix: "closed_by z w \<Longrightarrow> suffix v w \<Longrightarrow> v \<noteq> [] \<Longrightarrow> closed_by z v"
  by (cases v rule: rev_cases) (auto simp: closed_by_def suffix_def butlast_append split: if_splits)

lemma prefix_replace_all:
  assumes "closed_by z w" and "closed_by z rep" and "p \<noteq> []" and "\<not> suffix rep w"
    and "suffix q w" and "q \<noteq> []" and "prefix q (replace_all p rep s)"
  shows "prefix q s \<and> \<not> prefix p s"
  using assms(5-7)
proof (induction s arbitrary: q rule: replace_all_induct [OF assms(3)])
  case 1
  then show ?case by simp
next
  case (2 s)
  from 2(4) obtain u where "rep @ replace_all p rep s = q @ u"
    by (auto simp: prefix_def replace_all_match [OF assms(3)])
  moreover have "closed_by z q"
    using assms(1) 2(2,3) by (rule closed_by_suffix)
  ultimately have "rep = q"
    using assms(2) by (metis closed_by_append_eq)
  with 2(2) assms(4) show ?case by simp
next
  case (3 c cs)
  from 3(5) have "prefix q (c # replace_all p rep cs)"
    by (simp add: replace_all_step [OF assms(3) 3(1)])
  with 3(4) obtain q' where q: "q = c # q'" and pre: "prefix q' (replace_all p rep cs)"
    by (cases q) auto
  show ?case
  proof (cases "q' = []")
    case True
    with q 3(1) show ?thesis by simp
  next
    case False
    have "suffix q' w"
      using 3(3) q by (metis suffix_Cons suffix_order.trans suffix_order.refl)
    with 3(2) False pre have "prefix q' cs" by blast
    with q 3(1) show ?thesis by simp
  qed
qed

lemma sublist_replace_all:
  assumes "closed_by z w" and "closed_by z rep" and "p \<noteq> []"
    and "\<not> suffix rep w" and "\<not> suffix w rep"
    and "sublist w (replace_all p rep s)"
  shows "sublist w s \<and> w \<noteq> p"
  using assms(6)
proof (induction s rule: replace_all_induct [OF assms(3)])
  case 1
  with assms(1) show ?case by (simp add: closed_by_def)
next
  case (2 s)
  have "sublist w (rep @ replace_all p rep s)"
    using 2(2) by (simp add: replace_all_match [OF assms(3)])
  then obtain us vs where eq: "rep @ replace_all p rep s = us @ w @ vs"
    by (auto simp: sublist_def)
  show ?case
  proof (cases "length rep \<le> length us")
    case True
    then have "replace_all p rep s = drop (length rep) us @ w @ vs"
      using eq by (metis append_eq_append_conv_if append_eq_conv_conj drop_append
          diff_is_0_eq' drop_0)
    then have "sublist w (replace_all p rep s)"
      by (auto simp: sublist_def)
    with 2(1) show ?thesis
      by (auto intro: sublist_appendI [THEN sublist_order.order_trans] simp: sublist_append)
  next
    case False
    then obtain v where v: "rep = us @ v" "v \<noteq> []"
      using eq by (auto simp: append_eq_append_conv2)
    with eq have "v @ replace_all p rep s = w @ vs" by simp
    moreover have "closed_by z v"
      using assms(2) v by (metis closed_by_suffix suffixI)
    ultimately have "v = w"
      using assms(1) by (metis closed_by_append_eq)
    with v assms(5) show ?thesis by (simp add: suffix_def)
  qed
next
  case (3 c cs)
  have step: "replace_all p rep (c # cs) = c # replace_all p rep cs"
    by (rule replace_all_step [OF assms(3) 3(1)])
  show ?case
  proof (cases "prefix w (replace_all p rep (c # cs))")
    case True
    have "w \<noteq> []" using assms(1) by (simp add: closed_by_def)
    from prefix_replace_all [OF assms(1-4) _ this True]
    have "prefix w (c # cs)" "\<not> prefix p (c # cs)" by auto
    then show ?thesis by auto
  next
    case False
    with 3(3) step have "sublist w (replace_all p rep cs)"
      by (simp add: sublist_Cons_right)
    with 3(2) show ?thesis by (simp add: sublist_Cons_right)
  qed
qed

subsection \<open>The rewriting of a page's scripts\<close>

definition pat_by_id :: string where
  "pat_by_id = ''document.getElementById(''"

definition pat_query :: string where
  "pat_query = ''document.querySelector(''"

definition pat_query_all :: string where
  "pat_query_all = ''document.querySelectorAll(''"

definition rep_by_id :: string where
  "rep_by_id = ''documentRoot.getElementById(''"

definition rep_query :: string where
  "rep_query = ''documentRoot.querySelector(''"

definition rep_query_all :: string where
  "rep_query_all = ''documentRoot.querySelectorAll(''"

lemmas pattern_defs = pat_by_id_def pat_query_def pat_query_all_def
  rep_by_id_def rep_query_def rep_query_all_def

definition rewrite_source :: "string \<Rightarrow> string" where
  "rewrite_source source =
     replace_all pat_query_all rep_query_all
       (replace_all pat_query rep_query
         (replace_all pat_by_id rep_by_id source))"

text \<open>The template literal of \<open>appendScript\<close>, with its line breaks and indentation.\<close>

definition script_prefix :: string where
  "script_prefix =
     CHR 0x0A # ''      documentRoot = document.getElementById('' @ CHR 0x22 # ''dht_page'' @
     CHR 0x22 # '').firstChild.shadowRoot;'' @ CHR 0x0A # ''      ''"

definition script_suffix :: string where
  "script_suffix = CHR 0x0A # ''      ''"

definition script_text :: "string \<Rightarrow> string" where
  "script_text source = script_prefix @ rewrite_source source @ script_suffix"

lemma closed_patterns:
  "closed_by CHR ''('' pat_by_id" "closed_by CHR ''('' pat_query"
  "closed_by CHR ''('' pat_query_all" "closed_by CHR ''('' rep_by_id"
  "closed_by CHR ''('' rep_query" "closed_by CHR ''('' rep_query_all"
  by (simp_all add: closed_by_def pattern_defs)

lemma pattern_neq_Nil: "pat_by_id \<noteq> []" "pat_query \<noteq> []" "pat_query_all \<noteq> []"
  by (simp_all add: pattern_defs)

text \<open>No replacement text ends in a pattern or the other way round.\<close>

lemma pattern_no_suffix:
  assumes "w \<in> {pat_by_id, pat_query, pat_query_all}"
    and "r \<in> {rep_by_id, rep_query, rep_query_all}"
  shows "\<not> suffix r w" and "\<not> suffix w r"
  using assms by (auto simp: pattern_defs suffix_to_prefix)

lemma sublist_pattern_step:
  assumes "w \<in> {pat_by_id, pat_query, pat_query_all}" and "p \<noteq> []"
    and "r \<in> {rep_by_id, rep_query, rep_query_all}"
    and "sublist w (replace_all p r s)"
  shows "sublist w s" and "w \<noteq> p"
proof -
  have "closed_by CHR ''('' w" and "closed_by CHR ''('' r"
    using assms(1,3) closed_patterns by auto
  from sublist_replace_all [OF this assms(2) pattern_no_suffix [OF assms(1,3)] assms(4)]
  show "sublist w s" and "w \<noteq> p" by auto
qed

lemma rewrite_source_free:
  assumes "w \<in> {pat_by_id, pat_query, pat_query_all}"
  shows "\<not> sublist w (rewrite_source s)"
proof
  assume *: "sublist w (rewrite_source s)"
  have a: "w \<noteq> pat_query_all"
    and s2: "sublist w (replace_all pat_query rep_query (replace_all pat_by_id rep_by_id s))"
    using sublist_pattern_step [OF assms pattern_neq_Nil(3) _ * [unfolded rewrite_source_def]]
    by auto
  have b: "w \<noteq> pat_query" and s1: "sublist w (replace_all pat_by_id rep_by_id s)"
    using sublist_pattern_step [OF assms pattern_neq_Nil(2) _ s2] by auto
  have "w \<noteq> pat_by_id"
    using sublist_pattern_step [OF assms pattern_neq_Nil(1) _ s1] by auto
  with a b assms show False by auto
qed

lemma rewrite_source_id:
  assumes "\<not> sublist pat_by_id s" and "\<not> sublist pat_query s" and "\<not> sublist pat_query_all s"
  shows "rewrite_source s = s"
  using assms by (simp add: rewrite_source_def replace_all_id)

text \<open>
  C28. After the rewriting of \<open>appendScript\<close> no call to \<open>document.getElementById(\<close>,
  \<open>document.querySelector(\<close> or \<open>document.querySelectorAll(\<close> is left in a page's script, and
  rewriting the result again changes nothing.
\<close>

theorem rewrite_source_complete:
  "\<not> sublist ''document.getElementById('' (rewrite_source s) \<and>
   \<not> sublist ''document.querySelector('' (rewrite_source s) \<and>
   \<not> sublist ''document.querySelectorAll('' (rewrite_source s) \<and>
   rewrite_source (rewrite_source s) = rewrite_source s"
proof -
  have free: "\<not> sublist pat_by_id (rewrite_source s)" "\<not> sublist pat_query (rewrite_source s)"
    "\<not> sublist pat_query_all (rewrite_source s)"
    using rewrite_source_free by auto
  from rewrite_source_id [OF this] free show ?thesis
    by (simp add: pat_by_id_def pat_query_def pat_query_all_def)
qed

text \<open>The replaced words stay calls: an unprefixed name that only ends in \<open>document\<close> is hit too.\<close>

lemma rewrite_source_hits_suffix_names:
  "rewrite_source ''mydocument.querySelector(1)'' = ''mydocumentRoot.querySelector(1)''"
  by (simp add: rewrite_source_def pattern_defs)

end
