(* ===== verification/JsPage.thy ===== *)
theory JsPage
  imports JsText
begin

text \<open>
  The JavaScript glue of the browser front end, \<open>flbrowser/src/main.js\<close>.

  \<open>embedPage\<close> shows a page that came out of the distributed storage: it parses the HTML,
  clones the styles and the body without its scripts into a fresh shadow root, fetches the
  external scripts, and runs the inline scripts once all of these have settled, unless a
  timer of one second fires first. The asynchronous part is a state machine: a run of
  \<open>embedPage\<close> is an \<open>embed_run\<close>, an event is a fetch that settles, the resolution of the
  race or the timer, and \<open>page_step\<close> says what the callback of each event does. The HTML
  parser (\<open>parse\<close>, the browser's \<open>DOMParser\<close>) and the resolution of a script's address
  (\<open>resolve\<close>) are parameters; the text of a fetched script is part of its event.
\<close>

subsection \<open>The document tree\<close>

datatype dom =
    Element string "(string \<times> string) list" "dom list"
  | Template "(string \<times> string) list" "dom list"
  | Text string
  | Comment string

text \<open>\<open>querySelectorAll\<close> visits descendants in tree order and does not enter a template.\<close>

fun matching :: "string \<Rightarrow> dom \<Rightarrow> dom list" where
  "matching tag (Element t as cs) =
     (if t = tag then [Element t as cs] else []) @ concat (map (matching tag) cs)"
| "matching tag (Template as cs) = []"
| "matching tag (Text s) = []"
| "matching tag (Comment s) = []"

definition query_all :: "string \<Rightarrow> dom list \<Rightarrow> dom list" where
  "query_all tag doc = concat (map (matching tag) doc)"

fun text_content :: "dom \<Rightarrow> string" where
  "text_content (Element t as cs) = concat (map text_content cs)"
| "text_content (Template as cs) = []"
| "text_content (Text s) = s"
| "text_content (Comment s) = []"

fun is_script :: "dom \<Rightarrow> bool" where
  "is_script (Element t as cs) = (t = ''script'')"
| "is_script _ = False"

text \<open>\<open>scripts.forEach(script => script.remove())\<close> on the scripts below a cloned body.\<close>

fun remove_scripts :: "dom \<Rightarrow> dom" where
  "remove_scripts (Element t as cs) =
     Element t as (map remove_scripts (filter (\<lambda>c. \<not> is_script c) cs))"
| "remove_scripts (Template as cs) = Template as cs"
| "remove_scripts (Text s) = Text s"
| "remove_scripts (Comment s) = Comment s"

lemma is_script_remove_scripts [simp]: "is_script (remove_scripts d) = is_script d"
  by (cases d) auto

lemma matching_remove_scripts:
  "\<not> is_script d \<Longrightarrow> matching ''script'' (remove_scripts d) = []"
  by (induction d) auto

text \<open>The \<open>src\<close> property of a script: empty without the attribute, the resolved address with it.\<close>

fun script_src :: "(string \<Rightarrow> string) \<Rightarrow> dom \<Rightarrow> string" where
  "script_src resolve (Element t as cs) =
     (case map_of as ''src'' of None \<Rightarrow> [] | Some v \<Rightarrow> resolve v)"
| "script_src resolve _ = []"

subsection \<open>Runs of \<open>embedPage\<close>\<close>

datatype race = Racing | Loaded | TimedOut

record embed_run =
  shadow :: "dom list"
  pending :: "(nat, string) hashmap"
  inline_scripts :: "string list"
  race_state :: race

record page_state =
  has_container :: bool
  wrapper :: "nat option"
  runs :: "embed_run list"
  alerts :: nat
  console_errors :: nat

definition page_base :: "dom list \<Rightarrow> dom list" where
  "page_base doc =
     query_all ''style'' doc @
     (case query_all ''body'' doc of [] \<Rightarrow> [] | b # _ \<Rightarrow> [remove_scripts b])"

definition page_external :: "(string \<Rightarrow> string) \<Rightarrow> dom list \<Rightarrow> string list" where
  "page_external resolve doc =
     filter (\<lambda>u. u \<noteq> []) (map (script_src resolve) (query_all ''script'' doc))"

definition page_inline :: "(string \<Rightarrow> string) \<Rightarrow> dom list \<Rightarrow> string list" where
  "page_inline resolve doc =
     map text_content (filter (\<lambda>s. script_src resolve s = []) (query_all ''script'' doc))"

definition start_run :: "(string \<Rightarrow> string) \<Rightarrow> dom list \<Rightarrow> embed_run" where
  "start_run resolve doc =
     \<lparr>shadow = page_base doc,
      pending = enumerate 0 (page_external resolve doc),
      inline_scripts = page_inline resolve doc,
      race_state = Racing\<rparr>"

definition embed_page ::
  "(string \<Rightarrow> string) \<Rightarrow> (string \<Rightarrow> dom list) \<Rightarrow> page_state \<Rightarrow> string \<Rightarrow> page_state" where
  "embed_page resolve parse st data =
     (if \<not> has_container st then st
      else st\<lparr>wrapper := Some (length (runs st)),
              runs := runs st @ [start_run resolve (parse data)]\<rparr>)"

definition script_elem :: "string \<Rightarrow> dom" where
  "script_elem source = Element ''script'' [] [Text (script_text source)]"

definition append_script :: "string \<Rightarrow> embed_run \<Rightarrow> embed_run" where
  "append_script source r = r\<lparr>shadow := shadow r @ [script_elem source]\<rparr>"

text \<open>The callbacks. \<open>None\<close>: the event cannot happen in this state.\<close>

datatype page_event =
    Embed string
  | Fetched nat nat string
  | FetchFailed nat nat
  | Settle nat
  | Timeout nat

definition fetched :: "nat \<Rightarrow> string \<Rightarrow> embed_run \<Rightarrow> embed_run option" where
  "fetched i source r =
     (if map_of (pending r) i = None then None
      else Some ((append_script source r)\<lparr>pending := AList.delete i (pending r)\<rparr>))"

definition fetch_failed :: "nat \<Rightarrow> embed_run \<Rightarrow> embed_run option" where
  "fetch_failed i r =
     (if map_of (pending r) i = None then None
      else Some (r\<lparr>pending := AList.delete i (pending r)\<rparr>))"

definition settle :: "embed_run \<Rightarrow> embed_run option" where
  "settle r =
     (if race_state r = Racing \<and> pending r = []
      then Some ((fold append_script (inline_scripts r) r)\<lparr>race_state := Loaded\<rparr>)
      else None)"

definition time_out :: "embed_run \<Rightarrow> (embed_run \<times> nat) option" where
  "time_out r =
     (case race_state r of
        Racing \<Rightarrow> if pending r = [] then None else Some (r\<lparr>race_state := TimedOut\<rparr>, 1)
      | _ \<Rightarrow> Some (r, 0))"

definition on_run ::
  "nat \<Rightarrow> (embed_run \<Rightarrow> embed_run option) \<Rightarrow> page_state \<Rightarrow> page_state option" where
  "on_run k f st =
     (if k < length (runs st)
      then map_option (\<lambda>r. st\<lparr>runs := (runs st)[k := r]\<rparr>) (f (runs st ! k))
      else None)"

fun page_step ::
  "(string \<Rightarrow> string) \<Rightarrow> (string \<Rightarrow> dom list) \<Rightarrow> page_state \<Rightarrow> page_event \<Rightarrow> page_state option" where
  "page_step resolve parse st (Embed data) = Some (embed_page resolve parse st data)"
| "page_step resolve parse st (Fetched k i source) = on_run k (fetched i source) st"
| "page_step resolve parse st (FetchFailed k i) =
     map_option (\<lambda>s. s\<lparr>console_errors := Suc (console_errors s)\<rparr>) (on_run k (fetch_failed i) st)"
| "page_step resolve parse st (Settle k) = on_run k settle st"
| "page_step resolve parse st (Timeout k) =
     (if k < length (runs st)
      then map_option (\<lambda>(r, n). st\<lparr>runs := (runs st)[k := r], alerts := alerts st + n\<rparr>)
             (time_out (runs st ! k))
      else None)"

definition fresh_page :: "bool \<Rightarrow> page_state" where
  "fresh_page c = \<lparr>has_container = c, wrapper = None, runs = [], alerts = 0, console_errors = 0\<rparr>"

inductive page_reachable ::
  "(string \<Rightarrow> string) \<Rightarrow> (string \<Rightarrow> dom list) \<Rightarrow> page_state \<Rightarrow> bool"
  for resolve parse where
  page_init: "page_reachable resolve parse (fresh_page c)"
| page_next: "page_reachable resolve parse st \<Longrightarrow> page_step resolve parse st e = Some st' \<Longrightarrow>
    page_reachable resolve parse st'"

fun page_run ::
  "(string \<Rightarrow> string) \<Rightarrow> (string \<Rightarrow> dom list) \<Rightarrow> page_state \<Rightarrow> page_event list \<Rightarrow> page_state option" where
  "page_run resolve parse st [] = Some st"
| "page_run resolve parse st (e # es) =
     (case page_step resolve parse st e of
        None \<Rightarrow> None
      | Some st' \<Rightarrow> page_run resolve parse st' es)"

lemma page_run_reachable:
  "page_reachable resolve parse st \<Longrightarrow> page_run resolve parse st es = Some st' \<Longrightarrow>
   page_reachable resolve parse st'"
  by (induction es arbitrary: st) (auto split: option.splits intro: page_next)

subsection \<open>What a run has put into its shadow root\<close>

lemma fold_append_script:
  "fold append_script xs r = r\<lparr>shadow := shadow r @ map script_elem xs\<rparr>"
  by (induction xs arbitrary: r) (simp_all add: append_script_def)

text \<open>
  What the events of a history say of the \<open>k\<close>th page: its text, the scripts that arrived for it in
  order of arrival, and the fetches for it that have ended.
\<close>

definition embeds :: "page_event list \<Rightarrow> string list" where
  "embeds es = List.map_filter (\<lambda>e. case e of Embed data \<Rightarrow> Some data | _ \<Rightarrow> None) es"

definition arrivals :: "nat \<Rightarrow> page_event list \<Rightarrow> string list" where
  "arrivals k es = List.map_filter (\<lambda>e. case e of Fetched j i source \<Rightarrow> if j = k then Some source else None | _ \<Rightarrow> None) es"

definition ended :: "nat \<Rightarrow> page_event list \<Rightarrow> nat set" where
  "ended k es = {i. (\<exists>source. Fetched k i source \<in> set es) \<or> FetchFailed k i \<in> set es}"

lemma history_append [simp]:
  "embeds (es @ fs) = embeds es @ embeds fs" "arrivals k (es @ fs) = arrivals k es @ arrivals k fs"
  "ended k (es @ fs) = ended k es \<union> ended k fs"
  by (auto simp: embeds_def arrivals_def ended_def List.map_filter_def)

lemma history_single [simp]:
  "embeds [e] = (case e of Embed data \<Rightarrow> [data] | _ \<Rightarrow> [])"
  "arrivals k [e] = (case e of Fetched j i source \<Rightarrow> if j = k then [source] else [] | _ \<Rightarrow> [])"
  "ended k [e] = (case e of Fetched j i source \<Rightarrow> if j = k then {i} else {} | FetchFailed j i \<Rightarrow> if j = k then {i} else {} | _ \<Rightarrow> {})"
  "embeds [] = []" "arrivals k [] = []" "ended k [] = {}"
  by (auto simp: embeds_def arrivals_def ended_def List.map_filter_def split: page_event.splits)

lemma page_run_append:
  "page_run resolve parse st (es @ fs) = Option.bind (page_run resolve parse st es) (\<lambda>st1. page_run resolve parse st1 fs)"
  by (induction es arbitrary: st) (auto split: option.splits)

text \<open>
  A run of a document after a history: the cloned styles and body, then the external scripts in
  the order in which they arrived, then, only when the race was won, all inline scripts.
\<close>

definition run_after :: "(string \<Rightarrow> string) \<Rightarrow> dom list \<Rightarrow> nat \<Rightarrow> page_event list \<Rightarrow> embed_run \<Rightarrow> bool" where
  "run_after resolve doc k es r \<longleftrightarrow>
     shadow r = page_base doc @ map script_elem (arrivals k es) @
       (if Settle k \<in> set es then map script_elem (page_inline resolve doc) else []) \<and>
     pending r = filter (\<lambda>p. fst p \<notin> ended k es) (enumerate 0 (page_external resolve doc)) \<and>
     inline_scripts r = page_inline resolve doc \<and>
     race_state r = (if Settle k \<in> set es then Loaded else if Timeout k \<in> set es then TimedOut else Racing) \<and>
     (Settle k \<in> set es \<longrightarrow> pending r = [])"

definition untouched :: "nat \<Rightarrow> page_event list \<Rightarrow> bool" where
  "untouched k es \<longleftrightarrow> arrivals k es = [] \<and> ended k es = {} \<and> Settle k \<notin> set es \<and> Timeout k \<notin> set es"

definition page_after :: "(string \<Rightarrow> string) \<Rightarrow> (string \<Rightarrow> dom list) \<Rightarrow> page_event list \<Rightarrow> page_state \<Rightarrow> bool" where
  "page_after resolve parse es st \<longleftrightarrow> has_container st \<and> length (runs st) = length (embeds es) \<and>
     (\<forall>k < length (runs st). run_after resolve (parse (embeds es ! k)) k es (runs st ! k)) \<and>
     (\<forall>k \<ge> length (runs st). untouched k es)"

lemma run_after_start: "untouched k es \<Longrightarrow> run_after resolve doc k (es @ [Embed data]) (start_run resolve doc)"
  by (simp add: run_after_def untouched_def start_run_def)

lemma run_after_other:
  assumes "run_after resolve doc k es r" and "arrivals k [e] = []" "ended k [e] = {}" "e \<noteq> Settle k" "e \<noteq> Timeout k"
  shows "run_after resolve doc k (es @ [e]) r"
  using assms by (auto simp: run_after_def)

lemma run_after_not_settled: "run_after resolve doc k es r \<Longrightarrow> map_of (pending r) i \<noteq> None \<Longrightarrow> Settle k \<notin> set es"
  by (auto simp: run_after_def)

lemma delete_ended:
  "AList.delete i (filter (\<lambda>p. fst p \<notin> S) m) = filter (\<lambda>p. fst p \<notin> insert i S) m"
  by (auto simp: AList.delete_eq intro: filter_cong)

lemma run_after_fetched:
  assumes "run_after resolve doc k es r" and "fetched i source r = Some r'"
  shows "run_after resolve doc k (es @ [Fetched k i source]) r'"
proof -
  from assms(2) have some: "map_of (pending r) i \<noteq> None"
    and r': "r' = r\<lparr>shadow := shadow r @ [script_elem source], pending := AList.delete i (pending r)\<rparr>"
    by (auto simp: fetched_def append_script_def split: if_splits)
  from run_after_not_settled [OF assms(1) some] assms(1) show ?thesis
    by (auto simp: run_after_def r' delete_ended)
qed

lemma run_after_fetch_failed:
  assumes "run_after resolve doc k es r" and "fetch_failed i r = Some r'"
  shows "run_after resolve doc k (es @ [FetchFailed k i]) r'"
  using assms by (auto simp: run_after_def fetch_failed_def delete_ended split: if_splits)

lemma run_after_settle:
  "run_after resolve doc k es r \<Longrightarrow> settle r = Some r' \<Longrightarrow> run_after resolve doc k (es @ [Settle k]) r'"
  by (auto simp: run_after_def settle_def fold_append_script split: if_splits)

lemma run_after_time_out:
  "run_after resolve doc k es r \<Longrightarrow> time_out r = Some (r', n) \<Longrightarrow> run_after resolve doc k (es @ [Timeout k]) r'"
  by (auto simp: run_after_def time_out_def split: race.splits if_splits)

lemma on_run_Some:
  "on_run k f st = Some st' \<longleftrightarrow>
   k < length (runs st) \<and> (\<exists>r. f (runs st ! k) = Some r \<and> st' = st\<lparr>runs := (runs st)[k := r]\<rparr>)"
  by (auto simp: on_run_def)

lemma page_after_callback:
  assumes "page_after resolve parse es st" and "j < length (runs st)" and "\<And>data. e \<noteq> Embed data"
    and "\<And>doc. run_after resolve doc j es (runs st ! j) \<Longrightarrow> run_after resolve doc j (es @ [e]) r"
    and "\<And>k. k \<noteq> j \<Longrightarrow> arrivals k [e] = [] \<and> ended k [e] = {} \<and> e \<noteq> Settle k \<and> e \<noteq> Timeout k"
    and "runs st' = (runs st)[j := r]" and "has_container st' = has_container st"
  shows "page_after resolve parse (es @ [e]) st'"
proof -
  have em: "embeds (es @ [e]) = embeds es" using assms(3) by (cases e) auto
  have "run_after resolve (parse (embeds es ! k)) k (es @ [e]) (runs st' ! k)" if "k < length (runs st)" for k
    using that assms(1,2,4,5,6) run_after_other [of resolve "parse (embeds es ! k)" k es "runs st ! k" e]
    by (cases "k = j") (auto simp: page_after_def)
  moreover have "untouched k (es @ [e])" if "length (runs st) \<le> k" for k
    using that assms(1,2) assms(5) [of k] by (auto simp: page_after_def untouched_def)
  ultimately show ?thesis using assms(1,6,7) em by (simp add: page_after_def)
qed

lemma page_after_step:
  assumes "page_after resolve parse es st" and "page_step resolve parse st e = Some st'"
  shows "page_after resolve parse (es @ [e]) st'"
proof (cases e)
  case (Embed data)
  have st': "st' = st\<lparr>wrapper := Some (length (runs st)), runs := runs st @ [start_run resolve (parse data)]\<rparr>"
    using assms Embed by (simp add: page_after_def embed_page_def)
  have old: "run_after resolve (parse (embeds es ! k)) k (es @ [e]) (runs st ! k)" if "k < length (runs st)" for k
    using that assms(1) Embed by (intro run_after_other) (auto simp: page_after_def)
  have new: "run_after resolve (parse data) (length (runs st)) (es @ [e]) (start_run resolve (parse data))"
    using assms(1) Embed by (simp add: page_after_def run_after_start)
  have "untouched k (es @ [e])" if "length (runs st) < k" for k
    using that assms(1) Embed by (auto simp: page_after_def untouched_def)
  with old new assms(1) Embed show ?thesis by (auto simp: page_after_def st' nth_append less_Suc_eq)
next
  case (Fetched k i source)
  with assms show ?thesis
    by (auto simp: on_run_Some intro!: page_after_callback [OF assms(1)] run_after_fetched)
next
  case (FetchFailed k i)
  with assms show ?thesis
    by (auto simp: on_run_Some intro!: page_after_callback [OF assms(1)] run_after_fetch_failed)
next
  case (Settle k)
  with assms show ?thesis
    by (auto simp: on_run_Some intro!: page_after_callback [OF assms(1)] run_after_settle)
next
  case (Timeout k)
  with assms obtain r n where "k < length (runs st)" "time_out (runs st ! k) = Some (r, n)"
    "st' = st\<lparr>runs := (runs st)[k := r], alerts := alerts st + n\<rparr>"
    by (auto split: if_splits)
  with Timeout show ?thesis by (auto intro!: page_after_callback [OF assms(1)] run_after_time_out)
qed

lemma page_after_run: "page_run resolve parse (fresh_page True) es = Some st \<Longrightarrow> page_after resolve parse es st"
proof (induction es arbitrary: st rule: rev_induct)
  case Nil
  then show ?case by (auto simp: page_after_def fresh_page_def untouched_def)
next
  case (snoc e es)
  then obtain st1 where "page_run resolve parse (fresh_page True) es = Some st1" "page_step resolve parse st1 e = Some st"
    by (auto simp: page_run_append bind_eq_Some_conv split: option.splits)
  with snoc.IH page_after_step show ?case by blast
qed

text \<open>When the inline scripts run, every fetch has ended and the timer has not fired.\<close>

lemma settled_in_time:
  assumes "page_run resolve parse (fresh_page True) (pre @ Settle k # post) = Some st"
  shows "k < length (embeds pre) \<and> {..<length (page_external resolve (parse (embeds pre ! k)))} \<subseteq> ended k pre \<and>
    Timeout k \<notin> set pre \<and> Settle k \<notin> set pre"
proof -
  let ?ext = "page_external resolve (parse (embeds pre ! k))"
  obtain st1 st2 where 1: "page_run resolve parse (fresh_page True) pre = Some st1"
    "page_step resolve parse st1 (Settle k) = Some st2"
    using assms by (auto simp: page_run_append bind_eq_Some_conv split: option.splits)
  from page_after_run [OF 1(1)] have after: "page_after resolve parse pre st1" .
  from 1(2) have k: "k < length (runs st1)" "race_state (runs st1 ! k) = Racing" "pending (runs st1 ! k) = []"
    by (auto simp: on_run_Some settle_def split: if_splits)
  with after have r: "run_after resolve (parse (embeds pre ! k)) k pre (runs st1 ! k)" by (simp add: page_after_def)
  with k(3) have "filter (\<lambda>p. fst p \<notin> ended k pre) (enumerate 0 ?ext) = []" by (simp add: run_after_def)
  then have "\<forall>p \<in> set (enumerate 0 ?ext). fst p \<in> ended k pre" by (simp add: filter_empty_conv)
  moreover have "fst ` set (enumerate 0 ?ext) = {..<length ?ext}"
    by (metis atLeast0LessThan add_0 map_fst_enumerate set_map set_upt)
  ultimately have "{..<length ?ext} \<subseteq> ended k pre" by (metis (no_types, lifting) image_subsetI)
  with r k after show ?thesis by (auto simp: run_after_def page_after_def split: if_splits)
qed

text \<open>
  C27. Take any interleaving of page loads, fetch callbacks and timers in a browser page that has
  the container. Then there is one run per page that was loaded, and what is in the shadow root
  of the \<open>k\<close>th one is known exactly: the cloned styles and body of the \<open>k\<close>th page, then the external
  scripts that were fetched for it, in the order in which they arrived, then, if and only if its
  race was won, all its inline scripts in document order, once. The fetches that are outstanding
  are the external scripts of this page whose fetch has neither succeeded nor failed. The race
  can be won only once, and only when every external script has been fetched or has failed and
  the timer has not fired before; so no inline script runs while an external one is outstanding,
  and none runs after a timeout.
\<close>

theorem embed_run_contents:
  assumes "page_run resolve parse (fresh_page True) es = Some st"
  shows "length (runs st) = length (embeds es) \<and>
    (\<forall>k < length (runs st).
      shadow (runs st ! k) = page_base (parse (embeds es ! k)) @ map script_elem (arrivals k es) @
        (if Settle k \<in> set es then map script_elem (page_inline resolve (parse (embeds es ! k))) else []) \<and>
      pending (runs st ! k) = filter (\<lambda>p. fst p \<notin> ended k es) (enumerate 0 (page_external resolve (parse (embeds es ! k)))) \<and>
      (\<forall>pre post. es = pre @ Settle k # post \<longrightarrow>
        {..<length (page_external resolve (parse (embeds es ! k)))} \<subseteq> ended k pre \<and>
        Timeout k \<notin> set pre \<and> Settle k \<notin> set pre \<and> Settle k \<notin> set post))"
proof -
  have after: "page_after resolve parse es st" by (rule page_after_run [OF assms])
  have "{..<length (page_external resolve (parse (embeds es ! k)))} \<subseteq> ended k pre \<and>
      Timeout k \<notin> set pre \<and> Settle k \<notin> set pre \<and> Settle k \<notin> set post"
    if es: "es = pre @ Settle k # post" for k pre post
  proof -
    note won = settled_in_time [OF assms [unfolded es]]
    then have "embeds es ! k = embeds pre ! k" by (simp add: es nth_append)
    moreover have "Settle k \<notin> set post"
    proof
      assume "Settle k \<in> set post"
      then obtain us vs where "post = us @ Settle k # vs" by (auto dest: split_list)
      then have "es = (pre @ Settle k # us) @ Settle k # vs" using es by simp
      from settled_in_time [OF assms [unfolded this]] show False by simp
    qed
    ultimately show ?thesis using won by simp
  qed
  with after show ?thesis unfolding page_after_def run_after_def by blast
qed

text \<open>The same over the reachable states: each of them is the end of a history.\<close>

lemma reachable_run: "page_reachable resolve parse st \<Longrightarrow> \<exists>c es. page_run resolve parse (fresh_page c) es = Some st"
proof (induction rule: page_reachable.induct)
  case (page_init c)
  show ?case by (intro exI [of _ c] exI [of _ "[]"]) simp
next
  case (page_next st e st')
  then obtain c es where "page_run resolve parse (fresh_page c) es = Some st" by blast
  with page_next.hyps(2) have "page_run resolve parse (fresh_page c) (es @ [e]) = Some st'"
    by (simp add: page_run_append)
  then show ?case by blast
qed

definition demo_doc :: "dom list" where
  "demo_doc =
     [Element ''html'' []
        [Element ''head'' [] [Element ''style'' [] [Text ''s'']],
         Element ''body'' []
           [Element ''script'' [(''src'', ''a'')] [],
            Element ''p'' [] [Text ''hi''],
            Element ''script'' [] [Text ''run()'']]]]"

definition demo_events :: "page_event list" where
  "demo_events = [Embed ''d'', Fetched 0 0 ''lib()'', Settle 0, Timeout 0]"

lemmas page_eval = demo_doc_def demo_events_def fresh_page_def embed_page_def start_run_def
  page_base_def page_external_def page_inline_def query_all_def on_run_def fetched_def
  append_script_def settle_def time_out_def fetch_failed_def

lemma demo_run:
  "\<exists>st. page_run (\<lambda>u. u) (\<lambda>d. demo_doc) (fresh_page True) demo_events = Some st \<and>
    length (runs st) = 1 \<and> race_state (runs st ! 0) = Loaded \<and>
    shadow (runs st ! 0) =
      [Element ''style'' [] [Text ''s''], Element ''body'' [] [Element ''p'' [] [Text ''hi'']],
       script_elem ''lib()'', script_elem ''run()'']"
  by (simp add: page_eval enumerate_eq_zip)

theorem embed_run_contents_witness:
  "\<exists>st. page_run (\<lambda>u. u) (\<lambda>d. demo_doc) (fresh_page True) demo_events = Some st \<and> length (runs st) = 1 \<and>
    shadow (runs st ! 0) = page_base demo_doc @ map script_elem [''lib()''] @ map script_elem (page_inline (\<lambda>u. u) demo_doc)"
proof -
  obtain st where run: "page_run (\<lambda>u. u) (\<lambda>d. demo_doc) (fresh_page True) demo_events = Some st" "length (runs st) = 1"
    using demo_run by blast
  moreover have "arrivals 0 demo_events = [''lib()'']" "Settle 0 \<in> set demo_events"
    by (simp_all add: arrivals_def demo_events_def List.map_filter_simps)
  ultimately show ?thesis using embed_run_contents [OF run(1)] by simp
qed

subsection \<open>A new page carries no script of its own\<close>

text \<open>
  Right after \<open>embedPage\<close> the container shows the new run, whose shadow root has the
  clones only: no script of the page is among the cloned body's descendants, so nothing
  runs before \<open>appendScript\<close> adds it. The runs of earlier pages are left as they were.
\<close>

theorem embed_page_starts_clean:
  assumes "has_container st"
  shows "wrapper (embed_page resolve parse st data) = Some (length (runs st)) \<and>
    take (length (runs st)) (runs (embed_page resolve parse st data)) = runs st \<and>
    shadow (runs (embed_page resolve parse st data) ! length (runs st)) = page_base (parse data) \<and>
    (\<forall>d \<in> set (page_base (parse data)). \<not> (\<exists>as cs. d = Element ''style'' as cs) \<longrightarrow>
       matching ''script'' d = [])"
proof -
  have style: "\<exists>as cs. d = Element ''style'' as cs" if "d \<in> set (matching ''style'' e)" for d e
    using that by (induction e) (auto split: if_splits)
  have body: "\<not> is_script b" if "b \<in> set (matching ''body'' e)" for b e
    using that by (induction e) (auto split: if_splits)
  have "matching ''script'' d = []"
    if "d \<in> set (page_base (parse data))" and "\<not> (\<exists>as cs. d = Element ''style'' as cs)" for d
  proof -
    have "d \<notin> set (query_all ''style'' (parse data))"
      using that(2) by (auto simp: query_all_def dest!: style)
    with that(1) obtain b bs where q: "query_all ''body'' (parse data) = b # bs"
      and d: "d = remove_scripts b"
      by (cases "query_all ''body'' (parse data)") (auto simp: page_base_def)
    from q have "b \<in> set (query_all ''body'' (parse data))" by simp
    with body have "\<not> is_script b" by (auto simp: query_all_def)
    with d show ?thesis by (simp add: matching_remove_scripts)
  qed
  with assms show ?thesis
    by (simp add: embed_page_def start_run_def nth_append)
qed

theorem embed_page_starts_clean_witness:
  "shadow (runs (embed_page (\<lambda>u. u) (\<lambda>d. demo_doc) (fresh_page True) ''d'') ! 0) =
     page_base demo_doc \<and> has_container (fresh_page True)"
proof -
  have h: "has_container (fresh_page True)" by (simp add: fresh_page_def)
  from embed_page_starts_clean [OF h, of "\<lambda>u. u" "\<lambda>d. demo_doc" "''d''"] h show ?thesis
    by (simp add: fresh_page_def)
qed

subsection \<open>Isolation of runs\<close>

fun event_run :: "page_state \<Rightarrow> page_event \<Rightarrow> nat" where
  "event_run st (Embed data) = length (runs st)"
| "event_run st (Fetched k i source) = k"
| "event_run st (FetchFailed k i) = k"
| "event_run st (Settle k) = k"
| "event_run st (Timeout k) = k"

text \<open>
  A callback works on its own run only: late scripts of a page that has been replaced
  never reach the shadow root of the page now shown, and only \<open>embedPage\<close> changes which
  page is shown.
\<close>

theorem page_step_isolated:
  assumes "page_step resolve parse st e = Some st'" and "k < length (runs st)"
    and "k \<noteq> event_run st e"
  shows "runs st' ! k = runs st ! k \<and>
    ((\<nexists>data. e = Embed data) \<longrightarrow> wrapper st' = wrapper st \<and> length (runs st') = length (runs st))"
  using assms
  by (cases e) (auto simp: embed_page_def on_run_Some nth_append split: if_splits)

theorem page_step_isolated_witness:
  "\<exists>st st'. page_step (\<lambda>u. u) (\<lambda>d. demo_doc) st (Fetched 0 0 ''x'') = Some st' \<and>
    1 < length (runs st) \<and> runs st' ! 1 = runs st ! 1"
proof -
  let ?s = "embed_page (\<lambda>u. u) (\<lambda>d. demo_doc)"
  let ?st = "?s (?s (fresh_page True) ''a'') ''b''"
  obtain st' where st': "page_step (\<lambda>u. u) (\<lambda>d. demo_doc) ?st (Fetched 0 0 ''x'') = Some st'"
    by (simp add: page_eval enumerate_eq_zip)
  have len: "1 < length (runs ?st)"
    by (simp add: page_eval)
  from page_step_isolated [OF st' len] st' len show ?thesis by auto
qed

subsection \<open>Every page that loads in time runs all its scripts\<close>

fun outcome_event :: "nat \<Rightarrow> nat \<times> string option \<Rightarrow> page_event" where
  "outcome_event k (i, Some source) = Fetched k i source"
| "outcome_event k (i, None) = FetchFailed k i"

lemma page_run_outcomes:
  assumes "k < length (runs st)" and "distinct (map fst os)"
    and "set (map fst os) = fst ` set (pending (runs st ! k))"
  shows "\<exists>st'. page_run resolve parse st (map (outcome_event k) os) = Some st' \<and>
    k < length (runs st') \<and> pending (runs st' ! k) = [] \<and>
    race_state (runs st' ! k) = race_state (runs st ! k) \<and>
    inline_scripts (runs st' ! k) = inline_scripts (runs st ! k) \<and>
    shadow (runs st' ! k) = shadow (runs st ! k) @ map script_elem (List.map_filter snd os)"
  using assms
proof (induction os arbitrary: st)
  case Nil
  then show ?case by (simp add: map_filter_simps)
next
  case (Cons oc os)
  obtain i out where oc: "oc = (i, out)" by (cases oc)
  let ?r = "runs st ! k"
  from Cons.prems(3) oc have known: "map_of (pending ?r) i \<noteq> None"
    by (auto simp: map_of_eq_None_iff)
  let ?r1 = "(case out of None \<Rightarrow> ?r | Some source \<Rightarrow> append_script source ?r)
      \<lparr>pending := AList.delete i (pending ?r)\<rparr>"
  obtain st1 where step: "page_step resolve parse st (outcome_event k oc) = Some st1"
    and runs1: "runs st1 = (runs st)[k := ?r1]"
    using oc known Cons.prems(1)
    by (cases out) (auto simp: on_run_def fetched_def fetch_failed_def)
  have at: "runs st1 ! k = ?r1" and len: "k < length (runs st1)"
    using runs1 Cons.prems(1) by auto
  have "set (map fst os) = fst ` set (pending (runs st1 ! k))"
    using Cons.prems(2,3) oc by (auto simp: at set_delete split: option.splits) (force+)?
  from Cons.IH [OF len _ this] Cons.prems(2) obtain st' where
    "page_run resolve parse st1 (map (outcome_event k) os) = Some st'"
    "k < length (runs st')" "pending (runs st' ! k) = []"
    "race_state (runs st' ! k) = race_state (runs st1 ! k)"
    "inline_scripts (runs st' ! k) = inline_scripts (runs st1 ! k)"
    "shadow (runs st' ! k) = shadow (runs st1 ! k) @ map script_elem (List.map_filter snd os)"
    by auto
  with step at oc show ?case
    by (cases out) (auto simp: append_script_def map_filter_simps)
qed

lemma run_completes:
  assumes "k < length (runs st)" and "race_state (runs st ! k) = Racing"
    and "distinct (map fst os)" and "set (map fst os) = fst ` set (pending (runs st ! k))"
  shows "\<exists>st'. page_run resolve parse st (map (outcome_event k) os @ [Settle k]) = Some st' \<and>
    k < length (runs st') \<and> race_state (runs st' ! k) = Loaded \<and>
    shadow (runs st' ! k) = shadow (runs st ! k) @ map script_elem (List.map_filter snd os) @
      map script_elem (inline_scripts (runs st ! k)) \<and>
    page_step resolve parse st' (Timeout k) = Some st'"
proof -
  from page_run_outcomes [OF assms(1,3,4), of resolve parse] obtain st1 where
    "page_run resolve parse st (map (outcome_event k) os) = Some st1"
    "k < length (runs st1)" "pending (runs st1 ! k) = []"
    "race_state (runs st1 ! k) = Racing"
    "inline_scripts (runs st1 ! k) = inline_scripts (runs st ! k)"
    "shadow (runs st1 ! k) = shadow (runs st ! k) @ map script_elem (List.map_filter snd os)"
    using assms(2) by auto
  then show ?thesis
    by (simp add: page_run_append on_run_def settle_def fold_append_script time_out_def)
qed

text \<open>
  C37. A page that is loaded into the container, and whose external scripts all settle before the
  timer, fetched or failed and in any order, is shown with all its scripts: its race is won, and
  its shadow root holds the cloned styles and body of the page, the scripts that were fetched in
  the order of arrival, and then every inline script of the page, in document order. A timer that
  fires later changes nothing.
\<close>

theorem embed_page_completes:
  assumes "has_container st" and "distinct (map fst os)"
    and "set (map fst os) = {..<length (page_external resolve (parse data))}"
  shows "\<exists>st'. page_run resolve parse st
      (Embed data # map (outcome_event (length (runs st))) os @ [Settle (length (runs st))]) = Some st' \<and>
    race_state (runs st' ! length (runs st)) = Loaded \<and>
    shadow (runs st' ! length (runs st)) = page_base (parse data) @ map script_elem (List.map_filter snd os) @
      map script_elem (page_inline resolve (parse data)) \<and>
    page_step resolve parse st' (Timeout (length (runs st))) = Some st'"
proof -
  let ?k = "length (runs st)" and ?st = "embed_page resolve parse st data"
  have new: "?k < length (runs ?st)" "runs ?st ! ?k = start_run resolve (parse data)"
    using assms(1) by (simp_all add: embed_page_def nth_append)
  have "fst ` set (enumerate 0 (page_external resolve (parse data))) = {..<length (page_external resolve (parse data))}"
    by (metis atLeast0LessThan add_0 map_fst_enumerate set_map set_upt)
  with assms(3) have "set (map fst os) = fst ` set (pending (runs ?st ! ?k))" by (simp add: new start_run_def)
  from run_completes [OF new(1) _ assms(2) this, of resolve parse] show ?thesis
    by (auto simp: new start_run_def)
qed

theorem embed_page_completes_witness:
  "\<exists>st'. page_run (\<lambda>u. u) (\<lambda>d. demo_doc) (fresh_page True) [Embed ''d'', FetchFailed 0 0, Settle 0] = Some st' \<and>
     race_state (runs st' ! 0) = Loaded \<and> shadow (runs st' ! 0) = page_base demo_doc @ map script_elem [''run()'']"
proof -
  have "has_container (fresh_page True)" "distinct (map fst [(0::nat, None :: string option)])"
    "set (map fst [(0::nat, None :: string option)]) = {..<length (page_external (\<lambda>u. u) demo_doc)}"
    "page_inline (\<lambda>u. u) demo_doc = [''run()'']"
    by (auto simp: page_eval)
  with embed_page_completes [of "fresh_page True" "[(0, None)]" "\<lambda>u. u" "\<lambda>d. demo_doc" "''d''"] show ?thesis
    by (simp add: fresh_page_def List.map_filter_simps del: page_run.simps page_step.simps) blast
qed

end
