(* ===== verification/JsBrowser.thy ===== *)
theory JsBrowser
  imports JsPage
begin

text \<open>
  The two small groups of \<open>flbrowser/src/main.js\<close>: \<open>downloadFile\<close>, which hands a blob to the
  browser's download through an object URL, and the access to the text editor of the page.
  The browser's table of live object URLs is part of the state. The editor comes from the
  page (the library \<open>ace\<close>), so reading and writing its text are parameters of the model.
\<close>

subsection \<open>Downloading a file\<close>

text \<open>
  \<open>object_urls\<close> is the table behind \<open>URL.createObjectURL\<close>, \<open>downloads\<close> what the browser was
  told to save: the file's name and what the link's address stood for when it was clicked.
\<close>

record browser_state =
  object_urls :: "(nat, bytes) hashmap"
  next_url :: nat
  downloads :: "(string \<times> bytes option) list"
  console :: "string list"

definition create_object_url :: "bytes \<Rightarrow> browser_state \<Rightarrow> nat \<times> browser_state" where
  "create_object_url blob b =
     (next_url b, b\<lparr>object_urls := AList.update (next_url b) blob (object_urls b),
                    next_url := Suc (next_url b)\<rparr>)"

definition click_download :: "string \<Rightarrow> nat \<Rightarrow> browser_state \<Rightarrow> browser_state" where
  "click_download name href b =
     b\<lparr>downloads := downloads b @ [(name, map_of (object_urls b) href)]\<rparr>"

definition revoke_object_url :: "nat \<Rightarrow> browser_state \<Rightarrow> browser_state" where
  "revoke_object_url href b = b\<lparr>object_urls := AList.delete href (object_urls b)\<rparr>"

definition console_dir :: "string \<Rightarrow> browser_state \<Rightarrow> browser_state" where
  "console_dir s b = b\<lparr>console := console b @ [s]\<rparr>"

definition download_file ::
  "(bytes \<Rightarrow> string) \<Rightarrow> string \<Rightarrow> bytes \<Rightarrow> browser_state \<Rightarrow> browser_state" where
  "download_file show_data fileName data b =
     (let b1 = console_dir (show_data data) (console_dir fileName b);
          (href, b2) = create_object_url data b1;
          b3 = click_download fileName href b2
      in revoke_object_url href b3)"

definition urls_ok :: "browser_state \<Rightarrow> bool" where
  "urls_ok b \<longleftrightarrow> (\<forall>u \<in> fst ` set (object_urls b). u < next_url b)"

lemma delete_update_new:
  "k \<notin> fst ` set m \<Longrightarrow> AList.delete k (AList.update k v m) = m"
proof (induction m)
  case (Cons p m)
  then show ?case by (cases p) auto
qed simp

text \<open>
  \<open>downloadFile\<close> saves exactly the given bytes under the given name and leaves no object
  URL behind: the table of live URLs is the one before the call, and the state it leaves is
  again one from which the next download works.
\<close>

theorem download_file_saves_and_revokes:
  assumes "urls_ok b"
  shows "object_urls (download_file sh name data b) = object_urls b \<and>
    downloads (download_file sh name data b) = downloads b @ [(name, Some data)] \<and>
    urls_ok (download_file sh name data b)"
proof -
  have new: "next_url b \<notin> fst ` set (object_urls b)"
    using assms by (auto simp: urls_ok_def)
  then show ?thesis
    using assms
    by (auto simp: download_file_def create_object_url_def click_download_def console_dir_def
        revoke_object_url_def delete_update_new urls_ok_def less_Suc_eq Let_def)
qed

theorem download_file_saves_and_revokes_witness:
  "downloads (download_file (\<lambda>d. []) ''f'' [1, 2]
     \<lparr>object_urls = [(0, [9])], next_url = 1, downloads = [], console = []\<rparr>) = [(''f'', Some [1, 2])]"
proof -
  let ?b = "\<lparr>object_urls = [(0, [9])], next_url = 1, downloads = [], console = []\<rparr> :: browser_state"
  have "urls_ok ?b" by (simp add: urls_ok_def)
  from download_file_saves_and_revokes [OF this, of "\<lambda>d. []" "''f''" "[1, 2]"] show ?thesis by simp
qed

subsection \<open>The text editor\<close>

record 'ed editor_env =
  ace_defined :: bool
  ace_edit :: bool
  editor :: 'ed

definition get_editor_content :: "('ed \<Rightarrow> string) \<Rightarrow> 'ed editor_env \<Rightarrow> string" where
  "get_editor_content get_value env =
     (if ace_defined env \<and> ace_edit env then get_value (editor env) else [])"

definition set_editor_content ::
  "('ed \<Rightarrow> string \<Rightarrow> 'ed) \<Rightarrow> string \<Rightarrow> 'ed editor_env \<Rightarrow> 'ed editor_env" where
  "set_editor_content set_value data env =
     (if ace_defined env \<and> ace_edit env
      then env\<lparr>editor := set_value (editor env) data\<rparr> else env)"

end
