(* ===== verification/TrixToolbar.thy ===== *)
theory TrixToolbar
  imports JsText
begin

text \<open>
  The texts that the rich-editor bundle of the dashboard
  (\<open>hermes/public/js/filament/forms/components/rich-editor.js\<close>) builds for its custom elements:
  the toolbar that \<open>getDefaultHTML\<close> writes from the labels of the language record \<open>m\<close>, and
  the style sheets of the two elements, in which \<open>%t\<close> stands for the element's tag name.
  \<open>concat\<close> is append; a template's line ends are \<open>nl\<close>; characters are bytes (UTF-8).

  A scanner that keeps the tags of a text without the contents of quoted values shows that the
  labels cannot change the elements of the toolbar, and the style sheets are shown to be
  confined to the elements they are registered for.
\<close>

subsection \<open>The toolbar\<close>

record lang =
  l_attach_files :: string
  l_bold :: string
  l_bullets :: string
  l_code :: string
  l_heading1 :: string
  l_indent :: string
  l_italic :: string
  l_link :: string
  l_numbers :: string
  l_outdent :: string
  l_quote :: string
  l_redo :: string
  l_strike :: string
  l_undo :: string
  l_unlink :: string
  l_url :: string
  l_url_placeholder :: string

definition default_lang :: lang where
  "default_lang = \<lparr>l_attach_files = ''Attach Files'', l_bold = ''Bold'', l_bullets = ''Bullets'',
     l_code = ''Code'', l_heading1 = ''Heading'', l_indent = ''Increase Level'', l_italic = ''Italic'',
     l_link = ''Link'', l_numbers = ''Numbers'', l_outdent = ''Decrease Level'', l_quote = ''Quote'',
     l_redo = ''Redo'', l_strike = ''Strikethrough'', l_undo = ''Undo'', l_unlink = ''Unlink'',
     l_url = ''URL'', l_url_placeholder = ''Enter a URL'' @ [CHR 0xE2, CHR 0x80, CHR 0xA6]\<rparr>"

abbreviation nl :: string where
  "nl \<equiv> [CHR 0x0A]"

definition data_attrs :: "(string \<times> string) list \<Rightarrow> string" where
  "data_attrs ds = concat (map (\<lambda>(n, v). '' '' @ n @ ''=\"'' @ v @ ''\"'') ds)"

definition icon_button :: "string \<Rightarrow> (string \<times> string) list \<Rightarrow> string \<Rightarrow> string" where
  "icon_button icon ds label =
     ''        <button type=\"button\" class=\"trix-button trix-button--icon trix-button--icon-'' @ icon @ ''\"'' @
     data_attrs ds @ '' title=\"'' @ label @ ''\" tabindex=\"-1\">'' @ label @ ''</button>'' @ nl"

definition button_group :: "string \<Rightarrow> string \<Rightarrow> string" where
  "button_group name buttons =
     ''      <span class=\"trix-button-group trix-button-group--'' @ name @ ''\" data-trix-button-group=\"'' @ name @ ''\">'' @ nl @
     buttons @ ''      </span>'' @ nl"

definition text_tools :: "lang \<Rightarrow> string" where
  "text_tools m = button_group ''text-tools''
     (icon_button ''bold'' [(''data-trix-attribute'', ''bold''), (''data-trix-key'', ''b'')] (l_bold m) @
      icon_button ''italic'' [(''data-trix-attribute'', ''italic''), (''data-trix-key'', ''i'')] (l_italic m) @
      icon_button ''strike'' [(''data-trix-attribute'', ''strike'')] (l_strike m) @
      icon_button ''link'' [(''data-trix-attribute'', ''href''), (''data-trix-action'', ''link''), (''data-trix-key'', ''k'')] (l_link m))"

definition block_tools :: "lang \<Rightarrow> string" where
  "block_tools m = button_group ''block-tools''
     (icon_button ''heading-1'' [(''data-trix-attribute'', ''heading1'')] (l_heading1 m) @
      icon_button ''quote'' [(''data-trix-attribute'', ''quote'')] (l_quote m) @
      icon_button ''code'' [(''data-trix-attribute'', ''code'')] (l_code m) @
      icon_button ''bullet-list'' [(''data-trix-attribute'', ''bullet'')] (l_bullets m) @
      icon_button ''number-list'' [(''data-trix-attribute'', ''number'')] (l_numbers m) @
      icon_button ''decrease-nesting-level'' [(''data-trix-action'', ''decreaseNestingLevel'')] (l_outdent m) @
      icon_button ''increase-nesting-level'' [(''data-trix-action'', ''increaseNestingLevel'')] (l_indent m))"

definition file_tools :: "lang \<Rightarrow> string" where
  "file_tools m = button_group ''file-tools''
     (icon_button ''attach'' [(''data-trix-action'', ''attachFiles'')] (l_attach_files m))"

definition history_tools :: "lang \<Rightarrow> string" where
  "history_tools m = button_group ''history-tools''
     (icon_button ''undo'' [(''data-trix-action'', ''undo''), (''data-trix-key'', ''z'')] (l_undo m) @
      icon_button ''redo'' [(''data-trix-action'', ''redo''), (''data-trix-key'', ''shift+z'')] (l_redo m))"

definition dialog_head :: string where
  "dialog_head =
     ''    <div class=\"trix-dialogs\" data-trix-dialogs>'' @ nl @
     ''      <div class=\"trix-dialog trix-dialog--link\" data-trix-dialog=\"href\" data-trix-dialog-attribute=\"href\">'' @ nl @
     ''        <div class=\"trix-dialog__link-fields\">'' @ nl @
     ''          <input type=\"url\" name=\"href\" class=\"trix-input trix-input--dialog\" placeholder=\"''"

definition dialog_buttons :: string where
  "dialog_buttons =
     ''\" data-trix-validate-href required data-trix-input>'' @ nl @
     ''          <div class=\"trix-button-group\">'' @ nl @
     ''            <input type=\"button\" class=\"trix-button trix-button--dialog\" value=\"''"

definition dialog_unlink :: string where
  "dialog_unlink =
     ''\" data-trix-method=\"setAttribute\">'' @ nl @
     ''            <input type=\"button\" class=\"trix-button trix-button--dialog\" value=\"''"

definition dialog_tail :: string where
  "dialog_tail =
     ''\" data-trix-method=\"removeAttribute\">'' @ nl @
     ''          </div>'' @ nl @
     ''        </div>'' @ nl @
     ''      </div>'' @ nl @
     ''    </div>''"

definition link_dialog :: "lang \<Rightarrow> string" where
  "link_dialog m =
     dialog_head @ l_url_placeholder m @ ''\" aria-label=\"'' @ l_url m @
     dialog_buttons @ l_link m @ dialog_unlink @ l_unlink m @ dialog_tail"

definition toolbar_html :: "lang \<Rightarrow> string" where
  "toolbar_html m =
     ''<div class=\"trix-button-row\">'' @ nl @
     text_tools m @ nl @ block_tools m @ nl @ file_tools m @ nl @
     ''      <span class=\"trix-button-group-spacer\"></span>'' @ nl @ nl @
     history_tools m @
     ''    </div>'' @ nl @ nl @
     link_dialog m"

text \<open>An element that is connected empty gets the toolbar.\<close>

definition toolbar_connected :: "lang \<Rightarrow> string \<Rightarrow> string" where
  "toolbar_connected m inner_html = (if inner_html = [] then toolbar_html m else inner_html)"

subsection \<open>The style sheets\<close>

record css_rule =
  selector :: string
  declarations :: "(string \<times> string) list"

definition css_rule_text :: "string \<Rightarrow> css_rule \<Rightarrow> string" where
  "css_rule_text indent r =
     selector r @ '' {'' @ nl @
     concat (map (\<lambda>(p, v). indent @ p @ '': '' @ v @ '';'' @ nl) (declarations r)) @ ''}''"

fun css_text :: "string \<Rightarrow> css_rule list \<Rightarrow> string" where
  "css_text indent [] = []"
| "css_text indent [r] = css_rule_text indent r"
| "css_text indent (r # rs) = css_rule_text indent r @ nl @ nl @ css_text indent rs"

definition toolbar_rules :: "css_rule list" where
  "toolbar_rules =
    [\<lparr>selector = ''%t'', declarations = [(''display'', ''block'')]\<rparr>,
     \<lparr>selector = ''%t'', declarations = [(''white-space'', ''nowrap'')]\<rparr>,
     \<lparr>selector = ''%t [data-trix-dialog]'', declarations = [(''display'', ''none'')]\<rparr>,
     \<lparr>selector = ''%t [data-trix-dialog][data-trix-active]'', declarations = [(''display'', ''block'')]\<rparr>,
     \<lparr>selector = ''%t [data-trix-dialog] [data-trix-validate]:invalid'',
      declarations = [(''background-color'', ''#ffdddd'')]\<rparr>]"

definition attachment_selector :: string where
  "attachment_selector = ''[data-trix-attachment]''"

text \<open>The cursor target is a box of one pixel unless the browser resizes objects on its own.\<close>

record cursor_style =
  cs_display :: string
  cs_width :: string

definition cursor_target :: "bool \<Rightarrow> cursor_style" where
  "cursor_target forces_object_resizing =
     (if forces_object_resizing then \<lparr>cs_display = ''inline'', cs_width = ''auto''\<rparr>
      else \<lparr>cs_display = ''inline-block'', cs_width = ''1px''\<rparr>)"

definition editor_rules :: "cursor_style \<Rightarrow> css_rule list" where
  "editor_rules wr =
    [\<lparr>selector = ''%t'', declarations = [(''display'', ''block'')]\<rparr>,
     \<lparr>selector = ''%t:empty::before'',
      declarations = [(''content'', ''attr(placeholder)''), (''color'', ''graytext''), (''cursor'', ''text''),
        (''pointer-events'', ''none''), (''white-space'', ''pre-line'')]\<rparr>,
     \<lparr>selector = ''%t a[contenteditable=false]'', declarations = [(''cursor'', ''text'')]\<rparr>,
     \<lparr>selector = ''%t img'', declarations = [(''max-width'', ''100%''), (''height'', ''auto'')]\<rparr>,
     \<lparr>selector = ''%t '' @ attachment_selector @ '' figcaption textarea'', declarations = [(''resize'', ''none'')]\<rparr>,
     \<lparr>selector = ''%t '' @ attachment_selector @ '' figcaption textarea.trix-autoresize-clone'',
      declarations = [(''position'', ''absolute''), (''left'', ''-9999px''), (''max-height'', ''0px'')]\<rparr>,
     \<lparr>selector = ''%t '' @ attachment_selector @ '' figcaption[data-trix-placeholder]:empty::before'',
      declarations = [(''content'', ''attr(data-trix-placeholder)''), (''color'', ''graytext'')]\<rparr>,
     \<lparr>selector = ''%t [data-trix-cursor-target]'',
      declarations = [(''display'', cs_display wr @ '' !important''), (''width'', cs_width wr @ '' !important''),
        (''padding'', ''0 !important''), (''margin'', ''0 !important''), (''border'', ''none !important'')]\<rparr>,
     \<lparr>selector = ''%t [data-trix-cursor-target=left]'',
      declarations = [(''vertical-align'', ''top !important''), (''margin-left'', ''-1px !important'')]\<rparr>,
     \<lparr>selector = ''%t [data-trix-cursor-target=right]'',
      declarations = [(''vertical-align'', ''bottom !important''), (''margin-right'', ''-1px !important'')]\<rparr>]"

definition toolbar_css :: string where
  "toolbar_css = css_text ''  '' toolbar_rules"

definition editor_css :: "bool \<Rightarrow> string" where
  "editor_css forces_object_resizing = css_text ''    '' (editor_rules (cursor_target forces_object_resizing))"

text \<open>
  Registering puts a style element at the front of the document's head. A nonce is taken from
  the first of two meta elements that is there: its \<open>nonce\<close>, or its \<open>content\<close> if that is empty.
\<close>

record style_element =
  st_tag_name :: string
  st_nonce :: "string option"
  st_text :: string

type_synonym meta = "(string \<times> string)"

definition csp_nonce :: "(string \<Rightarrow> meta option) \<Rightarrow> string option" where
  "csp_nonce metas =
     (case (case metas ''trix-csp-nonce'' of Some t \<Rightarrow> Some t | None \<Rightarrow> metas ''csp-nonce'') of
        Some (nonce, content) \<Rightarrow> Some (if nonce = [] then content else nonce)
      | None \<Rightarrow> None)"

definition to_lower :: "string \<Rightarrow> string" where
  "to_lower = map (\<lambda>c. let n = (of_char c :: nat) in if 65 \<le> n \<and> n \<le> 90 then char_of (n + 32) else c)"

definition register_style ::
  "(string \<Rightarrow> meta option) \<Rightarrow> string \<Rightarrow> string \<Rightarrow> style_element list \<Rightarrow> style_element list" where
  "register_style metas tag css head =
     \<lparr>st_tag_name = to_lower tag,
      st_nonce = (case csp_nonce metas of Some n \<Rightarrow> if n = [] then None else Some n | None \<Rightarrow> None),
      st_text = replace_all ''%t'' tag css\<rparr> # head"

definition register_styles :: "(string \<Rightarrow> meta option) \<Rightarrow> bool \<Rightarrow> style_element list \<Rightarrow> style_element list" where
  "register_styles metas forces_object_resizing head =
     register_style metas ''trix-editor'' (editor_css forces_object_resizing)
       (register_style metas ''trix-toolbar'' toolbar_css head)"


subsection \<open>Labels cannot change the toolbar's elements\<close>

text \<open>The scanner drops text and the contents of quoted values and keeps everything else of a tag.\<close>

datatype scan_mode = InText | InTag | InValue

fun scan_char :: "scan_mode \<Rightarrow> char \<Rightarrow> scan_mode \<times> string" where
  "scan_char InText c = (if c = CHR ''<'' then (InTag, [c]) else (InText, []))"
| "scan_char InTag c = (if c = CHR ''>'' then (InText, [c]) else if c = CHR 0x22 then (InValue, [c]) else (InTag, [c]))"
| "scan_char InValue c = (if c = CHR 0x22 then (InTag, [c]) else (InValue, []))"

fun scan :: "scan_mode \<Rightarrow> string \<Rightarrow> scan_mode \<times> string" where
  "scan m [] = (m, [])"
| "scan m (c # cs) = (let (m1, o1) = scan_char m c; (m2, o2) = scan m1 cs in (m2, o1 @ o2))"

lemma scan_append: "scan m (a @ b) = (let (m1, o1) = scan m a; (m2, o2) = scan m1 b in (m2, o1 @ o2))"
  by (induction a arbitrary: m) (auto simp: Let_def split: prod.splits)

definition inert :: "string \<Rightarrow> bool" where
  "inert label \<longleftrightarrow> CHR ''<'' \<notin> set label \<and> CHR 0x22 \<notin> set label"

lemma scan_inert: "inert label \<Longrightarrow> scan InText label = (InText, []) \<and> scan InValue label = (InValue, [])"
  by (induction label) (auto simp: inert_def)

definition labels_inert :: "lang \<Rightarrow> bool" where
  "labels_inert m \<longleftrightarrow> list_all inert [l_attach_files m, l_bold m, l_bullets m, l_code m, l_heading1 m,
     l_indent m, l_italic m, l_link m, l_numbers m, l_outdent m, l_quote m, l_redo m, l_strike m,
     l_undo m, l_unlink m, l_url m, l_url_placeholder m]"

lemma scan_values: "list_all (\<lambda>(n, v). inert n \<and> CHR ''>'' \<notin> set n \<and> inert v) ds \<Longrightarrow>
    scan InTag (data_attrs ds) = (InTag, concat (map (\<lambda>n. '' '' @ n @ ''=\"\"'') (map fst ds)))"
proof (induction ds)
  case (Cons d ds)
  obtain n v where d: "d = (n, v)" by fastforce
  have "scan InTag n = (InTag, n)" if "inert n" "CHR ''>'' \<notin> set n" for n
    using that by (induction n) (auto simp: inert_def)
  with Cons d scan_inert [of v] show ?case
    by (simp add: data_attrs_def scan_append)
qed (simp add: data_attrs_def)

definition button_skeleton :: "string list \<Rightarrow> string" where
  "button_skeleton ns =
     ''<button type=\"\" class=\"\"'' @ concat (map (\<lambda>n. '' '' @ n @ ''=\"\"'') ns) @
     '' title=\"\" tabindex=\"\"></button>''"

lemma scan_icon_button:
  "inert icon \<Longrightarrow> inert label \<Longrightarrow> list_all (\<lambda>(n, v). inert n \<and> CHR ''>'' \<notin> set n \<and> inert v) ds \<Longrightarrow>
     scan InText (icon_button icon ds label) = (InText, button_skeleton (map fst ds))"
  by (simp add: icon_button_def button_skeleton_def scan_append scan_values scan_inert)

lemma scan_button_group:
  "inert name \<Longrightarrow> scan InText buttons = (InText, sk) \<Longrightarrow>
     scan InText (button_group name buttons) = (InText, ''<span class=\"\" data-trix-button-group=\"\">'' @ sk @ ''</span>'')"
  by (simp add: button_group_def scan_append scan_inert)


lemma inert_literal:
  "inert []" "inert (c # cs) \<longleftrightarrow> c \<noteq> CHR ''<'' \<and> c \<noteq> CHR 0x22 \<and> inert cs"
  by (auto simp: inert_def)

lemma scan_text_tools: "labels_inert m \<Longrightarrow> scan InText (text_tools m) = scan InText (text_tools default_lang)"
  by (simp add: text_tools_def scan_append scan_button_group scan_icon_button labels_inert_def default_lang_def
      inert_literal)


lemma scan_block_tools: "labels_inert m \<Longrightarrow> scan InText (block_tools m) = scan InText (block_tools default_lang)"
  by (simp add: block_tools_def scan_append scan_button_group scan_icon_button labels_inert_def default_lang_def
      inert_literal)

lemma scan_file_tools: "labels_inert m \<Longrightarrow> scan InText (file_tools m) = scan InText (file_tools default_lang)"
  by (simp add: file_tools_def scan_append scan_button_group scan_icon_button labels_inert_def default_lang_def
      inert_literal)

lemma scan_history_tools: "labels_inert m \<Longrightarrow> scan InText (history_tools m) = scan InText (history_tools default_lang)"
  by (simp add: history_tools_def scan_append scan_button_group scan_icon_button labels_inert_def default_lang_def
      inert_literal)

lemma dialog_modes:
  "fst (scan InText dialog_head) = InValue" "fst (scan InValue dialog_buttons) = InValue"
  "fst (scan InValue dialog_unlink) = InValue" "fst (scan InValue dialog_tail) = InText"
  by code_simp+

lemma scan_link_dialog: "\<exists>out. \<forall>m. labels_inert m \<longrightarrow> scan InText (link_dialog m) = (InText, out)"
proof -
  obtain o1 o2 o3 o4 where pieces: "scan InText dialog_head = (InValue, o1)"
    "scan InValue dialog_buttons = (InValue, o2)" "scan InValue dialog_unlink = (InValue, o3)"
    "scan InValue dialog_tail = (InText, o4)"
    using dialog_modes by (metis prod.collapse)
  have aria: "scan InValue ''\" aria-label=\"'' = (InValue, ''\" aria-label=\"'')" by simp
  have "scan InText (link_dialog m) = (InText, o1 @ ''\" aria-label=\"'' @ o2 @ o3 @ o4)" if "labels_inert m" for m
  proof -
    have "inert (l_url_placeholder m)" "inert (l_url m)" "inert (l_link m)" "inert (l_unlink m)"
      using that by (simp_all add: labels_inert_def)
    note inert = this [THEN scan_inert, THEN conjunct2]
    show ?thesis
      unfolding link_dialog_def scan_append Let_def
      by (simp only: pieces inert aria prod.case append_Nil)
  qed
  then show ?thesis by blast
qed

lemma scan_spacer:
  "scan InText (''<div class=\"trix-button-row\">'' @ nl) = (InText, ''<div class=\"\">'')"
  "scan InText (''      <span class=\"trix-button-group-spacer\"></span>'' @ nl @ nl) = (InText, ''<span class=\"\"></span>'')"
  "scan InText (''    </div>'' @ nl @ nl) = (InText, ''</div>'')" "scan InText nl = (InText, [])"
  by simp_all

lemma scan_groups_text:
  assumes "labels_inert m"
  shows "fst (scan InText (text_tools m)) = InText \<and> fst (scan InText (block_tools m)) = InText \<and>
    fst (scan InText (file_tools m)) = InText \<and> fst (scan InText (history_tools m)) = InText"
  using assms
  by (simp add: text_tools_def block_tools_def file_tools_def history_tools_def scan_append scan_button_group
      scan_icon_button labels_inert_def inert_literal)

lemma scan_toolbar:
  assumes "labels_inert m"
  shows "scan InText (toolbar_html m) = scan InText (toolbar_html default_lang)"
    and "fst (scan InText (toolbar_html m)) = InText"
proof -
  have def_ok: "labels_inert default_lang"
    by (simp add: labels_inert_def default_lang_def inert_literal)
  obtain d where d: "\<And>m. labels_inert m \<Longrightarrow> scan InText (link_dialog m) = (InText, d)"
    using scan_link_dialog by blast
  obtain t b f y where g: "scan InText (text_tools default_lang) = (InText, t)"
    "scan InText (block_tools default_lang) = (InText, b)"
    "scan InText (file_tools default_lang) = (InText, f)"
    "scan InText (history_tools default_lang) = (InText, y)"
    using scan_groups_text [OF def_ok] by (metis prod.collapse)
  have split: "toolbar_html m =
     (''<div class=\"trix-button-row\">'' @ nl) @ text_tools m @ nl @ block_tools m @ nl @ file_tools m @ nl @
     (''      <span class=\"trix-button-group-spacer\"></span>'' @ nl @ nl) @ history_tools m @
     (''    </div>'' @ nl @ nl) @ link_dialog m" for m
    unfolding toolbar_html_def append_assoc ..
  have "scan InText (toolbar_html m) =
      (InText, ''<div class=\"\">'' @ t @ b @ f @ ''<span class=\"\"></span>'' @ y @ ''</div>'' @ d)"
    if "labels_inert m" for m
    unfolding split scan_append [of InText "''<div class=\"trix-button-row\">'' @ nl"]
    by (simp only: scan_append [of _ "text_tools m"] scan_append [of _ "block_tools m"] scan_append [of _ "file_tools m"]
        scan_append [of _ "history_tools m"] scan_append [of _ nl] scan_spacer
        scan_append [of _ "''      <span class=\"trix-button-group-spacer\"></span>'' @ nl @ nl"]
        scan_append [of _ "''    </div>'' @ nl @ nl"] d [OF that] g Let_def prod.case append_Nil
        scan_text_tools [OF that] scan_block_tools [OF that] scan_file_tools [OF that] scan_history_tools [OF that])
  from this [OF assms] this [OF def_ok]
  show "scan InText (toolbar_html m) = scan InText (toolbar_html default_lang)"
    and "fst (scan InText (toolbar_html m)) = InText" by simp_all
qed

text \<open>
  As long as no label contains an opening angle bracket or a double quote, the labels do
  not influence the elements of the toolbar: what the scanner sees of it, all tags and the
  names of all attributes, is the same for every language, and the text ends outside of a tag.
  Labels are not escaped, so the condition is needed: a label with markup of its own brings a
  new element into its button.
\<close>

theorem toolbar_elements_fixed:
  assumes "labels_inert m"
  shows "scan InText (toolbar_html m) = scan InText (toolbar_html default_lang) \<and>
    fst (scan InText (toolbar_html m)) = InText \<and>
    scan InText (icon_button ''bold'' [] (''<img>'' @ l_bold m)) \<noteq> scan InText (icon_button ''bold'' [] (l_bold m))"
proof -
  have ok: "inert (l_bold m)" "inert ''bold''" using assms by (simp_all add: labels_inert_def inert_literal)
  have "scan InText (icon_button ''bold'' [] (''<img>'' @ l_bold m)) \<noteq> scan InText (icon_button ''bold'' [] (l_bold m))"
    using ok by (simp add: scan_icon_button button_skeleton_def)
      (simp add: icon_button_def scan_append scan_inert data_attrs_def)
  with scan_toolbar [OF assms] show ?thesis by blast
qed

theorem toolbar_elements_fixed_witness:
  "scan InText (toolbar_html (default_lang\<lparr>l_bold := ''Gras'', l_quote := ''Citation''\<rparr>))
     = scan InText (toolbar_html default_lang)"
proof -
  have "labels_inert (default_lang\<lparr>l_bold := ''Gras'', l_quote := ''Citation''\<rparr>)"
    by (simp add: labels_inert_def default_lang_def inert_literal)
  from toolbar_elements_fixed [OF this] show ?thesis by blast
qed


subsection \<open>The style sheets are confined\<close>

fun plain :: "string \<Rightarrow> bool" where
  "plain [] = True"
| "plain [c] = (c \<noteq> CHR ''%'')"
| "plain (c # d # s) = ((c = CHR ''%'' \<longrightarrow> d \<noteq> CHR ''t'') \<and> plain (d # s))"

lemma replace_plain: "plain a \<Longrightarrow> replace_all ''%t'' tag (a @ b) = a @ replace_all ''%t'' tag b"
proof (induction a rule: plain.induct)
  case (2 c)
  then show ?case by (simp add: replace_all_step)
next
  case (3 c d s)
  then have "\<not> prefix ''%t'' (c # (d # s) @ b)" by auto
  with 3 show ?case by (simp add: replace_all_step del: replace_all.simps)
qed simp

lemma replace_tag: "replace_all ''%t'' tag (''%t'' @ b) = tag @ replace_all ''%t'' tag b"
  by (rule replace_all_match) simp

definition rule_body :: "string \<Rightarrow> css_rule \<Rightarrow> string" where
  "rule_body indent r =
     drop 2 (selector r) @ '' {'' @ nl @
     concat (map (\<lambda>(p, v). indent @ p @ '': '' @ v @ '';'' @ nl) (declarations r)) @ ''}''"

definition for_tag :: "string \<Rightarrow> css_rule \<Rightarrow> css_rule" where
  "for_tag tag r = r\<lparr>selector := tag @ drop 2 (selector r)\<rparr>"

definition rule_ok :: "string \<Rightarrow> css_rule \<Rightarrow> bool" where
  "rule_ok indent r \<longleftrightarrow> take 2 (selector r) = ''%t'' \<and> plain (rule_body indent r)"

lemma replace_rule:
  assumes "rule_ok indent r"
  shows "replace_all ''%t'' tag (css_rule_text indent r @ b) = css_rule_text indent (for_tag tag r) @ replace_all ''%t'' tag b"
proof -
  have "selector r = ''%t'' @ drop 2 (selector r)"
    using assms by (metis append_take_drop_id rule_ok_def)
  then have "css_rule_text indent r = ''%t'' @ rule_body indent r"
    unfolding css_rule_text_def rule_body_def by (metis append_assoc)
  moreover have "css_rule_text indent (for_tag tag r) = tag @ rule_body indent r"
    by (simp add: css_rule_text_def rule_body_def for_tag_def)
  ultimately show ?thesis
    using replace_plain [of "rule_body indent r"] assms
    by (simp only: append_assoc replace_tag rule_ok_def)
qed

lemma replace_rules: "list_all (rule_ok indent) rs \<Longrightarrow>
    replace_all ''%t'' tag (css_text indent rs) = css_text indent (map (for_tag tag) rs)"
proof (induction indent rs rule: css_text.induct)
  case (2 indent r)
  then show ?case using replace_rule [of indent r tag "[]"] by simp
next
  case (3 indent r r' rs)
  have "plain (nl @ nl)" by simp
  from replace_plain [OF this, of tag] 3 show ?case
    by (simp only: css_text.simps list.map replace_rule [of indent r] list.pred_inject append_assoc)
qed simp

lemma toolbar_rules_ok: "list_all (rule_ok ''  '') toolbar_rules"
  by (simp add: toolbar_rules_def rule_ok_def rule_body_def)

lemma editor_rules_ok: "list_all (rule_ok ''    '') (editor_rules (cursor_target b))"
  by (cases b) (simp_all add: editor_rules_def rule_ok_def rule_body_def attachment_selector_def cursor_target_def)



text \<open>No placeholder is left in a registered sheet.\<close>

lemma plain_no_placeholder: "plain s \<Longrightarrow> \<not> sublist ''%t'' s"
  by (induction s rule: plain.induct) (auto simp: sublist_Cons_right)

lemma sheets_plain:
  "plain (css_text ''  '' (map (for_tag ''trix-toolbar'') toolbar_rules))"
  "plain (css_text ''    '' (map (for_tag ''trix-editor'') (editor_rules (cursor_target b))))"
  by (cases b; simp add: toolbar_rules_def editor_rules_def css_rule_text_def for_tag_def attachment_selector_def cursor_target_def)+

theorem no_placeholder_left:
  "\<forall>css \<in> set (take 2 (map st_text (register_styles metas b head))). \<not> sublist ''%t'' css"
  using sheets_plain [THEN plain_no_placeholder]
  unfolding register_styles_def register_style_def toolbar_css_def editor_css_def
    replace_rules [OF toolbar_rules_ok] replace_rules [OF editor_rules_ok]
  by simp

text \<open>
  Whether a sheet is confined is read from its text: its selectors are what stands outside of the
  braces, taken apart at the commas.
\<close>

fun cons_first :: "'a \<Rightarrow> 'a list list \<Rightarrow> 'a list list" where
  "cons_first c [] = [[c]]"
| "cons_first c (p # ps) = (c # p) # ps"

fun pieces :: "bool \<Rightarrow> string \<Rightarrow> string list" where
  "pieces True [] = []"
| "pieces True (c # cs) = (if c = CHR ''}'' then pieces False cs else pieces True cs)"
| "pieces False [] = [[]]"
| "pieces False (c # cs) =
     (if c = CHR ''{'' then [] # pieces True cs else if c = CHR '','' then [] # pieces False cs
      else cons_first c (pieces False cs))"













lemma placeholder: "''%t'' \<noteq> []"
  by simp



















end
