(* ===== verification/FilamentTable.thy ===== *)
theory FilamentTable
  imports Prelude
begin

text \<open>
  The selection of records in the tables of the dashboard
  (\<open>hermes/public/js/filament/tables/components/table.js\<close>): the component's state, the
  checkboxes of the page as a list in document order, and one definition per method. An
  \<open>async\<close> method is split where it awaits the server: the part before it, and the part after
  it with the server's answer as an argument, so that other events can come in between.
  \<open>$wire\<close>, \<open>$watch\<close> and the document's event plumbing are the events of \<open>table_step\<close>.
\<close>

subsection \<open>State\<close>

record checkbox =
  cb_id :: nat
  cb_value :: string
  cb_group :: string
  cb_checked :: bool

datatype pending = ToggleGroup bool | SelectAll

record table =
  collapsed_groups :: "string list"
  is_loading :: bool
  selected_records :: "string list"
  should_check_unique :: bool
  last_checked :: "nat option"
  page :: "checkbox list"
  awaiting :: "pending list"

definition table_init :: "checkbox list \<Rightarrow> table" where
  "table_init cbs = \<lparr>collapsed_groups = [], is_loading = False, selected_records = [],
     should_check_unique = True, last_checked = None, page = cbs, awaiting = []\<rparr>"

subsection \<open>Selecting\<close>

definition is_record_selected :: "string \<Rightarrow> table \<Rightarrow> bool" where
  "is_record_selected k t \<longleftrightarrow> k \<in> set (selected_records t)"

definition are_records_selected :: "string list \<Rightarrow> table \<Rightarrow> bool" where
  "are_records_selected ks t \<longleftrightarrow> list_all (\<lambda>k. is_record_selected k t) ks"

fun select_records :: "string list \<Rightarrow> table \<Rightarrow> table" where
  "select_records [] t = t"
| "select_records (k # ks) t =
     select_records ks (if is_record_selected k t then t
                        else t\<lparr>selected_records := selected_records t @ [k]\<rparr>)"

text \<open>\<open>indexOf\<close> and \<open>splice\<close> take the first occurrence away.\<close>

fun deselect_records :: "string list \<Rightarrow> table \<Rightarrow> table" where
  "deselect_records [] t = t"
| "deselect_records (k # ks) t = deselect_records ks (t\<lparr>selected_records := remove1 k (selected_records t)\<rparr>)"

definition get_records_on_page :: "table \<Rightarrow> string list" where
  "get_records_on_page t = map cb_value (page t)"

definition get_records_in_group_on_page :: "string \<Rightarrow> table \<Rightarrow> string list" where
  "get_records_in_group_on_page g t = map cb_value (filter (\<lambda>c. cb_group c = g) (page t))"

definition toggle_select_records_on_page :: "table \<Rightarrow> table" where
  "toggle_select_records_on_page t =
     (let ks = get_records_on_page t
      in if are_records_selected ks t then deselect_records ks t else select_records ks t)"

text \<open>The branch is chosen before the request; the answer is applied to the selection of then.\<close>

definition toggle_group_request :: "string \<Rightarrow> table \<Rightarrow> table" where
  "toggle_group_request g t =
     t\<lparr>is_loading := True,
       awaiting := awaiting t @ [ToggleGroup (are_records_selected (get_records_in_group_on_page g t) t)]\<rparr>"

definition select_all_request :: "table \<Rightarrow> table" where
  "select_all_request t = t\<lparr>is_loading := True, awaiting := awaiting t @ [SelectAll]\<rparr>"

fun apply_answer :: "pending \<Rightarrow> string list \<Rightarrow> table \<Rightarrow> table" where
  "apply_answer (ToggleGroup True) keys t = deselect_records keys t"
| "apply_answer (ToggleGroup False) keys t = (select_records keys t)\<lparr>is_loading := False\<rparr>"
| "apply_answer SelectAll keys t = t\<lparr>selected_records := keys, is_loading := False\<rparr>"

definition server_answer :: "nat \<Rightarrow> string list \<Rightarrow> table \<Rightarrow> table" where
  "server_answer i keys t =
     (if i < length (awaiting t)
      then apply_answer (awaiting t ! i) keys (t\<lparr>awaiting := vec_remove i (awaiting t)\<rparr>)
      else t)"

definition deselect_all_records :: "table \<Rightarrow> table" where
  "deselect_all_records t = t\<lparr>selected_records := []\<rparr>"

text \<open>The watcher of the selection removes duplicates; its own assignment calls it once more.\<close>

definition watch_selection :: "table \<Rightarrow> table" where
  "watch_selection t =
     (if \<not> should_check_unique t then t\<lparr>should_check_unique := True\<rparr>
      else t\<lparr>selected_records := rev (remdups (rev (selected_records t))), should_check_unique := False\<rparr>)"

subsection \<open>Groups\<close>

definition is_group_collapsed :: "string \<Rightarrow> table \<Rightarrow> bool" where
  "is_group_collapsed g t \<longleftrightarrow> g \<in> set (collapsed_groups t)"

definition toggle_collapse_group :: "string \<Rightarrow> table \<Rightarrow> table" where
  "toggle_collapse_group g t =
     (if is_group_collapsed g t then t\<lparr>collapsed_groups := remove1 g (collapsed_groups t)\<rparr>
      else t\<lparr>collapsed_groups := collapsed_groups t @ [g]\<rparr>)"

definition reset_collapsed_groups :: "table \<Rightarrow> table" where
  "reset_collapsed_groups t = t\<lparr>collapsed_groups := []\<rparr>"

subsection \<open>Clicking\<close>

text \<open>
  A click with the shift key on checkbox \<open>i\<close>, whose new state is \<open>on\<close>, covers everything
  between the checkbox clicked last and this one. Without a last one, or if that is no longer
  on the page, the click is only remembered.
\<close>

definition check_range :: "nat \<Rightarrow> nat \<Rightarrow> bool \<Rightarrow> checkbox list \<Rightarrow> checkbox list" where
  "check_range a b on cbs =
     map (\<lambda>(i, c). if a \<le> i \<and> i \<le> b then c\<lparr>cb_checked := on\<rparr> else c) (enumerate 0 cbs)"

definition range_values :: "nat \<Rightarrow> nat \<Rightarrow> checkbox list \<Rightarrow> string list" where
  "range_values a b cbs = map cb_value (take (Suc b - a) (drop a cbs))"

definition handle_checkbox_click :: "bool \<Rightarrow> nat \<Rightarrow> bool \<Rightarrow> table \<Rightarrow> table" where
  "handle_checkbox_click shift target on t =
     (case last_checked t of
        None \<Rightarrow> t\<lparr>last_checked := Some target\<rparr>
      | Some l \<Rightarrow>
          if shift then
            (case position (\<lambda>c. cb_id c = l) (page t) of
               None \<Rightarrow> t\<lparr>last_checked := Some target\<rparr>
             | Some o' \<Rightarrow>
                 (case position (\<lambda>c. cb_id c = target) (page t) of
                    None \<Rightarrow> t\<lparr>last_checked := Some target\<rparr>
                  | Some r \<Rightarrow>
                      let a = min o' r; b = max o' r; ks = range_values a b (page t);
                          t1 = t\<lparr>page := check_range a b on (page t)\<rparr>;
                          t2 = (if on then select_records ks t1 else deselect_records ks t1)
                      in t2\<lparr>last_checked := Some target\<rparr>))
          else t\<lparr>last_checked := Some target\<rparr>)"


subsection \<open>The selection as a set\<close>

lemma select_records_frame [simp]:
  "page (select_records ks t) = page t" "last_checked (select_records ks t) = last_checked t"
  "is_loading (select_records ks t) = is_loading t" "awaiting (select_records ks t) = awaiting t"
  "collapsed_groups (select_records ks t) = collapsed_groups t"
  by (induction ks arbitrary: t) auto

lemma deselect_records_frame [simp]:
  "page (deselect_records ks t) = page t" "last_checked (deselect_records ks t) = last_checked t"
  "is_loading (deselect_records ks t) = is_loading t" "awaiting (deselect_records ks t) = awaiting t"
  "collapsed_groups (deselect_records ks t) = collapsed_groups t"
  by (induction ks arbitrary: t) auto

lemma set_select: "set (selected_records (select_records ks t)) = set (selected_records t) \<union> set ks"
  by (induction ks arbitrary: t) (auto simp: is_record_selected_def)

lemma distinct_select:
  "distinct (selected_records t) \<Longrightarrow> distinct (selected_records (select_records ks t))"
  by (induction ks arbitrary: t) (auto simp: is_record_selected_def)

lemma distinct_deselect:
  "distinct (selected_records t) \<Longrightarrow> distinct (selected_records (deselect_records ks t))"
  by (induction ks arbitrary: t) auto

lemma set_deselect: "distinct (selected_records t) \<Longrightarrow>
    set (selected_records (deselect_records ks t)) = set (selected_records t) - set ks"
proof (induction ks arbitrary: t)
  case (Cons k ks)
  from Cons.IH [of "t\<lparr>selected_records := remove1 k (selected_records t)\<rparr>"] Cons.prems
  show ?case by auto
qed simp

lemma are_records_selected_iff: "are_records_selected ks t \<longleftrightarrow> set ks \<subseteq> set (selected_records t)"
  by (auto simp: are_records_selected_def is_record_selected_def list_all_iff)

lemma set_check_range:
  "i < length cbs \<Longrightarrow> check_range a b on cbs ! i = (if a \<le> i \<and> i \<le> b then (cbs ! i)\<lparr>cb_checked := on\<rparr> else cbs ! i)"
  by (simp add: check_range_def nth_enumerate_eq)

lemma length_check_range [simp]: "length (check_range a b on cbs) = length cbs"
  by (simp add: check_range_def)

lemma set_range_values:
  "b < length cbs \<Longrightarrow> set (range_values a b cbs) = {cb_value (cbs ! i) |i. a \<le> i \<and> i \<le> b}"
proof -
  assume b: "b < length cbs"
  let ?s = "take (Suc b - a) (drop a cbs)"
  have "set ?s = {cbs ! i |i. a \<le> i \<and> i \<le> b}"
  proof (intro equalityI subsetI)
    fix x assume "x \<in> set ?s"
    then obtain j where "j < Suc b - a" "x = cbs ! (a + j)"
      by (auto simp: in_set_conv_nth)
    then show "x \<in> {cbs ! i |i. a \<le> i \<and> i \<le> b}" by (intro CollectI exI [of _ "a + j"]) simp
  next
    fix x assume "x \<in> {cbs ! i |i. a \<le> i \<and> i \<le> b}"
    then obtain i where i: "a \<le> i" "i \<le> b" "x = cbs ! i" by blast
    then have "?s ! (i - a) = x" "i - a < length ?s" using b by auto
    then show "x \<in> set ?s" using nth_mem by blast
  qed
  then show ?thesis by (auto simp: range_values_def)
qed

text \<open>
  C38. A click with the shift key gives every checkbox between the one clicked last and this
  one, both included and in either direction, the state of this one, selects or deselects
  exactly their records and touches no other checkbox or record; no record is ever listed twice.
\<close>

theorem shift_click_range:
  assumes "last_checked t = Some l" and "position (\<lambda>c. cb_id c = l) (page t) = Some p"
    and "position (\<lambda>c. cb_id c = target) (page t) = Some q" and "distinct (selected_records t)"
    and "t' = handle_checkbox_click True target on t"
  shows "last_checked t' = Some target \<and> distinct (selected_records t') \<and>
    (\<forall>i < length (page t). page t' ! i =
       (if min p q \<le> i \<and> i \<le> max p q then (page t ! i)\<lparr>cb_checked := on\<rparr> else page t ! i)) \<and>
    set (selected_records t') =
      (let vs = {cb_value (page t ! i) |i. min p q \<le> i \<and> i \<le> max p q}
       in if on then set (selected_records t) \<union> vs else set (selected_records t) - vs)"
proof -
  have "p < length (page t)" "q < length (page t)" using assms(2,3) by (auto dest: position_Some)
  then have vals: "set (range_values (min p q) (max p q) (page t)) = {cb_value (page t ! i) |i. min p q \<le> i \<and> i \<le> max p q}"
    by (intro set_range_values) simp
  show ?thesis
    using assms vals
    by (auto simp: handle_checkbox_click_def Let_def set_check_range set_select set_deselect distinct_select
        distinct_deselect)
qed


definition toy_page :: "checkbox list" where
  "toy_page = map (\<lambda>i. \<lparr>cb_id = i, cb_value = replicate i CHR ''r'', cb_group = ''g'', cb_checked = False\<rparr>) [1, 2, 3]"

theorem shift_click_range_witness:
  "let t' = handle_checkbox_click True 1 True (handle_checkbox_click False 2 True (table_init toy_page))
   in last_checked t' = Some 1 \<and> cb_checked (page t' ! 0) \<and> cb_checked (page t' ! 1) \<and> \<not> cb_checked (page t' ! 2)"
proof -
  let ?t = "handle_checkbox_click False 2 True (table_init toy_page)"
  let ?t' = "handle_checkbox_click True 1 True ?t"
  have t: "last_checked ?t = Some 2" "page ?t = toy_page" "selected_records ?t = []"
    by (simp_all add: handle_checkbox_click_def table_init_def)
  have p: "position (\<lambda>c. cb_id c = 2) (page ?t) = Some 1" "position (\<lambda>c. cb_id c = 1) (page ?t) = Some 0"
    "distinct (selected_records ?t)" and l: "length toy_page = 3"
    unfolding t by (simp_all add: toy_page_def)
  note r = shift_click_range [OF t(1) p refl, of True]
  have last: "last_checked ?t' = Some 1" using r by blast
  have boxes: "page ?t' ! i = (if min 1 0 \<le> i \<and> i \<le> max 1 0 then (toy_page ! i)\<lparr>cb_checked := True\<rparr> else toy_page ! i)"
    if "i < 3" for i
    using r that unfolding t l by blast
  have "\<not> cb_checked (toy_page ! 2)" by (simp add: toy_page_def)
  with boxes [of 0] boxes [of 1] boxes [of 2] last show ?thesis by (simp add: Let_def)
qed

subsection \<open>Groups and answers\<close>

text \<open>
  Toggling a group of records: whether to select or deselect is decided by the records of
  the group that are on the page, before the server names the whole group, also those on other
  pages; then exactly the named records are added or taken away. Only after adding is the
  loading flag taken back: after deselecting a group it stays set.
\<close>

theorem toggle_group_answered:
  assumes "distinct (selected_records t)"
    and "t' = server_answer (length (awaiting t)) keys (toggle_group_request g t)"
  shows "distinct (selected_records t') \<and> awaiting t' = awaiting t \<and>
    (if set (get_records_in_group_on_page g t) \<subseteq> set (selected_records t)
     then set (selected_records t') = set (selected_records t) - set keys \<and> is_loading t'
     else set (selected_records t') = set (selected_records t) \<union> set keys \<and> \<not> is_loading t')"
proof -
  have last: "vec_remove (length xs) (xs @ [x]) = xs" for xs and x :: pending by (simp add: vec_remove_def)
  show ?thesis
    using assms
    by (cases "set (get_records_in_group_on_page g t) \<subseteq> set (selected_records t)")
      (simp_all add: server_answer_def toggle_group_request_def are_records_selected_iff last set_select set_deselect
        distinct_select distinct_deselect)
qed

theorem toggle_group_answered_witness:
  "is_loading (server_answer 0 [''r''] (toggle_group_request ''g''
     ((table_init (take 1 toy_page))\<lparr>selected_records := [''r'']\<rparr>)))"
proof -
  let ?t = "(table_init (take 1 toy_page))\<lparr>selected_records := [''r'']\<rparr>"
  have "distinct (selected_records ?t)" by simp
  from toggle_group_answered [OF this refl, of "[''r'']" "''g''"] show ?thesis
    by (simp add: table_init_def toy_page_def get_records_in_group_on_page_def)
qed

subsection \<open>All events\<close>

datatype table_event =
    TogglePage | ToggleGroupClick string | SelectAllClick | Answer nat "string list" | DeselectAll
  | BoxClick bool nat bool | ToggleCollapse string | ResetCollapsed | SelectionChanged

fun table_step :: "table_event \<Rightarrow> table \<Rightarrow> table" where
  "table_step TogglePage t = toggle_select_records_on_page t"
| "table_step (ToggleGroupClick g) t = toggle_group_request g t"
| "table_step SelectAllClick t = select_all_request t"
| "table_step (Answer i keys) t = server_answer i keys t"
| "table_step DeselectAll t = deselect_all_records t"
| "table_step (BoxClick shift target on) t = handle_checkbox_click shift target on t"
| "table_step (ToggleCollapse g) t = toggle_collapse_group g t"
| "table_step ResetCollapsed t = reset_collapsed_groups t"
| "table_step SelectionChanged t = watch_selection t"

definition table_ok :: "table \<Rightarrow> bool" where
  "table_ok t \<longleftrightarrow> distinct (selected_records t) \<and> distinct (collapsed_groups t)"

lemma apply_answer_ok: "table_ok t \<Longrightarrow> distinct keys \<Longrightarrow> table_ok (apply_answer p keys t)"
  by (cases "(p, keys, t)" rule: apply_answer.cases) (auto simp: table_ok_def distinct_select distinct_deselect)

lemma handle_checkbox_click_ok: "table_ok t \<Longrightarrow> table_ok (handle_checkbox_click shift target on t)"
  by (auto simp: handle_checkbox_click_def table_ok_def Let_def distinct_select distinct_deselect split: option.splits)

lemma table_step_ok:
  assumes "table_ok t" and "\<And>i keys. ev = Answer i keys \<Longrightarrow> distinct keys"
  shows "table_ok (table_step ev t)"
proof (cases ev)
  case TogglePage
  with assms(1) show ?thesis
    by (auto simp: toggle_select_records_on_page_def table_ok_def Let_def distinct_select distinct_deselect)
next
  case (Answer i keys)
  have "table_ok (t\<lparr>awaiting := vec_remove i (awaiting t)\<rparr>)" using assms(1) by (simp add: table_ok_def)
  with assms Answer show ?thesis by (auto simp: server_answer_def intro: apply_answer_ok)
next
  case (ToggleCollapse g)
  with assms(1) show ?thesis by (auto simp: toggle_collapse_group_def is_group_collapsed_def table_ok_def)
next
  case (BoxClick shift target on)
  with assms(1) show ?thesis by (simp add: handle_checkbox_click_ok)
qed (use assms in \<open>auto simp: toggle_group_request_def select_all_request_def
    deselect_all_records_def reset_collapsed_groups_def watch_selection_def table_ok_def\<close>)

lemma table_run_ok: "table_ok t \<Longrightarrow> (\<And>i keys. Answer i keys \<in> set evs \<Longrightarrow> distinct keys) \<Longrightarrow> table_ok (fold table_step evs t)"
proof (induction evs arbitrary: t)
  case (Cons ev evs)
  have "table_ok (table_step ev t)"
    by (rule table_step_ok [OF Cons.prems(1)]) (auto intro: Cons.prems(2))
  moreover have "\<And>i keys. Answer i keys \<in> set evs \<Longrightarrow> distinct keys" using Cons.prems(2) by auto
  ultimately show ?case using Cons.IH by simp
qed simp

lemma toggle_page_selects:
  "distinct (selected_records t) \<Longrightarrow> set (selected_records (toggle_select_records_on_page t)) =
     (if set (get_records_on_page t) \<subseteq> set (selected_records t)
      then set (selected_records t) - set (get_records_on_page t)
      else set (selected_records t) \<union> set (get_records_on_page t))"
  by (simp add: toggle_select_records_on_page_def are_records_selected_iff set_select set_deselect)

end
