(* ===== verification/NodeIds.thy ===== *)
theory NodeIds
  imports Prelude "HOL-Library.List_Lexorder"
begin

text \<open>
  The 256-bit identifiers of the whole system and lists of them, \<open>flarch/src/nodeids.rs\<close>: the
  type \<open>U256\<close> with its hexadecimal form and its parser, the length-prefixed encoding that is
  fed to the hash function, and the list operations of \<open>NodeIDs\<close>. The hash function itself
  (the crate \<open>sha2\<close>) is a parameter \<open>sha\<close> of the definitions that use it.
\<close>

subsection \<open>\<open>U256\<close>\<close>

datatype u256 = U256 (u256_bytes: bytes)

text \<open>The derived order of identifiers is that of their bytes, from the first one on.\<close>

instantiation u256 :: linorder
begin

definition less_eq_u256 :: "u256 \<Rightarrow> u256 \<Rightarrow> bool" where
  "less_eq_u256 x y \<longleftrightarrow> u256_bytes x \<le> u256_bytes y"

definition less_u256 :: "u256 \<Rightarrow> u256 \<Rightarrow> bool" where
  "less_u256 x y \<longleftrightarrow> u256_bytes x < u256_bytes y"

instance
  by intro_classes (auto simp: less_eq_u256_def less_u256_def u256.expand)

end

definition u256_ok :: "u256 \<Rightarrow> bool" where
  "u256_ok u \<longleftrightarrow> length (u256_bytes u) = 32"

definition u256_zero :: u256 where
  "u256_zero = U256 (replicate 32 0)"

definition hex_digit :: "nat \<Rightarrow> char" where
  "hex_digit n = char_of (if n < 10 then 48 + n else 87 + n)"

definition hex_byte :: "u8 \<Rightarrow> string" where
  "hex_byte b = [hex_digit (unat b div 16), hex_digit (unat b mod 16)]"

definition u256_display :: "u256 \<Rightarrow> string" where
  "u256_display u = concat (map hex_byte (u256_bytes u))"

text \<open>\<open>Debug\<close>: a dash after every eight bytes.\<close>

fun debug_bytes :: "nat \<Rightarrow> bytes \<Rightarrow> string" where
  "debug_bytes i [] = []"
| "debug_bytes i (b # bs) =
     (if i mod 8 = 0 \<and> 0 < i then ''-'' else []) @ hex_byte b @ debug_bytes (Suc i) bs"

definition u256_debug :: "u256 \<Rightarrow> string" where
  "u256_debug u = debug_bytes 0 (u256_bytes u)"

subsection \<open>Parsing hexadecimal text\<close>

datatype parse_error = HexTooLong | ParseInt

definition hex_value :: "char \<Rightarrow> nat option" where
  "hex_value c = (let n = of_char c :: nat in
     if 48 \<le> n \<and> n \<le> 57 then Some (n - 48)
     else if 97 \<le> n \<and> n \<le> 102 then Some (n - 87)
     else if 65 \<le> n \<and> n \<le> 70 then Some (n - 55)
     else None)"

text \<open>
  \<open>u8::from_str_radix(s, 16)\<close> on two characters: one leading plus sign is accepted and
  skipped, anything else that is not a digit is an error.
\<close>

definition radix16 :: "char \<Rightarrow> char \<Rightarrow> u8 option" where
  "radix16 c d =
     (if c = CHR ''+'' then map_option word_of_nat (hex_value d)
      else case (hex_value c, hex_value d) of
             (Some h, Some l) \<Rightarrow> Some (word_of_nat (16 * h + l))
           | _ \<Rightarrow> None)"

text \<open>
  Strings are byte strings in UTF-8. Slicing panics at an index that is past the end or in
  the middle of a character, that is in front of a continuation byte.
\<close>

definition continuation_byte :: "char \<Rightarrow> bool" where
  "continuation_byte c \<longleftrightarrow> 128 \<le> (of_char c :: nat) \<and> (of_char c :: nat) < 192"

definition char_boundary :: "string \<Rightarrow> bool" where
  "char_boundary s \<longleftrightarrow> (case s of [] \<Rightarrow> True | c # _ \<Rightarrow> \<not> continuation_byte c)"

fun parse_pairs :: "string \<Rightarrow> (parse_error, bytes) outcome" where
  "parse_pairs [] = Ok []"
| "parse_pairs [c] = Panic"
| "parse_pairs (c # d # s) =
     (if \<not> char_boundary (c # d # s) \<or> \<not> char_boundary s then Panic
      else case radix16 c d of
             None \<Rightarrow> Err ParseInt
           | Some b \<Rightarrow> bind_outcome (parse_pairs s) (\<lambda>bs. Ok (b # bs)))"

definition u256_from_str :: "string \<Rightarrow> (parse_error, u256) outcome" where
  "u256_from_str s =
     (if 64 < length s then Err HexTooLong
      else bind_outcome (parse_pairs s)
             (\<lambda>v. Ok (U256 (v @ replicate (32 - length v) 0))))"

lemma hex_value_digit: "n < 16 \<Longrightarrow> hex_value (hex_digit n) = Some n"
  by (auto simp: hex_value_def hex_digit_def Let_def)

lemma hex_digit_plain:
  "n < 16 \<Longrightarrow> \<not> continuation_byte (hex_digit n) \<and> hex_digit n \<noteq> CHR ''+''"
proof -
  assume n: "n < 16"
  have "of_char (hex_digit n) = (if n < 10 then 48 + n else 87 + n)"
    using n by (simp add: hex_digit_def)
  moreover have "of_char CHR ''+'' = (43::nat)" by simp
  ultimately show ?thesis
    using n by (auto simp: continuation_byte_def split: if_splits)
qed

lemma radix16_hex_byte: "radix16 (hex_digit (unat b div 16)) (hex_digit (unat b mod 16)) = Some b"
  for b :: u8
proof -
  have "unat b < 256" by (rule unat_u8)
  then have "unat b div 16 < 16" and "unat b mod 16 < 16" by auto
  then show ?thesis
    using hex_digit_plain by (simp add: radix16_def hex_value_digit)
qed

lemma char_boundary_hex: "char_boundary (concat (map hex_byte bs))"
proof (cases bs)
  case (Cons b bs')
  have "unat b < 256" by (rule unat_u8)
  with Cons show ?thesis
    using hex_digit_plain [of "unat b div 16"] by (simp add: char_boundary_def hex_byte_def)
qed (simp add: char_boundary_def)

lemma parse_pairs_hex: "parse_pairs (concat (map hex_byte bs)) = Ok bs"
proof (induction bs)
  case (Cons b bs)
  let ?h = "hex_digit (unat b div 16)" and ?l = "hex_digit (unat b mod 16)"
  let ?s = "concat (map hex_byte bs)"
  have e: "concat (map hex_byte (b # bs)) = ?h # ?l # ?s" by (simp add: hex_byte_def)
  have "char_boundary (?h # ?l # ?s)" using char_boundary_hex [of "b # bs"] by (simp only: e)
  moreover have "char_boundary ?s" by (rule char_boundary_hex)
  ultimately show ?case
    by (simp only: e parse_pairs.simps radix16_hex_byte Cons.IH bind_outcome.simps
        option.case not_True_eq_False simp_thms if_False)
qed simp

lemma length_hex: "length (concat (map hex_byte bs)) = 2 * length bs"
  by (induction bs) (auto simp: hex_byte_def)

text \<open>
  Printing and parsing an identifier is the identity, and a text that spells fewer
  than 32 bytes is the identifier filled with zeros on the right.
\<close>

theorem u256_from_str_display:
  assumes "u256_ok u" and "length bs \<le> 32"
  shows "u256_from_str (u256_display u) = Ok u \<and>
    u256_from_str (concat (map hex_byte bs)) = Ok (U256 (bs @ replicate (32 - length bs) 0))"
  using assms
  by (cases u; simp add: u256_from_str_def u256_display_def u256_ok_def parse_pairs_hex length_hex)

theorem u256_from_str_display_witness:
  "u256_from_str (u256_display u256_zero) = Ok u256_zero \<and>
   u256_from_str (concat (map hex_byte [255, 1])) = Ok (U256 (255 # 1 # replicate 30 0))"
  using u256_from_str_display [of u256_zero "[255, 1]"] by (simp add: u256_ok_def u256_zero_def)

lemma hex_value_plain: "hex_value c \<noteq> None \<Longrightarrow> \<not> continuation_byte c \<and> c \<noteq> CHR ''+''"
  by (auto simp: hex_value_def continuation_byte_def Let_def split: if_splits)

lemma parse_pairs_digits:
  "\<forall>c \<in> set s. hex_value c \<noteq> None \<Longrightarrow>
   (if even (length s) then \<exists>bs. parse_pairs s = Ok bs \<and> 2 * length bs = length s
    else parse_pairs s = Panic)"
proof (induction s rule: parse_pairs.induct)
  case (3 c d s)
  have plain: "\<not> continuation_byte c" "c \<noteq> CHR ''+''"
    using 3(2) hex_value_plain by auto
  have bound: "char_boundary (c # d # s)" "char_boundary s"
    using 3(2) hex_value_plain plain by (auto simp: char_boundary_def split: list.splits)
  obtain b where b: "radix16 c d = Some b"
    using 3(2) plain by (auto simp: radix16_def)
  from 3(1) [OF _ b] bound 3(2) show ?case
    by (auto simp: b)
qed auto

text \<open>
  The parser's contract on texts of hexadecimal digits: more than 64 characters are an
  error, an even number up to 64 is accepted, and an odd number panics, because the last
  slice of two characters runs past the end.
\<close>

theorem u256_from_str_digits:
  assumes "\<forall>c \<in> set s. hex_value c \<noteq> None"
  shows "(64 < length s \<longrightarrow> u256_from_str s = Err HexTooLong) \<and>
    (length s \<le> 64 \<and> odd (length s) \<longrightarrow> u256_from_str s = Panic) \<and>
    (length s \<le> 64 \<and> even (length s) \<longrightarrow>
     (\<exists>u. u256_from_str s = Ok u \<and> u256_ok u))"
  using parse_pairs_digits [OF assms]
  by (auto simp: u256_from_str_def u256_ok_def)

theorem u256_from_str_digits_witness:
  "u256_from_str ''abc'' = Panic \<and> (\<exists>u. u256_from_str ''ab'' = Ok u \<and> u256_ok u)"
proof -
  have a: "\<forall>c \<in> set ''abc''. hex_value c \<noteq> None" and b: "\<forall>c \<in> set ''ab''. hex_value c \<noteq> None"
    by (simp_all add: hex_value_def)
  from u256_from_str_digits [OF a] u256_from_str_digits [OF b] show ?thesis by simp
qed

subsection \<open>The encoding that is hashed\<close>

text \<open>
  \<open>to_varint\<close>: lengths below 128 are one byte, longer ones a byte with the number of
  big-endian bytes that follow. \<open>usize\<close> has 64 bits.
\<close>

definition be_bytes :: "nat \<Rightarrow> nat \<Rightarrow> bytes" where
  "be_bytes n i = map (\<lambda>k. word_of_nat (i div 256 ^ k)) (rev [0..<n])"

definition to_varint :: "nat \<Rightarrow> bytes" where
  "to_varint i =
     (if i < 128 then [word_of_nat i]
      else let out = dropWhile (\<lambda>x. x = 0) (be_bytes 8 i)
           in (word_of_nat (length out) OR 0x80) # out)"

definition varint_bytes :: "bytes \<Rightarrow> bytes" where
  "varint_bytes d = to_varint (length d) @ d"

definition domain_parts :: "bytes \<Rightarrow> bytes list \<Rightarrow> bytes" where
  "domain_parts domain parts =
     varint_bytes domain @ to_varint (length parts) @ concat (map varint_bytes parts)"

definition hash_data :: "(bytes \<Rightarrow> u256) \<Rightarrow> bytes \<Rightarrow> u256" where
  "hash_data sha data = sha (varint_bytes data)"

definition hash_domain_parts :: "(bytes \<Rightarrow> u256) \<Rightarrow> bytes \<Rightarrow> bytes list \<Rightarrow> u256" where
  "hash_domain_parts sha domain parts = sha (domain_parts domain parts)"

text \<open>The number that big-endian bytes spell.\<close>

definition be_value :: "bytes \<Rightarrow> nat" where
  "be_value bs = foldl (\<lambda>a b. a * 256 + unat b) 0 bs"

lemma be_bytes_Suc: "be_bytes (Suc n) i = word_of_nat (i div 256 ^ n) # be_bytes n i"
  by (simp add: be_bytes_def)

lemma foldl_be_bytes:
  "foldl (\<lambda>a b. a * 256 + unat b) a (be_bytes n i) = a * 256 ^ n + i mod 256 ^ n"
proof (induction n arbitrary: a)
  case 0
  then show ?case by (simp add: be_bytes_def)
next
  case (Suc n)
  have "unat (word_of_nat (i div 256 ^ n) :: u8) = i div 256 ^ n mod 256"
    by (simp add: unat_of_nat)
  moreover have "i mod (256 * 256 ^ n) = 256 ^ n * (i div 256 ^ n mod 256) + i mod 256 ^ n"
    by (metis mod_mult2_eq mult.commute)
  moreover have "foldl (\<lambda>a b. a * 256 + unat b) a (be_bytes (Suc n) i)
      = (a * 256 + unat (word_of_nat (i div 256 ^ n) :: u8)) * 256 ^ n + i mod 256 ^ n"
    by (simp only: be_bytes_Suc foldl.simps Suc.IH)
  ultimately show ?case
    by (simp add: algebra_simps)
qed

lemma be_value_be_bytes: "i < 256 ^ n \<Longrightarrow> be_value (be_bytes n i) = i"
  by (simp add: be_value_def foldl_be_bytes)

lemma be_value_dropWhile: "be_value (dropWhile (\<lambda>x. x = 0) bs) = be_value bs"
  by (induction bs) (auto simp: be_value_def)

definition take_varint :: "bytes \<Rightarrow> (nat \<times> bytes) option" where
  "take_varint bs =
     (case bs of [] \<Rightarrow> None
      | b # rest \<Rightarrow> if unat b < 128 then Some (unat b, rest)
                   else let n = unat b - 128 in Some (be_value (take n rest), drop n rest))"

lemma or_128:
  assumes "n \<le> 8"
  shows "unat ((word_of_nat n :: u8) OR 128) = n + 128"
proof -
  have "n \<in> {0, 1, 2, 3, 4, 5, 6, 7, 8}" using assms by auto
  then show ?thesis by auto
qed

lemma take_varint_to_varint:
  assumes "i < 2 ^ 64"
  shows "take_varint (to_varint i @ rest) = Some (i, rest)"
proof (cases "i < 128")
  case True
  then show ?thesis by (simp add: to_varint_def take_varint_def unat_of_nat)
next
  case False
  let ?out = "dropWhile (\<lambda>x. x = 0) (be_bytes 8 i)"
  have "length ?out \<le> 8"
    using length_dropWhile_le [of "\<lambda>x. x = 0" "be_bytes 8 i"] by (simp add: be_bytes_def)
  then have len: "unat ((word_of_nat (length ?out) :: u8) OR 128) = length ?out + 128"
    by (rule or_128)
  have "be_value ?out = i"
    using assms by (simp add: be_value_dropWhile be_value_be_bytes)
  with False len show ?thesis
    by (simp add: to_varint_def take_varint_def Let_def)
qed

lemma varint_bytes_inj:
  assumes "length a < 2 ^ 64" and "length b < 2 ^ 64"
    and "varint_bytes a @ xs = varint_bytes b @ ys"
  shows "a = b \<and> xs = ys"
proof -
  from assms(3) have "take_varint (to_varint (length a) @ a @ xs)
      = take_varint (to_varint (length b) @ b @ ys)"
    by (simp add: varint_bytes_def)
  then have "length a = length b \<and> a @ xs = b @ ys"
    by (simp add: take_varint_to_varint [OF assms(1)] take_varint_to_varint [OF assms(2)])
  then show ?thesis by (metis append_eq_append_conv)
qed

lemma concat_varint_bytes_inj:
  "length ps = length qs \<Longrightarrow> \<forall>p \<in> set ps. length p < 2 ^ 64 \<Longrightarrow> \<forall>q \<in> set qs. length q < 2 ^ 64 \<Longrightarrow>
   concat (map varint_bytes ps) = concat (map varint_bytes qs) \<Longrightarrow> ps = qs"
proof (induction ps qs rule: list_induct2)
  case (Cons p ps q qs)
  from varint_bytes_inj [of p q] Cons.prems
  have "p = q \<and> concat (map varint_bytes ps) = concat (map varint_bytes qs)"
    by simp
  with Cons show ?case by simp
qed simp

definition fits_usize :: "bytes \<Rightarrow> bytes list \<Rightarrow> bool" where
  "fits_usize domain parts \<longleftrightarrow> length domain < 2 ^ 64 \<and> length parts < 2 ^ 64 \<and>
     (\<forall>p \<in> set parts. length p < 2 ^ 64)"

lemma domain_parts_inj:
  assumes "fits_usize d ps" and "fits_usize e qs"
    and "domain_parts d ps = domain_parts e qs"
  shows "d = e \<and> ps = qs"
proof -
  from assms have 1: "d = e \<and> to_varint (length ps) @ concat (map varint_bytes ps)
      = to_varint (length qs) @ concat (map varint_bytes qs)"
    by (intro varint_bytes_inj) (auto simp: fits_usize_def domain_parts_def)
  then have "take_varint (to_varint (length ps) @ concat (map varint_bytes ps))
      = take_varint (to_varint (length qs) @ concat (map varint_bytes qs))"
    by simp
  then have "length ps = length qs \<and> concat (map varint_bytes ps) = concat (map varint_bytes qs)"
    using assms(1,2) by (simp add: take_varint_to_varint fits_usize_def)
  with 1 concat_varint_bytes_inj [of ps qs] assms(1,2) show ?thesis
    by (simp add: fits_usize_def)
qed

text \<open>
  The bytes that \<open>hash_domain_parts\<close> feeds to the hash determine the domain and the list
  of parts, so two different inputs can only get the same identifier by a collision of the
  hash function itself: no part can be moved into its neighbour or into the domain.
\<close>

theorem domain_parts_injective:
  assumes "fits_usize d ps" and "fits_usize e qs"
    and "domain_parts d ps = domain_parts e qs"
  shows "d = e \<and> ps = qs"
  using assms by (rule domain_parts_inj)

theorem domain_parts_injective_witness:
  "domain_parts [1] [[2], [3]] \<noteq> domain_parts [1] [[2, 3]]"
proof
  assume same: "domain_parts [1] [[2], [3]] = domain_parts [1] [[2, 3]]"
  have "fits_usize [1] [[2], [3]]" "fits_usize [1] [[2, 3]]" by (simp_all add: fits_usize_def)
  from domain_parts_injective [OF this same] show False by simp
qed

subsection \<open>Lists of identifiers\<close>

type_synonym node_ids = "u256 list"

definition ids_slice :: "node_ids \<Rightarrow> nat \<Rightarrow> nat \<Rightarrow> (unit, node_ids) outcome" where
  "ids_slice ids start len =
     (if start + len \<le> length ids then Ok (take len (drop start ids)) else Panic)"

text \<open>The loop of \<open>NodeIDs::remove\<close>: index, the list itself and what was taken out so far.\<close>

function remove_loop :: "node_ids \<Rightarrow> bool \<Rightarrow> nat \<Rightarrow> node_ids \<Rightarrow> node_ids \<Rightarrow> node_ids \<times> node_ids" where
  "remove_loop nodes exists i ids ret =
     (if i < length ids then
        if (ids ! i \<in> set nodes) = exists
        then remove_loop nodes exists i (vec_remove i ids) (ret @ [ids ! i])
        else remove_loop nodes exists (Suc i) ids ret
      else (ids, ret))"
  by pat_completeness auto
termination
  by (relation "measure (\<lambda>(nodes, exists, i, ids, ret). length ids - i)")
    (auto simp: length_vec_remove)

declare remove_loop.simps [simp del]

definition ids_remove :: "node_ids \<Rightarrow> node_ids \<Rightarrow> bool \<Rightarrow> node_ids \<times> node_ids" where
  "ids_remove ids nodes exists = remove_loop nodes exists 0 ids []"

definition ids_remove_missing :: "node_ids \<Rightarrow> node_ids \<Rightarrow> node_ids \<times> node_ids" where
  "ids_remove_missing ids nodes = ids_remove ids nodes False"

definition ids_remove_existing :: "node_ids \<Rightarrow> node_ids \<Rightarrow> node_ids \<times> node_ids" where
  "ids_remove_existing ids nodes = ids_remove ids nodes True"

fun contains_any_inner :: "u256 \<Rightarrow> node_ids \<Rightarrow> bool" where
  "contains_any_inner node [] = False"
| "contains_any_inner node (o1 # os) = (if node = o1 then True else contains_any_inner node os)"

fun contains_any :: "node_ids \<Rightarrow> node_ids \<Rightarrow> bool" where
  "contains_any [] other = False"
| "contains_any (n # ns) other =
     (if contains_any_inner n other then True else contains_any ns other)"

fun contains_all :: "node_ids \<Rightarrow> node_ids \<Rightarrow> bool" where
  "contains_all ids [] = True"
| "contains_all ids (o1 # os) = (if o1 \<notin> set ids then False else contains_all ids os)"

definition ids_merge :: "node_ids \<Rightarrow> node_ids \<Rightarrow> node_ids" where
  "ids_merge ids other = ids @ filter (\<lambda>n. n \<notin> set ids) other"

lemma remove_loop_filter:
  "remove_loop nodes exists i ids ret =
     (take i ids @ filter (\<lambda>n. (n \<in> set nodes) \<noteq> exists) (drop i ids),
      ret @ filter (\<lambda>n. (n \<in> set nodes) = exists) (drop i ids))"
proof (induction nodes exists i ids ret rule: remove_loop.induct)
  case (1 nodes exists i ids ret)
  show ?case
  proof (cases "i < length ids")
    case False
    then show ?thesis by (simp add: remove_loop.simps [of nodes exists i ids ret])
  next
    case True
    then have d: "drop i ids = ids ! i # drop (Suc i) ids"
      by (rule Cons_nth_drop_Suc [symmetric])
    have t: "take (Suc i) ids = take i ids @ [ids ! i]"
      using True by (rule take_Suc_conv_app_nth)
    have v: "take i (vec_remove i ids) = take i ids" "drop i (vec_remove i ids) = drop (Suc i) ids"
      using True by (simp_all add: vec_remove_def)
    show ?thesis
      using 1 True by (auto simp: remove_loop.simps [of nodes exists i ids ret] d t v)
  qed
qed

lemma ids_remove_existing_filter:
  "ids_remove_existing ids nodes =
     (filter (\<lambda>n. n \<notin> set nodes) ids, filter (\<lambda>n. n \<in> set nodes) ids)"
  by (simp add: ids_remove_existing_def ids_remove_def remove_loop_filter)

lemma ids_remove_missing_filter:
  "ids_remove_missing ids nodes =
     (filter (\<lambda>n. n \<in> set nodes) ids, filter (\<lambda>n. n \<notin> set nodes) ids)"
  by (simp add: ids_remove_missing_def ids_remove_def remove_loop_filter)

lemma contains_any_iff: "contains_any ids other \<longleftrightarrow> set ids \<inter> set other \<noteq> {}"
proof -
  have inner: "contains_any_inner n os \<longleftrightarrow> n \<in> set os" for n os
    by (induction os) auto
  show ?thesis by (induction ids) (auto simp: inner)
qed

lemma contains_all_iff: "contains_all ids other \<longleftrightarrow> set other \<subseteq> set ids"
  by (induction other) auto

lemma set_ids_merge [simp]: "set (ids_merge ids other) = set ids \<union> set other"
  by (auto simp: ids_merge_def)

lemma distinct_ids_merge: "distinct ids \<Longrightarrow> distinct other \<Longrightarrow> distinct (ids_merge ids other)"
  by (auto simp: ids_merge_def)

text \<open>
  The two removals split a list without losing, duplicating or reordering anything:
  what stays and what is returned are the two complementary filters of the list, and they
  are each other's answers.
\<close>

theorem ids_remove_partitions:
  "ids_remove_existing ids nodes =
     (filter (\<lambda>n. n \<notin> set nodes) ids, filter (\<lambda>n. n \<in> set nodes) ids) \<and>
   ids_remove_missing ids nodes = prod.swap (ids_remove_existing ids nodes) \<and>
   mset (fst (ids_remove_existing ids nodes)) + mset (snd (ids_remove_existing ids nodes)) = mset ids"
  using mset_filter_not [of "\<lambda>n. n \<in> set nodes" ids]
  by (simp add: ids_remove_existing_filter ids_remove_missing_filter add.commute)

end
