(* ===== verification/Signer.thy ===== *)
theory Signer
  imports NodeIds
begin

text \<open>
  Key pairs and signatures, \<open>flcrypto/src/signer.rs\<close> and \<open>flcrypto/src/signer_ed25519.rs\<close>.
  The curve arithmetic (the crate \<open>ed25519_dalek\<close>), the hash and the serialisation
  (\<open>rmp_serde\<close>) are not part of the repository: they are the fields of the record
  \<open>crypto\<close>, which every definition that needs them takes as an argument. What the code
  relies on is \<open>crypto_ok\<close>: a signature has 64 bytes and verifies under its own key.
\<close>

record crypto =
  sha256 :: "bytes \<Rightarrow> u256"
  verifying_key :: "bytes \<Rightarrow> bytes"
  sign_bytes :: "bytes \<Rightarrow> bytes \<Rightarrow> bytes"
  verify_strict :: "bytes \<Rightarrow> bytes \<Rightarrow> bytes \<Rightarrow> bool"

definition crypto_ok :: "crypto \<Rightarrow> bool" where
  "crypto_ok cr \<longleftrightarrow> (\<forall>sk msg. length (sign_bytes cr sk msg) = 64 \<and>
     verify_strict cr (verifying_key cr sk) msg (sign_bytes cr sk msg))"

datatype signer_error =
    NoSuchSigner | SignaturesMissing | SignatureMessageMismatch | BadgeMissing | ACEMissing
  | ACEMissingUpdate | UpdateStatic | SigningMessageMismatch | PQCrypto string

datatype signer = SignerEd25519 bytes

datatype verifier = VerifierEd25519 bytes

type_synonym signature = bytes

text \<open>A string literal's bytes.\<close>

definition str_bytes :: "string \<Rightarrow> bytes" where
  "str_bytes s = map of_char s"

fun verifier_id :: "crypto \<Rightarrow> verifier \<Rightarrow> u256" where
  "verifier_id cr (VerifierEd25519 k) =
     hash_domain_parts (sha256 cr) (str_bytes ''ican.re.fledg.flmodules.crypto.verifier_ed25519'') [k]"

fun signer_verifier :: "crypto \<Rightarrow> signer \<Rightarrow> verifier" where
  "signer_verifier cr (SignerEd25519 sk) = VerifierEd25519 (verifying_key cr sk)"

definition signer_id :: "crypto \<Rightarrow> signer \<Rightarrow> u256" where
  "signer_id cr s = verifier_id cr (signer_verifier cr s)"

fun signer_sign :: "crypto \<Rightarrow> signer \<Rightarrow> bytes \<Rightarrow> signature" where
  "signer_sign cr (SignerEd25519 sk) msg = sign_bytes cr sk msg"

text \<open>
  \<open>verify\<close> turns the signature into an array of 64 bytes with \<open>unwrap\<close>, so any other length
  panics; only then is the key asked.
\<close>

fun verifier_verify :: "crypto \<Rightarrow> verifier \<Rightarrow> bytes \<Rightarrow> signature \<Rightarrow> (signer_error, unit) outcome" where
  "verifier_verify cr (VerifierEd25519 k) msg sig =
     (if length sig \<noteq> 64 then Panic
      else if verify_strict cr k msg sig then Ok () else Err SignatureMessageMismatch)"

lemma verify_own_signature:
  "crypto_ok cr \<Longrightarrow> verifier_verify cr (signer_verifier cr s) msg (signer_sign cr s msg) = Ok ()"
  by (cases s) (simp add: crypto_ok_def)

lemma verifier_verify_cases:
  "verifier_verify cr v msg sig = Ok () \<or>
   verifier_verify cr v msg sig = Err SignatureMessageMismatch \<or>
   (verifier_verify cr v msg sig = Panic \<and> length sig \<noteq> 64)"
  by (cases v) simp

text \<open>An instance of the parameters, for the witnesses: keys sign with themselves.\<close>

definition toy_hash :: "bytes \<Rightarrow> u256" where
  "toy_hash b = U256 (take 32 (rev b @ replicate 32 0))"

definition toy_crypto :: crypto where
  "toy_crypto = \<lparr>sha256 = toy_hash, verifying_key = (\<lambda>sk. sk),
     sign_bytes = (\<lambda>sk msg. take 64 (sk @ replicate 64 0)),
     verify_strict = (\<lambda>k msg sig. sig = take 64 (k @ replicate 64 0))\<rparr>"

lemma crypto_ok_toy: "crypto_ok toy_crypto"
  by (auto simp: crypto_ok_def toy_crypto_def min_def)

end
