(* ===== verification/Access.thy ===== *)
theory Access
  imports Signer
begin

text \<open>
  Conditions, badges and signatures over them, \<open>flcrypto/src/access.rs\<close>. A \<open>cond_link\<close> is the
  light form with identifiers, a \<open>condition\<close> the resolved one. Identifiers of keys and badges
  are newtypes around \<open>U256\<close> in the source and \<open>u256\<close> here; versions and thresholds are
  32-bit words. The fields of a \<open>Badge\<close> are the last three arguments of \<open>CBadge\<close>.

  \<open>sat\<close> is the specification: which sets of keys a condition lets through. The lemmas relate
  the code's verification, signing and \<open>can_sign\<close> to it.
\<close>

datatype version_spec = Minimal u256 u32 | Exact u256 u32 | Maximal u256 u32

datatype cond_link =
    LVerifier u256 | LBadge version_spec | LNofT u32 "cond_link list" | LFail | LPass

datatype condition =
    CVerifier verifier
  | CBadge version_spec u256 u32 condition
  | CNofT u32 "condition list"
  | CNotAvailable | CFail | CPass

record badge_link =
  bl_id :: u256
  bl_version :: u32
  bl_condition :: cond_link

record cond_sig =
  cs_condition :: condition
  cs_signatures :: "(u256, signature) hashmap"

fun spec_id :: "version_spec \<Rightarrow> u256" where
  "spec_id (Minimal i v) = i"
| "spec_id (Exact i v) = i"
| "spec_id (Maximal i v) = i"

fun accepts :: "version_spec \<Rightarrow> u32 \<Rightarrow> bool" where
  "accepts (Minimal i v) version = (v \<le> version)"
| "accepts (Exact i v) version = (v = version)"
| "accepts (Maximal i v) version = (version \<le> v)"

definition fits_version :: "badge_link \<Rightarrow> version_spec \<Rightarrow> bool" where
  "fits_version b ver \<longleftrightarrow> spec_id ver = bl_id b \<and> accepts ver (bl_version b)"

subsection \<open>Resolving links\<close>

text \<open>
  \<open>to_condition\<close> follows the badges it looks up, so it only returns when these do not form a
  cycle. The first argument is the depth of recursion it may use; \<open>None\<close> is running out.
\<close>

fun to_condition ::
  "nat \<Rightarrow> (version_spec \<Rightarrow> badge_link option) \<Rightarrow> (u256 \<Rightarrow> verifier option) \<Rightarrow>
   cond_link \<Rightarrow> condition option" where
  "to_condition 0 gb gv l = None"
| "to_condition (Suc n) gb gv (LVerifier k) =
     Some (case gv k of Some v \<Rightarrow> CVerifier v | None \<Rightarrow> CNotAvailable)"
| "to_condition (Suc n) gb gv (LBadge ver) =
     (case gb ver of
        Some b \<Rightarrow> map_option (CBadge ver (bl_id b) (bl_version b))
                   (to_condition n gb gv (bl_condition b))
      | None \<Rightarrow> Some CNotAvailable)"
| "to_condition (Suc n) gb gv (LNofT thr ls) =
     map_option (CNofT thr) (those (map (to_condition n gb gv) ls))"
| "to_condition (Suc n) gb gv LPass = Some CPass"
| "to_condition (Suc n) gb gv LFail = Some CFail"

text \<open>The way back. \<open>NotAvailable\<close> has no link: the code is a \<open>todo!()\<close>.\<close>

fun collect_ok :: "('e, 'a) outcome list \<Rightarrow> ('e, 'a list) outcome" where
  "collect_ok [] = Ok []"
| "collect_ok (m # ms) = bind_outcome m (\<lambda>a. bind_outcome (collect_ok ms) (\<lambda>as. Ok (a # as)))"

fun to_link :: "crypto \<Rightarrow> condition \<Rightarrow> (unit, cond_link) outcome" where
  "to_link cr (CVerifier v) = Ok (LVerifier (verifier_id cr v))"
| "to_link cr (CBadge ver i n c) = Ok (LBadge ver)"
| "to_link cr (CNofT thr cs) =
     bind_outcome (collect_ok (map (to_link cr) cs)) (\<lambda>ls. Ok (LNofT thr ls))"
| "to_link cr CNotAvailable = Panic"
| "to_link cr CPass = Ok LPass"
| "to_link cr CFail = Ok LFail"

subsection \<open>Comparing a condition with a link\<close>

text \<open>\<open>iter().all(..)\<close> stops at the first \<open>false\<close>.\<close>

fun all_ok :: "('e, bool) outcome list \<Rightarrow> ('e, bool) outcome" where
  "all_ok [] = Ok True"
| "all_ok (m # ms) = bind_outcome m (\<lambda>b. if b then all_ok ms else Ok False)"

fun equal_link :: "crypto \<Rightarrow> condition \<Rightarrow> cond_link \<Rightarrow> (unit, bool) outcome" where
  "equal_link cr c (LVerifier k) =
     Ok (case c of CVerifier v \<Rightarrow> verifier_id cr v = k | _ \<Rightarrow> False)"
| "equal_link cr (CBadge spec i n c) (LBadge ver) =
     bind_outcome (to_link cr c) (\<lambda>l.
       if fits_version \<lparr>bl_id = i, bl_version = n, bl_condition = l\<rparr> ver
       then bind_outcome (equal_link cr c (LBadge ver)) (\<lambda>e. Ok (e \<and> ver = spec))
       else Ok False)"
| "equal_link cr c (LBadge ver) = Ok False"
| "equal_link cr c (LNofT thr ls) = all_ok (map (equal_link cr c) ls)"
| "equal_link cr c LPass = Ok (c = CPass)"
| "equal_link cr c LFail = Ok (c = CFail)"

subsection \<open>Who may sign\<close>

fun has_verifier :: "crypto \<Rightarrow> condition \<Rightarrow> u256 \<Rightarrow> bool" where
  "has_verifier cr (CVerifier v) vid = (verifier_id cr v = vid)"
| "has_verifier cr (CBadge ver i n c) vid = has_verifier cr c vid"
| "has_verifier cr (CNofT thr cs) vid = list_ex (\<lambda>c. has_verifier cr c vid) cs"
| "has_verifier cr CNotAvailable vid = False"
| "has_verifier cr CPass vid = True"
| "has_verifier cr CFail vid = False"

fun can_sign_one :: "crypto \<Rightarrow> condition \<Rightarrow> u256 \<Rightarrow> bool" where
  "can_sign_one cr (CVerifier v) vid = (verifier_id cr v = vid)"
| "can_sign_one cr (CBadge ver i n c) vid = can_sign_one cr c vid"
| "can_sign_one cr (CNofT thr cs) vid =
     (list_ex (\<lambda>c. can_sign_one cr c vid) cs \<and> thr = 1)"
| "can_sign_one cr CNotAvailable vid = False"
| "can_sign_one cr CPass vid = True"
| "can_sign_one cr CFail vid = False"

definition can_sign :: "crypto \<Rightarrow> condition \<Rightarrow> u256 list \<Rightarrow> (unit, bool) outcome" where
  "can_sign cr c vids =
     (case vids of
        [] \<Rightarrow> Ok (c = CPass)
      | [vid] \<Rightarrow> Ok (can_sign_one cr c vid)
      | _ \<Rightarrow> Panic)"

definition can_signers :: "crypto \<Rightarrow> condition \<Rightarrow> signer list \<Rightarrow> (unit, bool) outcome" where
  "can_signers cr c signers = can_sign cr c (map (signer_id cr) signers)"

subsection \<open>Hashing and signing\<close>

text \<open>\<open>rmp_spec\<close> and \<open>rmp_badge\<close> are the serialised forms (\<open>to_rmp_bytes\<close>).\<close>

definition le_bytes4 :: "u32 \<Rightarrow> bytes" where
  "le_bytes4 w = map (\<lambda>k. word_of_nat (unat w div 256 ^ k)) [0..<4]"

fun cond_hash ::
  "crypto \<Rightarrow> (version_spec \<Rightarrow> bytes) \<Rightarrow> (u256 \<Rightarrow> u32 \<Rightarrow> condition \<Rightarrow> bytes) \<Rightarrow> condition \<Rightarrow> u256" where
  "cond_hash cr rs rb (CVerifier v) =
     hash_domain_parts (sha256 cr) (str_bytes ''flcrypto::Condition::Verifier'')
       [u256_bytes (verifier_id cr v)]"
| "cond_hash cr rs rb (CBadge ver i n c) =
     hash_domain_parts (sha256 cr) (str_bytes ''flcrypto::Condition::Badge'') [rs ver, rb i n c]"
| "cond_hash cr rs rb (CNofT thr cs) =
     hash_domain_parts (sha256 cr) (str_bytes ''flcrypto::Condition::NofT'')
       (le_bytes4 thr # map (\<lambda>c. u256_bytes (cond_hash cr rs rb c)) cs)"
| "cond_hash cr rs rb CNotAvailable =
     hash_domain_parts (sha256 cr) (str_bytes ''flcrypto::Condition::NotAvailable'') []"
| "cond_hash cr rs rb CPass =
     hash_domain_parts (sha256 cr) (str_bytes ''flcrypto::Condition::Pass'') []"
| "cond_hash cr rs rb CFail =
     hash_domain_parts (sha256 cr) (str_bytes ''flcrypto::Condition::Fail'') []"

definition sig_new :: "condition \<Rightarrow> cond_sig" where
  "sig_new c = \<lparr>cs_condition = c, cs_signatures = []\<rparr>"

definition sig_empty :: cond_sig where
  "sig_empty = \<lparr>cs_condition = CNotAvailable, cs_signatures = []\<rparr>"

definition sig_digest ::
  "crypto \<Rightarrow> (condition \<Rightarrow> u256) \<Rightarrow> cond_sig \<Rightarrow> bytes \<Rightarrow> u256" where
  "sig_digest cr chash cs msg =
     hash_domain_parts (sha256 cr) (str_bytes ''flcrypto::ConditionSignature::sign'')
       [u256_bytes (chash (cs_condition cs)), msg]"

definition sign_digest :: "crypto \<Rightarrow> cond_sig \<Rightarrow> signer \<Rightarrow> u256 \<Rightarrow> (signer_error, cond_sig) outcome" where
  "sign_digest cr cs s digest =
     (if \<not> has_verifier cr (cs_condition cs) (signer_id cr s) then Err NoSuchSigner
      else Ok (cs\<lparr>cs_signatures :=
             AList.update (signer_id cr s) (signer_sign cr s (u256_bytes digest)) (cs_signatures cs)\<rparr>))"

definition sign_msg ::
  "crypto \<Rightarrow> (condition \<Rightarrow> u256) \<Rightarrow> cond_sig \<Rightarrow> signer \<Rightarrow> bytes \<Rightarrow> (signer_error, cond_sig) outcome" where
  "sign_msg cr chash cs s msg = sign_digest cr cs s (sig_digest cr chash cs msg)"

fun signers_digest ::
  "crypto \<Rightarrow> cond_sig \<Rightarrow> signer list \<Rightarrow> u256 \<Rightarrow> (signer_error, cond_sig) outcome" where
  "signers_digest cr cs [] digest = Ok cs"
| "signers_digest cr cs (s # ss) digest =
     bind_outcome (sign_digest cr cs s digest) (\<lambda>cs'. signers_digest cr cs' ss digest)"

definition signers_msg ::
  "crypto \<Rightarrow> (condition \<Rightarrow> u256) \<Rightarrow> cond_sig \<Rightarrow> signer list \<Rightarrow> bytes \<Rightarrow> (signer_error, cond_sig) outcome" where
  "signers_msg cr chash cs signers msg = signers_digest cr cs signers (sig_digest cr chash cs msg)"

subsection \<open>Verification\<close>

fun count_ok :: "nat \<Rightarrow> ('e, bool) outcome list \<Rightarrow> ('e, nat) outcome" where
  "count_ok correct [] = Ok correct"
| "count_ok correct (m # ms) =
     bind_outcome m (\<lambda>b. count_ok (if b then Suc correct else correct) ms)"

fun verify_cond ::
  "crypto \<Rightarrow> (u256, signature) hashmap \<Rightarrow> u256 \<Rightarrow> condition \<Rightarrow> (signer_error, bool) outcome" where
  "verify_cond cr sigs digest (CVerifier v) =
     (case map_of sigs (verifier_id cr v) of
        Some sig \<Rightarrow> bind_outcome (verifier_verify cr v (u256_bytes digest) sig) (\<lambda>_. Ok True)
      | None \<Rightarrow> Ok False)"
| "verify_cond cr sigs digest (CBadge ver i n c) = verify_cond cr sigs digest c"
| "verify_cond cr sigs digest (CNofT t cs) =
     bind_outcome (count_ok 0 (map (verify_cond cr sigs digest) cs)) (\<lambda>correct. Ok (unat t \<le> correct))"
| "verify_cond cr sigs digest CNotAvailable = Ok False"
| "verify_cond cr sigs digest CPass = Ok True"
| "verify_cond cr sigs digest CFail = Ok False"

definition verify_digest :: "crypto \<Rightarrow> cond_sig \<Rightarrow> u256 \<Rightarrow> (signer_error, bool) outcome" where
  "verify_digest cr cs digest = verify_cond cr (cs_signatures cs) digest (cs_condition cs)"

definition verify_msg ::
  "crypto \<Rightarrow> (condition \<Rightarrow> u256) \<Rightarrow> cond_sig \<Rightarrow> bytes \<Rightarrow> (signer_error, bool) outcome" where
  "verify_msg cr chash cs msg = verify_digest cr cs (sig_digest cr chash cs msg)"

subsection \<open>Specification: the sets of keys a condition lets through\<close>

fun sat :: "(verifier \<Rightarrow> bool) \<Rightarrow> condition \<Rightarrow> bool" where
  "sat P (CVerifier v) = P v"
| "sat P (CBadge ver i n c) = sat P c"
| "sat P (CNofT t cs) = (unat t \<le> length (filter (sat P) cs))"
| "sat P CNotAvailable = False"
| "sat P CPass = True"
| "sat P CFail = False"

fun cond_verifiers :: "condition \<Rightarrow> verifier set" where
  "cond_verifiers (CVerifier v) = {v}"
| "cond_verifiers (CBadge ver i n c) = cond_verifiers c"
| "cond_verifiers (CNofT t cs) = (\<Union>c\<in>set cs. cond_verifiers c)"
| "cond_verifiers _ = {}"

definition sig_valid :: "crypto \<Rightarrow> (u256, signature) hashmap \<Rightarrow> u256 \<Rightarrow> verifier \<Rightarrow> bool" where
  "sig_valid cr sigs digest v \<longleftrightarrow>
     (case map_of sigs (verifier_id cr v) of
        Some sig \<Rightarrow> verifier_verify cr v (u256_bytes digest) sig = Ok ()
      | None \<Rightarrow> False)"

definition sig_absent_or_valid :: "crypto \<Rightarrow> (u256, signature) hashmap \<Rightarrow> u256 \<Rightarrow> verifier \<Rightarrow> bool" where
  "sig_absent_or_valid cr sigs digest v \<longleftrightarrow>
     map_of sigs (verifier_id cr v) = None \<or> sig_valid cr sigs digest v"

lemma count_ok_Ok:
  "count_ok n ms = Ok r \<longleftrightarrow>
     (\<exists>bs. ms = map Ok bs \<and> r = n + length (filter (\<lambda>b. b) bs))"
proof (induction ms arbitrary: n)
  case Nil
  then show ?case by auto
next
  case (Cons m ms)
  show ?case
  proof (cases m)
    case (Ok b)
    then show ?thesis
      by (auto simp: Cons.IH Cons_eq_map_conv)
  qed (auto simp: Cons_eq_map_conv)
qed

lemma sat_cong: "(\<And>v. v \<in> cond_verifiers c \<Longrightarrow> P v = Q v) \<Longrightarrow> sat P c = sat Q c"
proof (induction c)
  case (CNofT t cs)
  then have "filter (sat P) cs = filter (sat Q) cs"
    by (intro filter_cong) auto
  then show ?case by simp
qed auto

lemma verify_cond_Ok:
  "verify_cond cr sigs digest c = Ok b \<longleftrightarrow>
     (\<forall>v \<in> cond_verifiers c. sig_absent_or_valid cr sigs digest v) \<and>
     b = sat (sig_valid cr sigs digest) c"
proof (induction c arbitrary: b)
  case (CVerifier v)
  then show ?case
    by (auto simp: sig_absent_or_valid_def sig_valid_def bind_outcome_Ok split: option.splits)
next
  case (CNofT t cs)
  have all: "(map (verify_cond cr sigs digest) cs = map Ok bs) \<longleftrightarrow>
      (\<forall>c\<in>set cs. \<forall>v \<in> cond_verifiers c. sig_absent_or_valid cr sigs digest v) \<and>
      bs = map (sat (sig_valid cr sigs digest)) cs" for bs
    using CNofT.IH
  proof (induction cs arbitrary: bs)
    case (Cons c cs)
    then show ?case by (cases bs) (auto simp: Cons_eq_map_conv)
  qed auto
  show ?case
    by (auto simp: bind_outcome_Ok count_ok_Ok all filter_map comp_def)
qed auto

text \<open>
  C5. Verification against the specification. \<open>verify_cond\<close> gives an answer exactly when
  every signature stored for a key of the condition is valid, and the answer is then whether
  the keys with a valid signature satisfy the condition. So a condition never verifies
  without enough valid signatures, and one wrong signature, even one that is not needed,
  makes the whole verification an error.
\<close>

theorem verify_digest_correct:
  "verify_digest cr cs digest = Ok b \<longleftrightarrow>
     (\<forall>v \<in> cond_verifiers (cs_condition cs).
        sig_absent_or_valid cr (cs_signatures cs) digest v) \<and>
     b = sat (sig_valid cr (cs_signatures cs) digest) (cs_condition cs)"
  by (simp add: verify_digest_def verify_cond_Ok)

theorem verify_digest_correct_witness:
  "verify_digest toy_crypto (sig_new (CNofT 1 [CVerifier (VerifierEd25519 [1]), CPass])) u256_zero
     = Ok True"
proof -
  let ?cs = "sig_new (CNofT 1 [CVerifier (VerifierEd25519 [1]), CPass])"
  have "(\<forall>v \<in> cond_verifiers (cs_condition ?cs).
        sig_absent_or_valid toy_crypto (cs_signatures ?cs) u256_zero v) \<and>
      True = sat (sig_valid toy_crypto (cs_signatures ?cs) u256_zero) (cs_condition ?cs)"
    by (simp add: sig_new_def sig_absent_or_valid_def sig_valid_def)
  then show ?thesis
    using verify_digest_correct [of toy_crypto ?cs u256_zero True] by blast
qed

subsection \<open>Signing, then verifying\<close>

lemma sign_digest_Ok:
  "sign_digest cr cs s digest = Ok cs' \<longleftrightarrow>
     has_verifier cr (cs_condition cs) (signer_id cr s) \<and>
     cs' = cs\<lparr>cs_signatures :=
       AList.update (signer_id cr s) (signer_sign cr s (u256_bytes digest)) (cs_signatures cs)\<rparr>"
  by (auto simp: sign_digest_def)

text \<open>What the signature table holds after a list of signers has signed.\<close>

definition signed_by :: "crypto \<Rightarrow> signer set \<Rightarrow> u256 \<Rightarrow> (u256, signature) hashmap \<Rightarrow> bool" where
  "signed_by cr S digest sigs \<longleftrightarrow>
     (\<forall>k. map_of sigs k \<noteq> None \<longleftrightarrow> k \<in> signer_id cr ` S) \<and>
     (\<forall>k sig. map_of sigs k = Some sig \<longrightarrow>
        (\<exists>s\<in>S. k = signer_id cr s \<and> sig = signer_sign cr s (u256_bytes digest)))"

lemma signed_by_step:
  "signed_by cr S digest sigs \<Longrightarrow>
   signed_by cr (insert s S) digest
     (AList.update (signer_id cr s) (signer_sign cr s (u256_bytes digest)) sigs)"
  by (auto simp: signed_by_def)

lemma signers_digest_Ok:
  assumes "signers_digest cr cs ss digest = Ok cs'" and "signed_by cr S digest (cs_signatures cs)"
  shows "cs_condition cs' = cs_condition cs \<and> signed_by cr (S \<union> set ss) digest (cs_signatures cs')"
  using assms
proof (induction ss arbitrary: cs S)
  case (Cons s ss)
  from Cons.prems(1) obtain cs1 where s: "sign_digest cr cs s digest = Ok cs1"
    and rest: "signers_digest cr cs1 ss digest = Ok cs'"
    by (auto simp: bind_outcome_Ok)
  have "signed_by cr (insert s S) digest (cs_signatures cs1)"
    using s signed_by_step [OF Cons.prems(2)] by (simp add: sign_digest_Ok)
  from Cons.IH [OF rest this] s show ?case by (simp add: sign_digest_Ok)
qed auto

lemma signers_digest_total:
  "(\<exists>cs'. signers_digest cr cs ss digest = Ok cs') \<longleftrightarrow>
   (\<forall>s \<in> set ss. has_verifier cr (cs_condition cs) (signer_id cr s))"
  by (induction ss arbitrary: cs) (auto simp: bind_outcome_Ok sign_digest_Ok)

definition no_id_collision :: "crypto \<Rightarrow> condition \<Rightarrow> signer list \<Rightarrow> bool" where
  "no_id_collision cr c ss \<longleftrightarrow> (\<forall>v \<in> cond_verifiers c. \<forall>s \<in> set ss.
     verifier_id cr v = signer_id cr s \<longrightarrow> v = signer_verifier cr s)"

lemma signed_by_sig_valid:
  assumes "signed_by cr (set ss) digest sigs" and "crypto_ok cr" and "no_id_collision cr c ss"
    and "v \<in> cond_verifiers c"
  shows "sig_absent_or_valid cr sigs digest v"
    and "sig_valid cr sigs digest v \<longleftrightarrow> v \<in> signer_verifier cr ` set ss"
proof -
  have valid: "sig_valid cr sigs digest v \<and> v \<in> signer_verifier cr ` set ss"
    if "map_of sigs (verifier_id cr v) = Some sig" for sig
  proof -
    from assms(1) that obtain s where s: "s \<in> set ss" "verifier_id cr v = signer_id cr s"
      "sig = signer_sign cr s (u256_bytes digest)"
      unfolding signed_by_def by blast
    with assms(3,4) have "v = signer_verifier cr s" by (auto simp: no_id_collision_def)
    with that s verify_own_signature [OF assms(2)] show ?thesis
      by (auto simp: sig_valid_def)
  qed
  then show "sig_absent_or_valid cr sigs digest v"
    by (cases "map_of sigs (verifier_id cr v)") (auto simp: sig_absent_or_valid_def)
  have "map_of sigs (verifier_id cr v) \<noteq> None" if "v \<in> signer_verifier cr ` set ss"
    using that assms(1) by (auto simp: signed_by_def signer_id_def)
  with valid show "sig_valid cr sigs digest v \<longleftrightarrow> v \<in> signer_verifier cr ` set ss"
    by (cases "map_of sigs (verifier_id cr v)") (auto simp: sig_valid_def)
qed

lemma sign_verify:
  assumes "crypto_ok cr" and "no_id_collision cr c ss"
    and "\<forall>s \<in> set ss. has_verifier cr c (signer_id cr s)"
  shows "\<exists>cs. signers_digest cr (sig_new c) ss digest = Ok cs \<and>
    verify_digest cr cs digest = Ok (sat (\<lambda>v. v \<in> signer_verifier cr ` set ss) c)"
proof -
  from assms(3) signers_digest_total [of cr "sig_new c" ss digest] obtain cs
    where cs: "signers_digest cr (sig_new c) ss digest = Ok cs"
    by (auto simp: sig_new_def)
  have "signed_by cr {} digest (cs_signatures (sig_new c))"
    by (simp add: signed_by_def sig_new_def)
  from signers_digest_Ok [OF cs this]
  have c: "cs_condition cs = c" and sb: "signed_by cr (set ss) digest (cs_signatures cs)"
    by (auto simp: sig_new_def)
  note v = signed_by_sig_valid [OF sb assms(1,2)]
  have "sat (sig_valid cr (cs_signatures cs) digest) c
      = sat (\<lambda>v. v \<in> signer_verifier cr ` set ss) c"
    by (intro sat_cong v(2))
  then have "verify_digest cr cs digest = Ok (sat (\<lambda>v. v \<in> signer_verifier cr ` set ss) c)"
    using v(1) c by (simp add: verify_digest_def verify_cond_Ok)
  with cs show ?thesis by blast
qed

text \<open>
  C18. Signing and verifying together: whatever list of signers the condition admits, after
  all of them have signed, verification succeeds without error and answers whether the
  signers' keys satisfy the condition. This is the N-out-of-T promise: with fewer than the
  threshold of keys the answer is no, with enough it is yes, and extra signers do no harm.
\<close>

theorem sign_then_verify:
  assumes "crypto_ok cr" and "no_id_collision cr c ss"
    and "\<forall>s \<in> set ss. has_verifier cr c (signer_id cr s)"
  shows "\<exists>cs. signers_digest cr (sig_new c) ss digest = Ok cs \<and>
    verify_digest cr cs digest = Ok (sat (\<lambda>v. v \<in> signer_verifier cr ` set ss) c)"
  using assms by (rule sign_verify)

theorem sign_then_verify_witness:
  "\<exists>cs. signers_digest toy_crypto
       (sig_new (CNofT 2 (map (\<lambda>k. CVerifier (VerifierEd25519 [k])) [1, 2, 3])))
       [SignerEd25519 [1], SignerEd25519 [3]] u256_zero = Ok cs \<and>
     verify_digest toy_crypto cs u256_zero = Ok True"
proof -
  let ?c = "CNofT 2 (map (\<lambda>k. CVerifier (VerifierEd25519 [k])) [1, 2, 3])"
  let ?ss = "[SignerEd25519 [1], SignerEd25519 [3]]"
  note ev = signer_id_def toy_crypto_def hash_domain_parts_def domain_parts_def varint_bytes_def
    toy_hash_def
  have a: "no_id_collision toy_crypto ?c ?ss"
    by (simp add: no_id_collision_def ev)
  have b: "\<forall>s \<in> set ?ss. has_verifier toy_crypto ?c (signer_id toy_crypto s)"
    by (simp add: ev)
  have c: "sat (\<lambda>v. v \<in> signer_verifier toy_crypto ` set ?ss) ?c"
    by (simp add: toy_crypto_def)
  from sign_then_verify [OF crypto_ok_toy a b, of u256_zero] c show ?thesis by simp
qed

lemma can_sign_one_sat:
  "can_sign_one cr c (signer_id cr s) \<Longrightarrow> no_id_collision cr c [s] \<Longrightarrow>
   has_verifier cr c (signer_id cr s) \<and> sat (\<lambda>v. v = signer_verifier cr s) c"
proof (induction c)
  case (CNofT t cs)
  then obtain c where c: "c \<in> set cs" "can_sign_one cr c (signer_id cr s)" and t: "t = 1"
    by (auto simp: list_ex_iff)
  from c(1) CNofT.prems(2) have "no_id_collision cr c [s]"
    by (auto simp: no_id_collision_def)
  with CNofT.IH c have ok: "has_verifier cr c (signer_id cr s)" "sat (\<lambda>v. v = signer_verifier cr s) c"
    by auto
  with c(1) have "filter (sat (\<lambda>v. v = signer_verifier cr s)) cs \<noteq> []"
    by (auto simp: filter_empty_conv)
  with ok c(1) t show ?case by (auto simp: list_ex_iff Suc_le_eq)
qed (auto simp: no_id_collision_def)

text \<open>
  \<open>can_signers\<close> with one signer never says yes to a signer who then fails: if it answers
  yes, that signer alone can sign any digest and the result verifies.
\<close>

theorem can_signers_sound:
  assumes "can_signers cr c [s] = Ok True" and "crypto_ok cr" and "no_id_collision cr c [s]"
  shows "\<exists>cs. sign_digest cr (sig_new c) s digest = Ok cs \<and> verify_digest cr cs digest = Ok True"
proof -
  from assms(1) have "can_sign_one cr c (signer_id cr s)"
    by (simp add: can_signers_def can_sign_def)
  note s = can_sign_one_sat [OF this assms(3)]
  then have "\<forall>x \<in> set [s]. has_verifier cr c (signer_id cr x)" by simp
  from sign_verify [OF assms(2,3) this, of digest] s show ?thesis
    by (auto simp: bind_outcome_Ok)
qed

theorem can_signers_sound_witness:
  "\<exists>cs. sign_digest toy_crypto (sig_new (CVerifier (VerifierEd25519 [7]))) (SignerEd25519 [7]) u256_zero
      = Ok cs \<and> verify_digest toy_crypto cs u256_zero = Ok True"
proof -
  have "can_signers toy_crypto (CVerifier (VerifierEd25519 [7])) [SignerEd25519 [7]] = Ok True"
    and "no_id_collision toy_crypto (CVerifier (VerifierEd25519 [7])) [SignerEd25519 [7]]"
    by (simp_all add: can_signers_def can_sign_def signer_id_def no_id_collision_def toy_crypto_def)
  from can_signers_sound [OF this(1) crypto_ok_toy this(2)] show ?thesis .
qed

subsection \<open>Comparing with links\<close>

fun leafless :: "cond_link \<Rightarrow> bool" where
  "leafless (LNofT t ls) = list_all leafless ls"
| "leafless _ = False"

lemma all_ok_True: "all_ok ms = Ok True \<longleftrightarrow> (\<forall>m \<in> set ms. m = Ok True)"
  by (induction ms) (auto simp: bind_outcome_Ok split: if_splits)

lemma equal_link_badge: "equal_link cr c (LBadge ver) \<noteq> Ok True"
  by (induction c) (auto simp: bind_outcome_Ok split: if_splits)

lemma equal_link_leafless: "leafless l \<Longrightarrow> equal_link cr c l = Ok True"
  by (induction l) (auto simp: all_ok_True list_all_iff)

lemma equal_link_NofT: "equal_link cr (CNofT t cs) l = Ok True \<Longrightarrow> leafless l"
  by (induction l) (auto simp: all_ok_True list_all_iff)

text \<open>
  What \<open>equal_link\<close> does with composed links: no condition at all equals the link of a
  badge, since the code compares the badge's inner condition with the same badge link again;
  a threshold condition equals a threshold link exactly when that link has only
  empty threshold lists for leaves, since the code compares the whole condition, and not its parts, with each
  part of the link, and such a link equals every condition.
\<close>

theorem equal_link_composed:
  "equal_link cr c (LBadge ver) \<noteq> Ok True \<and>
   (equal_link cr (CNofT t cs) l = Ok True \<longleftrightarrow> leafless l) \<and>
   (leafless l \<longrightarrow> equal_link cr c l = Ok True)"
  using equal_link_badge equal_link_NofT equal_link_leafless by blast

theorem equal_link_composed_witness:
  "equal_link toy_crypto (CVerifier (VerifierEd25519 [1])) (LNofT 5 []) = Ok True"
  using equal_link_composed [of toy_crypto "CVerifier (VerifierEd25519 [1])" "Minimal u256_zero 0" 0 "[]" "LNofT 5 []"]
  by simp

subsection \<open>Resolving links returns exactly without cycles of badges\<close>

fun link_badges :: "cond_link \<Rightarrow> version_spec set" where
  "link_badges (LBadge ver) = {ver}"
| "link_badges (LNofT t ls) = (\<Union>l\<in>set ls. link_badges l)"
| "link_badges _ = {}"

lemma those_Some: "those ms = Some xs \<longleftrightarrow> ms = map Some xs"
  by (induction ms arbitrary: xs) (auto split: option.splits simp: Cons_eq_map_conv)

lemma to_condition_mono:
  "to_condition n gb gv l = Some c \<Longrightarrow> n \<le> m \<Longrightarrow> to_condition m gb gv l = Some c"
proof (induction n gb gv l arbitrary: m c rule: to_condition.induct)
  case (3 n gb gv ver)
  then obtain m' where m: "m = Suc m'" "n \<le> m'" by (cases m) auto
  show ?case
  proof (cases "gb ver")
    case None
    with 3 m show ?thesis by simp
  next
    case (Some b)
    with 3(2) obtain c' where c': "to_condition n gb gv (bl_condition b) = Some c'"
      and c: "c = CBadge ver (bl_id b) (bl_version b) c'" by auto
    from 3(1) [OF Some c' m(2)] Some m c show ?thesis by simp
  qed
next
  case (4 n gb gv thr ls)
  then obtain m' where m: "m = Suc m'" "n \<le> m'" by (cases m) auto
  from 4(2) obtain cs where cs: "map (to_condition n gb gv) ls = map Some cs" "c = CNofT thr cs"
    by (auto simp: those_Some)
  have "map (to_condition m' gb gv) ls = map Some cs"
  proof (rule nth_equalityI)
    show "length (map (to_condition m' gb gv) ls) = length (map Some cs)"
      using cs(1) by (metis length_map)
    fix i
    assume "i < length (map (to_condition m' gb gv) ls)"
    then have i: "i < length ls" by simp
    have "to_condition n gb gv (ls ! i) = Some (cs ! i)"
      using cs(1) i by (metis length_map nth_map)
    then have "to_condition m' gb gv (ls ! i) = Some (cs ! i)"
      using 4(1) [OF nth_mem [OF i] _ m(2)] by blast
    then show "map (to_condition m' gb gv) ls ! i = map Some cs ! i"
      using i cs(1) by (metis length_map nth_map)
  qed
  with m cs(2) show ?case by (simp add: those_Some)
qed (auto dest!: Suc_le_D)

lemma to_condition_list:
  "\<forall>l \<in> set ls. \<exists>n c. to_condition n gb gv l = Some c \<Longrightarrow>
   \<exists>n cs. map (to_condition n gb gv) ls = map Some cs"
proof (induction ls)
  case Nil
  then show ?case by auto
next
  case (Cons l ls)
  then obtain n c m cs where n: "to_condition n gb gv l = Some c"
    and m: "map (to_condition m gb gv) ls = map Some cs" by auto
  have "to_condition (max n m) gb gv l = Some c"
    using n by (rule to_condition_mono) simp
  moreover have "map (to_condition (max n m) gb gv) ls = map Some cs"
  proof (rule nth_equalityI)
    show "length (map (to_condition (max n m) gb gv) ls) = length (map Some cs)"
      using m by (metis length_map)
    fix i
    assume "i < length (map (to_condition (max n m) gb gv) ls)"
    then have i: "i < length ls" by simp
    have "to_condition m gb gv (ls ! i) = Some (cs ! i)"
      using m i by (metis length_map nth_map)
    then have "to_condition (max n m) gb gv (ls ! i) = Some (cs ! i)"
      by (rule to_condition_mono) simp
    then show "map (to_condition (max n m) gb gv) ls ! i = map Some cs ! i"
      using i m by (metis length_map nth_map)
  qed
  ultimately have "map (to_condition (max n m) gb gv) (l # ls) = map Some (c # cs)"
    by simp
  then show ?case by blast
qed

definition badges_ranked :: "(version_spec \<Rightarrow> badge_link option) \<Rightarrow> (version_spec \<Rightarrow> nat) \<Rightarrow> bool" where
  "badges_ranked gb rank \<longleftrightarrow>
     (\<forall>ver b. gb ver = Some b \<longrightarrow> (\<forall>ver' \<in> link_badges (bl_condition b). rank ver' < rank ver))"

lemma to_condition_ranked:
  assumes "badges_ranked gb rank"
  shows "(\<And>ver. ver \<in> link_badges l \<Longrightarrow> rank ver < r) \<Longrightarrow> \<exists>n c. to_condition n gb gv l = Some c"
proof (induction r arbitrary: l rule: less_induct)
  case (less r)
  show ?case using less.prems
  proof (induction l)
    case (LVerifier k)
    have "to_condition (Suc 0) gb gv (LVerifier k) \<noteq> None" by simp
    then show ?case by blast
  next
    case (LBadge ver)
    then have lt: "rank ver < r" by simp
    show ?case
    proof (cases "gb ver")
      case None
      then have "to_condition (Suc 0) gb gv (LBadge ver) = Some CNotAvailable" by simp
      then show ?thesis by blast
    next
      case (Some b)
      with assms have "\<And>ver'. ver' \<in> link_badges (bl_condition b) \<Longrightarrow> rank ver' < rank ver"
        by (auto simp: badges_ranked_def)
      from less.IH [OF lt this] obtain n c
        where "to_condition n gb gv (bl_condition b) = Some c" by blast
      with Some have "to_condition (Suc n) gb gv (LBadge ver)
          = Some (CBadge ver (bl_id b) (bl_version b) c)" by simp
      then show ?thesis by blast
    qed
  next
    case (LNofT t ls)
    then have "\<forall>l \<in> set ls. \<exists>n c. to_condition n gb gv l = Some c" by fastforce
    from to_condition_list [OF this] obtain n cs
      where "map (to_condition n gb gv) ls = map Some cs" by blast
    then have "to_condition (Suc n) gb gv (LNofT t ls) = Some (CNofT t cs)"
      by (simp add: those_Some)
    then show ?case by blast
  next
    case LFail
    have "to_condition (Suc 0) gb gv LFail \<noteq> None" by simp
    then show ?case by blast
  next
    case LPass
    have "to_condition (Suc 0) gb gv LPass \<noteq> None" by simp
    then show ?case by blast
  qed
qed

text \<open>
  Resolving a link ends whenever the badges that can be looked up are ranked, that is,
  form no cycle, and more depth never changes the result.
  (\<open>to_condition_self_badge\<close> below: with a badge whose condition is the badge itself no
  depth is enough; the code then recurses for ever.)
\<close>

theorem to_condition_terminates:
  assumes "badges_ranked gb rank"
  shows "\<exists>n c. \<forall>m \<ge> n. to_condition m gb gv l = Some c"
proof -
  obtain r where "\<And>ver. ver \<in> link_badges l \<Longrightarrow> rank ver < r"
  proof -
    have "finite (link_badges l)" by (induction l) auto
    then have "\<forall>ver \<in> link_badges l. rank ver < Suc (Max (rank ` link_badges l))"
      by (auto simp: less_Suc_eq_le)
    then show thesis using that by blast
  qed
  from to_condition_ranked [OF assms this] show ?thesis
    using to_condition_mono by blast
qed

theorem to_condition_terminates_witness:
  "\<exists>n c. \<forall>m \<ge> n. to_condition m
     (\<lambda>ver. if ver = Exact u256_zero 1
            then Some \<lparr>bl_id = u256_zero, bl_version = 1, bl_condition = LVerifier u256_zero\<rparr> else None)
     (\<lambda>k. None) (LBadge (Exact u256_zero 1)) = Some c"
  by (rule to_condition_terminates [where rank = "\<lambda>v. 0"]) (simp add: badges_ranked_def)

lemma to_condition_self_badge:
  assumes "gb ver = Some b" and "bl_condition b = LBadge ver"
  shows "to_condition n gb gv (LBadge ver) = None"
  using assms by (induction n) auto

end
