(* ===== verification/KBucket.thy ===== *)
theory KBucket
  imports NodeIds
begin

text \<open>
  Distances and buckets of the routing table, the first half of
  \<open>flmodules/src/dht_router/kademlia.rs\<close>: \<open>KNode::get_depth\<close>, the nodes with their clocks, and
  the operations of \<open>KBucket\<close>. The distance is related to the common prefix of the bits of two
  identifiers; the bucket operations to the multiset of the nodes they keep.

  The clocks are \<open>nat\<close>: they count ticks of one second from 0. A remainder by the ping interval 0 and the subtraction \<open>k - active.len()\<close>, which are the only
  operations here that can panic, are written out as \<open>Panic\<close>.
\<close>

subsection \<open>The depth of an identifier below the root\<close>

text \<open>The loop over the bits of one byte, from the highest.\<close>

fun high_bit :: "u8 \<Rightarrow> nat list \<Rightarrow> nat option" where
  "high_bit x [] = None"
| "high_bit x (i # is) = (if x AND push_bit i 1 \<noteq> 0 then Some i else high_bit x is)"

fun depth_loop :: "nat \<Rightarrow> bytes \<Rightarrow> bytes \<Rightarrow> nat option" where
  "depth_loop index (r # rs) (b # bs) =
     (case high_bit (r XOR b) (rev [0..<8]) of
        Some i \<Rightarrow> Some (index * 8 + 7 - i)
      | None \<Rightarrow> depth_loop (Suc index) rs bs)"
| "depth_loop index _ _ = None"

definition get_depth :: "u256 \<Rightarrow> u256 \<Rightarrow> nat" where
  "get_depth root nid =
     (case depth_loop 0 (u256_bytes root) (u256_bytes nid) of
        Some d \<Rightarrow> d
      | None \<Rightarrow> length (u256_bytes nid) * 8 - 1)"

text \<open>The specification: the length of the common prefix of the bits.\<close>

definition byte_bits :: "u8 \<Rightarrow> bool list" where
  "byte_bits b = map (bit b) (rev [0..<8])"

definition id_bits :: "u256 \<Rightarrow> bool list" where
  "id_bits u = concat (map byte_bits (u256_bytes u))"

fun lcp :: "'a list \<Rightarrow> 'a list \<Rightarrow> nat" where
  "lcp (x # xs) (y # ys) = (if x = y then Suc (lcp xs ys) else 0)"
| "lcp _ _ = 0"

lemma lcp_append_same: "lcp (xs @ as) (xs @ bs) = length xs + lcp as bs"
  by (induction xs) auto

lemma lcp_append_diff:
  "length xs = length ys \<Longrightarrow> xs \<noteq> ys \<Longrightarrow> lcp (xs @ as) (ys @ bs) = lcp xs ys"
  by (induction xs ys rule: list_induct2) auto

lemma lcp_commute: "lcp xs ys = lcp ys xs"
  by (induction xs ys rule: lcp.induct) auto

lemma lcp_le: "lcp xs ys \<le> length xs" and lcp_le2: "lcp xs ys \<le> length ys"
  by (induction xs ys rule: lcp.induct) auto

lemma lcp_ultra: "min (lcp xs ys) (lcp ys zs) \<le> lcp xs zs"
proof (induction xs ys arbitrary: zs rule: lcp.induct)
  case (1 x xs y ys)
  then show ?case by (cases zs) auto
qed auto

lemma lcp_split:
  fixes xs ys zs :: "bool list"
  assumes "lcp xs ys = d" and "lcp xs zs = d" and "d < length xs" and "d < length ys" and "d < length zs"
  shows "d < lcp ys zs"
  using assms
proof (induction xs ys arbitrary: zs d rule: lcp.induct)
  case (1 x xs y ys)
  then show ?case by (cases zs; cases d) (auto split: if_splits)
qed auto

lemma lcp_full: "length xs = length ys \<Longrightarrow> lcp xs ys = length xs \<longleftrightarrow> xs = ys"
  by (induction xs ys rule: list_induct2) auto

lemma bit_u8_eqI: "(\<And>i. i < 8 \<Longrightarrow> bit (a :: u8) i = bit b i) \<Longrightarrow> a = b"
  by (rule bit_word_eqI) simp

lemma high_bit_test: "i < 8 \<Longrightarrow> ((x :: u8) AND 2 ^ i = 0) = (\<not> bit x i)"
  using bit_iff_and_push_bit_not_eq_0 [of x i] by simp

lemma byte_bits_eq_iff: "byte_bits a = byte_bits b \<longleftrightarrow> a = b"
  by (auto simp: byte_bits_def intro!: bit_u8_eqI)

lemma high_bit_lcp:
  "n \<le> 8 \<Longrightarrow> (case high_bit (r XOR b) (rev [0..<n]) of
     Some i \<Rightarrow> i < n \<and> lcp (map (bit r) (rev [0..<n])) (map (bit b) (rev [0..<n])) = n - 1 - i
   | None \<Rightarrow> map (bit r) (rev [0..<n]) = map (bit b) (rev [0..<n]))"
  for r b :: u8
proof (induction n)
  case (Suc n)
  then show ?case
    by (auto simp: high_bit_test bit_xor_iff split: option.splits)
qed simp

lemma length_byte_bits [simp]: "length (byte_bits b) = 8"
  by (simp add: byte_bits_def)

lemma depth_loop_lcp:
  "length rs = length bs \<Longrightarrow>
   (case depth_loop index rs bs of
      Some d \<Rightarrow> rs \<noteq> bs \<and> d = index * 8 + lcp (concat (map byte_bits rs)) (concat (map byte_bits bs))
    | None \<Rightarrow> rs = bs)"
proof (induction rs bs arbitrary: index rule: list_induct2)
  case (Cons r rs b bs)
  show ?case
  proof (cases "high_bit (r XOR b) (rev [0..<8])")
    case None
    with high_bit_lcp [of 8 r b] have "r = b"
      by (simp add: byte_bits_eq_iff [symmetric] byte_bits_def)
    with None Cons.IH [of "Suc index"] show ?thesis
      by (auto simp: lcp_append_same split: option.splits)
  next
    case (Some i)
    with high_bit_lcp [of 8 r b] have i: "i < 8" and l: "lcp (byte_bits r) (byte_bits b) = 7 - i"
      by (auto simp: byte_bits_def)
    have "byte_bits r \<noteq> byte_bits b"
    proof
      assume eq: "byte_bits r = byte_bits b"
      then have "lcp (byte_bits r) (byte_bits b) = 8"
        using lcp_full [of "byte_bits r" "byte_bits b"] by simp
      with l show False by simp
    qed
    with Some i l show ?thesis
      by (auto simp: lcp_append_diff)
  qed
qed simp

lemma length_id_bits: "u256_ok u \<Longrightarrow> length (id_bits u) = 256"
  by (simp add: id_bits_def u256_ok_def length_concat comp_def sum_list_triv)

lemma get_depth_lcp:
  assumes "u256_ok a" and "u256_ok b"
  shows "get_depth a b = min 255 (lcp (id_bits a) (id_bits b))"
proof -
  have len: "length (u256_bytes a) = length (u256_bytes b)" and 32: "length (u256_bytes b) = 32"
    using assms by (simp_all add: u256_ok_def)
  show ?thesis
  proof (cases "depth_loop 0 (u256_bytes a) (u256_bytes b)")
    case None
    with depth_loop_lcp [OF len, of 0] have "id_bits a = id_bits b"
      by (simp add: id_bits_def)
    then have "lcp (id_bits a) (id_bits b) = 256"
      using lcp_full [of "id_bits a" "id_bits b"] length_id_bits [OF assms(1)] by simp
    with None 32 show ?thesis by (simp add: get_depth_def)
  next
    case (Some d)
    with depth_loop_lcp [OF len, of 0] have d: "d = lcp (id_bits a) (id_bits b)"
      and ne: "u256_bytes a \<noteq> u256_bytes b"
      by (auto simp: id_bits_def)
    have "lcp (id_bits a) (id_bits b) \<noteq> 256"
    proof
      assume "lcp (id_bits a) (id_bits b) = 256"
      then have eq: "id_bits a = id_bits b"
        using lcp_full [of "id_bits a" "id_bits b"] length_id_bits assms by simp
      have "inj byte_bits" by (simp add: inj_def byte_bits_eq_iff)
      have "map byte_bits (u256_bytes a) = map byte_bits (u256_bytes b)"
        using eq len by (intro concat_injective) (auto simp: id_bits_def zip_map_map set_zip)
      with ne \<open>inj byte_bits\<close> show False by (simp add: inj_map_eq_map)
    qed
    moreover have "lcp (id_bits a) (id_bits b) \<le> 256"
      using lcp_le [of "id_bits a" "id_bits b"] length_id_bits [OF assms(1)] by simp
    ultimately show ?thesis
      using Some d by (simp add: get_depth_def)
  qed
qed

lemma get_depth_bound: "u256_ok a \<Longrightarrow> u256_ok b \<Longrightarrow> get_depth a b < 256"
  by (simp add: get_depth_lcp)

text \<open>
  The depth is the length of the common prefix of two identifiers, cut off at 255, so it
  is symmetric and an ultrametric; and two different nodes that leave the root's path at the
  same bit agree on that bit, so each is nearer to the other than to the root.
\<close>

theorem get_depth_metric:
  assumes "u256_ok a" and "u256_ok b" and "u256_ok c"
  shows "get_depth a b = min 255 (lcp (id_bits a) (id_bits b)) \<and>
    get_depth a b = get_depth b a \<and>
    min (get_depth a b) (get_depth b c) \<le> get_depth a c \<and>
    (get_depth a b = get_depth a c \<and> get_depth a b < 255 \<longrightarrow> get_depth a b < get_depth b c)"
proof -
  have "lcp (id_bits a) (id_bits b) < lcp (id_bits b) (id_bits c)"
    if "min 255 (lcp (id_bits a) (id_bits b)) = min 255 (lcp (id_bits a) (id_bits c))"
      and "min 255 (lcp (id_bits a) (id_bits b)) < 255"
    using that assms
    by (intro lcp_split [of "id_bits a"]) (auto simp: length_id_bits)
  with lcp_ultra [of "id_bits a" "id_bits b" "id_bits c"] show ?thesis
    by (auto simp: get_depth_lcp assms lcp_commute)
qed

theorem get_depth_metric_witness:
  "get_depth u256_zero (U256 (64 # replicate 31 0)) = 1 \<and>
   get_depth u256_zero (U256 (64 # replicate 31 0)) = get_depth (U256 (64 # replicate 31 0)) u256_zero"
proof -
  have "u256_ok u256_zero" "u256_ok (U256 (64 # replicate 31 0))"
    by (simp_all add: u256_ok_def u256_zero_def)
  from get_depth_metric [OF this this(1)]
  have "get_depth u256_zero (U256 (64 # replicate 31 0)) = get_depth (U256 (64 # replicate 31 0)) u256_zero"
    by blast
  moreover have "get_depth u256_zero (U256 (64 # replicate 31 0)) = 1"
    by code_simp
  ultimately show ?thesis by simp
qed

subsection \<open>Nodes and buckets\<close>

record kconfig =
  cfg_k :: nat
  ping_interval :: nat
  ping_timeout :: nat

definition kconfig_default :: kconfig where
  "kconfig_default = \<lparr>cfg_k = 2, ping_interval = 10, ping_timeout = 30\<rparr>"

record knode =
  kn_id :: u256
  kn_depth :: nat
  ticks_active :: nat
  ticks_last :: nat

definition knode_new :: "u256 \<Rightarrow> u256 \<Rightarrow> knode" where
  "knode_new root nid = \<lparr>kn_id = nid, kn_depth = get_depth root nid, ticks_active = 0, ticks_last = 0\<rparr>"

definition knode_tick :: "knode \<Rightarrow> knode" where
  "knode_tick n = n\<lparr>ticks_active := Suc (ticks_active n), ticks_last := Suc (ticks_last n)\<rparr>"

definition knode_active :: "knode \<Rightarrow> knode" where
  "knode_active n = n\<lparr>ticks_last := 0\<rparr>"

record kbucket =
  active :: "knode list"
  cache :: "knode list"
  config :: kconfig
  is_root :: bool

datatype bucket_status = Overflowing | Stable | Wanting

record tick_ids =
  deleted :: node_ids
  ping :: node_ids

definition ticks_extend :: "tick_ids \<Rightarrow> tick_ids \<Rightarrow> tick_ids" where
  "ticks_extend t u = \<lparr>deleted = deleted t @ deleted u, ping = ping t @ ping u\<rparr>"

definition no_ticks :: tick_ids where
  "no_ticks = \<lparr>deleted = [], ping = []\<rparr>"

definition kbucket_new :: "kconfig \<Rightarrow> kbucket" where
  "kbucket_new c = \<lparr>active = [], cache = [], config = c, is_root = False\<rparr>"

definition kbucket_new_root :: "kconfig \<Rightarrow> kbucket" where
  "kbucket_new_root c = \<lparr>active = [], cache = [], config = c, is_root = True\<rparr>"

definition b_add_node :: "knode \<Rightarrow> kbucket \<Rightarrow> kbucket" where
  "b_add_node n b =
     (if is_root b \<or> length (cache b) < 2 * cfg_k (config b)
      then b\<lparr>cache := cache b @ [n]\<rparr> else b)"

definition b_add_nodes :: "knode list \<Rightarrow> kbucket \<Rightarrow> kbucket" where
  "b_add_nodes ns b = fold b_add_node ns b"

definition b_add_node_active :: "knode \<Rightarrow> kbucket \<Rightarrow> kbucket" where
  "b_add_node_active n b =
     (if is_root b \<or> length (active b) < cfg_k (config b)
      then b\<lparr>active := sort_key kn_depth (active b @ [n])\<rparr>
      else if length (cache b) < cfg_k (config b)
      then b\<lparr>cache := cache b @ [n]\<rparr>
      else b)"

definition b_add_nodes_active :: "knode list \<Rightarrow> kbucket \<Rightarrow> kbucket" where
  "b_add_nodes_active ns b = fold b_add_node_active ns b"

definition b_remove_node :: "u256 \<Rightarrow> kbucket \<Rightarrow> kbucket" where
  "b_remove_node nid b =
     b\<lparr>active := filter (\<lambda>n. kn_id n \<noteq> nid) (active b),
       cache := filter (\<lambda>n. kn_id n \<noteq> nid) (cache b)\<rparr>"

text \<open>The loop that takes up to \<open>n\<close> nodes of a depth out of a list: what it took, what is left.\<close>

fun take_at_depth :: "nat \<Rightarrow> nat \<Rightarrow> knode list \<Rightarrow> knode list \<Rightarrow> knode list \<times> knode list" where
  "take_at_depth 0 depth ns taken = (taken, ns)"
| "take_at_depth (Suc n) depth ns taken =
     (case position (\<lambda>kn. kn_depth kn = depth) ns of
        Some pos \<Rightarrow> take_at_depth n depth (vec_remove pos ns) (taken @ [ns ! pos])
      | None \<Rightarrow> take_at_depth n depth ns taken)"

definition remove_all_nodes_at_depth :: "nat \<Rightarrow> kbucket \<Rightarrow> (knode list \<times> knode list) \<times> kbucket" where
  "remove_all_nodes_at_depth depth b =
     (let max_nodes = (length (cache b) + length (active b)) - cfg_k (config b);
          (taken_cache, cache') = take_at_depth max_nodes depth (cache b) [];
          (taken_active, active') = take_at_depth (max_nodes - length taken_cache) depth (active b) []
      in ((taken_active, taken_cache), b\<lparr>active := active', cache := cache'\<rparr>))"

definition get_active_ids :: "nat \<Rightarrow> kbucket \<Rightarrow> node_ids" where
  "get_active_ids depth b = map kn_id (filter (\<lambda>kn. kn_depth kn = depth) (active b))"

definition last_depth :: "kbucket \<Rightarrow> nat option" where
  "last_depth b = (if active b = [] then None else Some (kn_depth (last (active b))))"

definition overflow_imbalance :: "kbucket \<Rightarrow> bool" where
  "overflow_imbalance b =
     (let depths = sort (map kn_depth (active b @ cache b)) in
      case depths of
        [] \<Rightarrow> False
      | first # _ \<Rightarrow> length depths - count_list depths first < cfg_k (config b))"

definition bucket_status :: "kbucket \<Rightarrow> bucket_status" where
  "bucket_status b =
     (let nodes = length (active b) + length (cache b) in
      if 2 * cfg_k (config b) \<le> nodes
      then if overflow_imbalance b then Stable else Overflowing
      else if nodes < cfg_k (config b) then Wanting else Stable)"

subsection \<open>The clock of a bucket\<close>

definition rem_is_zero :: "nat \<Rightarrow> nat \<Rightarrow> (unit, bool) outcome" where
  "rem_is_zero a b = (if b = 0 then Panic else Ok (a mod b = 0))"

fun tick_active_loop :: "kconfig \<Rightarrow> knode list \<Rightarrow> (unit, knode list \<times> tick_ids) outcome" where
  "tick_active_loop c [] = Ok ([], no_ticks)"
| "tick_active_loop c (n # ns) =
     (let n' = knode_tick n in
      bind_outcome (rem_is_zero (ticks_last n') (ping_interval c)) (\<lambda>pings.
      bind_outcome (tick_active_loop c ns) (\<lambda>(ns', t).
        Ok (n' # ns', ticks_extend
              \<lparr>deleted = (if ping_timeout c \<le> ticks_last n' then [kn_id n] else []),
               ping = (if pings then [kn_id n] else [])\<rparr> t))))"

definition tick_active :: "kbucket \<Rightarrow> (unit, kbucket \<times> tick_ids) outcome" where
  "tick_active b =
     bind_outcome (tick_active_loop (config b) (active b))
       (\<lambda>(ns, t). Ok (b\<lparr>active := ns\<rparr>, t))"

fun tick_cache_loop :: "kconfig \<Rightarrow> nat \<Rightarrow> knode list \<Rightarrow> (unit, knode list \<times> tick_ids) outcome" where
  "tick_cache_loop c 0 ns = Ok (ns, no_ticks)"
| "tick_cache_loop c (Suc m) [] = Ok ([], no_ticks)"
| "tick_cache_loop c (Suc m) (n # ns) =
     bind_outcome (rem_is_zero (ticks_last n) (ping_interval c)) (\<lambda>pings.
     let n' = knode_tick n in
     bind_outcome (tick_cache_loop c m ns) (\<lambda>(ns', t).
       Ok (n' # ns', ticks_extend
             \<lparr>deleted = (if ping_timeout c \<le> ticks_last n' then [kn_id n] else []),
              ping = (if pings then [kn_id n] else [])\<rparr> t)))"

definition fillup_nodes :: "kbucket \<Rightarrow> (unit, nat) outcome" where
  "fillup_nodes b =
     (if is_root b then Ok (length (cache b))
      else if cfg_k (config b) < length (active b) then Panic
      else Ok (2 * (cfg_k (config b) - length (active b))))"

definition tick_cache :: "kbucket \<Rightarrow> (unit, kbucket \<times> tick_ids) outcome" where
  "tick_cache b =
     bind_outcome (fillup_nodes b) (\<lambda>fillup.
     bind_outcome (tick_cache_loop (config b) fillup (cache b))
       (\<lambda>(ns, t). Ok (b\<lparr>cache := ns\<rparr>, t)))"

definition b_tick :: "kbucket \<Rightarrow> (unit, kbucket \<times> tick_ids) outcome" where
  "b_tick b =
     bind_outcome (tick_active b) (\<lambda>(b1, t1).
     bind_outcome (tick_cache b1) (\<lambda>(b2, t2).
       let t = ticks_extend t1 t2 in Ok (fold b_remove_node (deleted t) b2, t)))"

definition b_node_active :: "u256 \<Rightarrow> kbucket \<Rightarrow> kbucket \<times> bool" where
  "b_node_active nid b =
     (case position (\<lambda>kn. kn_id kn = nid) (active b) of
        Some i \<Rightarrow> (b\<lparr>active := (active b)[i := knode_active (active b ! i)]\<rparr>, False)
      | None \<Rightarrow>
          (case position (\<lambda>kn. kn_id kn = nid) (cache b) of
             None \<Rightarrow> (b, False)
           | Some pos \<Rightarrow>
               let kn = knode_active (cache b ! pos);
                   b' = b\<lparr>cache := vec_remove pos (cache b)\<rparr>
               in if is_root b' \<or> length (active b') < cfg_k (config b')
                  then (b'\<lparr>active := sort_key kn_depth (active b' @ [kn])\<rparr>, True)
                  else (b'\<lparr>cache := cache b' @ [kn]\<rparr>, False)))"

definition b_has_node_id :: "u256 \<Rightarrow> kbucket \<Rightarrow> bool" where
  "b_has_node_id nid b \<longleftrightarrow> list_ex (\<lambda>kn. kn_id kn = nid) (active b @ cache b)"

subsection \<open>What the operations do to the nodes of a bucket\<close>

definition b_nodes :: "kbucket \<Rightarrow> knode list" where
  "b_nodes b = active b @ cache b"

lemma b_frame [simp]:
  "config (b_add_node n b) = config b" "is_root (b_add_node n b) = is_root b"
  "config (b_add_node_active n b) = config b" "is_root (b_add_node_active n b) = is_root b"
  "config (b_remove_node nid b) = config b" "is_root (b_remove_node nid b) = is_root b"
  "config (fst (b_node_active nid b)) = config b" "is_root (fst (b_node_active nid b)) = is_root b"
  by (simp_all add: b_add_node_def b_add_node_active_def b_remove_node_def b_node_active_def Let_def
      split: option.split)

lemma b_add_nodes_frame [simp]:
  "config (b_add_nodes ns b) = config b" "is_root (b_add_nodes ns b) = is_root b"
  "config (b_add_nodes_active ns b) = config b" "is_root (b_add_nodes_active ns b) = is_root b"
  by (induction ns arbitrary: b; simp add: b_add_nodes_def b_add_nodes_active_def)+

lemma b_nodes_new [simp]: "b_nodes (kbucket_new c) = []" "b_nodes (kbucket_new_root c) = []"
  by (simp_all add: b_nodes_def kbucket_new_def kbucket_new_root_def)

lemma mset_b_add_node: "mset (b_nodes (b_add_node n b)) \<subseteq># mset (n # b_nodes b)"
  by (simp add: b_nodes_def b_add_node_def)

lemma mset_b_add_node_active: "mset (b_nodes (b_add_node_active n b)) \<subseteq># mset (n # b_nodes b)"
  by (simp add: b_nodes_def b_add_node_active_def)

lemma mset_b_add_nodes: "mset (b_nodes (b_add_nodes ns b)) \<subseteq># mset ns + mset (b_nodes b)"
proof (induction ns arbitrary: b)
  case (Cons n ns)
  have "mset (b_nodes (b_add_nodes (n # ns) b)) \<subseteq># mset ns + mset (b_nodes (b_add_node n b))"
    using Cons [of "b_add_node n b"] by (simp add: b_add_nodes_def)
  also have "\<dots> \<subseteq># mset ns + mset (n # b_nodes b)"
    by (simp only: subset_mset.add_left_mono mset_b_add_node)
  finally show ?case by simp
qed (simp add: b_add_nodes_def)

lemma mset_b_add_nodes_active: "mset (b_nodes (b_add_nodes_active ns b)) \<subseteq># mset ns + mset (b_nodes b)"
proof (induction ns arbitrary: b)
  case (Cons n ns)
  have "mset (b_nodes (b_add_nodes_active (n # ns) b)) \<subseteq># mset ns + mset (b_nodes (b_add_node_active n b))"
    using Cons [of "b_add_node_active n b"] by (simp add: b_add_nodes_active_def)
  also have "\<dots> \<subseteq># mset ns + mset (n # b_nodes b)"
    by (simp only: subset_mset.add_left_mono mset_b_add_node_active)
  finally show ?case by simp
qed (simp add: b_add_nodes_active_def)

text \<open>A root bucket keeps all it is given.\<close>

lemma root_add_nodes:
  assumes "is_root b"
  shows "mset (b_nodes (b_add_nodes ns b)) = mset ns + mset (b_nodes b)"
    and "mset (b_nodes (b_add_nodes_active ns b)) = mset ns + mset (b_nodes b)"
  using assms
proof (induction ns arbitrary: b)
  case (Cons n ns)
  {
    case 1
    with Cons(1) [of "b_add_node n b"] show ?case
      by (simp add: b_add_nodes_def) (simp add: b_add_node_def b_nodes_def)
  next
    case 2
    with Cons(2) [of "b_add_node_active n b"] show ?case
      by (simp add: b_add_nodes_active_def) (simp add: b_add_node_active_def b_nodes_def)
  }
qed (simp_all add: b_add_nodes_def b_add_nodes_active_def)

lemma b_nodes_remove: "b_nodes (b_remove_node nid b) = filter (\<lambda>n. kn_id n \<noteq> nid) (b_nodes b)"
  by (simp add: b_nodes_def b_remove_node_def)

lemma b_has_node_id_iff: "b_has_node_id nid b \<longleftrightarrow> nid \<in> kn_id ` set (b_nodes b)"
  by (auto simp: b_has_node_id_def b_nodes_def list_ex_iff)

lemma take_at_depth_mset:
  "take_at_depth n d ns taken = (t, rest) \<Longrightarrow> mset t + mset rest = mset taken + mset ns"
proof (induction n arbitrary: ns taken)
  case (Suc n)
  show ?case
  proof (cases "position (\<lambda>kn. kn_depth kn = d) ns")
    case None
    with Suc show ?thesis by simp
  next
    case (Some pos)
    with position_Some [OF this] have "pos < length ns" by simp
    from mset_vec_remove [OF this] Suc.IH [of "vec_remove pos ns" "taken @ [ns ! pos]"] Some Suc.prems
    show ?thesis by simp
  qed
qed simp

lemma take_at_depth_depth:
  "take_at_depth n d ns taken = (t, rest) \<Longrightarrow> \<forall>x \<in> set taken. kn_depth x = d \<Longrightarrow>
   \<forall>x \<in> set t. kn_depth x = d"
proof (induction n arbitrary: ns taken)
  case (Suc n)
  show ?case
  proof (cases "position (\<lambda>kn. kn_depth kn = d) ns")
    case None
    with Suc.prems have "take_at_depth n d ns taken = (t, rest)" by simp
    from Suc.IH [OF this Suc.prems(2)] show ?thesis .
  next
    case (Some pos)
    with Suc.prems have "take_at_depth n d (vec_remove pos ns) (taken @ [ns ! pos]) = (t, rest)"
      by simp
    moreover have "\<forall>x \<in> set (taken @ [ns ! pos]). kn_depth x = d"
      using Suc.prems(2) position_Some [OF Some] by auto
    ultimately show ?thesis by (rule Suc.IH)
  qed
qed simp

text \<open>Enough rounds take every node of the depth.\<close>

lemma take_at_depth_all:
  "take_at_depth n d ns taken = (t, rest) \<Longrightarrow> length (filter (\<lambda>x. kn_depth x = d) ns) \<le> n \<Longrightarrow>
   (\<forall>x \<in> set rest. kn_depth x \<noteq> d) \<and>
   length t = length taken + length (filter (\<lambda>x. kn_depth x = d) ns)"
proof (induction n arbitrary: ns taken)
  case 0
  then show ?case by (auto simp: filter_empty_conv)
next
  case (Suc n)
  show ?case
  proof (cases "position (\<lambda>kn. kn_depth kn = d) ns")
    case None
    then have none: "filter (\<lambda>x. kn_depth x = d) ns = []"
      by (simp add: position_None filter_empty_conv)
    with Suc.IH [of ns taken] None Suc.prems show ?thesis by simp
  next
    case (Some pos)
    with position_Some [OF this] have p: "pos < length ns" "kn_depth (ns ! pos) = d" by auto
    have "size (filter_mset (\<lambda>x. kn_depth x = d) (mset ns))
        = Suc (size (filter_mset (\<lambda>x. kn_depth x = d) (mset (vec_remove pos ns))))"
      using mset_vec_remove [OF p(1)] p(2) by simp
    then have "length (filter (\<lambda>x. kn_depth x = d) ns)
        = Suc (length (filter (\<lambda>x. kn_depth x = d) (vec_remove pos ns)))"
      by (metis mset_filter size_mset)
    with Suc.IH [of "vec_remove pos ns" "taken @ [ns ! pos]"] Some Suc.prems show ?thesis by simp
  qed
qed

end
