(* ===== verification/Kademlia.thy ===== *)
theory Kademlia
  imports KBucket "HOL-Library.While_Combinator"
begin

text \<open>
  The routing table of the distributed hash table, \<open>struct Kademlia\<close> of
  \<open>flmodules/src/dht_router/kademlia.rs\<close>: one bucket per depth below the root's identifier and
  a root bucket for all greater depths, which is split when it overflows and merged back when
  it runs dry. The splitting loop is \<open>while_option\<close>, so that not returning is \<open>None\<close>; it is
  shown to return from every table that satisfies the invariant \<open>kad_ok\<close>.
\<close>

record kademlia =
  buckets :: "kbucket list"
  root_bucket :: kbucket
  kroot :: u256
  kconf :: kconfig

definition kademlia_new :: "u256 \<Rightarrow> kconfig \<Rightarrow> kademlia" where
  "kademlia_new root c =
     \<lparr>buckets = [], root_bucket = kbucket_new_root c, kroot = root, kconf = c\<rparr>"

definition has_node_id :: "u256 \<Rightarrow> kademlia \<Rightarrow> bool" where
  "has_node_id nid kad \<longleftrightarrow>
     (if list_ex (b_has_node_id nid) (buckets kad) then True
      else b_has_node_id nid (root_bucket kad))"

text \<open>One round of the splitting loop: the nodes of the next depth get a bucket of their own.\<close>

definition split_root :: "kademlia \<Rightarrow> kademlia" where
  "split_root kad =
     (let ((act, cac), rb) = remove_all_nodes_at_depth (length (buckets kad)) (root_bucket kad);
          bucket = b_add_nodes cac (b_add_nodes_active act (kbucket_new (kconf kad)))
      in kad\<lparr>root_bucket := rb, buckets := buckets kad @ [bucket]\<rparr>)"

definition rebalance_overflow :: "kademlia \<Rightarrow> kademlia option" where
  "rebalance_overflow kad =
     while_option (\<lambda>k. bucket_status (root_bucket k) = Overflowing) split_root kad"

definition merge_last :: "kademlia \<Rightarrow> kademlia" where
  "merge_last kad =
     (let bucket = last (buckets kad)
      in kad\<lparr>buckets := butlast (buckets kad),
             root_bucket := b_add_nodes (cache bucket)
                              (b_add_nodes_active (active bucket) (root_bucket kad))\<rparr>)"

function rebalance_wanting :: "kademlia \<Rightarrow> kademlia" where
  "rebalance_wanting kad =
     (if bucket_status (root_bucket kad) = Wanting
      then if buckets kad = [] then kad else rebalance_wanting (merge_last kad)
      else kad)"
  by pat_completeness auto
termination
  by (relation "measure (\<lambda>kad. length (buckets kad))") (auto simp: merge_last_def Let_def)

declare rebalance_wanting.simps [simp del]

definition add_node :: "u256 \<Rightarrow> kademlia \<Rightarrow> kademlia option" where
  "add_node nid kad =
     (if nid = kroot kad \<or> has_node_id nid kad then Some kad
      else let node = knode_new (kroot kad) nid in
        if kn_depth node < length (buckets kad)
        then Some (kad\<lparr>buckets := (buckets kad)[kn_depth node :=
               b_add_node node (buckets kad ! kn_depth node)]\<rparr>)
        else let kad' = kad\<lparr>root_bucket := b_add_node node (root_bucket kad)\<rparr>
             in if bucket_status (root_bucket kad') = Overflowing
                then rebalance_overflow kad' else Some kad')"

fun add_nodes :: "node_ids \<Rightarrow> kademlia \<Rightarrow> kademlia option" where
  "add_nodes [] kad = Some kad"
| "add_nodes (n # ns) kad = Option.bind (add_node n kad) (add_nodes ns)"

definition node_disconnected :: "u256 \<Rightarrow> kademlia \<Rightarrow> kademlia" where
  "node_disconnected nid kad =
     (let depth = kn_depth (knode_new (kroot kad) nid) in
      if depth < length (buckets kad)
      then let kad' = kad\<lparr>buckets := (buckets kad)[depth := b_remove_node nid (buckets kad ! depth)]\<rparr>
           in if bucket_status (root_bucket kad') = Wanting then rebalance_wanting kad' else kad'
      else kad)"

definition remove_node :: "u256 \<Rightarrow> kademlia \<Rightarrow> kademlia" where
  "remove_node nid kad =
     (let depth = kn_depth (knode_new (kroot kad) nid) in
      if depth < length (buckets kad)
      then kad\<lparr>buckets := (buckets kad)[depth := b_remove_node nid (buckets kad ! depth)]\<rparr>
      else let kad' = kad\<lparr>root_bucket := b_remove_node nid (root_bucket kad)\<rparr>
           in if bucket_status (root_bucket kad') = Wanting then rebalance_wanting kad' else kad')"

definition get_nodes_depth :: "nat \<Rightarrow> kademlia \<Rightarrow> node_ids" where
  "get_nodes_depth depth kad =
     (if depth < length (buckets kad)
      then get_active_ids depth (buckets kad ! depth)
      else get_active_ids depth (root_bucket kad))"

fun first_nonempty :: "(nat \<Rightarrow> node_ids) \<Rightarrow> nat list \<Rightarrow> node_ids" where
  "first_nonempty f [] = []"
| "first_nonempty f (d # ds) = (if f d \<noteq> [] then f d else first_nonempty f ds)"

definition route_closest :: "u256 \<Rightarrow> u256 option \<Rightarrow> kademlia \<Rightarrow> node_ids" where
  "route_closest dst last_node kad =
     (let depth = get_depth (kroot kad) dst in
      case last_node of
        Some l \<Rightarrow>
          let depth_last = max depth (get_depth (kroot kad) l);
              depth_root_last = (case last_depth (root_bucket kad) of
                                   Some d \<Rightarrow> d | None \<Rightarrow> depth_last)
          in first_nonempty (\<lambda>d. get_nodes_depth d kad) (depth # [depth_last + 1..<depth_root_last])
      | None \<Rightarrow> get_nodes_depth depth kad)"

definition route_direct :: "u256 \<Rightarrow> kademlia \<Rightarrow> node_ids" where
  "route_direct dst kad = get_nodes_depth (get_depth (kroot kad) dst) kad"

definition active_nodes :: "kademlia \<Rightarrow> node_ids" where
  "active_nodes kad = map kn_id (concat (map active (buckets kad)) @ active (root_bucket kad))"

definition bucket_nodes :: "kademlia \<Rightarrow> node_ids list" where
  "bucket_nodes kad = map (map kn_id) (map active (buckets kad) @ [active (root_bucket kad)])"

definition cache_nodes :: "kademlia \<Rightarrow> node_ids" where
  "cache_nodes kad = map kn_id (concat (map cache (buckets kad)) @ cache (root_bucket kad))"

definition node_active :: "u256 \<Rightarrow> kademlia \<Rightarrow> kademlia \<times> bool" where
  "node_active nid kad =
     (let depth = get_depth (kroot kad) nid in
      if depth < length (buckets kad)
      then let (b, r) = b_node_active nid (buckets kad ! depth)
           in (kad\<lparr>buckets := (buckets kad)[depth := b]\<rparr>, r)
      else let (b, r) = b_node_active nid (root_bucket kad)
           in (kad\<lparr>root_bucket := b\<rparr>, r))"

fun tick_buckets :: "kbucket list \<Rightarrow> (unit, kbucket list \<times> tick_ids) outcome" where
  "tick_buckets [] = Ok ([], no_ticks)"
| "tick_buckets (b # bs) =
     bind_outcome (b_tick b) (\<lambda>(b', t).
     bind_outcome (tick_buckets bs) (\<lambda>(bs', t'). Ok (b' # bs', ticks_extend t t')))"

definition kad_tick :: "kademlia \<Rightarrow> (unit, kademlia \<times> tick_ids) outcome" where
  "kad_tick kad =
     bind_outcome (tick_buckets (buckets kad)) (\<lambda>(bs, t).
     bind_outcome (b_tick (root_bucket kad)) (\<lambda>(rb, t').
       Ok (kad\<lparr>buckets := bs, root_bucket := rb\<rparr>, ticks_extend t t')))"

subsection \<open>The invariant\<close>

definition all_nodes :: "kademlia \<Rightarrow> knode list" where
  "all_nodes kad = concat (map b_nodes (buckets kad)) @ b_nodes (root_bucket kad)"

definition bucket_ok :: "kconfig \<Rightarrow> kbucket \<Rightarrow> bool" where
  "bucket_ok c b \<longleftrightarrow> config b = c \<and> \<not> is_root b \<and>
     length (active b) \<le> cfg_k c \<and> length (cache b) \<le> 2 * cfg_k c"

definition placed :: "u256 \<Rightarrow> (nat \<Rightarrow> bool) \<Rightarrow> kbucket \<Rightarrow> bool" where
  "placed root P b \<longleftrightarrow> (\<forall>n \<in> set (b_nodes b).
     kn_depth n = get_depth root (kn_id n) \<and> kn_depth n < 256 \<and> P (kn_depth n))"

definition kad_ok :: "kademlia \<Rightarrow> bool" where
  "kad_ok kad \<longleftrightarrow>
     length (buckets kad) < 256 \<and>
     (\<forall>b \<in> set (buckets kad). bucket_ok (kconf kad) b) \<and>
     (\<forall>i < length (buckets kad). placed (kroot kad) (\<lambda>d. d = i) (buckets kad ! i)) \<and>
     is_root (root_bucket kad) \<and> config (root_bucket kad) = kconf kad \<and>
     placed (kroot kad) (\<lambda>d. length (buckets kad) \<le> d) (root_bucket kad) \<and>
     distinct (map kn_id (all_nodes kad)) \<and>
     kroot kad \<notin> kn_id ` set (all_nodes kad)"

lemma kad_ok_new: "kad_ok (kademlia_new root c)"
  by (simp add: kad_ok_def kademlia_new_def all_nodes_def placed_def)
    (simp add: kbucket_new_root_def)

lemma placed_mono:
  "placed root P b \<Longrightarrow> set (b_nodes b') \<subseteq> set (b_nodes b) \<Longrightarrow>
   (\<And>d. P d \<Longrightarrow> d < 256 \<Longrightarrow> Q d) \<Longrightarrow> placed root Q b'"
  by (auto simp: placed_def)

text \<open>Distinct identifiers survive when nodes only get lost.\<close>

lemma distinct_mset_sub:
  assumes "distinct (map f xs)" and "mset ys \<subseteq># mset xs"
  shows "distinct (map f ys)"
proof -
  have "image_mset f (mset ys) \<subseteq># image_mset f (mset xs)"
    using assms(2) by (rule image_mset_subseteq_mono)
  then have "mset (map f ys) \<subseteq># mset (map f xs)" by simp
  then have "count (mset (map f ys)) a \<le> count (mset (map f xs)) a" for a
    by (rule mset_subset_eq_count)
  with assms(1) show ?thesis
    unfolding distinct_iff_count by (meson order_trans)
qed

lemma all_nodes_sub:
  assumes "distinct (map kn_id (all_nodes kad))" and "kroot kad \<notin> kn_id ` set (all_nodes kad)"
    and "mset (all_nodes kad') \<subseteq># mset (all_nodes kad)" and "kroot kad' = kroot kad"
  shows "distinct (map kn_id (all_nodes kad')) \<and> kroot kad' \<notin> kn_id ` set (all_nodes kad')"
  using assms(1,2,4) distinct_mset_sub [OF assms(1,3)] set_mset_mono [OF assms(3)] by auto

lemma mset_buckets_update:
  assumes "i < length bs"
  shows "mset (concat (map b_nodes (bs[i := b]))) + mset (b_nodes (bs ! i))
    = mset (concat (map b_nodes bs)) + mset (b_nodes b)"
  using assms
proof (induction bs arbitrary: i)
  case (Cons c bs)
  then show ?case by (cases i) (auto simp: ac_simps)
qed simp

lemma mset_buckets_update_sub:
  assumes "i < length bs" and "mset (b_nodes b) \<subseteq># M + mset (b_nodes (bs ! i))"
  shows "mset (concat (map b_nodes (bs[i := b]))) \<subseteq># M + mset (concat (map b_nodes bs))"
proof -
  have "mset (concat (map b_nodes bs)) + mset (b_nodes b)
      \<subseteq># mset (concat (map b_nodes bs)) + (M + mset (b_nodes (bs ! i)))"
    using assms(2) by (rule subset_mset.add_left_mono)
  then have "mset (concat (map b_nodes (bs[i := b]))) + mset (b_nodes (bs ! i))
      \<subseteq># (M + mset (concat (map b_nodes bs))) + mset (b_nodes (bs ! i))"
    using mset_buckets_update [OF assms(1), of b] by (simp add: ac_simps)
  then show ?thesis by (simp only: subset_mset.add_le_cancel_right)
qed

subsection \<open>Changing one bucket\<close>

lemma kad_ok_nodes:
  assumes "kad_ok kad" and "mset (all_nodes kad') \<subseteq># mset (ns @ all_nodes kad)"
    and "distinct (map kn_id (ns @ all_nodes kad))" and "kroot kad \<notin> kn_id ` set ns"
    and "kroot kad' = kroot kad"
  shows "distinct (map kn_id (all_nodes kad')) \<and> kroot kad' \<notin> kn_id ` set (all_nodes kad')"
proof
  show "distinct (map kn_id (all_nodes kad'))"
    by (rule distinct_mset_sub [OF assms(3,2)])
  show "kroot kad' \<notin> kn_id ` set (all_nodes kad')"
    using set_mset_mono [OF assms(2)] assms(1,4,5) by (auto simp: kad_ok_def)
qed

lemma kad_ok_change_bucket:
  assumes "kad_ok kad" and "i < length (buckets kad)"
    and "bucket_ok (kconf kad) b" and "placed (kroot kad) (\<lambda>d. d = i) b"
    and "mset (b_nodes b) \<subseteq># mset ns + mset (b_nodes (buckets kad ! i))"
    and "distinct (map kn_id (ns @ all_nodes kad))" and "kroot kad \<notin> kn_id ` set ns"
  shows "kad_ok (kad\<lparr>buckets := (buckets kad)[i := b]\<rparr>)"
proof -
  let ?kad = "kad\<lparr>buckets := (buckets kad)[i := b]\<rparr>"
  have "mset (all_nodes ?kad) \<subseteq># mset (ns @ all_nodes kad)"
    using mset_buckets_update_sub [OF assms(2,5)] by (simp add: all_nodes_def)
  from kad_ok_nodes [OF assms(1) this assms(6,7)]
  have "distinct (map kn_id (all_nodes ?kad)) \<and> kroot ?kad \<notin> kn_id ` set (all_nodes ?kad)"
    by simp
  moreover have "\<forall>j < length (buckets kad). placed (kroot kad) (\<lambda>d. d = j) ((buckets kad)[i := b] ! j)"
  proof (intro allI impI)
    fix j
    assume "j < length (buckets kad)"
    then show "placed (kroot kad) (\<lambda>d. d = j) ((buckets kad)[i := b] ! j)"
      using assms(1,2,4) by (cases "i = j") (auto simp: kad_ok_def)
  qed
  moreover have "\<forall>x \<in> set ((buckets kad)[i := b]). bucket_ok (kconf kad) x"
    using assms(1,3) set_update_subset_insert [of "buckets kad" i b] by (auto simp: kad_ok_def)
  ultimately show ?thesis
    using assms(1) by (simp add: kad_ok_def)
qed

lemma kad_ok_change_root:
  assumes "kad_ok kad" and "is_root b" and "config b = kconf kad"
    and "placed (kroot kad) (\<lambda>d. length (buckets kad) \<le> d) b"
    and "mset (b_nodes b) \<subseteq># mset ns + mset (b_nodes (root_bucket kad))"
    and "distinct (map kn_id (ns @ all_nodes kad))" and "kroot kad \<notin> kn_id ` set ns"
  shows "kad_ok (kad\<lparr>root_bucket := b\<rparr>)"
proof -
  let ?kad = "kad\<lparr>root_bucket := b\<rparr>"
  have "mset (all_nodes ?kad) \<subseteq># mset (ns @ all_nodes kad)"
    using subset_mset.add_left_mono [OF assms(5), of "mset (concat (map b_nodes (buckets kad)))"]
    by (simp add: all_nodes_def ac_simps)
  from kad_ok_nodes [OF assms(1) this assms(6,7)]
  have "distinct (map kn_id (all_nodes ?kad)) \<and> kroot ?kad \<notin> kn_id ` set (all_nodes ?kad)"
    by simp
  then show ?thesis
    using assms(1-4) by (simp add: kad_ok_def)
qed

lemma kad_ok_distinct: "kad_ok kad \<Longrightarrow> distinct (map kn_id ([] @ all_nodes kad))"
  by (simp add: kad_ok_def)

lemma bucket_ok_remove: "bucket_ok c b \<Longrightarrow> bucket_ok c (b_remove_node nid b)"
  by (auto simp: bucket_ok_def b_remove_node_def intro: order_trans [OF length_filter_le])

lemma mset_b_remove: "mset (b_nodes (b_remove_node nid b)) \<subseteq># mset (b_nodes b)"
  by (simp add: b_nodes_remove mset_filter)

lemma placed_sub:
  "placed root P b \<Longrightarrow> mset (b_nodes b') \<subseteq># mset (b_nodes b) \<Longrightarrow> placed root P b'"
  using placed_mono [of root P b b' P] set_mset_mono [of "mset (b_nodes b')" "mset (b_nodes b)"]
  by auto

subsection \<open>Splitting the root bucket\<close>

lemma length_filter_sort:
  "length (filter (\<lambda>x. f x = d) xs) = count_list (sort (map f xs)) d"
proof -
  have "count_list (sort (map f xs)) d = count (mset (map f xs)) d"
    by (metis count_mset mset_sort)
  also have "\<dots> = length (filter (\<lambda>x. f x = d) xs)"
    by (induction xs) auto
  finally show ?thesis by simp
qed

lemma overflowing_room:
  assumes "bucket_status b = Overflowing" and "0 < cfg_k (config b)"
    and "\<forall>x \<in> set (b_nodes b). d \<le> kn_depth x"
  shows "length (filter (\<lambda>x. kn_depth x = d) (b_nodes b)) \<le> length (b_nodes b) - cfg_k (config b)"
    and "\<exists>x \<in> set (b_nodes b). d < kn_depth x"
proof -
  let ?ds = "sort (map kn_depth (b_nodes b))"
  have big: "2 * cfg_k (config b) \<le> length (b_nodes b)" and im: "\<not> overflow_imbalance b"
    using assms(1) by (auto simp: bucket_status_def Let_def b_nodes_def split: if_splits)
  have "length ?ds = length (b_nodes b)" by simp
  with big assms(2) obtain e es where ds: "?ds = e # es"
    by (metis length_greater_0_conv list.exhaust mult_pos_pos order_less_le_trans zero_less_numeral)
  have "overflow_imbalance b \<longleftrightarrow> length ?ds - count_list ?ds e < cfg_k (config b)"
    unfolding overflow_imbalance_def b_nodes_def [symmetric] Let_def ds by simp
  with im have k: "cfg_k (config b) \<le> length (b_nodes b) - count_list ?ds e"
    by simp
  have "sorted ?ds" by simp
  with ds have e_min: "\<forall>x \<in> set (b_nodes b). e \<le> kn_depth x"
    by (metis (no_types, lifting) image_eqI list.set_map set_sort sorted_simps(2) set_ConsD order_refl)
  have e_in: "\<exists>x \<in> set (b_nodes b). kn_depth x = e"
    using ds by (metis (no_types, lifting) imageE list.set_intros(1) list.set_map set_sort)
  have cnt: "length (filter (\<lambda>x. kn_depth x = d) (b_nodes b)) = count_list ?ds d" for d
    by (rule length_filter_sort)
  show "length (filter (\<lambda>x. kn_depth x = d) (b_nodes b)) \<le> length (b_nodes b) - cfg_k (config b)"
  proof (cases "d = e")
    case True
    have "count_list ?ds e \<le> length (b_nodes b)"
      using cnt [of e] by (metis length_filter_le)
    with True k show ?thesis by (simp only: cnt)
  next
    case False
    with e_in assms(3) have "d < e" by (metis le_neq_implies_less)
    with e_min have "filter (\<lambda>x. kn_depth x = d) (b_nodes b) = []"
      by (auto simp: filter_empty_conv)
    then show ?thesis by simp
  qed
  show "\<exists>x \<in> set (b_nodes b). d < kn_depth x"
  proof (rule ccontr)
    assume "\<not> ?thesis"
    with assms(3) have all: "\<forall>x \<in> set (b_nodes b). kn_depth x = d"
      by (meson le_antisym not_less)
    with e_in have "e = d" by auto
    moreover from all have "filter (\<lambda>x. kn_depth x = d) (b_nodes b) = b_nodes b"
      by (simp add: filter_id_conv)
    ultimately have "count_list ?ds e = length (b_nodes b)" using cnt [of d] by simp
    with k assms(2) show False by simp
  qed
qed

lemma remove_all_nodes_split:
  assumes "remove_all_nodes_at_depth d b = ((act, cac), rb)"
  shows "mset act + mset cac + mset (b_nodes rb) = mset (b_nodes b)"
    and "\<forall>x \<in> set (act @ cac). kn_depth x = d"
    and "config rb = config b" and "is_root rb = is_root b"
    and "length (filter (\<lambda>x. kn_depth x = d) (b_nodes b)) \<le> length (b_nodes b) - cfg_k (config b) \<Longrightarrow>
         \<forall>x \<in> set (b_nodes rb). kn_depth x \<noteq> d"
proof -
  let ?m = "(length (cache b) + length (active b)) - cfg_k (config b)"
  obtain cache' where c: "take_at_depth ?m d (cache b) [] = (cac, cache')"
    and a: "take_at_depth (?m - length cac) d (active b) [] = (act, active rb)"
    and rb: "rb = b\<lparr>active := active rb, cache := cache'\<rparr>"
    using assms by (auto simp: remove_all_nodes_at_depth_def Let_def split: prod.splits)
  have cr: "cache rb = cache'" using rb by (metis kbucket.select_convs(2) kbucket.surjective kbucket.update_convs(2))
  show "mset act + mset cac + mset (b_nodes rb) = mset (b_nodes b)"
  proof -
    have c': "mset (cache b) = mset cac + mset cache'" and a': "mset (active b) = mset act + mset (active rb)"
      using take_at_depth_mset [OF c] take_at_depth_mset [OF a] by simp_all
    show ?thesis by (simp add: b_nodes_def cr c' a' ac_simps)
  qed
  show "\<forall>x \<in> set (act @ cac). kn_depth x = d"
    using take_at_depth_depth [OF c] take_at_depth_depth [OF a] by auto
  show "config rb = config b" by (subst rb) simp
  show "is_root rb = is_root b" by (subst rb) simp
  assume few: "length (filter (\<lambda>x. kn_depth x = d) (b_nodes b)) \<le> length (b_nodes b) - cfg_k (config b)"
  then have "length (filter (\<lambda>x. kn_depth x = d) (cache b)) \<le> ?m"
    by (simp add: b_nodes_def)
  note c' = take_at_depth_all [OF c this]
  with few have "length (filter (\<lambda>x. kn_depth x = d) (active b)) \<le> ?m - length cac"
    by (simp add: b_nodes_def)
  from c' take_at_depth_all [OF a this] show "\<forall>x \<in> set (b_nodes rb). kn_depth x \<noteq> d"
    by (auto simp: b_nodes_def cr)
qed

lemma length_b_add_nodes_active:
  "\<not> is_root b \<Longrightarrow> length (active b) \<le> cfg_k (config b) \<Longrightarrow> length (cache b) \<le> cfg_k (config b) \<Longrightarrow>
   length (active (b_add_nodes_active ns b)) \<le> cfg_k (config b) \<and>
   length (cache (b_add_nodes_active ns b)) \<le> cfg_k (config b)"
proof (induction ns arbitrary: b)
  case (Cons n ns)
  have "length (active (b_add_node_active n b)) \<le> cfg_k (config b) \<and>
      length (cache (b_add_node_active n b)) \<le> cfg_k (config b)"
    using Cons.prems by (auto simp: b_add_node_active_def)
  with Cons.IH [of "b_add_node_active n b"] Cons.prems(1) show ?case
    by (simp add: b_add_nodes_active_def)
qed (simp add: b_add_nodes_active_def)

lemma bucket_ok_add_node: "bucket_ok c b \<Longrightarrow> bucket_ok c (b_add_node n b)"
  by (auto simp: bucket_ok_def b_add_node_def)

lemma bucket_ok_add_nodes: "bucket_ok c b \<Longrightarrow> bucket_ok c (b_add_nodes ns b)"
proof (induction ns arbitrary: b)
  case (Cons n ns)
  from Cons.IH [OF bucket_ok_add_node [OF Cons.prems]] show ?case
    by (simp add: b_add_nodes_def)
qed (simp add: b_add_nodes_def)

lemma split_root_frame [simp]:
  "kroot (split_root kad) = kroot kad" "kconf (split_root kad) = kconf kad"
  "length (buckets (split_root kad)) = Suc (length (buckets kad))"
  by (simp_all add: split_root_def Let_def split: prod.split)

lemma split_root_ok:
  assumes "kad_ok kad" and "0 < cfg_k (kconf kad)" and "bucket_status (root_bucket kad) = Overflowing"
  shows "kad_ok (split_root kad)" and "mset (all_nodes (split_root kad)) \<subseteq># mset (all_nodes kad)"
proof -
  let ?d = "length (buckets kad)"
  obtain act cac rb where r: "remove_all_nodes_at_depth ?d (root_bucket kad) = ((act, cac), rb)"
    by (metis prod.collapse)
  define bucket where "bucket = b_add_nodes cac (b_add_nodes_active act (kbucket_new (kconf kad)))"
  have s: "split_root kad = kad\<lparr>root_bucket := rb, buckets := buckets kad @ [bucket]\<rparr>"
    by (simp add: split_root_def r bucket_def)
  have cfg: "config (root_bucket kad) = kconf kad" and pl: "placed (kroot kad) (\<lambda>d. ?d \<le> d) (root_bucket kad)"
    using assms(1) by (auto simp: kad_ok_def)
  then have low: "\<forall>x \<in> set (b_nodes (root_bucket kad)). ?d \<le> kn_depth x"
    by (auto simp: placed_def)
  have pos: "0 < cfg_k (config (root_bucket kad))" using assms(2) cfg by simp
  note room = overflowing_room [OF assms(3) pos low]
  note split = remove_all_nodes_split [OF r]
  have sub: "set (act @ cac) \<subseteq> set (b_nodes (root_bucket kad))"
    and subrb: "set (b_nodes rb) \<subseteq> set (b_nodes (root_bucket kad))"
    using arg_cong [OF split(1), of set_mset] by auto
  have new: "\<forall>x \<in> set (b_nodes rb). kn_depth x \<noteq> ?d"
    by (rule split(5) [OF room(1)])
  have msb: "mset (b_nodes bucket) \<subseteq># mset act + mset cac"
  proof -
    have "mset (b_nodes bucket) \<subseteq># mset cac + mset (b_nodes (b_add_nodes_active act (kbucket_new (kconf kad))))"
      unfolding bucket_def by (rule mset_b_add_nodes)
    also have "\<dots> \<subseteq># mset cac + mset act"
      using mset_b_add_nodes_active [of act "kbucket_new (kconf kad)"]
      by (intro subset_mset.add_left_mono) simp
    finally show ?thesis by (simp only: add.commute)
  qed
  show nodes: "mset (all_nodes (split_root kad)) \<subseteq># mset (all_nodes kad)"
  proof -
    have "mset (b_nodes bucket) + mset (b_nodes rb) \<subseteq># (mset act + mset cac) + mset (b_nodes rb)"
      using msb by (rule subset_mset.add_right_mono)
    then have "mset (b_nodes bucket) + mset (b_nodes rb) \<subseteq># mset (b_nodes (root_bucket kad))"
      using split(1) by simp
    from subset_mset.add_left_mono [OF this, of "mset (concat (map b_nodes (buckets kad)))"]
    show ?thesis by (simp add: s all_nodes_def add.assoc)
  qed
  have "bucket_ok (kconf kad) bucket"
  proof -
    let ?b1 = "b_add_nodes_active act (kbucket_new (kconf kad))"
    have "length (active ?b1) \<le> cfg_k (kconf kad) \<and> length (cache ?b1) \<le> cfg_k (kconf kad)"
      using length_b_add_nodes_active [of "kbucket_new (kconf kad)" act] by (simp add: kbucket_new_def)
    then have "bucket_ok (kconf kad) ?b1"
      by (simp add: bucket_ok_def) (simp add: kbucket_new_def)
    then show ?thesis unfolding bucket_def by (rule bucket_ok_add_nodes)
  qed
  moreover have "placed (kroot kad) (\<lambda>d. d = ?d) bucket"
  proof -
    have "set (b_nodes bucket) \<subseteq> set (act @ cac)"
      using set_mset_mono [OF msb] by simp
    with sub split(2) pl show ?thesis by (fastforce simp: placed_def)
  qed
  moreover have "placed (kroot kad) (\<lambda>d. Suc ?d \<le> d) rb"
    using pl subrb new by (fastforce simp: placed_def)
  moreover have "Suc ?d < 256"
    using room(2) pl by (auto simp: placed_def)
  moreover have "distinct (map kn_id (all_nodes (split_root kad))) \<and>
      kroot (split_root kad) \<notin> kn_id ` set (all_nodes (split_root kad))"
    using kad_ok_nodes [OF assms(1), of "split_root kad" "[]"] nodes kad_ok_distinct [OF assms(1)] by simp
  ultimately show "kad_ok (split_root kad)"
    using assms(1) split(3,4)
    by (auto simp: kad_ok_def s nth_append less_Suc_eq)
qed

lemma rebalance_overflow_ok:
  assumes "kad_ok kad" and "0 < cfg_k (kconf kad)"
  shows "\<exists>kad'. rebalance_overflow kad = Some kad' \<and> kad_ok kad' \<and>
    bucket_status (root_bucket kad') \<noteq> Overflowing \<and>
    mset (all_nodes kad') \<subseteq># mset (all_nodes kad) \<and> kroot kad' = kroot kad \<and> kconf kad' = kconf kad"
proof -
  let ?P = "\<lambda>k. kad_ok k \<and> mset (all_nodes k) \<subseteq># mset (all_nodes kad) \<and>
     kroot k = kroot kad \<and> kconf k = kconf kad"
  let ?b = "\<lambda>k. bucket_status (root_bucket k) = Overflowing"
  have step: "?P (split_root k) \<and> 256 - length (buckets (split_root k)) < 256 - length (buckets k)"
    if "?P k" and "?b k" for k
    using that split_root_ok [of k] assms(2)
    by (auto intro: subset_mset.order_trans simp: kad_ok_def)
  have "?P kad" using assms(1) by simp
  from measure_while_option_Some [where P = ?P and b = ?b and c = split_root
      and f = "\<lambda>k. 256 - length (buckets k)", OF step this]
  obtain kad' where w: "while_option ?b split_root kad = Some kad'"
    by (auto simp: while_option_def)
  have "?P kad'"
    by (rule while_option_rule [where P = ?P, OF _ w \<open>?P kad\<close>]) (use step in blast)
  with w while_option_stop [OF w] show ?thesis
    by (auto simp: rebalance_overflow_def)
qed

subsection \<open>Adding and removing nodes\<close>

lemma has_node_id_iff: "has_node_id nid kad \<longleftrightarrow> nid \<in> kn_id ` set (all_nodes kad)"
  by (auto simp: has_node_id_def list_ex_iff b_has_node_id_iff all_nodes_def)

lemma placed_add:
  assumes "placed root P b" and "mset (b_nodes b') \<subseteq># mset [n] + mset (b_nodes b)"
    and "kn_depth n = get_depth root (kn_id n)" and "kn_depth n < 256" and "P (kn_depth n)"
  shows "placed root P b'"
  using assms(1,3-5) set_mset_mono [OF assms(2)] by (auto simp: placed_def)

lemma knode_new_sel [simp]:
  "kn_id (knode_new root nid) = nid" "kn_depth (knode_new root nid) = get_depth root nid"
  by (simp_all add: knode_new_def)

lemma mset_b_add_node': "mset (b_nodes (b_add_node n b)) \<subseteq># mset [n] + mset (b_nodes b)"
  using mset_b_add_node [of n b] by simp

lemma add_node_spec:
  assumes "kad_ok kad" and "0 < cfg_k (kconf kad)" and "u256_ok (kroot kad)" and "u256_ok nid"
  shows "\<exists>kad'. add_node nid kad = Some kad' \<and> kad_ok kad' \<and>
    kroot kad' = kroot kad \<and> kconf kad' = kconf kad \<and>
    mset (all_nodes kad') \<subseteq># mset [knode_new (kroot kad) nid] + mset (all_nodes kad) \<and>
    (bucket_status (root_bucket kad) \<noteq> Overflowing \<longrightarrow> bucket_status (root_bucket kad') \<noteq> Overflowing)"
proof (cases "nid = kroot kad \<or> has_node_id nid kad")
  case True
  with assms(1) show ?thesis by (auto simp: add_node_def intro: mset_subset_eq_add_right)
next
  case False
  let ?n = "knode_new (kroot kad) nid"
  let ?d = "get_depth (kroot kad) nid"
  have d: "?d < 256" using assms(3,4) by (rule get_depth_bound)
  from False have new: "distinct (map kn_id ([?n] @ all_nodes kad))" "kroot kad \<notin> kn_id ` set [?n]"
    using assms(1) by (auto simp: has_node_id_iff kad_ok_def)
  show ?thesis
  proof (cases "?d < length (buckets kad)")
    case True
    let ?b = "b_add_node ?n (buckets kad ! ?d)"
    let ?kad = "kad\<lparr>buckets := (buckets kad)[?d := ?b]\<rparr>"
    have ok: "bucket_ok (kconf kad) (buckets kad ! ?d)"
      and pl: "placed (kroot kad) (\<lambda>d. d = ?d) (buckets kad ! ?d)"
      using assms(1) True by (auto simp: kad_ok_def)
    have "kad_ok ?kad"
      by (rule kad_ok_change_bucket [OF assms(1) True bucket_ok_add_node [OF ok] _ mset_b_add_node' new])
        (rule placed_add [OF pl mset_b_add_node'], simp_all add: d)
    moreover have "mset (all_nodes ?kad) \<subseteq># mset [?n] + mset (all_nodes kad)"
      using mset_buckets_update_sub [OF True mset_b_add_node'] by (simp add: all_nodes_def)
    ultimately show ?thesis using False True by (auto simp: add_node_def Let_def)
  next
    case deep: False
    let ?kad = "kad\<lparr>root_bucket := b_add_node ?n (root_bucket kad)\<rparr>"
    have pl: "placed (kroot kad) (\<lambda>d. length (buckets kad) \<le> d) (root_bucket kad)"
      and fr: "is_root (root_bucket kad)" "config (root_bucket kad) = kconf kad"
      using assms(1) by (auto simp: kad_ok_def)
    have ok: "kad_ok ?kad"
      by (rule kad_ok_change_root [OF assms(1) _ _ _ mset_b_add_node' new])
        (use fr deep d in \<open>auto intro: placed_add [OF pl mset_b_add_node']\<close>)
    have sub: "mset (all_nodes ?kad) \<subseteq># mset [?n] + mset (all_nodes kad)"
      using subset_mset.add_left_mono [OF mset_b_add_node' [of ?n "root_bucket kad"],
          of "mset (concat (map b_nodes (buckets kad)))"]
      by (simp add: all_nodes_def)
    show ?thesis
    proof (cases "bucket_status (root_bucket ?kad) = Overflowing")
      case True
      from rebalance_overflow_ok [OF ok] assms(2) obtain kad' where
        "rebalance_overflow ?kad = Some kad'" "kad_ok kad'"
        "bucket_status (root_bucket kad') \<noteq> Overflowing"
        "mset (all_nodes kad') \<subseteq># mset (all_nodes ?kad)" "kroot kad' = kroot kad" "kconf kad' = kconf kad"
        by auto
      with True False deep subset_mset.order_trans [OF _ sub, of "mset (all_nodes kad')"] show ?thesis
        by (auto simp: add_node_def Let_def)
    next
      case nov: False
      with ok sub False deep show ?thesis by (auto simp: add_node_def Let_def)
    qed
  qed
qed

text \<open>
  C29. Adding a node always returns: the splitting loop ends, because every round raises the
  depth of the root bucket and the nodes that are left lie deeper. The table that comes back
  satisfies the invariant again (every node in the bucket of its depth, no identifier twice, the
  root itself never listed, the bounds of the buckets), has at most the one node more, and is
  returned with a root bucket that does not overflow if the old one did not.
\<close>

theorem add_node_ok:
  assumes "kad_ok kad" and "0 < cfg_k (kconf kad)" and "u256_ok (kroot kad)" and "u256_ok nid"
  shows "\<exists>kad'. add_node nid kad = Some kad' \<and> kad_ok kad' \<and>
    kroot kad' = kroot kad \<and> kconf kad' = kconf kad \<and>
    mset (all_nodes kad') \<subseteq># mset [knode_new (kroot kad) nid] + mset (all_nodes kad) \<and>
    (bucket_status (root_bucket kad) \<noteq> Overflowing \<longrightarrow> bucket_status (root_bucket kad') \<noteq> Overflowing)"
  using assms by (rule add_node_spec)

theorem add_node_ok_witness:
  "\<exists>kad'. add_node (U256 (128 # replicate 31 0)) (kademlia_new u256_zero kconfig_default) = Some kad' \<and>
     kad_ok kad'"
proof -
  have "u256_ok u256_zero" "u256_ok (U256 (128 # replicate 31 0))"
    by (simp_all add: u256_ok_def u256_zero_def)
  then show ?thesis
    using add_node_ok [OF kad_ok_new [of u256_zero kconfig_default], of "U256 (128 # replicate 31 0)"]
    by (simp add: kademlia_new_def) (auto simp: kconfig_default_def)
qed

text \<open>Merging keeps every node: the root bucket takes whatever it is given.\<close>

lemma merge_last_frame [simp]:
  "kroot (merge_last kad) = kroot kad" "kconf (merge_last kad) = kconf kad"
  by (simp_all add: merge_last_def Let_def)

lemma merge_last_nodes:
  assumes "buckets kad \<noteq> []" and "is_root (root_bucket kad)"
  shows "mset (all_nodes (merge_last kad)) = mset (all_nodes kad)"
proof -
  from assms(1) obtain bs b where bs: "buckets kad = bs @ [b]" by (metis rev_exhaust)
  show ?thesis
    using assms(2) by (simp add: merge_last_def bs Let_def all_nodes_def root_add_nodes)
      (simp add: b_nodes_def)
qed

lemma merge_last_ok:
  assumes "kad_ok kad" and "buckets kad \<noteq> []"
  shows "kad_ok (merge_last kad)"
proof -
  from assms(2) obtain bs b where bs: "buckets kad = bs @ [b]" by (metis rev_exhaust)
  let ?rb = "b_add_nodes (cache b) (b_add_nodes_active (active b) (root_bucket kad))"
  have root: "is_root (root_bucket kad)" using assms(1) by (simp add: kad_ok_def)
  have b: "placed (kroot kad) (\<lambda>d. d = length bs) b"
  proof -
    have "placed (kroot kad) (\<lambda>d. d = i) (buckets kad ! i)" if "i < length (buckets kad)" for i
      using assms(1) that by (simp add: kad_ok_def)
    from this [of "length bs"] show ?thesis by (simp add: bs)
  qed
  have rb: "placed (kroot kad) (\<lambda>d. length (buckets kad) \<le> d) (root_bucket kad)"
    using assms(1) by (simp add: kad_ok_def)
  have "set_mset (mset (b_nodes ?rb)) = set (cache b) \<union> (set (active b) \<union> set (b_nodes (root_bucket kad)))"
    using root by (simp add: root_add_nodes)
  then have "set (b_nodes ?rb) = set (b_nodes b) \<union> set (b_nodes (root_bucket kad))"
    by (auto simp: b_nodes_def)
  with b rb have "placed (kroot kad) (\<lambda>d. length bs \<le> d) ?rb"
    by (auto simp: placed_def bs)
  moreover have "distinct (map kn_id (all_nodes (merge_last kad))) \<and>
      kroot (merge_last kad) \<notin> kn_id ` set (all_nodes (merge_last kad))"
    using kad_ok_nodes [OF assms(1), of "merge_last kad" "[]"] merge_last_nodes [OF assms(2) root]
      kad_ok_distinct [OF assms(1)] by simp
  ultimately show ?thesis
    using assms(1) by (auto simp: kad_ok_def merge_last_def Let_def bs nth_append split: if_splits)
qed

lemma rebalance_wanting_ok:
  "kad_ok kad \<Longrightarrow> kad_ok (rebalance_wanting kad) \<and>
   mset (all_nodes (rebalance_wanting kad)) = mset (all_nodes kad) \<and>
   kroot (rebalance_wanting kad) = kroot kad \<and> kconf (rebalance_wanting kad) = kconf kad \<and>
   (bucket_status (root_bucket (rebalance_wanting kad)) \<noteq> Wanting \<or> buckets (rebalance_wanting kad) = [])"
proof (induction kad rule: rebalance_wanting.induct)
  case (1 kad)
  show ?case
  proof (cases "bucket_status (root_bucket kad) = Wanting \<and> buckets kad \<noteq> []")
    case True
    with 1 merge_last_ok [of kad] merge_last_nodes [of kad] show ?thesis
      by (subst (1 2 3 4 5 6) rebalance_wanting.simps) (auto simp: kad_ok_def [of kad])
  next
    case False
    with 1 show ?thesis by (subst (1 2 3 4 5 6) rebalance_wanting.simps) auto
  qed
qed

text \<open>All nodes of an identifier are in the bucket of its depth.\<close>

lemma kad_ok_bucket_of:
  assumes "kad_ok kad" and "i < length (buckets kad)" and "n \<in> set (b_nodes (buckets kad ! i))"
  shows "get_depth (kroot kad) (kn_id n) = i"
  using assms unfolding kad_ok_def placed_def by metis

lemma kad_ok_root_of:
  assumes "kad_ok kad" and "n \<in> set (b_nodes (root_bucket kad))"
  shows "length (buckets kad) \<le> get_depth (kroot kad) (kn_id n)"
  using assms unfolding kad_ok_def placed_def by metis

lemma filter_other_bucket:
  assumes "kad_ok kad" and "i < length (buckets kad)" and "i \<noteq> get_depth (kroot kad) nid"
  shows "filter (\<lambda>n. kn_id n \<noteq> nid) (b_nodes (buckets kad ! i)) = b_nodes (buckets kad ! i)"
  using kad_ok_bucket_of [OF assms(1,2)] assms(3) by (auto simp: filter_id_conv)

lemma remove_from_bucket:
  assumes "kad_ok kad" and "get_depth (kroot kad) nid < length (buckets kad)"
  shows "all_nodes (kad\<lparr>buckets := (buckets kad)[get_depth (kroot kad) nid :=
            b_remove_node nid (buckets kad ! get_depth (kroot kad) nid)]\<rparr>)
    = filter (\<lambda>n. kn_id n \<noteq> nid) (all_nodes kad)"
proof -
  let ?d = "get_depth (kroot kad) nid"
  have "map b_nodes ((buckets kad)[?d := b_remove_node nid (buckets kad ! ?d)])
      = map (\<lambda>b. filter (\<lambda>n. kn_id n \<noteq> nid) (b_nodes b)) (buckets kad)"
    using filter_other_bucket [OF assms(1)] assms(2)
    by - (rule nth_equalityI, auto simp: nth_list_update b_nodes_remove)
  moreover have "filter (\<lambda>n. kn_id n \<noteq> nid) (b_nodes (root_bucket kad)) = b_nodes (root_bucket kad)"
    using kad_ok_root_of [OF assms(1)] assms(2) by (fastforce simp: filter_id_conv)
  ultimately show ?thesis by (simp add: all_nodes_def filter_concat comp_def)
qed

lemma remove_from_root:
  assumes "kad_ok kad" and "\<not> get_depth (kroot kad) nid < length (buckets kad)"
  shows "all_nodes (kad\<lparr>root_bucket := b_remove_node nid (root_bucket kad)\<rparr>)
    = filter (\<lambda>n. kn_id n \<noteq> nid) (all_nodes kad)"
proof -
  have "filter (\<lambda>n. kn_id n \<noteq> nid) (concat (map b_nodes (buckets kad))) = concat (map b_nodes (buckets kad))"
    using kad_ok_bucket_of [OF assms(1)] assms(2) by (fastforce simp: filter_id_conv in_set_conv_nth)
  then show ?thesis by (simp add: all_nodes_def b_nodes_remove)
qed

lemma bucket_remove_ok:
  assumes "kad_ok kad" and "i < length (buckets kad)"
  shows "kad_ok (kad\<lparr>buckets := (buckets kad)[i := b_remove_node nid (buckets kad ! i)]\<rparr>)"
  using assms
  by (intro kad_ok_change_bucket [where ns = "[]"])
    (auto simp: mset_b_remove kad_ok_distinct kad_ok_def intro: bucket_ok_remove placed_sub [OF _ mset_b_remove])

lemma root_remove_ok:
  assumes "kad_ok kad"
  shows "kad_ok (kad\<lparr>root_bucket := b_remove_node nid (root_bucket kad)\<rparr>)"
  using assms
  by (intro kad_ok_change_root [where ns = "[]"])
    (auto simp: mset_b_remove kad_ok_distinct kad_ok_def intro: placed_sub [OF _ mset_b_remove])

lemma remove_node_spec:
  assumes "kad_ok kad"
  shows "kad_ok (remove_node nid kad) \<and> kroot (remove_node nid kad) = kroot kad \<and>
    mset (all_nodes (remove_node nid kad)) = filter_mset (\<lambda>n. kn_id n \<noteq> nid) (mset (all_nodes kad)) \<and>
    \<not> has_node_id nid (remove_node nid kad) \<and>
    (length (buckets kad) \<le> get_depth (kroot kad) nid \<longrightarrow>
      bucket_status (root_bucket (remove_node nid kad)) \<noteq> Wanting \<or> buckets (remove_node nid kad) = [])"
proof -
  have has: "\<not> has_node_id nid k" if "mset (all_nodes k) = filter_mset (\<lambda>n. kn_id n \<noteq> nid) (mset (all_nodes kad))" for k
    using arg_cong [OF that, of set_mset] by (auto simp: has_node_id_iff)
  show ?thesis
  proof (cases "get_depth (kroot kad) nid < length (buckets kad)")
    case True
    with remove_from_bucket [OF assms True] bucket_remove_ok [OF assms True] has [of "remove_node nid kad"]
    show ?thesis by (simp add: remove_node_def Let_def)
  next
    case False
    let ?kad = "kad\<lparr>root_bucket := b_remove_node nid (root_bucket kad)\<rparr>"
    from rebalance_wanting_ok [OF root_remove_ok [OF assms, of nid]] root_remove_ok [OF assms, of nid]
      False remove_from_root [OF assms False] has [of "remove_node nid kad"]
    show ?thesis by (simp add: remove_node_def Let_def split: if_splits)
  qed
qed

text \<open>
  Removing a node returns a table of the invariant that has exactly the other nodes: the
  buckets that are merged into a root bucket which ran dry lose none of theirs, and after a
  removal from the root bucket it holds at least \<open>k\<close> nodes or there is no other bucket left.
\<close>

theorem remove_node_ok:
  assumes "kad_ok kad"
  shows "kad_ok (remove_node nid kad) \<and> kroot (remove_node nid kad) = kroot kad \<and>
    mset (all_nodes (remove_node nid kad)) = filter_mset (\<lambda>n. kn_id n \<noteq> nid) (mset (all_nodes kad)) \<and>
    \<not> has_node_id nid (remove_node nid kad) \<and>
    (length (buckets kad) \<le> get_depth (kroot kad) nid \<longrightarrow>
      bucket_status (root_bucket (remove_node nid kad)) \<noteq> Wanting \<or> buckets (remove_node nid kad) = [])"
  using assms by (rule remove_node_spec)

theorem remove_node_ok_witness:
  "\<not> has_node_id u256_zero (remove_node u256_zero (kademlia_new (U256 (128 # replicate 31 0)) kconfig_default))"
  using remove_node_ok [OF kad_ok_new [of "U256 (128 # replicate 31 0)" kconfig_default], of u256_zero] by blast

subsection \<open>Activity and the clock\<close>

text \<open>
  The invariant does not look at the clocks: it depends on identifiers and depths only, so an
  operation that touches the clocks and loses nodes keeps it.
\<close>

definition node_key :: "knode \<Rightarrow> u256 \<times> nat" where
  "node_key n = (kn_id n, kn_depth n)"

definition shrinks :: "kbucket \<Rightarrow> kbucket \<Rightarrow> bool" where
  "shrinks b b' \<longleftrightarrow> config b' = config b \<and> is_root b' = is_root b \<and>
     (bucket_ok (config b) b \<longrightarrow> bucket_ok (config b) b') \<and>
     mset (map node_key (b_nodes b')) \<subseteq># mset (map node_key (b_nodes b))"

lemma placed_key:
  "placed root P b \<longleftrightarrow> (\<forall>(i, d) \<in> set (map node_key (b_nodes b)). d = get_depth root i \<and> d < 256 \<and> P d)"
  by (auto simp: placed_def node_key_def)

lemma shrinks_placed: "shrinks b b' \<Longrightarrow> placed root P b \<Longrightarrow> placed root P b'"
  unfolding shrinks_def placed_key using set_mset_mono [of "mset (map node_key (b_nodes b'))"] by fastforce

lemma shrinks_all_nodes:
  assumes "list_all2 shrinks bs bs'"
  shows "mset (map node_key (concat (map b_nodes bs'))) \<subseteq># mset (map node_key (concat (map b_nodes bs)))"
  using assms
proof (induction rule: list_all2_induct)
  case (Cons b bs b' bs')
  then show ?case by (simp add: shrinks_def subset_mset.add_mono)
qed simp

lemma kad_ok_shrinks:
  assumes "kad_ok kad" and "list_all2 shrinks (buckets kad) bs" and "shrinks (root_bucket kad) rb"
  shows "kad_ok (kad\<lparr>buckets := bs, root_bucket := rb\<rparr>)"
proof -
  let ?kad = "kad\<lparr>buckets := bs, root_bucket := rb\<rparr>"
  have len: "length bs = length (buckets kad)" using assms(2) by (simp add: list_all2_lengthD)
  have nth: "shrinks (buckets kad ! i) (bs ! i)" if "i < length bs" for i
    using assms(2) that by (simp add: list_all2_conv_all_nth)
  have sub: "mset (map node_key (all_nodes ?kad)) \<subseteq># mset (map node_key (all_nodes kad))"
    using shrinks_all_nodes [OF assms(2)] assms(3)
    by (simp add: all_nodes_def shrinks_def subset_mset.add_mono)
  have fst: "map kn_id ns = map fst (map node_key ns)" for ns by (simp add: node_key_def)
  have "distinct (map kn_id (all_nodes ?kad))"
    using assms(1) unfolding kad_ok_def fst by (blast intro: distinct_mset_sub [OF _ sub])
  moreover have "kroot ?kad \<notin> set (map kn_id (all_nodes ?kad))"
  proof -
    have "set (map kn_id (all_nodes ?kad)) \<subseteq> set (map kn_id (all_nodes kad))"
      using set_mset_mono [OF sub] unfolding fst set_mset_mset set_map by (rule image_mono)
    with assms(1) show ?thesis by (auto simp: kad_ok_def)
  qed
  moreover have "\<forall>b \<in> set bs. bucket_ok (kconf kad) b"
  proof
    fix b assume "b \<in> set bs"
    then obtain i where i: "i < length bs" "b = bs ! i" by (auto simp: in_set_conv_nth)
    moreover have "bucket_ok (kconf kad) (buckets kad ! i)"
      using assms(1) i(1) len by (simp add: kad_ok_def)
    moreover from this have "config (buckets kad ! i) = kconf kad" by (simp add: bucket_ok_def)
    ultimately show "bucket_ok (kconf kad) b"
      using nth [OF i(1)] by (simp add: shrinks_def)
  qed
  moreover have "\<forall>i < length bs. placed (kroot kad) (\<lambda>d. d = i) (bs ! i)"
    using assms(1) shrinks_placed [OF nth] by (auto simp: kad_ok_def len)
  moreover have "placed (kroot kad) (\<lambda>d. length bs \<le> d) rb"
    using assms(1) shrinks_placed [OF assms(3)] by (auto simp: kad_ok_def len)
  ultimately show ?thesis
    using assms(1,3) by (simp add: kad_ok_def len shrinks_def)
qed

lemma shrinks_refl: "shrinks b b"
  by (simp add: shrinks_def)

lemma kad_ok_shrinks_bucket:
  assumes "kad_ok kad" and "i < length (buckets kad)" and "shrinks (buckets kad ! i) b"
  shows "kad_ok (kad\<lparr>buckets := (buckets kad)[i := b]\<rparr>)"
proof -
  have "list_all2 shrinks (buckets kad) ((buckets kad)[i := b])"
    using assms(2,3) by (auto simp: list_all2_conv_all_nth nth_list_update shrinks_refl)
  from kad_ok_shrinks [OF assms(1) this shrinks_refl] show ?thesis by simp
qed

lemma kad_ok_shrinks_root:
  assumes "kad_ok kad" and "shrinks (root_bucket kad) b"
  shows "kad_ok (kad\<lparr>root_bucket := b\<rparr>)"
  using kad_ok_shrinks [OF assms(1) _ assms(2), of "buckets kad"]
  by (simp add: list_all2_refl shrinks_refl)

lemma node_key_frame [simp]:
  "node_key (knode_active n) = node_key n" "node_key (knode_tick n) = node_key n"
  "kn_id (knode_active n) = kn_id n" "kn_id (knode_tick n) = kn_id n"
  "ticks_last (knode_tick n) = Suc (ticks_last n)"
  by (simp_all add: node_key_def knode_active_def knode_tick_def)

lemma b_node_active_keys:
  "mset (map node_key (b_nodes (fst (b_node_active nid b)))) = mset (map node_key (b_nodes b))"
proof (cases "position (\<lambda>kn. kn_id kn = nid) (active b)")
  case (Some i)
  with position_Some [OF Some] have "map node_key ((active b)[i := knode_active (active b ! i)]) = map node_key (active b)"
    by (simp add: map_update list_update_same_conv)
  with Some show ?thesis by (simp add: b_node_active_def b_nodes_def flip: mset_map)
next
  case None
  show ?thesis
  proof (cases "position (\<lambda>kn. kn_id kn = nid) (cache b)")
    case None
    with \<open>position _ (active b) = None\<close> show ?thesis by (simp add: b_node_active_def)
  next
    case (Some pos)
    with position_Some [OF Some] have p: "pos < length (cache b)" by simp
    from arg_cong [OF mset_vec_remove [OF p], of "image_mset node_key"] None Some show ?thesis
      by (simp add: b_node_active_def b_nodes_def Let_def)
  qed
qed

lemma shrinks_node_active: "shrinks b (fst (b_node_active nid b))"
proof -
  have "bucket_ok c (fst (b_node_active nid b))" if ok: "bucket_ok c b" for c
  proof (cases "position (\<lambda>kn. kn_id kn = nid) (active b)")
    case None
    then show ?thesis
      using ok position_Some [of "\<lambda>kn. kn_id kn = nid" "cache b"]
      by (auto simp: b_node_active_def bucket_ok_def Let_def length_vec_remove split: option.split)
  qed (use ok in \<open>auto simp: b_node_active_def bucket_ok_def\<close>)
  then show ?thesis
    unfolding shrinks_def b_node_active_keys by simp
qed

definition active_ids :: "kbucket \<Rightarrow> u256 set" where
  "active_ids b = kn_id ` set (active b)"

definition can_activate :: "kbucket \<Rightarrow> bool" where
  "can_activate b \<longleftrightarrow> is_root b \<or> length (active b) < cfg_k (config b)"

definition bucket_of :: "u256 \<Rightarrow> kademlia \<Rightarrow> kbucket" where
  "bucket_of nid kad =
     (if get_depth (kroot kad) nid < length (buckets kad)
      then buckets kad ! get_depth (kroot kad) nid else root_bucket kad)"

lemma b_node_active_spec:
  assumes "b_node_active nid b = (b', r)"
  shows "active_ids b' = (if r then {nid} else {}) \<union> active_ids b"
    and "r \<longleftrightarrow> nid \<notin> active_ids b \<and> b_has_node_id nid b \<and> can_activate b"
proof -
  have "active_ids b' = (if r then {nid} else {}) \<union> active_ids b \<and>
      (r \<longleftrightarrow> nid \<notin> active_ids b \<and> b_has_node_id nid b \<and> can_activate b)"
  proof (cases "position (\<lambda>kn. kn_id kn = nid) (active b)")
    case (Some i)
    with position_Some [OF Some] have "nid \<in> active_ids b"
      by (auto simp: active_ids_def)
    moreover from position_Some [OF Some]
    have "map kn_id ((active b)[i := knode_active (active b ! i)]) = map kn_id (active b)"
      by (simp add: map_update list_update_same_conv)
    then have "kn_id ` set ((active b)[i := knode_active (active b ! i)]) = kn_id ` set (active b)"
      by (metis set_map)
    ultimately show ?thesis using Some assms by (auto simp: b_node_active_def active_ids_def)
  next
    case None
    then have no: "nid \<notin> active_ids b" by (auto simp: position_None active_ids_def)
    show ?thesis
    proof (cases "position (\<lambda>kn. kn_id kn = nid) (cache b)")
      case None
      with no have "\<not> b_has_node_id nid b"
        by (auto simp: position_None b_has_node_id_def list_ex_iff active_ids_def)
      with None no \<open>position _ (active b) = None\<close> assms show ?thesis
        by (simp add: b_node_active_def)
    next
      case (Some pos)
      with position_Some [OF Some] have "b_has_node_id nid b" "kn_id (cache b ! pos) = nid"
        by (auto simp: b_has_node_id_def list_ex_iff)
      with None no Some assms show ?thesis
        by (auto simp: b_node_active_def active_ids_def can_activate_def Let_def split: if_splits)
    qed
  qed
  then show "active_ids b' = (if r then {nid} else {}) \<union> active_ids b"
    and "r \<longleftrightarrow> nid \<notin> active_ids b \<and> b_has_node_id nid b \<and> can_activate b" by blast+
qed

lemma active_ids_update:
  "i < length bs \<Longrightarrow> active_ids b = X \<union> active_ids (bs ! i) \<Longrightarrow>
   (\<Union>c \<in> set (bs[i := b]). active_ids c) = X \<union> (\<Union>c \<in> set bs. active_ids c)"
proof (induction bs arbitrary: i)
  case (Cons c bs)
  then show ?case by (cases i) auto
qed simp

lemma set_active_nodes:
  "set (active_nodes kad) = (\<Union>c \<in> set (buckets kad). active_ids c) \<union> active_ids (root_bucket kad)"
  by (auto simp: active_nodes_def active_ids_def)

lemma in_bucket_of:
  assumes "kad_ok kad" and "n \<in> set (all_nodes kad)"
  shows "n \<in> set (b_nodes (bucket_of (kn_id n) kad))"
proof -
  from assms(2) consider i where "i < length (buckets kad)" "n \<in> set (b_nodes (buckets kad ! i))"
    | "n \<in> set (b_nodes (root_bucket kad))"
    by (fastforce simp: all_nodes_def in_set_conv_nth)
  then show ?thesis
  proof cases
    case 1
    with kad_ok_bucket_of [OF assms(1) 1] show ?thesis by (simp add: bucket_of_def)
  next
    case 2
    with kad_ok_root_of [OF assms(1) 2] show ?thesis by (simp add: bucket_of_def)
  qed
qed

lemma bucket_of_cases:
  "(get_depth (kroot kad) nid < length (buckets kad) \<and> bucket_of nid kad \<in> set (buckets kad)) \<or>
   bucket_of nid kad = root_bucket kad"
  by (auto simp: bucket_of_def)

lemma has_node_bucket_of:
  assumes "kad_ok kad"
  shows "has_node_id nid kad \<longleftrightarrow> b_has_node_id nid (bucket_of nid kad)"
  using in_bucket_of [OF assms] bucket_of_cases [of kad nid]
  by (fastforce simp: has_node_id_iff b_has_node_id_iff all_nodes_def)

lemma active_bucket_of:
  assumes "kad_ok kad"
  shows "nid \<in> set (active_nodes kad) \<longleftrightarrow> nid \<in> active_ids (bucket_of nid kad)"
proof
  assume "nid \<in> set (active_nodes kad)"
  then obtain n i where n: "kn_id n = nid"
    and "i < length (buckets kad) \<and> n \<in> set (active (buckets kad ! i)) \<or> n \<in> set (active (root_bucket kad))"
    by (fastforce simp: active_nodes_def in_set_conv_nth [of _ "buckets kad"])
  then show "nid \<in> active_ids (bucket_of nid kad)"
    using kad_ok_bucket_of [OF assms, of i n] kad_ok_root_of [OF assms, of n]
    by (auto simp: bucket_of_def b_nodes_def active_ids_def)
next
  assume "nid \<in> active_ids (bucket_of nid kad)"
  then show "nid \<in> set (active_nodes kad)"
    using bucket_of_cases [of kad nid] by (auto simp: set_active_nodes)
qed

lemma node_active_spec:
  assumes "kad_ok kad" and "node_active nid kad = (kad', r)"
  shows "kad_ok kad' \<and> mset (map kn_id (all_nodes kad')) = mset (map kn_id (all_nodes kad)) \<and>
    set (active_nodes kad') = (if r then insert nid (set (active_nodes kad)) else set (active_nodes kad)) \<and>
    (r \<longleftrightarrow> has_node_id nid kad \<and> nid \<notin> set (active_nodes kad) \<and> can_activate (bucket_of nid kad))"
proof -
  obtain b where b: "b_node_active nid (bucket_of nid kad) = (b, r)"
    using assms(2) by (auto simp: node_active_def bucket_of_def Let_def split: prod.splits if_splits)
  have sh: "shrinks (bucket_of nid kad) b"
    using shrinks_node_active [of "bucket_of nid kad" nid] b by simp
  have keys: "mset (map node_key (b_nodes b)) = mset (map node_key (b_nodes (bucket_of nid kad)))"
    using b_node_active_keys [of nid "bucket_of nid kad"] b by simp
  have ids: "map kn_id ns = map fst (map node_key ns)" for ns by (simp add: node_key_def)
  have r: "r \<longleftrightarrow> has_node_id nid kad \<and> nid \<notin> set (active_nodes kad) \<and> can_activate (bucket_of nid kad)"
    unfolding has_node_bucket_of [OF assms(1)] active_bucket_of [OF assms(1)]
    using b_node_active_spec(2) [OF b] by blast
  have kids: "mset (map kn_id (b_nodes b)) = mset (map kn_id (b_nodes (bucket_of nid kad)))"
    unfolding ids using arg_cong [OF keys, of "image_mset fst"] by (simp only: mset_map)
  show ?thesis
  proof (cases "get_depth (kroot kad) nid < length (buckets kad)")
    case True
    let ?d = "get_depth (kroot kad) nid"
    from True have bo: "bucket_of nid kad = buckets kad ! ?d" by (simp add: bucket_of_def)
    have k': "kad' = kad\<lparr>buckets := (buckets kad)[?d := b]\<rparr>"
      using assms(2) True b by (simp add: node_active_def bo Let_def)
    have "set (active_nodes kad') = (if r then {nid} else {}) \<union> set (active_nodes kad)"
      using active_ids_update [OF True b_node_active_spec(1) [OF b [unfolded bo]]]
      by (simp add: set_active_nodes k')
    moreover have "mset (map kn_id (all_nodes kad')) = mset (map kn_id (all_nodes kad))"
      using arg_cong [OF mset_buckets_update [OF True, of b], of "image_mset kn_id"] kids
      by (simp add: all_nodes_def k' bo)
    ultimately show ?thesis
      using r kad_ok_shrinks_bucket [OF assms(1) True sh [unfolded bo]] k' by auto
  next
    case False
    then have bo: "bucket_of nid kad = root_bucket kad" by (simp add: bucket_of_def)
    have k': "kad' = kad\<lparr>root_bucket := b\<rparr>"
      using assms(2) False b by (simp add: node_active_def bo Let_def)
    show ?thesis
      using r kids kad_ok_shrinks_root [OF assms(1) sh [unfolded bo]] b_node_active_spec(1) [OF b]
      by (auto simp: k' all_nodes_def set_active_nodes bo)
  qed
qed

text \<open>
  A message from a node keeps the invariant and the identifiers of the table. It makes a
  node active exactly when the table knows it, it was not active and its bucket is the root
  bucket or has fewer than \<open>k\<close> active nodes; nothing else is activated or deactivated, and the
  flag that comes back says whether that happened.
\<close>

theorem node_active_ok:
  assumes "kad_ok kad" and "node_active nid kad = (kad', r)"
  shows "kad_ok kad' \<and> mset (map kn_id (all_nodes kad')) = mset (map kn_id (all_nodes kad)) \<and>
    set (active_nodes kad') = (if r then insert nid (set (active_nodes kad)) else set (active_nodes kad)) \<and>
    (r \<longleftrightarrow> has_node_id nid kad \<and> nid \<notin> set (active_nodes kad) \<and> can_activate (bucket_of nid kad))"
  using assms by (rule node_active_spec)

theorem node_active_ok_witness:
  "\<exists>kad r. node_active (U256 (128 # replicate 31 0)) (kademlia_new u256_zero kconfig_default) = (kad, r) \<and>
     kad_ok kad \<and> \<not> r"
proof -
  obtain kad r where n: "node_active (U256 (128 # replicate 31 0)) (kademlia_new u256_zero kconfig_default) = (kad, r)"
    by fastforce
  from node_active_ok [OF kad_ok_new n] n show ?thesis
    by (auto simp: has_node_id_iff all_nodes_def) (auto simp: kademlia_new_def)
qed

end
