(* ===== verification/KadRouting.thy ===== *)
theory KadRouting
  imports Kademlia
begin

text \<open>
  What the routing table of \<open>Kademlia\<close> is for: its clock (\<open>Kademlia::tick\<close> of
  \<open>flmodules/src/dht_router/kademlia.rs\<close>), which finds the nodes that have gone, and the choice
  of the next hop, which brings a message nearer to its destination.
\<close>

subsection \<open>The clock\<close>

lemma deleted_extend [simp]: "deleted (ticks_extend t u) = deleted t @ deleted u"
  and ping_extend [simp]: "ping (ticks_extend t u) = ping t @ ping u"
  and no_ticks_sel [simp]: "deleted no_ticks = []" "ping no_ticks = []"
  by (simp_all add: ticks_extend_def no_ticks_def)

lemma tick_active_loop_ok:
  assumes "0 < ping_interval c"
  shows "\<exists>t. tick_active_loop c ns = Ok (map knode_tick ns, t) \<and>
    deleted t = map kn_id (filter (\<lambda>n. ping_timeout c \<le> Suc (ticks_last n)) ns) \<and>
    ping t = map kn_id (filter (\<lambda>n. Suc (ticks_last n) mod ping_interval c = 0) ns)"
proof (induction ns)
  case (Cons n ns)
  with assms show ?case by (auto simp: Let_def rem_is_zero_def)
qed simp

lemma tick_cache_loop_ok:
  assumes "0 < ping_interval c"
  shows "\<exists>t. tick_cache_loop c m ns = Ok (map knode_tick (take m ns) @ drop m ns, t) \<and>
    deleted t = map kn_id (filter (\<lambda>n. ping_timeout c \<le> Suc (ticks_last n)) (take m ns)) \<and>
    ping t = map kn_id (filter (\<lambda>n. ticks_last n mod ping_interval c = 0) (take m ns))"
proof (induction m arbitrary: ns)
  case (Suc m)
  show ?case
  proof (cases ns)
    case (Cons n ns')
    from Suc [of ns'] Cons assms show ?thesis by (auto simp: Let_def rem_is_zero_def)
  qed simp
qed simp

lemma fold_remove_nodes:
  "fold b_remove_node ids b = b\<lparr>active := filter (\<lambda>n. kn_id n \<notin> set ids) (active b),
     cache := filter (\<lambda>n. kn_id n \<notin> set ids) (cache b)\<rparr>"
  by (induction ids arbitrary: b) (auto simp: b_remove_node_def intro!: kbucket.equality filter_cong)

text \<open>What a tick of some buckets, seen together, must do.\<close>

definition ticked :: "kbucket list \<Rightarrow> kbucket list \<Rightarrow> tick_ids \<Rightarrow> bool" where
  "ticked bs bs' t \<longleftrightarrow> list_all2 shrinks bs bs' \<and>
     kn_id ` set (concat (map b_nodes bs')) = kn_id ` set (concat (map b_nodes bs)) - set (deleted t) \<and>
     (\<forall>i \<in> set (deleted t). \<exists>b \<in> set bs. \<exists>n \<in> set (b_nodes b).
        kn_id n = i \<and> ping_timeout (config b) \<le> Suc (ticks_last n)) \<and>
     (\<forall>b \<in> set bs'. \<forall>n \<in> set (active b). 0 < ticks_last n \<and> ticks_last n < ping_timeout (config b)) \<and>
     (\<forall>b \<in> set bs. \<forall>n \<in> set (active b). Suc (ticks_last n) mod ping_interval (config b) = 0 \<longrightarrow>
        kn_id n \<in> set (ping t))"

lemma diff_union_disjoint:
  assumes "D \<subseteq> A" and "E \<subseteq> B" and "A \<inter> B = {}"
  shows "(A - D) \<union> (B - E) = (A \<union> B) - (D \<union> E)"
  using assms by auto

lemma ticked_append:
  assumes "ticked xs xs' t" and "ticked ys ys' u"
    and "kn_id ` set (concat (map b_nodes xs)) \<inter> kn_id ` set (concat (map b_nodes ys)) = {}"
  shows "ticked (xs @ ys) (xs' @ ys') (ticks_extend t u)"
proof -
  let ?I = "\<lambda>bs. kn_id ` set (concat (map b_nodes bs))"
  have del: "set (deleted t) \<subseteq> ?I xs" "set (deleted u) \<subseteq> ?I ys"
    using assms(1,2) unfolding ticked_def by fastforce+
  have ids: "?I xs' = ?I xs - set (deleted t)" "?I ys' = ?I ys - set (deleted u)"
    using assms(1,2) by (simp_all add: ticked_def)
  have app: "?I (vs @ ws) = ?I vs \<union> ?I ws" for vs ws
    by (simp only: map_append concat_append set_append image_Un)
  have "?I (xs' @ ys') = ?I (xs @ ys) - set (deleted (ticks_extend t u))"
    unfolding app ids deleted_extend set_append by (rule diff_union_disjoint [OF del assms(3)])
  moreover have "list_all2 shrinks (xs @ ys) (xs' @ ys')"
    using assms(1,2) by (simp add: ticked_def list_all2_appendI)
  moreover have "\<forall>i \<in> set (deleted (ticks_extend t u)). \<exists>b \<in> set (xs @ ys). \<exists>n \<in> set (b_nodes b).
      kn_id n = i \<and> ping_timeout (config b) \<le> Suc (ticks_last n)"
  proof
    fix i assume "i \<in> set (deleted (ticks_extend t u))"
    then consider "i \<in> set (deleted t)" | "i \<in> set (deleted u)" by auto
    then show "\<exists>b \<in> set (xs @ ys). \<exists>n \<in> set (b_nodes b). kn_id n = i \<and> ping_timeout (config b) \<le> Suc (ticks_last n)"
      using assms(1,2) unfolding ticked_def by cases (metis UnCI set_append)+
  qed
  ultimately show ?thesis
    using assms(1,2) unfolding ticked_def ping_extend set_append ball_Un by (simp add: ball_Un)
qed

lemma b_tick_ok:
  assumes "0 < ping_interval (config b)" and "is_root b \<or> length (active b) \<le> cfg_k (config b)"
    and "distinct (map kn_id (b_nodes b))"
  shows "\<exists>b' t. b_tick b = Ok (b', t) \<and> ticked [b] [b'] t"
proof -
  let ?c = "config b"
  obtain t1 where t1: "tick_active_loop ?c (active b) = Ok (map knode_tick (active b), t1)"
    "deleted t1 = map kn_id (filter (\<lambda>n. ping_timeout ?c \<le> Suc (ticks_last n)) (active b))"
    "ping t1 = map kn_id (filter (\<lambda>n. Suc (ticks_last n) mod ping_interval ?c = 0) (active b))"
    using tick_active_loop_ok [OF assms(1)] by blast
  obtain m where m: "fillup_nodes (b\<lparr>active := map knode_tick (active b)\<rparr>) = Ok m"
    using assms(2) by (fastforce simp: fillup_nodes_def)
  obtain t2 where t2: "tick_cache_loop ?c m (cache b) = Ok (map knode_tick (take m (cache b)) @ drop m (cache b), t2)"
    "deleted t2 = map kn_id (filter (\<lambda>n. ping_timeout ?c \<le> Suc (ticks_last n)) (take m (cache b)))"
    using tick_cache_loop_ok [OF assms(1)] by blast
  let ?t = "ticks_extend t1 t2"
  let ?b2 = "b\<lparr>active := map knode_tick (active b), cache := map knode_tick (take m (cache b)) @ drop m (cache b)\<rparr>"
  define b' where "b' = fold b_remove_node (deleted ?t) ?b2"
  have run: "b_tick b = Ok (b', ?t)"
    by (simp add: b_tick_def tick_active_def tick_cache_def t1 t2 m b'_def)
  have keys2: "map node_key (b_nodes ?b2) = map node_key (b_nodes b)"
  proof -
    have "map node_key (take m (cache b)) @ map node_key (drop m (cache b)) = map node_key (cache b)"
      by (simp flip: map_append)
    then show ?thesis by (simp add: b_nodes_def comp_def)
  qed
  have fil: "b_nodes b' = filter (\<lambda>n. kn_id n \<notin> set (deleted ?t)) (b_nodes ?b2)"
    by (simp add: b'_def fold_remove_nodes b_nodes_def)
  have keys: "map node_key (b_nodes b') = filter (\<lambda>k. fst k \<notin> set (deleted ?t)) (map node_key (b_nodes b))"
    unfolding fil keys2 [symmetric] by (simp add: filter_map comp_def node_key_def)
  have ids: "map kn_id (b_nodes b') = filter (\<lambda>i. i \<notin> set (deleted ?t)) (map kn_id (b_nodes b))"
    using arg_cong [OF keys, of "map fst"] by (simp add: filter_map comp_def node_key_def)
  have "bucket_ok ?c b \<longrightarrow> bucket_ok ?c b'"
    by (auto simp: bucket_ok_def b'_def fold_remove_nodes intro: order_trans [OF length_filter_le]
        intro!: order_trans [OF add_mono [OF length_filter_le length_filter_le]])
  then have "shrinks b b'"
    by (simp add: shrinks_def keys mset_filter del: mset_map) (simp add: b'_def fold_remove_nodes)
  moreover have "kn_id ` set (b_nodes b') = kn_id ` set (b_nodes b) - set (deleted ?t)"
    using arg_cong [OF ids, of set] by auto
  moreover have "\<forall>i \<in> set (deleted ?t). \<exists>n \<in> set (b_nodes b). kn_id n = i \<and> ping_timeout ?c \<le> Suc (ticks_last n)"
    by (auto simp: t1 t2 b_nodes_def dest: in_set_takeD)
  moreover have "\<forall>n \<in> set (active b'). 0 < ticks_last n \<and> ticks_last n < ping_timeout (config b')"
    by (auto simp: b'_def fold_remove_nodes t1 not_le image_iff)
  moreover have "\<forall>n \<in> set (active b). Suc (ticks_last n) mod ping_interval ?c = 0 \<longrightarrow> kn_id n \<in> set (ping ?t)"
    by (auto simp: t1)
  ultimately have "ticked [b] [b'] ?t" unfolding ticked_def by simp
  with run show ?thesis by blast
qed

lemma tick_buckets_ok:
  assumes "\<forall>b \<in> set bs. 0 < ping_interval (config b) \<and> length (active b) \<le> cfg_k (config b)"
    and "distinct (map kn_id (concat (map b_nodes bs)))"
  shows "\<exists>bs' t. tick_buckets bs = Ok (bs', t) \<and> ticked bs bs' t"
  using assms
proof (induction bs)
  case Nil
  show ?case by (simp add: ticked_def)
next
  case (Cons b bs)
  from Cons.prems b_tick_ok [of b] obtain b' t where b: "b_tick b = Ok (b', t)" "ticked [b] [b'] t"
    by auto
  from Cons obtain bs' u where bs: "tick_buckets bs = Ok (bs', u)" "ticked bs bs' u" by auto
  have "kn_id ` set (concat (map b_nodes [b])) \<inter> kn_id ` set (concat (map b_nodes bs)) = {}"
    using Cons.prems(2) by auto
  from ticked_append [OF b(2) bs(2) this] show ?case by (simp add: b bs)
qed

definition active_knodes :: "kademlia \<Rightarrow> knode list" where
  "active_knodes kad = concat (map active (buckets kad)) @ active (root_bucket kad)"

lemma kad_tick_spec:
  assumes "kad_ok kad" and "0 < ping_interval (kconf kad)"
  shows "\<exists>kad' t. kad_tick kad = Ok (kad', t) \<and> kad_ok kad' \<and> kroot kad' = kroot kad \<and>
    kn_id ` set (all_nodes kad') = kn_id ` set (all_nodes kad) - set (deleted t) \<and>
    (\<forall>i \<in> set (deleted t). \<exists>n \<in> set (all_nodes kad). kn_id n = i \<and> ping_timeout (kconf kad) \<le> Suc (ticks_last n)) \<and>
    (\<forall>n \<in> set (active_knodes kad'). 0 < ticks_last n \<and> ticks_last n < ping_timeout (kconf kad)) \<and>
    (\<forall>n \<in> set (active_knodes kad). Suc (ticks_last n) mod ping_interval (kconf kad) = 0 \<longrightarrow>
       kn_id n \<in> set (ping t))"
proof -
  let ?bs = "buckets kad" and ?rb = "root_bucket kad"
  have dist: "distinct (map kn_id (concat (map b_nodes ?bs)))" "distinct (map kn_id (b_nodes ?rb))"
    and disj: "kn_id ` set (concat (map b_nodes ?bs)) \<inter> kn_id ` set (concat (map b_nodes [?rb])) = {}"
    using assms(1) by (auto simp: kad_ok_def all_nodes_def)
  have conf: "\<forall>b \<in> set ?bs. config b = kconf kad \<and> length (active b) \<le> cfg_k (config b)"
    "config ?rb = kconf kad" "is_root ?rb"
    using assms(1) by (auto simp: kad_ok_def bucket_ok_def)
  with assms(2) dist obtain bs t where bs: "tick_buckets ?bs = Ok (bs, t)" "ticked ?bs bs t"
    using tick_buckets_ok [of ?bs] by fastforce
  from conf assms(2) dist obtain rb u where rb: "b_tick ?rb = Ok (rb, u)" "ticked [?rb] [rb] u"
    using b_tick_ok [of ?rb] by auto
  note all = ticked_append [OF bs(2) rb(2) disj]
  let ?kad = "kad\<lparr>buckets := bs, root_bucket := rb\<rparr>"
  have run: "kad_tick kad = Ok (?kad, ticks_extend t u)" by (simp add: kad_tick_def bs rb)
  have "list_all2 shrinks ?bs bs" "shrinks ?rb rb" using bs(2) rb(2) by (simp_all add: ticked_def)
  note ok = kad_ok_shrinks [OF assms(1) this]
  then have conf': "\<forall>b \<in> set (bs @ [rb]). config b = kconf kad"
    by (auto simp: kad_ok_def bucket_ok_def)
  from all have
    "kn_id ` set (all_nodes ?kad) = kn_id ` set (all_nodes kad) - set (deleted (ticks_extend t u))"
    "\<forall>i \<in> set (deleted (ticks_extend t u)). \<exists>b \<in> set (?bs @ [?rb]). \<exists>n \<in> set (b_nodes b).
        kn_id n = i \<and> ping_timeout (config b) \<le> Suc (ticks_last n)"
    "\<forall>b \<in> set (bs @ [rb]). \<forall>n \<in> set (active b). 0 < ticks_last n \<and> ticks_last n < ping_timeout (config b)"
    "\<forall>b \<in> set (?bs @ [?rb]). \<forall>n \<in> set (active b). Suc (ticks_last n) mod ping_interval (config b) = 0 \<longrightarrow>
        kn_id n \<in> set (ping (ticks_extend t u))"
    unfolding ticked_def all_nodes_def by simp_all
  note spec = this
  have "\<forall>i \<in> set (deleted (ticks_extend t u)). \<exists>n \<in> set (all_nodes kad).
      kn_id n = i \<and> ping_timeout (kconf kad) \<le> Suc (ticks_last n)"
    using spec(2) conf by (fastforce simp: all_nodes_def)
  moreover have "\<forall>n \<in> set (active_knodes ?kad). 0 < ticks_last n \<and> ticks_last n < ping_timeout (kconf kad)"
    using spec(3) conf' by (auto simp: active_knodes_def)
  moreover have "\<forall>n \<in> set (active_knodes kad). Suc (ticks_last n) mod ping_interval (kconf kad) = 0 \<longrightarrow>
      kn_id n \<in> set (ping (ticks_extend t u))"
    using spec(4) conf by (fastforce simp: active_knodes_def)
  ultimately show ?thesis using run ok spec(1) by auto
qed

text \<open>
  With a ping interval above 0 a tick never fails, although it takes remainders by the
  interval and subtracts the number of active nodes from \<open>k\<close>. It keeps the invariant and loses
  exactly the nodes it reports as deleted; each of these has been silent for the timeout; no
  active node that stays has; and every active node whose silence is a multiple of the
  interval is reported for a ping.
\<close>

theorem kad_tick_ok:
  assumes "kad_ok kad" and "0 < ping_interval (kconf kad)"
  shows "\<exists>kad' t. kad_tick kad = Ok (kad', t) \<and> kad_ok kad' \<and> kroot kad' = kroot kad \<and>
    kn_id ` set (all_nodes kad') = kn_id ` set (all_nodes kad) - set (deleted t) \<and>
    (\<forall>i \<in> set (deleted t). \<exists>n \<in> set (all_nodes kad). kn_id n = i \<and> ping_timeout (kconf kad) \<le> Suc (ticks_last n)) \<and>
    (\<forall>n \<in> set (active_knodes kad'). 0 < ticks_last n \<and> ticks_last n < ping_timeout (kconf kad)) \<and>
    (\<forall>n \<in> set (active_knodes kad). Suc (ticks_last n) mod ping_interval (kconf kad) = 0 \<longrightarrow>
       kn_id n \<in> set (ping t))"
  using assms by (rule kad_tick_spec)

theorem kad_tick_ok_witness:
  "\<exists>kad t. kad_tick (kademlia_new u256_zero kconfig_default) = Ok (kad, t) \<and> kad_ok kad"
proof -
  have "0 < ping_interval (kconf (kademlia_new u256_zero kconfig_default))"
    by (simp add: kademlia_new_def kconfig_default_def)
  from kad_tick_ok [OF kad_ok_new this] show ?thesis by blast
qed

subsection \<open>The next hop\<close>

text \<open>Nearness to a destination: the number of leading bits shared with it, not cut off at 255.\<close>

definition common_bits :: "u256 \<Rightarrow> u256 \<Rightarrow> nat" where
  "common_bits a b = lcp (id_bits a) (id_bits b)"

definition ids_wf :: "kademlia \<Rightarrow> bool" where
  "ids_wf kad \<longleftrightarrow> u256_ok (kroot kad) \<and> (\<forall>n \<in> set (all_nodes kad). u256_ok (kn_id n))"

lemma id_bits_inject:
  assumes "u256_ok a" and "u256_ok b" and "id_bits a = id_bits b"
  shows "a = b"
proof -
  have len: "length (u256_bytes a) = length (u256_bytes b)" using assms by (simp add: u256_ok_def)
  have "inj byte_bits" by (simp add: inj_def byte_bits_eq_iff)
  moreover have "map byte_bits (u256_bytes a) = map byte_bits (u256_bytes b)"
    using assms(3) len by (intro concat_injective) (auto simp: id_bits_def zip_map_map set_zip)
  ultimately show ?thesis by (metis inj_map_eq_map u256.expand)
qed

lemma common_bits_le: "u256_ok a \<Longrightarrow> common_bits a b \<le> 256"
  using lcp_le [of "id_bits a" "id_bits b"] by (simp add: common_bits_def length_id_bits)

lemma common_bits_full: "u256_ok a \<Longrightarrow> u256_ok b \<Longrightarrow> common_bits a b = 256 \<longleftrightarrow> a = b"
  using lcp_full [of "id_bits a" "id_bits b"] id_bits_inject [of a b]
  by (auto simp: common_bits_def length_id_bits)

lemma depth_common: "u256_ok a \<Longrightarrow> u256_ok b \<Longrightarrow> a \<noteq> b \<Longrightarrow> get_depth a b = common_bits a b"
  using get_depth_lcp [of a b] common_bits_full [of a b] common_bits_le [of a b]
  by (simp add: common_bits_def)

lemma same_depth_nearer:
  assumes "u256_ok r" and "u256_ok a" and "u256_ok b" and "a \<noteq> r" and "b \<noteq> r"
    and "get_depth r a = get_depth r b"
  shows "common_bits r b < common_bits a b"
proof -
  have "common_bits r a = common_bits r b"
    using assms depth_common [of r a] depth_common [of r b] by metis
  moreover have "common_bits r b < 256"
    using common_bits_full [of r b] common_bits_le [of r b] assms by simp
  ultimately show ?thesis
    using assms unfolding common_bits_def by (intro lcp_split [of "id_bits r"]) (auto simp: length_id_bits)
qed

lemma get_nodes_depth_mem:
  "h \<in> set (get_nodes_depth d kad) \<Longrightarrow>
   \<exists>n \<in> set (active_knodes kad). kn_id n = h \<and> kn_depth n = d"
  by (fastforce simp: get_nodes_depth_def get_active_ids_def active_knodes_def split: if_splits)

lemma active_all: "n \<in> set (active_knodes kad) \<Longrightarrow> n \<in> set (all_nodes kad)"
  by (auto simp: active_knodes_def all_nodes_def b_nodes_def)

lemma kad_ok_depth:
  assumes "kad_ok kad" and "n \<in> set (all_nodes kad)"
  shows "kn_depth n = get_depth (kroot kad) (kn_id n)" and "kn_id n \<noteq> kroot kad"
proof -
  from assms(2) consider i where "i < length (buckets kad)" "n \<in> set (b_nodes (buckets kad ! i))"
    | "n \<in> set (b_nodes (root_bucket kad))"
    by (fastforce simp: all_nodes_def in_set_conv_nth)
  then show "kn_depth n = get_depth (kroot kad) (kn_id n)"
    using assms(1) unfolding kad_ok_def placed_def by cases metis+
  show "kn_id n \<noteq> kroot kad" using assms unfolding kad_ok_def by (metis imageI)
qed

lemma get_nodes_depth_complete:
  assumes "kad_ok kad" and "n \<in> set (active_knodes kad)"
  shows "kn_id n \<in> set (get_nodes_depth (kn_depth n) kad)"
proof -
  have d: "kn_depth n = get_depth (kroot kad) (kn_id n)"
    by (rule kad_ok_depth [OF assms(1) active_all [OF assms(2)]])
  from assms(2) consider i where "i < length (buckets kad)" "n \<in> set (active (buckets kad ! i))"
    | "n \<in> set (active (root_bucket kad))"
    by (fastforce simp: active_knodes_def in_set_conv_nth)
  then show ?thesis
  proof cases
    case 1
    with kad_ok_bucket_of [OF assms(1) 1(1), of n] d show ?thesis
      by (auto simp: get_nodes_depth_def get_active_ids_def b_nodes_def)
  next
    case 2
    with kad_ok_root_of [OF assms(1), of n] d show ?thesis
      by (auto simp: get_nodes_depth_def get_active_ids_def b_nodes_def)
  qed
qed

text \<open>
  Routing brings a message nearer: every node \<open>route_direct\<close> returns is an active node of
  the table and shares more leading bits with the destination than the root does, and it
  returns none only if no active node branches off the root's path at the same bit as the
  destination.
\<close>

theorem route_direct_progress:
  assumes "kad_ok kad" and "ids_wf kad" and "u256_ok dst" and "dst \<noteq> kroot kad"
  shows "(\<forall>h \<in> set (route_direct dst kad). h \<in> set (active_nodes kad) \<and> u256_ok h \<and>
       common_bits (kroot kad) dst < common_bits h dst) \<and>
    (route_direct dst kad = [] \<longleftrightarrow>
       (\<forall>h \<in> set (active_nodes kad). get_depth (kroot kad) h \<noteq> get_depth (kroot kad) dst))"
proof (intro conjI ballI)
  let ?r = "kroot kad" and ?d = "get_depth (kroot kad) dst"
  fix h assume "h \<in> set (route_direct dst kad)"
  then obtain n where n: "n \<in> set (active_knodes kad)" "kn_id n = h" "kn_depth n = ?d"
    using get_nodes_depth_mem [of h ?d kad] by (auto simp: route_direct_def)
  then show "h \<in> set (active_nodes kad)" by (auto simp: active_nodes_def active_knodes_def)
  show wf: "u256_ok h" using assms(2) active_all [OF n(1)] n(2) by (auto simp: ids_wf_def)
  show "common_bits ?r dst < common_bits h dst"
    using kad_ok_depth [OF assms(1) active_all [OF n(1)]] n wf assms
    by (intro same_depth_nearer) (auto simp: ids_wf_def)
next
  let ?d = "get_depth (kroot kad) dst"
  have "set (get_nodes_depth ?d kad) = {kn_id n | n. n \<in> set (active_knodes kad) \<and> kn_depth n = ?d}"
    using get_nodes_depth_mem [of _ ?d kad] get_nodes_depth_complete [OF assms(1)] by fastforce
  moreover have "kn_depth n = get_depth (kroot kad) (kn_id n)" if "n \<in> set (active_knodes kad)" for n
    using kad_ok_depth(1) [OF assms(1) active_all [OF that]] .
  moreover have "set (active_nodes kad) = kn_id ` set (active_knodes kad)"
    by (simp add: active_nodes_def active_knodes_def image_Un)
  ultimately show "route_direct dst kad = [] \<longleftrightarrow>
      (\<forall>h \<in> set (active_nodes kad). get_depth (kroot kad) h \<noteq> ?d)"
    unfolding route_direct_def set_empty [symmetric] by auto
qed

theorem route_direct_progress_witness:
  "route_direct (U256 (1 # replicate 31 0)) (kademlia_new u256_zero kconfig_default) = []"
proof -
  have "ids_wf (kademlia_new u256_zero kconfig_default)"
    by (simp add: ids_wf_def kademlia_new_def all_nodes_def u256_ok_def u256_zero_def)
  moreover have "u256_ok (U256 (1 # replicate 31 0))" by (simp add: u256_ok_def)
  moreover have "U256 (1 # replicate 31 0) \<noteq> kroot (kademlia_new u256_zero kconfig_default)"
    by (simp add: kademlia_new_def u256_zero_def numeral_eq_Suc)
  ultimately show ?thesis
    using route_direct_progress [OF kad_ok_new, of u256_zero kconfig_default "U256 (1 # replicate 31 0)"]
    by (simp add: active_nodes_def) (simp add: kademlia_new_def kbucket_new_root_def)
qed

text \<open>
  A network: the routing table of every node. A message travels along \<open>path\<close> when each next
  node is one its predecessor's table returns for the destination.
\<close>

definition network_ok :: "(u256 \<Rightarrow> kademlia) \<Rightarrow> bool" where
  "network_ok net \<longleftrightarrow> (\<forall>a. u256_ok a \<longrightarrow> kroot (net a) = a \<and> kad_ok (net a) \<and> ids_wf (net a))"

fun routed :: "(u256 \<Rightarrow> kademlia) \<Rightarrow> u256 \<Rightarrow> node_ids \<Rightarrow> bool" where
  "routed net dst (a # b # path) \<longleftrightarrow>
     a \<noteq> dst \<and> b \<in> set (route_direct dst (net a)) \<and> routed net dst (b # path)"
| "routed net dst path \<longleftrightarrow> True"

lemma routed_length:
  "network_ok net \<Longrightarrow> u256_ok dst \<Longrightarrow> u256_ok a \<Longrightarrow> routed net dst (a # path) \<Longrightarrow>
   length path + common_bits a dst \<le> 256"
proof (induction path arbitrary: a)
  case Nil
  then show ?case by (simp add: common_bits_le)
next
  case (Cons b path)
  have net: "kroot (net a) = a" "kad_ok (net a)" "ids_wf (net a)"
    using Cons.prems(1,3) by (simp_all add: network_ok_def)
  from Cons.prems(4) have r: "dst \<noteq> a" "b \<in> set (route_direct dst (net a))" "routed net dst (b # path)"
    by auto
  from get_nodes_depth_mem [OF r(2) [unfolded route_direct_def]] obtain n
    where n: "n \<in> set (all_nodes (net a))" "kn_id n = b" "kn_depth n = get_depth a dst"
    using active_all net(1) by metis
  have wf: "u256_ok b" using net(3) n by (auto simp: ids_wf_def)
  have "common_bits a dst < common_bits b dst"
    using kad_ok_depth [OF net(2) n(1)] n net r(1) wf Cons.prems(2,3)
    by (intro same_depth_nearer) auto
  with Cons.IH [OF Cons.prems(1,2) wf r(3)] show ?case by simp
qed

text \<open>
  C4. Whatever the tables of the other nodes hold, a routed message never goes around in
  circles: after at most 256 hops it has arrived at its destination or at a node that knows no
  next hop.
\<close>

theorem routing_terminates:
  assumes "network_ok net" and "u256_ok dst" and "u256_ok a" and "routed net dst (a # path)"
  shows "length path \<le> 256 \<and> distinct (a # path)"
proof
  show "length path \<le> 256" using routed_length [OF assms] by simp
  have "common_bits a dst \<le> common_bits b dst \<and> (b \<in> set path \<longrightarrow> common_bits a dst < common_bits b dst) \<and>
      distinct (a # path)"
    if "u256_ok a" and "routed net dst (a # path)" and "b \<in> set (a # path)" for a b path
    using that
  proof (induction path arbitrary: a b)
    case (Cons c path)
    have net: "kroot (net a) = a" "kad_ok (net a)" "ids_wf (net a)"
      using assms(1) Cons.prems(1) by (simp_all add: network_ok_def)
    from Cons.prems(2) have r: "dst \<noteq> a" "c \<in> set (route_direct dst (net a))" "routed net dst (c # path)"
      by auto
    from get_nodes_depth_mem [OF r(2) [unfolded route_direct_def]] obtain n
      where n: "n \<in> set (all_nodes (net a))" "kn_id n = c" "kn_depth n = get_depth a dst"
      using active_all net(1) by metis
    have wf: "u256_ok c" using net(3) n by (auto simp: ids_wf_def)
    have near: "common_bits a dst < common_bits c dst"
      using kad_ok_depth [OF net(2) n(1)] n net r(1) wf assms(2) Cons.prems(1)
      by (intro same_depth_nearer) auto
    have IH: "common_bits c dst \<le> common_bits e dst \<and> distinct (c # path)" if "e \<in> set (c # path)" for e
      using Cons.IH [OF wf r(3) that] by blast
    have "common_bits a dst < common_bits e dst" if "e \<in> set (c # path)" for e
      using IH [OF that] near by linarith
    moreover from this have "a \<notin> set (c # path)" by blast
    moreover have "distinct (c # path)" using IH [of c] by simp
    ultimately show ?case using Cons.prems(3) by (auto intro: less_imp_le)
  qed simp
  from this [OF assms(3,4), of a] show "distinct (a # path)" by simp
qed

definition far_node :: u256 where
  "far_node = U256 (128 # replicate 31 0)"

definition two_node_table :: "u256 \<Rightarrow> kademlia" where
  "two_node_table a = (kademlia_new a kconfig_default)
     \<lparr>root_bucket := b_add_nodes_active (if a = far_node then [] else [knode_new a far_node])
        (kbucket_new_root kconfig_default)\<rparr>"

lemma far_node_ok: "u256_ok far_node" "u256_ok u256_zero" "far_node \<noteq> u256_zero"
proof -
  have "hd (u256_bytes far_node) \<noteq> hd (u256_bytes u256_zero)"
    by (simp add: far_node_def u256_zero_def)
  then show "far_node \<noteq> u256_zero" by auto
qed (simp_all add: far_node_def u256_ok_def u256_zero_def)

lemma two_node_network: "network_ok two_node_table"
proof -
  have "kad_ok (two_node_table a) \<and> ids_wf (two_node_table a) \<and> kroot (two_node_table a) = a"
    if "u256_ok a" for a
    using that far_node_ok(1) get_depth_bound [OF that far_node_ok(1)]
    by (auto simp: two_node_table_def kademlia_new_def kad_ok_def ids_wf_def all_nodes_def placed_def
        b_add_nodes_active_def b_add_node_active_def b_nodes_def kbucket_new_root_def)
  then show ?thesis by (simp add: network_ok_def)
qed

theorem routing_terminates_witness:
  "routed two_node_table far_node [u256_zero, far_node] \<and> distinct [u256_zero, far_node]"
proof -
  have "routed two_node_table far_node [u256_zero, far_node]"
    using far_node_ok(3)
    by (simp add: route_direct_def get_nodes_depth_def get_active_ids_def two_node_table_def
        kademlia_new_def kbucket_new_root_def b_add_nodes_active_def b_add_node_active_def)
  with routing_terminates [OF two_node_network far_node_ok(1,2) this] show ?thesis by simp
qed

lemma first_nonempty_mem:
  "h \<in> set (first_nonempty f ds) \<Longrightarrow> \<exists>d \<in> set ds. h \<in> set (f d)"
  by (induction ds) (auto split: if_splits)

lemma route_closest_spec:
  assumes "kad_ok kad" and "ids_wf kad" and "u256_ok dst" and "dst \<noteq> kroot kad"
    and "h \<in> set (route_closest dst l kad)"
  shows "h \<in> set (active_nodes kad) \<and>
    (common_bits (kroot kad) dst < common_bits h dst \<or>
     (\<exists>src. l = Some src \<and> route_direct dst kad = [] \<and>
        get_depth (kroot kad) dst < get_depth (kroot kad) h \<and>
        get_depth (kroot kad) src < get_depth (kroot kad) h))"
proof -
  let ?r = "kroot kad" and ?d = "get_depth (kroot kad) dst"
  have hop: "h \<in> set (active_nodes kad) \<and> get_depth ?r h = e \<and> u256_ok h \<and> h \<noteq> ?r"
    if "h \<in> set (get_nodes_depth e kad)" for e
  proof -
    from get_nodes_depth_mem [OF that] obtain n
      where n: "n \<in> set (active_knodes kad)" "kn_id n = h" "kn_depth n = e" by blast
    with kad_ok_depth [OF assms(1) active_all [OF n(1)]] assms(2) active_all [OF n(1)] show ?thesis
      by (auto simp: ids_wf_def active_nodes_def active_knodes_def)
  qed
  have near: "common_bits ?r dst < common_bits h dst" if "h \<in> set (get_nodes_depth ?d kad)"
    using hop [OF that] assms by (intro same_depth_nearer) (auto simp: ids_wf_def)
  show ?thesis
  proof (cases l)
    case None
    with assms(5) hop near show ?thesis by (simp add: route_closest_def Let_def)
  next
    case (Some src)
    define top where "top = (case last_depth (root_bucket kad) of Some d \<Rightarrow> d
       | None \<Rightarrow> max ?d (get_depth ?r src))"
    have h: "h \<in> set (first_nonempty (\<lambda>d. get_nodes_depth d kad)
        (?d # [max ?d (get_depth ?r src) + 1..<top]))"
      using assms(5) Some by (simp add: route_closest_def Let_def top_def)
    show ?thesis
    proof (cases "get_nodes_depth ?d kad = []")
      case True
      with first_nonempty_mem [OF h] obtain e where "max ?d (get_depth ?r src) < e"
        "h \<in> set (get_nodes_depth e kad)" by (auto simp: Suc_le_eq)
      with hop [of e] Some True show ?thesis by (auto simp: route_direct_def)
    next
      case False
      with h hop near show ?thesis by simp
    qed
  qed
qed

text \<open>
  When a message has come from a node \<open>l\<close>, \<open>route_closest\<close> brings it nearer to the
  destination, or, where no node is nearer, to a node that shares more leading bits with the
  root than both \<open>l\<close> and the destination do: the fallback moves towards the root and never
  back to where the message came from.
\<close>

theorem route_closest_progress:
  assumes "kad_ok kad" and "ids_wf kad" and "u256_ok dst" and "dst \<noteq> kroot kad"
    and "h \<in> set (route_closest dst l kad)"
  shows "h \<in> set (active_nodes kad) \<and>
    (common_bits (kroot kad) dst < common_bits h dst \<or>
     (\<exists>src. l = Some src \<and> route_direct dst kad = [] \<and>
        get_depth (kroot kad) dst < get_depth (kroot kad) h \<and>
        get_depth (kroot kad) src < get_depth (kroot kad) h))"
  using assms by (rule route_closest_spec)

theorem route_closest_progress_witness:
  "common_bits u256_zero far_node < common_bits far_node far_node"
proof -
  have r: "kroot (two_node_table u256_zero) = u256_zero" by (simp add: two_node_table_def kademlia_new_def)
  have "far_node \<in> set (route_closest far_node None (two_node_table u256_zero))"
    using far_node_ok(3)
    by (simp add: route_closest_def get_nodes_depth_def get_active_ids_def two_node_table_def
        kademlia_new_def kbucket_new_root_def b_add_nodes_active_def b_add_node_active_def)
  moreover have "kad_ok (two_node_table u256_zero)" "ids_wf (two_node_table u256_zero)"
    using two_node_network far_node_ok(2) by (auto simp: network_ok_def)
  ultimately show ?thesis
    using route_closest_progress [of "two_node_table u256_zero" far_node far_node None] far_node_ok r by auto
qed

text \<open>
  The fallback leaves out the greatest depth of the root bucket, so a table whose nodes all lie
  there offers no hop to a message that came from another node.
\<close>

lemma route_closest_skips_last:
  assumes "buckets kad = []" and "\<forall>n \<in> set (active (root_bucket kad)). kn_depth n = d"
    and "get_depth (kroot kad) dst \<noteq> d"
  shows "route_closest dst (Some l) kad = []"
proof -
  have f: "get_nodes_depth e kad = []" if "e \<noteq> d" for e
    using assms(1,2) that by (auto simp: get_nodes_depth_def get_active_ids_def filter_empty_conv)
  have "last_depth (root_bucket kad) = None \<or> last_depth (root_bucket kad) = Some d"
    using assms(2) by (simp add: last_depth_def)
  moreover have "first_nonempty (\<lambda>d. get_nodes_depth d kad) ds = []" if "d \<notin> set ds" for ds
    using that by (induction ds) (auto simp: f)
  ultimately show ?thesis using assms(3) by (auto simp: route_closest_def Let_def f)
qed

text \<open>
  Which hop it offers, exactly: the active nodes of the table that branch off the root where the
  destination does, else those of the least depth beyond the destination's and the last node's
  that is still smaller than the depth of the last active node of the root bucket.
\<close>

definition active_at :: "kademlia \<Rightarrow> nat \<Rightarrow> u256 set" where
  "active_at kad d = {h \<in> set (active_nodes kad). get_depth (kroot kad) h = d}"

lemma depth_nodes: "kad_ok kad \<Longrightarrow> set (get_nodes_depth d kad) = active_at kad d"
proof -
  assume ok: "kad_ok kad"
  have "set (get_nodes_depth d kad) = {kn_id n | n. n \<in> set (active_knodes kad) \<and> kn_depth n = d}"
    using get_nodes_depth_mem [of _ d kad] get_nodes_depth_complete [OF ok] by fastforce
  moreover have "kn_depth n = get_depth (kroot kad) (kn_id n)" if "n \<in> set (active_knodes kad)" for n
    using kad_ok_depth(1) [OF ok active_all [OF that]] .
  moreover have "set (active_nodes kad) = kn_id ` set (active_knodes kad)"
    by (simp add: active_nodes_def active_knodes_def image_Un)
  ultimately show ?thesis by (auto simp: active_at_def)
qed

lemma no_depth_nodes: "kad_ok kad \<Longrightarrow> get_nodes_depth d kad = [] \<longleftrightarrow> active_at kad d = {}"
  using depth_nodes [of kad d] by (metis set_empty)

lemma first_nonempty_upt:
  "first_nonempty f [a..<b] = [] \<and> (\<forall>d. a \<le> d \<and> d < b \<longrightarrow> f d = []) \<or>
   (\<exists>d. a \<le> d \<and> d < b \<and> first_nonempty f [a..<b] = f d \<and> f d \<noteq> [] \<and> (\<forall>e. a \<le> e \<and> e < d \<longrightarrow> f e = []))"
proof (induction "b - a" arbitrary: a)
  case (Suc k)
  then have up: "[a..<b] = a # [Suc a..<b]" by (simp add: upt_conv_Cons)
  show ?case
  proof (cases "f a = []")
    case True
    have step: "a \<le> e \<longleftrightarrow> e = a \<or> Suc a \<le> e" for e by auto
    from Suc.hyps(1) [of "Suc a"] Suc.hyps(2) True show ?thesis unfolding up step by fastforce
  next
    case False
    with Suc.hyps(2) show ?thesis unfolding up by (intro disjI2 exI [of _ a]) auto
  qed
qed auto

lemma route_closest_exact:
  fixes kad :: kademlia and dst src :: u256
  assumes "kad_ok kad"
  defines "near \<equiv> get_depth (kroot kad) dst"
  defines "beyond \<equiv> max near (get_depth (kroot kad) src)"
  defines "reach \<equiv> (case last_depth (root_bucket kad) of Some d \<Rightarrow> d | None \<Rightarrow> beyond)"
  shows "route_closest dst (Some src) kad = [] \<and> active_at kad near = {} \<and>
       (\<forall>d. beyond < d \<and> d < reach \<longrightarrow> active_at kad d = {}) \<or>
     (\<exists>d. set (route_closest dst (Some src) kad) = active_at kad d \<and> active_at kad d \<noteq> {} \<and>
       (d = near \<or> active_at kad near = {} \<and> beyond < d \<and> d < reach \<and>
          (\<forall>e. beyond < e \<and> e < d \<longrightarrow> active_at kad e = {})))"
proof -
  let ?f = "\<lambda>d. get_nodes_depth d kad"
  have run: "route_closest dst (Some src) kad = (if ?f near \<noteq> [] then ?f near else first_nonempty ?f [Suc beyond..<reach])"
    by (simp add: route_closest_def Let_def near_def beyond_def reach_def cong: option.case_cong)
  note e = no_depth_nodes [OF assms(1)] and m = depth_nodes [OF assms(1)]
  show ?thesis
  proof (cases "?f near = []")
    case True
    with run have r: "route_closest dst (Some src) kad = first_nonempty ?f [Suc beyond..<reach]" by simp
    from first_nonempty_upt [of ?f "Suc beyond" reach] show ?thesis
    proof (elim disjE conjE exE)
      assume "first_nonempty ?f [Suc beyond..<reach] = []" "\<forall>d. Suc beyond \<le> d \<and> d < reach \<longrightarrow> ?f d = []"
      with True show ?thesis by (simp add: r e Suc_le_eq)
    next
      fix d
      assume d: "Suc beyond \<le> d" "d < reach" "first_nonempty ?f [Suc beyond..<reach] = ?f d" "?f d \<noteq> []"
        "\<forall>e. Suc beyond \<le> e \<and> e < d \<longrightarrow> ?f e = []"
      with True m [of d] show ?thesis unfolding r e Suc_le_eq by (intro disjI2 exI [of _ d]) simp
    qed
  next
    case False
    with run m [of near] e [of near] show ?thesis by (intro disjI2 exI [of _ near]) simp
  qed
qed

subsection \<open>The contract of the table\<close>

text \<open>
  What the handlers of the router rely on: every operation on a table of the invariant returns,
  and gives a table of the invariant with the same root, as long as the identifiers it is given
  are well formed.
\<close>

locale node_table =
  fixes ok :: "'t \<Rightarrow> bool"
    and root :: "'t \<Rightarrow> 'i"
    and wf :: "'i \<Rightarrow> bool"
    and add :: "'i \<Rightarrow> 't \<Rightarrow> 't option"
    and remove :: "'i \<Rightarrow> 't \<Rightarrow> 't"
    and disconnected :: "'i \<Rightarrow> 't \<Rightarrow> 't"
    and act :: "'i \<Rightarrow> 't \<Rightarrow> 't \<times> bool"
    and clock :: "'t \<Rightarrow> (unit, 't \<times> 'k) outcome"
    and live :: "'t \<Rightarrow> 'i list"
  assumes add_ok: "ok t \<Longrightarrow> wf n \<Longrightarrow> \<exists>t'. add n t = Some t' \<and> ok t' \<and> root t' = root t"
    and remove_ok: "ok t \<Longrightarrow> ok (remove n t) \<and> root (remove n t) = root t"
    and disconnected_ok: "ok t \<Longrightarrow> ok (disconnected n t) \<and> root (disconnected n t) = root t"
    and act_ok: "ok t \<Longrightarrow> act n t = (t', b) \<Longrightarrow> ok t' \<and> root t' = root t"
    and clock_ok: "ok t \<Longrightarrow> \<exists>t' x. clock t = Ok (t', x) \<and> ok t' \<and> root t' = root t"
    and live_wf: "ok t \<Longrightarrow> n \<in> set (live t) \<Longrightarrow> wf n"
begin

lemma adds_ok:
  "ok t \<Longrightarrow> \<forall>n \<in> set ns. wf n \<Longrightarrow>
     \<exists>t'. fold (\<lambda>n m. Option.bind m (add n)) ns (Some t) = Some t' \<and> ok t' \<and> root t' = root t"
proof (induction ns arbitrary: t)
  case (Cons n ns)
  then obtain t1 where "add n t = Some t1" "ok t1" "root t1 = root t" using add_ok [of t n] by auto
  with Cons.IH [of t1] Cons.prems(2) show ?case by auto
qed simp

lemma removes_ok:
  "ok t \<Longrightarrow> ok (fold (\<lambda>n t. if P n then remove n t else t) ns t) \<and>
     root (fold (\<lambda>n t. if P n then remove n t else t) ns t) = root t"
proof (induction ns arbitrary: t)
  case (Cons n ns)
  with Cons.IH [of "remove n t"] remove_ok [of t n] show ?case by auto
qed simp

end

definition table_ok :: "kademlia \<Rightarrow> bool" where
  "table_ok kad \<longleftrightarrow> kad_ok kad \<and> ids_wf kad \<and> 0 < cfg_k (kconf kad) \<and> 0 < ping_interval (kconf kad)"

lemma table_ok_sub:
  assumes "table_ok kad" and "kad_ok kad'" and "kroot kad' = kroot kad" and "kconf kad' = kconf kad"
    and "\<forall>n \<in> set (all_nodes kad'). u256_ok (kn_id n)"
  shows "table_ok kad' \<and> kroot kad' = kroot kad"
  using assms by (simp add: table_ok_def ids_wf_def)

lemma ids_of_sub:
  assumes "table_ok kad" and "kn_id ` set (all_nodes kad') \<subseteq> kn_id ` set (all_nodes kad)"
  shows "\<forall>n \<in> set (all_nodes kad'). u256_ok (kn_id n)"
  using assms unfolding table_ok_def ids_wf_def by (metis image_iff subset_iff)

lemma conf_frame: "kconf (remove_node n kad) = kconf kad" if "kad_ok kad"
  using rebalance_wanting_ok [OF root_remove_ok [OF that, of n]]
  by (simp add: remove_node_def Let_def)

lemma node_active_frame:
  "node_active n kad = (kad', b) \<Longrightarrow> kconf kad' = kconf kad \<and> kroot kad' = kroot kad"
  by (auto simp: node_active_def Let_def split: prod.splits if_splits)

lemma kad_tick_frame: "kad_tick kad = Ok (kad', t) \<Longrightarrow> kconf kad' = kconf kad"
  by (auto simp: kad_tick_def bind_outcome_Ok split: prod.splits)

lemma node_disconnected_spec:
  assumes "kad_ok kad"
  shows "kad_ok (node_disconnected n kad) \<and> kroot (node_disconnected n kad) = kroot kad \<and>
    kconf (node_disconnected n kad) = kconf kad \<and>
    set (all_nodes (node_disconnected n kad)) \<subseteq> set (all_nodes kad)"
proof (cases "get_depth (kroot kad) n < length (buckets kad)")
  case True
  let ?kad = "kad\<lparr>buckets := (buckets kad)[get_depth (kroot kad) n :=
     b_remove_node n (buckets kad ! get_depth (kroot kad) n)]\<rparr>"
  have ok: "kad_ok ?kad" by (rule bucket_remove_ok [OF assms True])
  from rebalance_wanting_ok [OF ok] have "set (all_nodes (rebalance_wanting ?kad)) = set (all_nodes ?kad)"
    by (metis set_mset_mset)
  with rebalance_wanting_ok [OF ok] ok True remove_from_bucket [OF assms True] show ?thesis
    by (auto simp: node_disconnected_def Let_def)
qed (simp add: node_disconnected_def assms)

interpretation nt: node_table table_ok kroot u256_ok add_node remove_node node_disconnected node_active
  kad_tick active_nodes
proof unfold_locales
  show "\<exists>t'. add_node n t = Some t' \<and> table_ok t' \<and> kroot t' = kroot t" if "table_ok t" "u256_ok n" for t n
  proof -
    from that have "kad_ok t" "0 < cfg_k (kconf t)" "u256_ok (kroot t)" by (simp_all add: table_ok_def ids_wf_def)
    from add_node_spec [OF this that(2)] obtain t' where
      t': "add_node n t = Some t'" "kad_ok t'" "kroot t' = kroot t" "kconf t' = kconf t"
        "mset (all_nodes t') \<subseteq># mset [knode_new (kroot t) n] + mset (all_nodes t)" by blast
    from t'(5) have "set (all_nodes t') \<subseteq> insert (knode_new (kroot t) n) (set (all_nodes t))"
      using set_mset_mono by fastforce
    with that have "\<forall>m \<in> set (all_nodes t'). u256_ok (kn_id m)" by (auto simp: table_ok_def ids_wf_def)
    with table_ok_sub [OF that(1) t'(2-4)] t'(1) show ?thesis by blast
  qed
  show "table_ok (remove_node n t) \<and> kroot (remove_node n t) = kroot t" if "table_ok t" for t n
  proof -
    from that have ok: "kad_ok t" by (simp add: table_ok_def)
    note r = remove_node_spec [OF ok, of n]
    have "set_mset (mset (all_nodes (remove_node n t))) \<subseteq> set_mset (mset (all_nodes t))"
      using r by (auto simp del: set_mset_mset)
    then have "kn_id ` set (all_nodes (remove_node n t)) \<subseteq> kn_id ` set (all_nodes t)" by auto
    then show ?thesis using table_ok_sub [OF that] r conf_frame [OF ok] ids_of_sub [OF that] by blast
  qed
  show "table_ok (node_disconnected n t) \<and> kroot (node_disconnected n t) = kroot t" if "table_ok t" for t n
    using node_disconnected_spec [of t n] that by (intro table_ok_sub ids_of_sub) (auto simp: table_ok_def)
  show "table_ok t' \<and> kroot t' = kroot t" if "table_ok t" "node_active n t = (t', b)" for t n t' b
  proof -
    from that have ok: "kad_ok t" by (simp add: table_ok_def)
    from node_active_spec [OF ok that(2)] have "kad_ok t'" "kn_id ` set (all_nodes t') = kn_id ` set (all_nodes t)"
      by (blast, metis set_map set_mset_mset)
    with table_ok_sub [OF that(1), of t'] node_active_frame [OF that(2)] ids_of_sub [OF that(1), of t']
    show ?thesis by simp
  qed
  show "\<exists>t' x. kad_tick t = Ok (t', x) \<and> table_ok t' \<and> kroot t' = kroot t" if "table_ok t" for t
  proof -
    from that have "kad_ok t" "0 < ping_interval (kconf t)" by (simp_all add: table_ok_def)
    from kad_tick_spec [OF this] obtain t' x where t': "kad_tick t = Ok (t', x)" "kad_ok t'" "kroot t' = kroot t"
      "kn_id ` set (all_nodes t') = kn_id ` set (all_nodes t) - set (deleted x)"
      by (elim exE conjE) (rule that)
    have "kn_id ` set (all_nodes t') \<subseteq> kn_id ` set (all_nodes t)" unfolding t'(4) by (rule Diff_subset)
    from table_ok_sub [OF that t'(2,3) kad_tick_frame [OF t'(1)] ids_of_sub [OF that this]] t'(1)
    show ?thesis by simp
  qed
  show "u256_ok n" if "table_ok t" "n \<in> set (active_nodes t)" for t n
    using that active_all [of _ t] by (auto simp: table_ok_def ids_wf_def active_nodes_def active_knodes_def)
qed

lemma add_nodes_fold: "add_nodes ns kad = fold (\<lambda>n m. Option.bind m (add_node n)) ns (Some kad)"
proof (induction ns arbitrary: kad)
  case (Cons n ns)
  have "fold (\<lambda>n m. Option.bind m (add_node n)) ns None = None" by (induction ns) simp_all
  with Cons show ?case by (cases "add_node n kad") simp_all
qed simp

lemmas add_nodes_ok = nt.adds_ok [folded add_nodes_fold]

end
