(* ===== verification/Flo.thy ===== *)
theory Flo
  imports Access
begin

text \<open>
  Flos, the signed and versioned records the network stores: \<open>flmodules/src/flo/flo.rs\<close>,
  \<open>realm.rs\<close> and \<open>crypto.rs\<close>, and the configuration types of
  \<open>flmodules/src/dht_storage/core.rs\<close> they carry. A Flo keeps the data of its latest version
  with a signature over it, the condition it was created with, and the chain of conditions
  that replaced it, each signed by its predecessor.

  The environment \<open>flo_env\<close> holds what is not in the repository: the cryptography, the
  serialisation of the configuration and of links (\<open>rmp_serde\<close>), and the number of bytes of a
  \<open>usize\<close> on the machine that runs the code. Serialised objects, type names and the random
  nonce are arguments. Version numbers are 32-bit words that wrap, as in a release build.
\<close>

subsection \<open>Data\<close>

datatype cuckoo = CuckooDuration u32 | CuckooParent u256 | CuckooNone

record flo_config =
  cuckoo :: cuckoo
  force_id :: "u256 option"

definition flo_config_default :: flo_config where
  "flo_config_default = \<lparr>cuckoo = CuckooNone, force_id = None\<rparr>"

record cond_version =
  cv_cond :: cond_link
  cv_signatures :: cond_sig

record flo =
  realm :: u256
  flo_type :: string
  fl_config :: flo_config
  data :: bytes
  data_version :: u32
  data_signature :: cond_sig
  nonce :: u256
  cond_genesis :: cond_version
  cond_update :: "cond_version list"

record flo_env =
  fe_crypto :: crypto
  rmp_config :: "flo_config \<Rightarrow> bytes"
  rmp_link :: "cond_link \<Rightarrow> bytes"
  usize_bytes :: nat

record update_data_sign =
  ud_digest :: u256
  ud_update :: bytes
  ud_signature :: cond_sig

record update_cond_sign =
  uc_cond :: cond_link
  uc_digest_data :: u256
  uc_digest_cond :: u256
  uc_signature_data :: cond_sig
  uc_signature_cond :: cond_sig

definition allows_cuckoo :: "flo_config \<Rightarrow> u32 \<Rightarrow> bool" where
  "allows_cuckoo c age = (case cuckoo c of CuckooDuration t \<Rightarrow> age < t | _ \<Rightarrow> False)"

definition is_cuckoo_of :: "flo_config \<Rightarrow> u256 \<Rightarrow> bool" where
  "is_cuckoo_of c parent = (case cuckoo c of CuckooParent i \<Rightarrow> i = parent | _ \<Rightarrow> False)"

definition cuckoo_parent :: "flo_config \<Rightarrow> u256 option" where
  "cuckoo_parent c = (case cuckoo c of CuckooParent i \<Rightarrow> Some i | _ \<Rightarrow> None)"

subsection \<open>Identifiers and digests\<close>

definition le_usize :: "flo_env \<Rightarrow> nat \<Rightarrow> bytes" where
  "le_usize e n = map (\<lambda>k. word_of_nat (n div 256 ^ k)) [0..<usize_bytes e]"

definition flo_hash :: "flo_env \<Rightarrow> string \<Rightarrow> bytes list \<Rightarrow> u256" where
  "flo_hash e domain parts = hash_domain_parts (sha256 (fe_crypto e)) (str_bytes domain) parts"

definition digest_cond_genesis :: "flo_env \<Rightarrow> flo \<Rightarrow> u256" where
  "digest_cond_genesis e f =
     flo_hash e ''flmodules::flo::cond_genesis''
       [str_bytes (flo_type f), rmp_config e (fl_config f),
        rmp_link e (cv_cond (cond_genesis f)), u256_bytes (nonce f)]"

definition calc_flo_id :: "flo_env \<Rightarrow> u256 \<Rightarrow> u256" where
  "calc_flo_id e h = flo_hash e ''ican.re.fledg.flmodules.flo.Flo'' [u256_bytes h]"

definition flo_id :: "flo_env \<Rightarrow> flo \<Rightarrow> u256" where
  "flo_id e f =
     calc_flo_id e (case force_id (fl_config f) of Some i \<Rightarrow> i | None \<Rightarrow> digest_cond_genesis e f)"

definition digest_cond_update :: "flo_env \<Rightarrow> u256 \<Rightarrow> u32 \<Rightarrow> cond_link \<Rightarrow> u256" where
  "digest_cond_update e i ver cond =
     flo_hash e ''flmodules::flo::cond_update'' [u256_bytes i, le_bytes4 ver, rmp_link e cond]"

definition digest_data :: "flo_env \<Rightarrow> flo \<Rightarrow> u256" where
  "digest_data e f =
     flo_hash e ''flmodules::flo::data''
       [u256_bytes (flo_id e f), data f, le_bytes4 (data_version f),
        le_usize e (length (cond_update f))]"

definition latest_cond_version :: "flo \<Rightarrow> cond_version" where
  "latest_cond_version f = (if cond_update f = [] then cond_genesis f else last (cond_update f))"

definition cond :: "flo \<Rightarrow> cond_link" where
  "cond f = cv_cond (latest_cond_version f)"

definition flo_global_id :: "flo_env \<Rightarrow> flo \<Rightarrow> u256 \<times> u256" where
  "flo_global_id e f = (realm f, flo_id e f)"

subsection \<open>Creating a Flo\<close>

text \<open>A call that can only panic inside one that can also fail.\<close>

fun or_panic :: "(unit, 'a) outcome \<Rightarrow> ('e, 'a) outcome" where
  "or_panic (Ok a) = Ok a"
| "or_panic _ = Panic"

definition flo_new ::
  "u256 \<Rightarrow> cond_link \<Rightarrow> string \<Rightarrow> bytes \<Rightarrow> flo_config \<Rightarrow> u256 \<Rightarrow> cond_sig \<Rightarrow> cond_sig \<Rightarrow> flo" where
  "flo_new r c ftype bs cfg non cond_signature data_sig =
     \<lparr>realm = r, flo_type = ftype, fl_config = cfg, data = bs, data_version = 0,
      data_signature = data_sig, nonce = non,
      cond_genesis = \<lparr>cv_cond = c, cv_signatures = cond_signature\<rparr>, cond_update = []\<rparr>"

definition sign_data :: "flo_env \<Rightarrow> condition \<Rightarrow> signer list \<Rightarrow> flo \<Rightarrow> (signer_error, flo) outcome" where
  "sign_data e c signers f =
     bind_outcome (signers_digest (fe_crypto e) (sig_new c) signers (digest_data e f))
       (\<lambda>sig. Ok (f\<lparr>data_signature := sig\<rparr>))"

definition new_signer ::
  "flo_env \<Rightarrow> u256 \<Rightarrow> condition \<Rightarrow> string \<Rightarrow> bytes \<Rightarrow> flo_config \<Rightarrow> u256 \<Rightarrow> signer list \<Rightarrow>
   (signer_error, flo) outcome" where
  "new_signer e r c ftype bs cfg non signers =
     bind_outcome (or_panic (to_link (fe_crypto e) c)) (\<lambda>l.
     let f = flo_new r l ftype bs cfg non (sig_new c) sig_empty in
     bind_outcome (signers_digest (fe_crypto e) (sig_new c) signers (digest_cond_genesis e f)) (\<lambda>sig.
     sign_data e c signers (f\<lparr>cond_genesis := (cond_genesis f)\<lparr>cv_signatures := sig\<rparr>\<rparr>)))"

definition new_realm ::
  "flo_env \<Rightarrow> condition \<Rightarrow> string \<Rightarrow> bytes \<Rightarrow> u256 \<Rightarrow> signer list \<Rightarrow> (signer_error, flo) outcome" where
  "new_realm e c ftype bs non signers =
     bind_outcome (new_signer e u256_zero c ftype bs flo_config_default non signers)
       (\<lambda>f. Ok (f\<lparr>realm := flo_id e f\<rparr>))"

definition from_force_id ::
  "flo_env \<Rightarrow> u256 \<Rightarrow> string \<Rightarrow> bytes \<Rightarrow> u256 \<Rightarrow> u256 \<Rightarrow> (signer_error, flo) outcome" where
  "from_force_id e r ftype bs forced non =
     new_signer e r CFail ftype bs \<lparr>cuckoo = CuckooNone, force_id = Some forced\<rparr> non []"

subsection \<open>New versions of the data and of the condition\<close>

definition start_sign_data :: "flo_env \<Rightarrow> condition \<Rightarrow> bytes \<Rightarrow> flo \<Rightarrow> update_data_sign" where
  "start_sign_data e c update f =
     (let next = f\<lparr>data := update, data_version := data_version f + 1\<rparr>
      in \<lparr>ud_digest = digest_data e next, ud_update = update, ud_signature = sig_new c\<rparr>)"

definition update_data :: "flo_env \<Rightarrow> update_data_sign \<Rightarrow> flo \<Rightarrow> (signer_error, flo) outcome" where
  "update_data e u f =
     bind_outcome (verify_digest (fe_crypto e) (ud_signature u) (ud_digest u)) (\<lambda>valid.
     if \<not> valid then Err SignatureMessageMismatch
     else let next = f\<lparr>data := ud_update u, data_signature := ud_signature u,
                       data_version := data_version f + 1\<rparr>
          in if digest_data e next \<noteq> ud_digest u then Err SignatureMessageMismatch else Ok next)"

definition update_data_signers ::
  "flo_env \<Rightarrow> condition \<Rightarrow> bytes \<Rightarrow> signer list \<Rightarrow> flo \<Rightarrow> (signer_error, flo) outcome" where
  "update_data_signers e c update signers f =
     (let u = start_sign_data e c update f in
      bind_outcome (signers_digest (fe_crypto e) (ud_signature u) signers (ud_digest u)) (\<lambda>sig.
      update_data e (u\<lparr>ud_signature := sig\<rparr>) f))"

definition start_sign_cond ::
  "flo_env \<Rightarrow> condition \<Rightarrow> condition \<Rightarrow> flo \<Rightarrow> (signer_error, update_cond_sign) outcome" where
  "start_sign_cond e cond_old cond_new f =
     bind_outcome (or_panic (to_link (fe_crypto e) cond_new)) (\<lambda>l.
     let next = f\<lparr>cond_update := cond_update f @ [\<lparr>cv_cond = l, cv_signatures = sig_new cond_old\<rparr>]\<rparr>
     in Ok \<lparr>uc_cond = l, uc_digest_data = digest_data e next,
            uc_digest_cond = digest_cond_update e (flo_id e f)
                               (word_of_nat (length (cond_update next))) l,
            uc_signature_data = sig_new cond_new, uc_signature_cond = sig_new cond_old\<rparr>)"

definition update_cond :: "update_cond_sign \<Rightarrow> flo \<Rightarrow> flo" where
  "update_cond u f =
     f\<lparr>cond_update := cond_update f @ [\<lparr>cv_cond = uc_cond u, cv_signatures = uc_signature_cond u\<rparr>],
       data_signature := uc_signature_data u\<rparr>"

definition update_cond_signers ::
  "flo_env \<Rightarrow> condition \<Rightarrow> condition \<Rightarrow> signer list \<Rightarrow> signer list \<Rightarrow> flo \<Rightarrow> (signer_error, flo) outcome" where
  "update_cond_signers e cond_old cond_new signers_old signers_new f =
     bind_outcome (start_sign_cond e cond_old cond_new f) (\<lambda>u.
     bind_outcome (signers_digest (fe_crypto e) (uc_signature_cond u) signers_old (uc_digest_cond u)) (\<lambda>sc.
     bind_outcome (signers_digest (fe_crypto e) (uc_signature_data u) signers_new (uc_digest_data u)) (\<lambda>sd.
     Ok (update_cond (u\<lparr>uc_signature_cond := sc, uc_signature_data := sd\<rparr>) f))))"

subsection \<open>Verification\<close>

text \<open>
  The loop over the updates of the condition: each must carry the condition before it and a
  valid signature over its digest. The value is the last condition.
\<close>

fun verify_updates ::
  "flo_env \<Rightarrow> u256 \<Rightarrow> nat \<Rightarrow> cond_link \<Rightarrow> cond_version list \<Rightarrow> (signer_error, cond_link) outcome" where
  "verify_updates e i ver prev [] = Ok prev"
| "verify_updates e i ver prev (cv # cvs) =
     bind_outcome (or_panic (equal_link (fe_crypto e) (cs_condition (cv_signatures cv)) prev)) (\<lambda>same.
     if \<not> same then Err SignatureMessageMismatch
     else bind_outcome (verify_digest (fe_crypto e) (cv_signatures cv)
             (digest_cond_update e i (word_of_nat (ver + 1)) (cv_cond cv))) (\<lambda>valid.
       if \<not> valid then Err SignatureMessageMismatch
       else verify_updates e i (Suc ver) (cv_cond cv) cvs))"

definition flo_verify :: "flo_env \<Rightarrow> flo \<Rightarrow> (signer_error, bool) outcome" where
  "flo_verify e f =
     (let sigs = cv_signatures (cond_genesis f) in
      bind_outcome (verify_digest (fe_crypto e) sigs (digest_cond_genesis e f)) (\<lambda>valid.
      bind_outcome (if valid then or_panic (equal_link (fe_crypto e) (cs_condition sigs) (cv_cond (cond_genesis f)))
                    else Ok False) (\<lambda>genesis_ok.
      if \<not> genesis_ok then Err SignatureMessageMismatch
      else bind_outcome (verify_updates e (flo_id e f) 0 (cv_cond (cond_genesis f)) (cond_update f)) (\<lambda>prev.
      bind_outcome (or_panic (equal_link (fe_crypto e) (cs_condition (data_signature f)) prev)) (\<lambda>same.
      if \<not> same then Err SignatureMessageMismatch
      else bind_outcome (verify_digest (fe_crypto e) (data_signature f) (digest_data e f)) (\<lambda>data_ok.
        if \<not> data_ok then Err SignatureMessageMismatch else Ok True))))))"

subsection \<open>What identifiers and digests depend on\<close>

lemma flo_id_frame [simp]:
  "digest_cond_genesis e (f\<lparr>data := d\<rparr>) = digest_cond_genesis e f"
  "digest_cond_genesis e (f\<lparr>data_version := v\<rparr>) = digest_cond_genesis e f"
  "digest_cond_genesis e (f\<lparr>data_signature := s\<rparr>) = digest_cond_genesis e f"
  "digest_cond_genesis e (f\<lparr>cond_update := cu\<rparr>) = digest_cond_genesis e f"
  "digest_cond_genesis e (f\<lparr>realm := r\<rparr>) = digest_cond_genesis e f"
  "digest_cond_genesis e (f\<lparr>cond_genesis := (cond_genesis f)\<lparr>cv_signatures := sig\<rparr>\<rparr>) = digest_cond_genesis e f"
  "flo_id e (f\<lparr>data := d\<rparr>) = flo_id e f"
  "flo_id e (f\<lparr>data_version := v\<rparr>) = flo_id e f"
  "flo_id e (f\<lparr>data_signature := s\<rparr>) = flo_id e f"
  "flo_id e (f\<lparr>cond_update := cu\<rparr>) = flo_id e f"
  "flo_id e (f\<lparr>realm := r\<rparr>) = flo_id e f"
  "flo_id e (f\<lparr>cond_genesis := (cond_genesis f)\<lparr>cv_signatures := sig\<rparr>\<rparr>) = flo_id e f"
  by (simp_all add: flo_id_def digest_cond_genesis_def cong: option.case_cong)

lemma digest_data_frame [simp]:
  "digest_data e (f\<lparr>data_signature := s\<rparr>) = digest_data e f"
  "digest_data e (f\<lparr>realm := r\<rparr>) = digest_data e f"
  by (simp_all add: digest_data_def)

lemma cond_frame [simp]:
  "cond (f\<lparr>data := d\<rparr>) = cond f" "cond (f\<lparr>data_version := v\<rparr>) = cond f"
  "cond (f\<lparr>data_signature := s\<rparr>) = cond f" "cond (f\<lparr>realm := r\<rparr>) = cond f"
  by (simp_all add: cond_def latest_cond_version_def)

text \<open>A signature that covers a digest and whose condition is the one a link names.\<close>

definition signed_under :: "flo_env \<Rightarrow> cond_sig \<Rightarrow> cond_link \<Rightarrow> u256 \<Rightarrow> bool" where
  "signed_under e sig l digest \<longleftrightarrow>
     equal_link (fe_crypto e) (cs_condition sig) l = Ok True \<and>
     verify_digest (fe_crypto e) sig digest = Ok True"

definition cond_before :: "flo \<Rightarrow> nat \<Rightarrow> cond_link" where
  "cond_before f k = (if k = 0 then cv_cond (cond_genesis f) else cv_cond (cond_update f ! (k - 1)))"

lemma cond_before_frame [simp]:
  "cond_before (f\<lparr>data := d\<rparr>) = cond_before f" "cond_before (f\<lparr>data_version := v\<rparr>) = cond_before f"
  "cond_before (f\<lparr>data_signature := s\<rparr>) = cond_before f" "cond_before (f\<lparr>realm := r\<rparr>) = cond_before f"
  by (simp_all add: cond_before_def fun_eq_iff)

lemma cond_before_last: "cond f = cond_before f (length (cond_update f))"
  by (simp add: cond_def latest_cond_version_def cond_before_def last_conv_nth)

lemma or_panic_Ok [simp]: "or_panic m = Ok a \<longleftrightarrow> m = Ok a"
  by (cases m) auto

lemma or_panic_not_Err [simp]: "or_panic m \<noteq> Err x"
  by (cases m) auto

lemma verify_updates_Ok:
  "verify_updates e i ver prev cvs = Ok l \<longleftrightarrow>
     (\<forall>k < length cvs. signed_under e (cv_signatures (cvs ! k))
        (if k = 0 then prev else cv_cond (cvs ! (k - 1)))
        (digest_cond_update e i (word_of_nat (ver + k + 1)) (cv_cond (cvs ! k)))) \<and>
     l = (if cvs = [] then prev else cv_cond (last cvs))"
proof (induction cvs arbitrary: ver prev)
  case Nil
  then show ?case by auto
next
  case (Cons cv cvs)
  have nth: "(if Suc k = 0 then prev else cv_cond ((cv # cvs) ! (Suc k - 1)))
      = (if k = 0 then cv_cond cv else cv_cond (cvs ! (k - 1)))" for k
    by (cases k) auto
  have "verify_updates e i ver prev (cv # cvs) = Ok l \<longleftrightarrow>
      signed_under e (cv_signatures cv) prev (digest_cond_update e i (word_of_nat (ver + 1)) (cv_cond cv)) \<and>
      verify_updates e i (Suc ver) (cv_cond cv) cvs = Ok l"
    by (auto simp: bind_outcome_Ok signed_under_def split: if_splits)
  then show ?case
    unfolding Cons.IH length_Cons All_less_Suc2 nth by auto
qed

lemma flo_verify_Ok:
  "flo_verify e f = Ok b \<longleftrightarrow> b \<and>
     signed_under e (cv_signatures (cond_genesis f)) (cv_cond (cond_genesis f)) (digest_cond_genesis e f) \<and>
     (\<forall>k < length (cond_update f). signed_under e (cv_signatures (cond_update f ! k)) (cond_before f k)
        (digest_cond_update e (flo_id e f) (word_of_nat (k + 1)) (cv_cond (cond_update f ! k)))) \<and>
     signed_under e (data_signature f) (cond f) (digest_data e f)"
proof -
  have "flo_verify e f = Ok b \<longleftrightarrow> b \<and>
      signed_under e (cv_signatures (cond_genesis f)) (cv_cond (cond_genesis f)) (digest_cond_genesis e f) \<and>
      (\<exists>l. verify_updates e (flo_id e f) 0 (cv_cond (cond_genesis f)) (cond_update f) = Ok l \<and>
        signed_under e (data_signature f) l (digest_data e f))"
    by (auto simp: flo_verify_def Let_def bind_outcome_Ok signed_under_def split: if_splits)
  then show ?thesis
    unfolding verify_updates_Ok
    by (auto simp: cond_before_def cond_def latest_cond_version_def cong: if_cong)
qed

text \<open>
  C1. What \<open>Flo::verify\<close> vouches for. It never answers no: it says yes or fails. It says yes
  exactly when the genesis condition has signed itself, every later condition is signed under
  the one right before it, over a digest with its number in the chain and the identifier of
  the Flo, and the current data, its version and the length of the chain are signed under the
  last condition. So no data and no condition is accepted that the holders of the condition
  in force have not signed.
\<close>

theorem flo_verify_chain:
  "flo_verify e f = Ok b \<longleftrightarrow> b \<and>
     signed_under e (cv_signatures (cond_genesis f)) (cv_cond (cond_genesis f)) (digest_cond_genesis e f) \<and>
     (\<forall>k < length (cond_update f). signed_under e (cv_signatures (cond_update f ! k)) (cond_before f k)
        (digest_cond_update e (flo_id e f) (word_of_nat (k + 1)) (cv_cond (cond_update f ! k)))) \<and>
     signed_under e (data_signature f) (cond f) (digest_data e f)"
  by (rule flo_verify_Ok)

subsection \<open>Signers who may\<close>

definition may_sign :: "flo_env \<Rightarrow> condition \<Rightarrow> signer list \<Rightarrow> bool" where
  "may_sign e c ss \<longleftrightarrow> no_id_collision (fe_crypto e) c ss \<and>
     (\<forall>s \<in> set ss. has_verifier (fe_crypto e) c (signer_id (fe_crypto e) s)) \<and>
     sat (\<lambda>v. v \<in> signer_verifier (fe_crypto e) ` set ss) c"

text \<open>A condition that \<open>equal_link\<close> recognises by its own link.\<close>

definition self_linked :: "flo_env \<Rightarrow> condition \<Rightarrow> bool" where
  "self_linked e c \<longleftrightarrow> (\<exists>l. to_link (fe_crypto e) c = Ok l \<and> equal_link (fe_crypto e) c l = Ok True)"

lemma self_linked_simple [simp]:
  "self_linked e (CVerifier v)" "self_linked e CPass" "self_linked e CFail"
  "\<not> self_linked e CNotAvailable" "\<not> self_linked e (CBadge ver i n c)"
  using equal_link_badge by (simp_all add: self_linked_def del: equal_link.simps) simp_all

lemma may_sign_digest:
  assumes "crypto_ok (fe_crypto e)" and "may_sign e c ss"
  shows "\<exists>sig. signers_digest (fe_crypto e) (sig_new c) ss digest = Ok sig \<and>
    cs_condition sig = c \<and> verify_digest (fe_crypto e) sig digest = Ok True"
proof -
  from assms(2) have m: "no_id_collision (fe_crypto e) c ss"
    "\<forall>s \<in> set ss. has_verifier (fe_crypto e) c (signer_id (fe_crypto e) s)"
    "sat (\<lambda>v. v \<in> signer_verifier (fe_crypto e) ` set ss) c"
    by (auto simp: may_sign_def)
  from sign_verify [OF assms(1) m(1,2), of digest] m(3) obtain sig
    where sig: "signers_digest (fe_crypto e) (sig_new c) ss digest = Ok sig"
      "verify_digest (fe_crypto e) sig digest = Ok True" by auto
  have "signed_by (fe_crypto e) {} digest (cs_signatures (sig_new c))"
    by (simp add: signed_by_def sig_new_def)
  from signers_digest_Ok [OF sig(1) this] sig show ?thesis by (simp add: sig_new_def)
qed

lemma sig_new_cond [simp]: "cs_condition (sig_new c) = c"
  by (simp add: sig_new_def)

lemma new_signer_spec:
  assumes "crypto_ok (fe_crypto e)" and "may_sign e c ss" and "self_linked e c"
  shows "\<exists>f. new_signer e r c ftype bs cfg non ss = Ok f \<and> flo_verify e f = Ok True \<and>
    to_link (fe_crypto e) c = Ok (cond f) \<and> realm f = r \<and> data f = bs \<and> data_version f = 0 \<and>
    cond_update f = []"
proof -
  from assms(3) obtain l where l: "to_link (fe_crypto e) c = Ok l" "equal_link (fe_crypto e) c l = Ok True"
    by (auto simp: self_linked_def)
  let ?f = "flo_new r l ftype bs cfg non (sig_new c) sig_empty"
  from may_sign_digest [OF assms(1,2), of "digest_cond_genesis e ?f"] obtain sg where sg:
    "signers_digest (fe_crypto e) (sig_new c) ss (digest_cond_genesis e ?f) = Ok sg" "cs_condition sg = c"
    "verify_digest (fe_crypto e) sg (digest_cond_genesis e ?f) = Ok True" by blast
  let ?g = "?f\<lparr>cond_genesis := (cond_genesis ?f)\<lparr>cv_signatures := sg\<rparr>\<rparr>"
  from may_sign_digest [OF assms(1,2), of "digest_data e ?g"] obtain sd where sd:
    "signers_digest (fe_crypto e) (sig_new c) ss (digest_data e ?g) = Ok sd" "cs_condition sd = c"
    "verify_digest (fe_crypto e) sd (digest_data e ?g) = Ok True" by blast
  let ?h = "?g\<lparr>data_signature := sd\<rparr>"
  have run: "new_signer e r c ftype bs cfg non ss = Ok ?h"
    unfolding new_signer_def sign_data_def Let_def l or_panic.simps bind_outcome.simps sg(1)
    unfolding sd(1) bind_outcome.simps ..
  have cond: "cond ?h = l" by (simp add: cond_def latest_cond_version_def flo_new_def)
  have "signed_under e sg l (digest_cond_genesis e ?h)"
    unfolding signed_under_def flo_id_frame using sg l(2) by simp
  moreover have "signed_under e sd l (digest_data e ?h)"
    unfolding signed_under_def digest_data_frame using sd l(2) by simp
  moreover have "cv_signatures (cond_genesis ?h) = sg" "cv_cond (cond_genesis ?h) = l" "cond_update ?h = []"
    "data_signature ?h = sd"
    by (simp_all add: flo_new_def)
  ultimately have "flo_verify e ?h = Ok True"
    unfolding flo_verify_Ok cond by simp
  with run l(1) cond show ?thesis by (auto simp: flo_new_def)
qed

text \<open>
  A Flo created by signers who satisfy its condition verifies, holds version 0 of the
  data it was given and the link of the condition; a realm created this way is its own realm,
  and verifies although its realm is only filled in after signing. The condition must be one
  \<open>equal_link\<close> recognises by its link.
\<close>

theorem new_signer_verifies:
  assumes "crypto_ok (fe_crypto e)" and "may_sign e c ss" and "self_linked e c"
  shows "(\<exists>f. new_signer e r c ftype bs cfg non ss = Ok f \<and> flo_verify e f = Ok True \<and>
      to_link (fe_crypto e) c = Ok (cond f) \<and> realm f = r \<and> data f = bs \<and> data_version f = 0) \<and>
    (\<exists>f. new_realm e c ftype bs non ss = Ok f \<and> flo_verify e f = Ok True \<and>
      realm f = flo_id e f \<and> data f = bs)"
proof
  show "\<exists>f. new_signer e r c ftype bs cfg non ss = Ok f \<and> flo_verify e f = Ok True \<and>
      to_link (fe_crypto e) c = Ok (cond f) \<and> realm f = r \<and> data f = bs \<and> data_version f = 0"
    using new_signer_spec [OF assms] by blast
  from new_signer_spec [OF assms] obtain f where
    "new_signer e u256_zero c ftype bs flo_config_default non ss = Ok f" "flo_verify e f = Ok True"
    "data f = bs" by blast
  moreover from this have "flo_verify e (f\<lparr>realm := flo_id e f\<rparr>) = Ok True"
    by (simp add: flo_verify_Ok)
  ultimately show "\<exists>f. new_realm e c ftype bs non ss = Ok f \<and> flo_verify e f = Ok True \<and>
      realm f = flo_id e f \<and> data f = bs"
    by (auto simp: new_realm_def)
qed

definition toy_env :: flo_env where
  "toy_env = \<lparr>fe_crypto = toy_crypto, rmp_config = (\<lambda>c. []), rmp_link = (\<lambda>l. []), usize_bytes = 8\<rparr>"

lemma toy_env_ok: "crypto_ok (fe_crypto toy_env)"
  by (simp add: toy_env_def crypto_ok_toy)

lemma may_sign_own: "may_sign e (CVerifier (signer_verifier (fe_crypto e) s)) [s]"
  by (simp add: may_sign_def no_id_collision_def signer_id_def)

theorem flo_verify_chain_witness:
  "\<exists>f. new_signer toy_env u256_zero (CVerifier (signer_verifier toy_crypto (SignerEd25519 [1]))) ''Tag'' [7]
       flo_config_default u256_zero [SignerEd25519 [1]] = Ok f \<and>
     signed_under toy_env (data_signature f) (cond f) (digest_data toy_env f)"
proof -
  have may: "may_sign toy_env (CVerifier (signer_verifier toy_crypto (SignerEd25519 [1]))) [SignerEd25519 [1]]"
    using may_sign_own [of toy_env "SignerEd25519 [1]"] by (simp add: toy_env_def)
  obtain f where f: "new_signer toy_env u256_zero (CVerifier (signer_verifier toy_crypto (SignerEd25519 [1]))) ''Tag'' [7]
       flo_config_default u256_zero [SignerEd25519 [1]] = Ok f" "flo_verify toy_env f = Ok True"
    using new_signer_spec [OF toy_env_ok may self_linked_simple(1)] by blast
  with flo_verify_chain [of toy_env f True] show ?thesis by blast
qed

theorem new_signer_verifies_witness:
  "\<exists>f. new_realm toy_env (CVerifier (signer_verifier toy_crypto (SignerEd25519 [1]))) ''Realm'' [7] u256_zero
     [SignerEd25519 [1]] = Ok f \<and> flo_verify toy_env f = Ok True"
proof -
  have "may_sign toy_env (CVerifier (signer_verifier toy_crypto (SignerEd25519 [1]))) [SignerEd25519 [1]]"
    using may_sign_own [of toy_env "SignerEd25519 [1]"] by (simp add: toy_env_def)
  from new_signer_verifies [OF toy_env_ok this self_linked_simple(1)] show ?thesis by blast
qed

text \<open>
  Editing a verified Flo with signers who satisfy the condition in force gives a verified
  Flo with the new data and the next version, under the same identifier, realm and condition.
\<close>

theorem update_data_verifies:
  assumes "crypto_ok (fe_crypto e)" and "may_sign e c ss" and "flo_verify e f = Ok True"
    and "equal_link (fe_crypto e) c (cond f) = Ok True"
  shows "\<exists>f'. update_data_signers e c bs ss f = Ok f' \<and> flo_verify e f' = Ok True \<and>
    data f' = bs \<and> data_version f' = data_version f + 1 \<and> flo_id e f' = flo_id e f \<and>
    realm f' = realm f \<and> cond f' = cond f"
proof -
  let ?n = "f\<lparr>data := bs, data_version := data_version f + 1\<rparr>"
  from may_sign_digest [OF assms(1,2), of "digest_data e ?n"] obtain sd where sd:
    "signers_digest (fe_crypto e) (sig_new c) ss (digest_data e ?n) = Ok sd" "cs_condition sd = c"
    "verify_digest (fe_crypto e) sd (digest_data e ?n) = Ok True" by blast
  let ?f = "f\<lparr>data := bs, data_signature := sd, data_version := data_version f + 1\<rparr>"
  have d: "digest_data e ?f = digest_data e ?n"
    by (simp add: digest_data_def)
  have run: "update_data_signers e c bs ss f = Ok ?f"
    by (simp add: update_data_signers_def start_sign_data_def update_data_def sd d)
  have "signed_under e sd (cond f) (digest_data e ?f)"
    unfolding d signed_under_def using sd assms(4) by simp
  with assms(3) have "flo_verify e ?f = Ok True" unfolding flo_verify_Ok by simp
  with run show ?thesis by auto
qed

lemma flo_exists: "\<exists>f. new_signer toy_env u256_zero (CVerifier (VerifierEd25519 [1])) ''T'' [7]
    flo_config_default u256_zero [SignerEd25519 [1]] = Ok f \<and> flo_verify toy_env f = Ok True \<and>
    data_version f = 0 \<and> cond f = LVerifier (verifier_id toy_crypto (VerifierEd25519 [1]))"
proof -
  have "may_sign toy_env (CVerifier (VerifierEd25519 [1])) [SignerEd25519 [1]]"
    using may_sign_own [of toy_env "SignerEd25519 [1]"] by (simp add: toy_env_def toy_crypto_def)
  from new_signer_spec [OF toy_env_ok this self_linked_simple(1)] show ?thesis
    by (fastforce simp: toy_env_def)
qed

theorem update_data_verifies_witness:
  "\<exists>f f'. flo_verify toy_env f = Ok True \<and>
     update_data_signers toy_env (CVerifier (VerifierEd25519 [1])) [8, 9] [SignerEd25519 [1]] f = Ok f' \<and>
     flo_verify toy_env f' = Ok True \<and> data f' = [8, 9]"
proof -
  from flo_exists obtain f where f: "flo_verify toy_env f = Ok True"
    "cond f = LVerifier (verifier_id toy_crypto (VerifierEd25519 [1]))" by blast
  have "may_sign toy_env (CVerifier (VerifierEd25519 [1])) [SignerEd25519 [1]]"
    using may_sign_own [of toy_env "SignerEd25519 [1]"] by (simp add: toy_env_def toy_crypto_def)
  moreover have "equal_link (fe_crypto toy_env) (CVerifier (VerifierEd25519 [1])) (cond f) = Ok True"
    by (simp add: f toy_env_def)
  ultimately show ?thesis
    using update_data_verifies [OF toy_env_ok _ f(1), of _ "[SignerEd25519 [1]]" "[8, 9]"] f(1) by blast
qed

text \<open>
  Handing a verified Flo over to a new condition, signed by holders of the old one and by
  holders of the new one, gives a verified Flo that is from then on under the new condition,
  with the data, the version and the identifier unchanged.
\<close>

theorem update_cond_verifies:
  assumes "crypto_ok (fe_crypto e)" and "may_sign e c_old old" and "may_sign e c_new new"
    and "flo_verify e f = Ok True" and "equal_link (fe_crypto e) c_old (cond f) = Ok True"
    and "self_linked e c_new"
  shows "\<exists>f'. update_cond_signers e c_old c_new old new f = Ok f' \<and> flo_verify e f' = Ok True \<and>
    to_link (fe_crypto e) c_new = Ok (cond f') \<and> data f' = data f \<and>
    data_version f' = data_version f \<and> flo_id e f' = flo_id e f"
proof -
  from assms(6) obtain l where l: "to_link (fe_crypto e) c_new = Ok l"
    "equal_link (fe_crypto e) c_new l = Ok True" by (auto simp: self_linked_def)
  let ?cu = "\<lambda>s. cond_update f @ [\<lparr>cv_cond = l, cv_signatures = s\<rparr>]"
  let ?dc = "digest_cond_update e (flo_id e f) (word_of_nat (Suc (length (cond_update f)))) l"
  let ?dd = "digest_data e (f\<lparr>cond_update := ?cu (sig_new c_old)\<rparr>)"
  from may_sign_digest [OF assms(1,2), of ?dc] obtain sc where sc:
    "signers_digest (fe_crypto e) (sig_new c_old) old ?dc = Ok sc" "cs_condition sc = c_old"
    "verify_digest (fe_crypto e) sc ?dc = Ok True" by blast
  from may_sign_digest [OF assms(1,3), of ?dd] obtain sd where sd:
    "signers_digest (fe_crypto e) (sig_new c_new) new ?dd = Ok sd" "cs_condition sd = c_new"
    "verify_digest (fe_crypto e) sd ?dd = Ok True" by blast
  let ?f = "f\<lparr>cond_update := ?cu sc, data_signature := sd\<rparr>"
  have run: "update_cond_signers e c_old c_new old new f = Ok ?f"
    using sc(1) sd(1) by (simp add: update_cond_signers_def start_sign_cond_def l Let_def update_cond_def)
  have cond: "cond ?f = l" by (simp add: cond_def latest_cond_version_def)
  have dd: "digest_data e ?f = ?dd" by (simp add: digest_data_def)
  have last: "cond_before f (length (cond_update f)) = cond f" by (simp add: cond_before_last)
  have cb: "cond_before ?f k = cond_before f k" if "k \<le> length (cond_update f)" for k
    using that by (auto simp: cond_before_def nth_append)
  have "signed_under e (cv_signatures (?cu sc ! k)) (cond_before ?f k)
      (digest_cond_update e (flo_id e ?f) (word_of_nat (k + 1)) (cv_cond (?cu sc ! k)))"
    if "k < length (?cu sc)" for k
  proof (cases "k < length (cond_update f)")
    case True
    with assms(4) cb [of k] show ?thesis by (simp add: flo_verify_Ok nth_append)
  next
    case False
    with that have k: "k = length (cond_update f)" by simp
    with sc assms(5) cb [of k] last show ?thesis by (simp add: signed_under_def)
  qed
  moreover have "signed_under e sd l (digest_data e ?f)"
    unfolding dd signed_under_def using sd l(2) by simp
  ultimately have "flo_verify e ?f = Ok True"
    using assms(4) cond by (simp add: flo_verify_Ok)
  with run cond l show ?thesis by auto
qed

theorem update_cond_verifies_witness:
  "\<exists>f f'. flo_verify toy_env f = Ok True \<and>
     update_cond_signers toy_env (CVerifier (VerifierEd25519 [1])) CPass [SignerEd25519 [1]] [] f = Ok f' \<and>
     flo_verify toy_env f' = Ok True \<and> cond f' = LPass"
proof -
  from flo_exists obtain f where f: "flo_verify toy_env f = Ok True"
    "cond f = LVerifier (verifier_id toy_crypto (VerifierEd25519 [1]))" by blast
  have "may_sign toy_env (CVerifier (VerifierEd25519 [1])) [SignerEd25519 [1]]"
    using may_sign_own [of toy_env "SignerEd25519 [1]"] by (simp add: toy_env_def toy_crypto_def)
  moreover have "may_sign toy_env CPass []" by (simp add: may_sign_def no_id_collision_def)
  moreover have "equal_link (fe_crypto toy_env) (CVerifier (VerifierEd25519 [1])) (cond f) = Ok True"
    by (simp add: f toy_env_def)
  ultimately show ?thesis
    using update_cond_verifies [OF toy_env_ok _ _ f(1) _ self_linked_simple(2)] f(1) by fastforce
qed

text \<open>
  A Flo that verifies is never under a badge, neither now nor at any earlier step of its
  chain, and never carries a signature under a threshold condition unless the link in force is
  made of empty thresholds: the comparison of conditions with links rejects all composed
  conditions, so Flos created under a badge or a threshold of keys cannot be verified at all.
\<close>

theorem composed_conditions_rejected:
  assumes "flo_verify e f = Ok True" and "k \<le> length (cond_update f)"
  shows "cond_before f k \<noteq> LBadge ver \<and>
    (cs_condition (data_signature f) = CNofT t cs \<longrightarrow> leafless (cond f))"
proof
  note v = assms(1) [unfolded flo_verify_Ok]
  have ne: "l \<noteq> LBadge ver" if "signed_under e sig l d" for sig l d
    using that equal_link_badge by (auto simp: signed_under_def)
  show "cond_before f k \<noteq> LBadge ver"
  proof (cases "k = length (cond_update f)")
    case True
    with v have "signed_under e (data_signature f) (cond_before f k) (digest_data e f)"
      by (simp add: cond_before_last)
    then show ?thesis by (rule ne)
  next
    case False
    with assms(2) have "k < length (cond_update f)" by simp
    with v show ?thesis by (intro ne) blast
  qed
  show "cs_condition (data_signature f) = CNofT t cs \<longrightarrow> leafless (cond f)"
    using v equal_link_NofT by (auto simp: signed_under_def)
qed

theorem composed_conditions_rejected_witness:
  "\<exists>f. flo_verify toy_env f = Ok True \<and> cond_before f 0 \<noteq> LBadge (Minimal u256_zero 0)"
proof -
  from flo_exists obtain f where "flo_verify toy_env f = Ok True" by blast
  with composed_conditions_rejected [OF this le0] show ?thesis by blast
qed

text \<open>
  The digest of the data contains a length in as many bytes as a \<open>usize\<close> has, so the parts
  that are hashed differ between a machine with 4-byte and one with 8-byte words, and by the
  injectivity of the encoding so do the bytes fed to the hash.
\<close>

definition data_parts :: "flo_env \<Rightarrow> flo \<Rightarrow> bytes list" where
  "data_parts e f = [u256_bytes (flo_id e f), data f, le_bytes4 (data_version f),
     le_usize e (length (cond_update f))]"

lemma digest_data_width:
  assumes "usize_bytes e \<noteq> usize_bytes e'" and "fits_usize d (data_parts e f)" and "fits_usize d (data_parts e' f)"
  shows "domain_parts d (data_parts e f) \<noteq> domain_parts d (data_parts e' f)"
proof
  assume "domain_parts d (data_parts e f) = domain_parts d (data_parts e' f)"
  from domain_parts_inj [OF assms(2,3) this] have "le_usize e (length (cond_update f)) = le_usize e' (length (cond_update f))"
    by (simp add: data_parts_def)
  then have "length (le_usize e (length (cond_update f))) = length (le_usize e' (length (cond_update f)))"
    by simp
  with assms(1) show False by (simp add: le_usize_def)
qed

end
