(* ===== verification/RealmStore.thy ===== *)
theory RealmStore
  imports Flo KBucket "HOL-Library.While_Combinator"
begin

text \<open>
  The store of one realm, \<open>struct RealmStorage\<close> of \<open>flmodules/src/dht_storage/core.rs\<close>: the Flos
  by identifier, an index of their identifiers by depth below the node's own identifier, and
  the total size. What does not fit is evicted from the smallest depth, the end of the
  identifier space that is farthest away; the loop that does so is \<open>while_option\<close>.

  The sizes are those of the serialised form (\<open>rmp_serde\<close>): the fields \<open>flo_size\<close> and \<open>fs_size\<close>
  of the environment. Sizes are \<open>nat\<close>; \<open>size_sub\<close> is the subtraction of the code, which
  panics below 0, and \<open>store_ok\<close> implies that it never does.
\<close>

subsection \<open>State\<close>

record realm_config =
  max_space :: nat
  max_flo_size :: nat

record dht_config =
  realms :: "u256 list"
  owned :: "u256 list"
  timeout :: nat

definition dht_config_default :: dht_config where
  "dht_config_default = \<lparr>realms = [], owned = [], timeout = 1000\<rparr>"

definition accepts_realm :: "dht_config \<Rightarrow> u256 \<Rightarrow> bool" where
  "accepts_realm c i \<longleftrightarrow> length (realms c) = 0 \<or> i \<in> set (realms c)"

record flo_meta =
  fm_id :: u256
  fm_cuckoos :: u32
  fm_version :: u32

record flo_storage =
  fs_flo :: flo
  fs_cuckoos :: "u256 list"
  time_create :: int
  time_update :: int
  time_read :: int
  reads :: int

record store_env =
  se_flo :: flo_env
  flo_size :: "flo \<Rightarrow> nat"
  fs_size :: "flo_storage \<Rightarrow> nat"
  se_now :: int

record realm_storage =
  st_dht_config :: dht_config
  st_realm_config :: realm_config
  st_realm_id :: u256
  st_root :: u256
  flos :: "(u256, flo_storage) hashmap"
  distances :: "(nat, u256 list) hashmap"
  size_used :: nat

abbreviation store_fid :: "store_env \<Rightarrow> flo \<Rightarrow> u256" where
  "store_fid e f \<equiv> flo_id (se_flo e) f"

definition fs_version :: "flo_storage \<Rightarrow> u32" where
  "fs_version fs = data_version (fs_flo fs)"

definition flo_storage_from :: "store_env \<Rightarrow> flo \<Rightarrow> flo_storage" where
  "flo_storage_from e f =
     \<lparr>fs_flo = f, fs_cuckoos = [], time_create = se_now e, time_update = 0, time_read = 0, reads = 0\<rparr>"

definition size_sub :: "nat \<Rightarrow> nat \<Rightarrow> (unit, nat) outcome" where
  "size_sub a b = (if a < b then Panic else Ok (a - b))"

subsection \<open>Storing and evicting\<close>

definition push_distance :: "nat \<Rightarrow> u256 \<Rightarrow> (nat, u256 list) hashmap \<Rightarrow> (nat, u256 list) hashmap" where
  "push_distance d i m = AList.update d ((case map_of m d of Some is \<Rightarrow> is | None \<Rightarrow> []) @ [i]) m"

definition retain_distance :: "nat \<Rightarrow> u256 \<Rightarrow> (nat, u256 list) hashmap \<Rightarrow> (nat, u256 list) hashmap" where
  "retain_distance d i m =
     (case map_of m d of Some is \<Rightarrow> AList.update d (filter (\<lambda>j. j \<noteq> i) is) m | None \<Rightarrow> m)"

definition remove_entry :: "store_env \<Rightarrow> u256 \<Rightarrow> realm_storage \<Rightarrow> (unit, realm_storage) outcome" where
  "remove_entry e i s =
     (case map_of (flos s) i of
        None \<Rightarrow> Ok s
      | Some df \<Rightarrow> bind_outcome (size_sub (size_used s) (fs_size e df)) (\<lambda>n.
          Ok (s\<lparr>flos := AList.delete i (flos s),
                distances := retain_distance (get_depth (st_root s) i) i (distances s),
                size_used := n\<rparr>)))"

definition put :: "store_env \<Rightarrow> flo \<Rightarrow> realm_storage \<Rightarrow> (unit, realm_storage) outcome" where
  "put e f s =
     (let i = store_fid e f in
      bind_outcome (remove_entry e i s) (\<lambda>s.
      let df = flo_storage_from e f in
      Ok (s\<lparr>distances := push_distance (get_depth (st_root s) i) i (distances s),
            size_used := size_used s + fs_size e df,
            flos := AList.update i df (flos s)\<rparr>)))"

definition foreign :: "realm_storage \<Rightarrow> u256 list \<Rightarrow> u256 list" where
  "foreign s is = filter (\<lambda>i. i \<noteq> st_realm_id s) is"

definition furthest :: "realm_storage \<Rightarrow> nat option" where
  "furthest s =
     (case remdups (sort (map fst (filter (\<lambda>(d, is). 0 < length (foreign s is)) (distances s)))) of
        [] \<Rightarrow> None | d # _ \<Rightarrow> Some d)"

definition last_opt :: "'a list \<Rightarrow> 'a option" where
  "last_opt xs = (if xs = [] then None else Some (last xs))"

definition remove_furthest :: "store_env \<Rightarrow> realm_storage \<Rightarrow> (unit, realm_storage) outcome" where
  "remove_furthest e s =
     (case furthest s of
        None \<Rightarrow> Ok s
      | Some d \<Rightarrow>
          (case Option.bind (map_of (distances s) d) (\<lambda>is. last_opt (foreign s is)) of
             None \<Rightarrow> Ok s
           | Some i \<Rightarrow> remove_entry e i s))"

definition size_at_depth :: "store_env \<Rightarrow> nat \<Rightarrow> realm_storage \<Rightarrow> nat" where
  "size_at_depth e d s =
     (case map_of (distances s) d of
        Some is \<Rightarrow> (\<Sum>i\<leftarrow>is. case map_of (flos s) i of Some fs \<Rightarrow> fs_size e fs | None \<Rightarrow> 0)
      | None \<Rightarrow> 0)"

definition store_cuckoo_id :: "store_env \<Rightarrow> u256 \<Rightarrow> u256 \<Rightarrow> realm_storage \<Rightarrow> (unit, realm_storage) outcome" where
  "store_cuckoo_id e parent ck s =
     (case map_of (flos s) parent of
        None \<Rightarrow> Ok s
      | Some fs \<Rightarrow>
          if ck \<in> set (fs_cuckoos fs) then Ok s
          else bind_outcome (size_sub (size_used s) (fs_size e fs)) (\<lambda>n.
            let fs' = fs\<lparr>fs_cuckoos := fs_cuckoos fs @ [ck]\<rparr> in
            Ok (s\<lparr>size_used := n + fs_size e fs', flos := AList.update parent fs' (flos s)\<rparr>)))"

fun store_cuckoo_ids :: "store_env \<Rightarrow> u256 \<Rightarrow> u256 list \<Rightarrow> realm_storage \<Rightarrow> (unit, realm_storage) outcome" where
  "store_cuckoo_ids e parent [] s = Ok s"
| "store_cuckoo_ids e parent (c # cs) s =
     bind_outcome (store_cuckoo_id e parent c s) (store_cuckoo_ids e parent cs)"

text \<open>
  The evicting loop: \<open>None\<close> is not returning. The condition of \<open>while\<close> is only looked at in a
  state that has not panicked.
\<close>

definition too_big :: "(unit, realm_storage) outcome \<Rightarrow> bool" where
  "too_big m = (case m of Ok s \<Rightarrow> max_space (st_realm_config s) < size_used s | _ \<Rightarrow> False)"

definition evict :: "store_env \<Rightarrow> realm_storage \<Rightarrow> (unit, realm_storage) outcome option" where
  "evict e s = while_option too_big (\<lambda>m. bind_outcome m (remove_furthest e)) (Ok s)"

text \<open>Whether a Flo is put, and whether it counts as new.\<close>

definition place_flo :: "store_env \<Rightarrow> flo \<Rightarrow> realm_storage \<Rightarrow> (unit, realm_storage \<times> bool) outcome" where
  "place_flo e f s =
     (case map_of (flos s) (store_fid e f) of
        Some old \<Rightarrow>
          if fs_version old < data_version f
          then bind_outcome (put e f s) (\<lambda>s. Ok (s, True))
          else Ok (s, False)
      | None \<Rightarrow>
          let fsize = fs_size e (flo_storage_from e f) in
          if size_used s + fsize \<le> max_space (st_realm_config s)
          then bind_outcome (put e f s) (\<lambda>s. Ok (s, True))
          else let size_above = (\<Sum>d\<leftarrow>[0..<get_depth (st_root s) (store_fid e f)]. size_at_depth e d s)
               in if fsize \<le> size_above
                  then bind_outcome (put e f s) (\<lambda>s. Ok (s, True))
                  else Ok (s, True))"

definition upsert_place :: "store_env \<Rightarrow> flo \<Rightarrow> realm_storage \<Rightarrow> (unit, realm_storage \<times> bool) outcome" where
  "upsert_place e f s =
     bind_outcome
       (case cuckoo_parent (fl_config f) of
          Some p \<Rightarrow> store_cuckoo_id e p (store_fid e f) s
        | None \<Rightarrow> Ok s)
       (place_flo e f)"

definition upsert_flo ::
  "store_env \<Rightarrow> flo \<Rightarrow> realm_storage \<Rightarrow> (unit, realm_storage \<times> bool) outcome option" where
  "upsert_flo e f s =
     (if max_space (st_realm_config s) < flo_size e f * 3 then Some (Ok (s, False))
      else case upsert_place e f s of
           Ok (s', is_new) \<Rightarrow> map_option (\<lambda>m. bind_outcome m (\<lambda>s. Ok (s, is_new))) (evict e s')
         | Err x \<Rightarrow> Some (Err x)
         | Panic \<Rightarrow> Some Panic)"

definition realm_storage_new ::
  "store_env \<Rightarrow> dht_config \<Rightarrow> u256 \<Rightarrow> realm_config \<Rightarrow> flo \<Rightarrow> (unit, realm_storage) outcome" where
  "realm_storage_new e dc root rc rf =
     put e rf \<lparr>st_dht_config = dc, st_realm_config = rc, st_realm_id = realm rf, st_root = root,
               flos = [], distances = [], size_used = 0\<rparr>"

subsection \<open>Queries\<close>

definition flo_distribution :: "realm_storage \<Rightarrow> nat list" where
  "flo_distribution s = map (\<lambda>(d, is). length is) (sort_key fst (distances s))"

definition flo_count :: "realm_storage \<Rightarrow> nat" where
  "flo_count s = length (flos s)"

definition get_flo_cuckoo :: "u256 \<Rightarrow> realm_storage \<Rightarrow> (flo \<times> u256 list) option" where
  "get_flo_cuckoo i s = map_option (\<lambda>fs. (fs_flo fs, fs_cuckoos fs)) (map_of (flos s) i)"

definition get_all_flo_cuckoos :: "realm_storage \<Rightarrow> (flo \<times> u256 list) list" where
  "get_all_flo_cuckoos s = map (\<lambda>(i, fs). (fs_flo fs, fs_cuckoos fs)) (flos s)"

definition get_cuckoo_ids :: "u256 \<Rightarrow> realm_storage \<Rightarrow> u256 list option" where
  "get_cuckoo_ids i s = map_option fs_cuckoos (map_of (flos s) i)"

definition get_flo_metas :: "store_env \<Rightarrow> realm_storage \<Rightarrow> flo_meta list" where
  "get_flo_metas e s = map (\<lambda>(i, df). \<lparr>fm_id = store_fid e (fs_flo df),
     fm_cuckoos = word_of_nat (length (fs_cuckoos df)), fm_version = fs_version df\<rparr>) (flos s)"

definition get_flos :: "realm_storage \<Rightarrow> flo list" where
  "get_flos s = map (\<lambda>(i, fs). fs_flo fs) (flos s)"

definition wanted :: "realm_storage \<Rightarrow> flo_meta \<Rightarrow> bool" where
  "wanted s remote \<longleftrightarrow>
     map_option (\<lambda>local. fm_version remote \<le> data_version (fs_flo local) \<and>
         fm_cuckoos remote \<le> word_of_nat (length (fs_cuckoos local)))
       (map_of (flos s) (fm_id remote)) \<noteq> Some True"

definition sync_available :: "flo_meta list \<Rightarrow> realm_storage \<Rightarrow> u256 list option" where
  "sync_available available s =
     (let a = map fm_id (filter (wanted s) available) in if 0 < length a then Some a else None)"

subsection \<open>The invariant\<close>

definition at_depth :: "realm_storage \<Rightarrow> nat \<Rightarrow> u256 list" where
  "at_depth s d = (case map_of (distances s) d of Some is \<Rightarrow> is | None \<Rightarrow> [])"

definition store_ok :: "store_env \<Rightarrow> realm_storage \<Rightarrow> bool" where
  "store_ok e s \<longleftrightarrow> hm_ok (flos s) \<and> hm_ok (distances s) \<and>
     (\<forall>i fs. map_of (flos s) i = Some fs \<longrightarrow> store_fid e (fs_flo fs) = i) \<and>
     size_used s = (\<Sum>p\<leftarrow>flos s. fs_size e (snd p)) \<and>
     (\<forall>d. distinct (at_depth s d) \<and>
        set (at_depth s d) = {i. map_of (flos s) i \<noteq> None \<and> get_depth (st_root s) i = d})"

definition same_setup :: "realm_storage \<Rightarrow> realm_storage \<Rightarrow> bool" where
  "same_setup s s' \<longleftrightarrow> st_dht_config s' = st_dht_config s \<and> st_realm_config s' = st_realm_config s \<and>
     st_realm_id s' = st_realm_id s \<and> st_root s' = st_root s"

lemma same_setup_refl [simp]: "same_setup s s"
  by (simp add: same_setup_def)

lemma same_setup_trans: "same_setup s t \<Longrightarrow> same_setup t u \<Longrightarrow> same_setup s u"
  by (simp add: same_setup_def)

definition entry_size :: "store_env \<Rightarrow> realm_storage \<Rightarrow> u256 \<Rightarrow> nat" where
  "entry_size e s i = (case map_of (flos s) i of Some fs \<Rightarrow> fs_size e fs | None \<Rightarrow> 0)"

lemma at_depth_retain:
  "distances s' = retain_distance d i (distances s) \<Longrightarrow>
   at_depth s' d' = (if d' = d then filter (\<lambda>j. j \<noteq> i) (at_depth s d) else at_depth s d')"
  by (simp add: at_depth_def retain_distance_def split: option.split)

lemma at_depth_push:
  "distances s' = push_distance d i (distances s) \<Longrightarrow>
   at_depth s' d' = (if d' = d then at_depth s d @ [i] else at_depth s d')"
  by (simp add: at_depth_def push_distance_def split: option.split)

lemma entry_size_le: "store_ok e s \<Longrightarrow> entry_size e s i \<le> size_used s"
proof (cases "map_of (flos s) i")
  case (Some fs)
  assume "store_ok e s"
  then have "size_used s = (\<Sum>p\<leftarrow>flos s. fs_size e (snd p))" by (simp add: store_ok_def)
  with sum_list_entry_le [OF map_of_SomeD [OF Some], of "fs_size e"] Some show ?thesis
    by (simp add: entry_size_def)
qed (simp add: entry_size_def)

lemma remove_entry_ok:
  assumes "store_ok e s"
  shows "\<exists>s'. remove_entry e i s = Ok s' \<and> store_ok e s' \<and> same_setup s s' \<and>
    map_of (flos s') = (map_of (flos s))(i := None) \<and> size_used s' + entry_size e s i = size_used s"
proof (cases "map_of (flos s) i")
  case None
  with assms show ?thesis by (auto simp: remove_entry_def entry_size_def)
next
  case (Some df)
  have le: "fs_size e df \<le> size_used s"
    using entry_size_le [OF assms, of i] Some by (simp add: entry_size_def)
  let ?s = "s\<lparr>flos := AList.delete i (flos s),
      distances := retain_distance (get_depth (st_root s) i) i (distances s), size_used := size_used s - fs_size e df\<rparr>"
  have run: "remove_entry e i s = Ok ?s"
    using le by (simp add: remove_entry_def Some size_sub_def)
  have hm: "hm_ok (flos s)" "hm_ok (distances s)" using assms by (simp_all add: store_ok_def)
  have ad: "at_depth ?s d = (if d = get_depth (st_root s) i then filter (\<lambda>j. j \<noteq> i) (at_depth s (get_depth (st_root s) i))
      else at_depth s d)" for d
    by (rule at_depth_retain) simp
  have "store_ok e ?s"
    unfolding store_ok_def
  proof (intro conjI allI impI)
    show "hm_ok (flos ?s)" using hm(1) by simp
    show "hm_ok (distances ?s)" using hm(2) by (simp add: retain_distance_def split: option.split)
    show "size_used ?s = (\<Sum>p\<leftarrow>flos ?s. fs_size e (snd p))"
      using sum_list_delete [OF hm(1) Some, of "fs_size e"] assms by (simp add: store_ok_def)
    fix d
    show "distinct (at_depth ?s d)"
      unfolding ad using assms by (simp add: store_ok_def)
    show "set (at_depth ?s d) = {j. map_of (flos ?s) j \<noteq> None \<and> get_depth (st_root ?s) j = d}"
      unfolding ad using assms by (auto simp: store_ok_def)
  qed (use assms in \<open>auto simp: store_ok_def split: if_splits\<close>)
  with run le Some show ?thesis by (auto simp: same_setup_def entry_size_def)
qed

lemma put_ok:
  assumes "store_ok e s"
  shows "\<exists>s'. put e f s = Ok s' \<and> store_ok e s' \<and> same_setup s s' \<and>
    map_of (flos s') = (map_of (flos s))(store_fid e f \<mapsto> flo_storage_from e f) \<and>
    size_used s' + entry_size e s (store_fid e f) = size_used s + fs_size e (flo_storage_from e f)"
proof -
  let ?i = "store_fid e f" and ?df = "flo_storage_from e f"
  obtain r where r: "remove_entry e ?i s = Ok r" "store_ok e r" "same_setup s r"
    "map_of (flos r) = (map_of (flos s))(?i := None)" "size_used r + entry_size e s ?i = size_used s"
    using remove_entry_ok [OF assms] by blast
  let ?s = "r\<lparr>distances := push_distance (get_depth (st_root r) ?i) ?i (distances r),
      size_used := size_used r + fs_size e ?df, flos := AList.update ?i ?df (flos r)\<rparr>"
  have run: "put e f s = Ok ?s" by (simp add: put_def r Let_def)
  have new: "map_of (flos r) ?i = None" using r(4) by simp
  have hm: "hm_ok (flos r)" "hm_ok (distances r)" using r(2) by (simp_all add: store_ok_def)
  have ad: "at_depth ?s d = (if d = get_depth (st_root r) ?i then at_depth r (get_depth (st_root r) ?i) @ [?i]
      else at_depth r d)" for d
    by (rule at_depth_push) simp
  have notin: "?i \<notin> set (at_depth r d)" and dist: "distinct (at_depth r d)" for d
    using r(2) new unfolding store_ok_def by blast+
  have "store_ok e ?s"
    unfolding store_ok_def
  proof (intro conjI allI impI)
    show "hm_ok (flos ?s)" using hm(1) by simp
    show "hm_ok (distances ?s)" using hm(2) by (simp add: push_distance_def)
    show "size_used ?s = (\<Sum>p\<leftarrow>flos ?s. fs_size e (snd p))"
      using sum_list_update_new [OF new, of "fs_size e"] r(2) by (simp add: store_ok_def)
    fix d
    show "distinct (at_depth ?s d)"
      unfolding ad using dist notin by simp
    show "set (at_depth ?s d) = {j. map_of (flos ?s) j \<noteq> None \<and> get_depth (st_root ?s) j = d}"
      unfolding ad using r(2) by (auto simp: store_ok_def)
  next
    fix i fs assume "map_of (flos ?s) i = Some fs"
    with r(2) show "store_fid e (fs_flo fs) = i"
      by (auto simp: store_ok_def flo_storage_from_def split: if_splits)
  qed
  with run r show ?thesis by (auto simp: same_setup_def)
qed

text \<open>Changing an entry without its identifier.\<close>

lemma store_cuckoo_id_ok:
  assumes "store_ok e s"
  shows "\<exists>s'. store_cuckoo_id e p c s = Ok s' \<and> store_ok e s' \<and> same_setup s s' \<and>
    map_of (flos s') = (case map_of (flos s) p of None \<Rightarrow> map_of (flos s)
      | Some fs \<Rightarrow> (map_of (flos s))(p \<mapsto> fs\<lparr>fs_cuckoos :=
          (if c \<in> set (fs_cuckoos fs) then fs_cuckoos fs else fs_cuckoos fs @ [c])\<rparr>))"
proof (cases "map_of (flos s) p")
  case None
  with assms show ?thesis by (auto simp: store_cuckoo_id_def)
next
  case (Some fs)
  show ?thesis
  proof (cases "c \<in> set (fs_cuckoos fs)")
    case True
    with Some assms show ?thesis by (auto simp: store_cuckoo_id_def fun_upd_idem)
  next
    case False
    let ?fs = "fs\<lparr>fs_cuckoos := fs_cuckoos fs @ [c]\<rparr>"
    have le: "fs_size e fs \<le> size_used s"
      using entry_size_le [OF assms, of p] Some by (simp add: entry_size_def)
    let ?s = "s\<lparr>size_used := size_used s - fs_size e fs + fs_size e ?fs, flos := AList.update p ?fs (flos s)\<rparr>"
    have run: "store_cuckoo_id e p c s = Ok ?s"
      using le False by (simp add: store_cuckoo_id_def Some size_sub_def Let_def)
    have hm: "hm_ok (flos s)" using assms by (simp add: store_ok_def)
    have ad: "at_depth ?s d = at_depth s d" for d by (simp add: at_depth_def)
    have dm: "map_of (flos ?s) j \<noteq> None \<longleftrightarrow> map_of (flos s) j \<noteq> None" for j using Some by simp
    have "store_ok e ?s"
      unfolding store_ok_def
    proof (intro conjI allI impI)
      show "hm_ok (flos ?s)" "hm_ok (distances ?s)" using assms by (simp_all add: store_ok_def)
      show "size_used ?s = (\<Sum>p\<leftarrow>flos ?s. fs_size e (snd p))"
        using sum_list_update_old [OF hm Some, of "fs_size e" ?fs] assms le by (simp add: store_ok_def)
      fix d
      show "distinct (at_depth ?s d)" unfolding ad using assms by (simp add: store_ok_def)
      show "set (at_depth ?s d) = {j. map_of (flos ?s) j \<noteq> None \<and> get_depth (st_root ?s) j = d}"
        unfolding ad dm using assms by (simp add: store_ok_def)
    next
      fix i fs' assume "map_of (flos ?s) i = Some fs'"
      with assms Some show "store_fid e (fs_flo fs') = i"
        by (auto simp: store_ok_def split: if_splits)
    qed
    with run Some False show ?thesis by (auto simp: same_setup_def)
  qed
qed

subsection \<open>Evicting\<close>

definition foreign_ids :: "realm_storage \<Rightarrow> u256 set" where
  "foreign_ids s = {i. map_of (flos s) i \<noteq> None \<and> i \<noteq> st_realm_id s}"

lemma distances_at_depth:
  "hm_ok (distances s) \<Longrightarrow> (d, is) \<in> set (distances s) \<Longrightarrow> at_depth s d = is"
  by (simp only: at_depth_def map_of_is_SomeI option.case)

lemma at_depth_distances:
  "at_depth s d \<noteq> [] \<Longrightarrow> (d, at_depth s d) \<in> set (distances s)"
  by (auto simp: at_depth_def dest: map_of_SomeD split: option.splits)

lemma furthest_depths:
  assumes "store_ok e s"
  shows "set (map fst (filter (\<lambda>(d, is). 0 < length (foreign s is)) (distances s)))
    = get_depth (st_root s) ` foreign_ids s"
proof -
  have hm: "hm_ok (distances s)" and ix: "\<And>d. set (at_depth s d) = {i. map_of (flos s) i \<noteq> None \<and> get_depth (st_root s) i = d}"
    using assms by (auto simp: store_ok_def)
  have fr: "0 < length (foreign s (at_depth s d)) \<longleftrightarrow> (\<exists>i \<in> foreign_ids s. get_depth (st_root s) i = d)" for d
  proof -
    have "0 < length (foreign s (at_depth s d)) \<longleftrightarrow> set (foreign s (at_depth s d)) \<noteq> {}" by simp
    also have "set (foreign s (at_depth s d)) = {i \<in> foreign_ids s. get_depth (st_root s) i = d}"
      using ix [of d] by (auto simp: foreign_def foreign_ids_def)
    finally show ?thesis by auto
  qed
  show ?thesis
  proof (intro equalityI subsetI)
    fix d assume "d \<in> set (map fst (filter (\<lambda>(d, is). 0 < length (foreign s is)) (distances s)))"
    then obtain "is" where "(d, is) \<in> set (distances s)" "0 < length (foreign s is)" by auto
    with distances_at_depth [OF hm] fr [of d] show "d \<in> get_depth (st_root s) ` foreign_ids s" by force
  next
    fix d assume "d \<in> get_depth (st_root s) ` foreign_ids s"
    with fr [of d] have "0 < length (foreign s (at_depth s d))" by auto
    moreover from this have "at_depth s d \<noteq> []" by (auto simp: foreign_def)
    ultimately show "d \<in> set (map fst (filter (\<lambda>(d, is). 0 < length (foreign s is)) (distances s)))"
      using at_depth_distances by force
  qed
qed

lemma furthest_spec:
  assumes "store_ok e s"
  shows "furthest s = (if foreign_ids s = {} then None
     else Some (Min (get_depth (st_root s) ` foreign_ids s)))"
proof -
  let ?ds = "map fst (filter (\<lambda>(d, is). 0 < length (foreign s is)) (distances s))"
  note set = furthest_depths [OF assms]
  show ?thesis
  proof (cases "remdups (sort ?ds)")
    case Nil
    then have "set (remdups (sort ?ds)) = {}" by (simp only: list.set)
    then have "set ?ds = {}" by (simp only: set_remdups set_sort)
    with set Nil show ?thesis by (simp add: furthest_def)
  next
    case (Cons d ds)
    have eq: "set ?ds = insert d (set ds)"
      using arg_cong [OF Cons, of set] by (simp only: set_remdups set_sort list.set)
    have "sorted (d # ds)"
      using Cons by (metis sorted_remdups sorted_sort)
    then have "Min (insert d (set ds)) = d" by (intro Min_eqI) auto
    with eq set Cons have "Some (Min (get_depth (st_root s) ` foreign_ids s)) = furthest s"
      by (simp only: furthest_def list.case)
    moreover have "foreign_ids s \<noteq> {}" using eq set by auto
    ultimately show ?thesis by simp
  qed
qed

text \<open>One eviction takes a foreign Flo of the smallest depth there is, if there is a foreign Flo.\<close>

lemma remove_furthest_ok:
  assumes "store_ok e s" and "foreign_ids s \<noteq> {}"
  shows "\<exists>i s'. remove_furthest e s = Ok s' \<and> store_ok e s' \<and> same_setup s s' \<and>
    i \<in> foreign_ids s \<and> (\<forall>j \<in> foreign_ids s. get_depth (st_root s) i \<le> get_depth (st_root s) j) \<and>
    map_of (flos s') = (map_of (flos s))(i := None)"
proof -
  let ?d = "Min (get_depth (st_root s) ` foreign_ids s)"
  have fin: "finite (foreign_ids s)"
    by (rule finite_subset [of _ "dom (map_of (flos s))"]) (auto simp: foreign_ids_def finite_dom_map_of)
  then have "?d \<in> get_depth (st_root s) ` foreign_ids s" using assms(2) by (intro Min_in) auto
  then obtain j where j: "j \<in> foreign_ids s" "get_depth (st_root s) j = ?d" by auto
  have ix: "set (foreign s (at_depth s ?d)) = {i \<in> foreign_ids s. get_depth (st_root s) i = ?d}"
    using assms(1) by (auto simp: foreign_def foreign_ids_def store_ok_def)
  with j have ne: "foreign s (at_depth s ?d) \<noteq> []" by auto
  let ?i = "last (foreign s (at_depth s ?d))"
  from ne have i: "?i \<in> foreign_ids s" "get_depth (st_root s) ?i = ?d"
    using last_in_set [OF ne] ix by auto
  have "map_of (distances s) ?d = Some (at_depth s ?d)"
    using ne by (auto simp: at_depth_def foreign_def split: option.splits)
  then have run: "remove_furthest e s = remove_entry e ?i s"
    using ne assms(2) by (simp add: remove_furthest_def furthest_spec [OF assms(1)] last_opt_def)
  have min: "\<forall>j \<in> foreign_ids s. get_depth (st_root s) ?i \<le> get_depth (st_root s) j"
    unfolding i(2) using fin by auto
  from remove_entry_ok [OF assms(1), of ?i] obtain s' where
    "remove_entry e ?i s = Ok s'" "store_ok e s'" "same_setup s s'" "map_of (flos s') = (map_of (flos s))(?i := None)"
    by blast
  with run i(1) min show ?thesis by (intro exI [of _ ?i] exI [of _ s']) simp
qed

lemma remove_furthest_none:
  "store_ok e s \<Longrightarrow> foreign_ids s = {} \<Longrightarrow> remove_furthest e s = Ok s"
  by (simp add: remove_furthest_def furthest_spec)

subsection \<open>The evicting loop\<close>

text \<open>
  What eviction has done: entries are untouched or gone, the realm's own Flo is among the
  kept ones, and whatever is gone was no nearer than any foreign Flo that is left.
\<close>

definition evicted :: "realm_storage \<Rightarrow> realm_storage \<Rightarrow> bool" where
  "evicted s s' \<longleftrightarrow> same_setup s s' \<and>
     (\<forall>i. map_of (flos s') i = map_of (flos s) i \<or> (map_of (flos s') i = None \<and> i \<noteq> st_realm_id s)) \<and>
     (\<forall>i j. map_of (flos s) i \<noteq> None \<and> map_of (flos s') i = None \<and> j \<in> foreign_ids s' \<longrightarrow>
        get_depth (st_root s) i \<le> get_depth (st_root s) j)"

lemma evicted_refl: "evicted s s"
  by (auto simp: evicted_def simp del: not_None_eq)

lemma evicted_step:
  assumes "evicted s t" and "same_setup t u" and "i \<in> foreign_ids t"
    and "\<forall>j \<in> foreign_ids t. get_depth (st_root t) i \<le> get_depth (st_root t) j"
    and "map_of (flos u) = (map_of (flos t))(i := None)"
  shows "evicted s u"
proof -
  have root: "st_root t = st_root s" "st_realm_id t = st_realm_id s"
    using assms(1) by (auto simp: evicted_def same_setup_def)
  have sub: "foreign_ids u \<subseteq> foreign_ids t"
    using assms(2,5) by (auto simp: foreign_ids_def same_setup_def split: if_splits)
  show ?thesis
    unfolding evicted_def
  proof (intro conjI allI impI)
    show "same_setup s u" using assms(1,2) by (auto simp: evicted_def intro: same_setup_trans)
    fix k
    show "map_of (flos u) k = map_of (flos s) k \<or> (map_of (flos u) k = None \<and> k \<noteq> st_realm_id s)"
    proof (cases "k = i")
      case True
      with assms(3,5) root show ?thesis by (simp add: foreign_ids_def)
    next
      case False
      with assms(1,5) show ?thesis by (simp add: evicted_def)
    qed
    fix j assume "map_of (flos s) k \<noteq> None \<and> map_of (flos u) k = None \<and> j \<in> foreign_ids u"
    then have k: "map_of (flos s) k \<noteq> None" "map_of (flos u) k = None" and j: "j \<in> foreign_ids t"
      using sub by auto
    show "get_depth (st_root s) k \<le> get_depth (st_root s) j"
    proof (cases "k = i")
      case True
      with assms(4) j root show ?thesis by simp
    next
      case False
      with k assms(5) have "map_of (flos t) k = None" by simp
      with k(1) j assms(1) show ?thesis by (auto simp: evicted_def)
    qed
  qed
qed

definition evict_inv :: "store_env \<Rightarrow> realm_storage \<Rightarrow> (unit, realm_storage) outcome \<Rightarrow> bool" where
  "evict_inv e s m \<longleftrightarrow> (\<exists>t. m = Ok t \<and> store_ok e t \<and> evicted s t)"

lemma evict_inv_step:
  assumes "evict_inv e s m"
  shows "evict_inv e s (bind_outcome m (remove_furthest e))"
proof -
  from assms obtain t where t: "m = Ok t" "store_ok e t" "evicted s t" by (auto simp: evict_inv_def)
  show ?thesis
  proof (cases "foreign_ids t = {}")
    case True
    with t show ?thesis by (simp add: evict_inv_def remove_furthest_none)
  next
    case False
    from remove_furthest_ok [OF t(2) this] t(1) evicted_step [OF t(3)] show ?thesis
      by (auto simp: evict_inv_def)
  qed
qed

lemma realm_entry_kept: "evicted s t \<Longrightarrow> entry_size e t (st_realm_id s) = entry_size e s (st_realm_id s)"
  unfolding evicted_def entry_size_def by metis

lemma only_realm_left:
  assumes "store_ok e t" and "foreign_ids t = {}"
  shows "size_used t = entry_size e t (st_realm_id t)"
proof -
  have sz: "size_used t = (\<Sum>p\<leftarrow>flos t. fs_size e (snd p))" and hm: "hm_ok (flos t)"
    using assms(1) by (simp_all add: store_ok_def)
  have "fst ` set (flos t) \<subseteq> {st_realm_id t}"
    using assms(2) unfolding foreign_ids_def dom_map_of_conv_image_fst [symmetric] dom_def by blast
  then have keys: "set (map fst (flos t)) \<subseteq> {st_realm_id t}" by simp
  have "length (flos t) \<le> 1"
    using card_mono [OF _ keys] distinct_card [OF hm] by simp
  then consider "flos t = []" | i fs where "flos t = [(i, fs)]"
    by (cases "flos t") auto
  then show ?thesis
    using keys by cases (auto simp: sz entry_size_def)
qed

text \<open>
  The loop ends, within the space, exactly when the realm's own Flo fits into the space.
\<close>

lemma evict_returns:
  assumes "store_ok e s" and "entry_size e s (st_realm_id s) \<le> max_space (st_realm_config s)"
  shows "\<exists>s'. evict e s = Some (Ok s') \<and> store_ok e s' \<and> evicted s s' \<and>
    size_used s' \<le> max_space (st_realm_config s')"
proof -
  let ?c = "\<lambda>m. bind_outcome m (remove_furthest e)"
  let ?f = "\<lambda>m. case m of Ok t \<Rightarrow> card (foreign_ids t) | _ \<Rightarrow> 0"
  have step: "evict_inv e s (?c m) \<and> ?f (?c m) < ?f m" if inv: "evict_inv e s m" and big: "too_big m" for m
  proof -
    from inv obtain t where t: "m = Ok t" "store_ok e t" "evicted s t" by (auto simp: evict_inv_def)
    have "foreign_ids t \<noteq> {}"
    proof
      assume none: "foreign_ids t = {}"
      have "st_realm_id t = st_realm_id s" "st_realm_config t = st_realm_config s"
        using t(3) by (simp_all add: evicted_def same_setup_def)
      with only_realm_left [OF t(2) none] realm_entry_kept [OF t(3)] assms(2) big t(1) show False
        by (simp add: too_big_def)
    qed
    from remove_furthest_ok [OF t(2) this] obtain i u where u: "remove_furthest e t = Ok u"
      "same_setup t u" "i \<in> foreign_ids t" "map_of (flos u) = (map_of (flos t))(i := None)" by blast
    have fin: "finite (foreign_ids t)"
      by (rule finite_subset [of _ "dom (map_of (flos t))"]) (auto simp: foreign_ids_def finite_dom_map_of)
    have "foreign_ids u = foreign_ids t - {i}"
      using u(2,4) by (auto simp: foreign_ids_def same_setup_def)
    then have "card (foreign_ids u) < card (foreign_ids t)"
      using u(3) fin by (metis card_Diff1_less)
    with evict_inv_step [OF inv] u(1) t(1) show ?thesis by simp
  qed
  have start: "evict_inv e s (Ok s)" using assms(1) evicted_refl by (auto simp: evict_inv_def)
  from measure_while_option_Some [where P = "evict_inv e s" and b = too_big and c = ?c and f = ?f, OF step start]
  obtain m where w: "while_option too_big ?c (Ok s) = Some m" by blast
  have m: "while_option too_big ?c (Ok s) = Some m" "evict_inv e s m" "\<not> too_big m"
    using w while_option_rule [where P = "evict_inv e s", OF evict_inv_step w start] while_option_stop [OF w]
    by auto
  then obtain t where t: "m = Ok t" "store_ok e t" "evicted s t" by (auto simp: evict_inv_def)
  with m(3) have "size_used t \<le> max_space (st_realm_config t)" by (simp add: too_big_def)
  with m(1) t show ?thesis by (auto simp: evict_def)
qed

lemma evict_diverges:
  assumes "store_ok e s" and "max_space (st_realm_config s) < entry_size e s (st_realm_id s)"
  shows "evict e s = None"
proof (rule ccontr)
  assume "evict e s \<noteq> None"
  then obtain m where m: "while_option too_big (\<lambda>m. bind_outcome m (remove_furthest e)) (Ok s) = Some m"
    by (auto simp: evict_def)
  have "evict_inv e s (Ok s)" using assms(1) evicted_refl by (auto simp: evict_inv_def)
  from while_option_rule [where P = "evict_inv e s", OF _ m this] evict_inv_step
  obtain t where t: "m = Ok t" "store_ok e t" "evicted s t" by (auto simp: evict_inv_def)
  have conf: "st_realm_config t = st_realm_config s" using t(3) by (simp add: evicted_def same_setup_def)
  have "entry_size e s (st_realm_id s) \<le> size_used t"
    using entry_size_le [OF t(2)] realm_entry_kept [OF t(3)] by metis
  with assms(2) have "too_big m" by (simp add: t(1) too_big_def conf)
  with while_option_stop [OF m] show False by simp
qed

text \<open>The store a new node has: the realm's own Flo is in it.\<close>

lemma realm_storage_new_ok:
  "\<exists>s. realm_storage_new e dc root rc rf = Ok s \<and> store_ok e s \<and> st_realm_config s = rc \<and>
     map_of (flos s) = [store_fid e rf \<mapsto> flo_storage_from e rf] \<and> st_realm_id s = realm rf"
proof -
  let ?s = "\<lparr>st_dht_config = dc, st_realm_config = rc, st_realm_id = realm rf, st_root = root,
      flos = [], distances = [], size_used = 0\<rparr>"
  have "store_ok e ?s" by (simp add: store_ok_def at_depth_def)
  from put_ok [OF this, of rf] show ?thesis
    by (auto simp: realm_storage_new_def same_setup_def)
qed

subsection \<open>A store to apply the theorems to\<close>

definition toy_store_env :: store_env where
  "toy_store_env = \<lparr>se_flo = toy_env, flo_size = (\<lambda>f. length (data f)),
     fs_size = (\<lambda>fs. length (data (fs_flo fs)) + 32 * length (fs_cuckoos fs)), se_now = 0\<rparr>"

definition toy_flo :: "nat \<Rightarrow> flo" where
  "toy_flo n = flo_new u256_zero LPass ''T'' (replicate n 0) flo_config_default u256_zero sig_empty sig_empty"

lemma toy_store:
  "\<exists>s. store_ok toy_store_env s \<and> max_space (st_realm_config s) = 100 \<and>
     entry_size toy_store_env s (st_realm_id s) \<le> 20 \<and>
     map_of (flos s) (store_fid toy_store_env (toy_flo 20)) \<noteq> None"
proof -
  obtain s where s: "realm_storage_new toy_store_env dht_config_default u256_zero
      \<lparr>max_space = 100, max_flo_size = 50\<rparr> (toy_flo 20) = Ok s" "store_ok toy_store_env s"
    "st_realm_config s = \<lparr>max_space = 100, max_flo_size = 50\<rparr>"
    "map_of (flos s) = [store_fid toy_store_env (toy_flo 20) \<mapsto> flo_storage_from toy_store_env (toy_flo 20)]"
    using realm_storage_new_ok by blast
  have "fs_size toy_store_env (flo_storage_from toy_store_env (toy_flo 20)) = 20"
    by (simp add: toy_store_env_def flo_storage_from_def toy_flo_def flo_new_def)
  with s have "entry_size toy_store_env s (st_realm_id s) \<le> 20"
    by (simp add: entry_size_def)
  with s show ?thesis by (intro exI [of _ s]) simp
qed

text \<open>
  Evicting ends within the space whenever the realm's own Flo fits into it, and keeps the
  index and the total consistent. It only takes entries away, never the realm's own, and it
  takes the farthest first: nothing that is gone was nearer to this node than a foreign Flo
  that is left. If the realm's own Flo does not fit, the loop never ends.
\<close>

theorem evict_keeps_nearest:
  assumes "store_ok e s"
  shows "if entry_size e s (st_realm_id s) \<le> max_space (st_realm_config s)
    then \<exists>s'. evict e s = Some (Ok s') \<and> store_ok e s' \<and> evicted s s' \<and>
           size_used s' \<le> max_space (st_realm_config s')
    else evict e s = None"
  using evict_returns [OF assms] evict_diverges [OF assms] by simp

theorem evict_keeps_nearest_witness:
  "\<exists>s s'. store_ok toy_store_env s \<and> evict toy_store_env s = Some (Ok s') \<and> size_used s' \<le> 100"
proof -
  obtain s where s: "store_ok toy_store_env s" "max_space (st_realm_config s) = 100"
    "entry_size toy_store_env s (st_realm_id s) \<le> 20" using toy_store by blast
  from evict_keeps_nearest [OF s(1)] s(2,3) obtain s' where s': "evict toy_store_env s = Some (Ok s')"
    "evicted s s'" "size_used s' \<le> max_space (st_realm_config s')" by auto
  then have "size_used s' \<le> 100" using s(2) by (simp add: evicted_def same_setup_def)
  with s(1) s' show ?thesis by blast
qed

subsection \<open>Upserting\<close>

lemma place_flo_ok:
  assumes "store_ok e s"
  shows "\<exists>s' b. place_flo e f s = Ok (s', b) \<and> store_ok e s' \<and> same_setup s s' \<and>
    (b \<longleftrightarrow> (\<forall>old. map_of (flos s) (store_fid e f) = Some old \<longrightarrow> fs_version old < data_version f)) \<and>
    (map_of (flos s') = map_of (flos s) \<or>
     b \<and> map_of (flos s') = (map_of (flos s))(store_fid e f \<mapsto> flo_storage_from e f))"
proof -
  obtain r where r: "put e f s = Ok r" "store_ok e r" "same_setup s r"
    "map_of (flos r) = (map_of (flos s))(store_fid e f \<mapsto> flo_storage_from e f)"
    using put_ok [OF assms] by blast
  show ?thesis
  proof (cases "map_of (flos s) (store_fid e f)")
    case None
    with r assms show ?thesis by (auto simp: place_flo_def Let_def)
  next
    case (Some old)
    with r assms show ?thesis by (auto simp: place_flo_def)
  qed
qed

text \<open>A step from one store to the next never goes back to an older version.\<close>

definition newer_or_gone :: "realm_storage \<Rightarrow> realm_storage \<Rightarrow> bool" where
  "newer_or_gone s s' \<longleftrightarrow> (\<forall>i old new. map_of (flos s) i = Some old \<and> map_of (flos s') i = Some new \<longrightarrow>
     fs_flo new = fs_flo old \<or> fs_version old < fs_version new)"

lemma upsert_place_ok:
  assumes "store_ok e s"
  shows "\<exists>s' b. upsert_place e f s = Ok (s', b) \<and> store_ok e s' \<and> same_setup s s' \<and> newer_or_gone s s' \<and>
    (b \<longleftrightarrow> (\<forall>old. map_of (flos s) (store_fid e f) = Some old \<longrightarrow> fs_version old < data_version f)) \<and>
    (\<forall>i. map_of (flos s) i \<noteq> None \<longrightarrow> map_of (flos s') i \<noteq> None) \<and>
    (\<forall>i. map_of (flos s') i \<noteq> None \<longrightarrow> map_of (flos s) i \<noteq> None \<or> i = store_fid e f)"
proof -
  have pre: "\<exists>r. (case cuckoo_parent (fl_config f) of Some p \<Rightarrow> store_cuckoo_id e p (store_fid e f) s | None \<Rightarrow> Ok s) = Ok r \<and>
      store_ok e r \<and> same_setup s r \<and>
      (\<forall>i. map_option fs_flo (map_of (flos r) i) = map_option fs_flo (map_of (flos s) i))"
  proof (cases "cuckoo_parent (fl_config f)")
    case None
    with assms show ?thesis by simp
  next
    case (Some p)
    from store_cuckoo_id_ok [OF assms, of p "store_fid e f"] Some show ?thesis
      by (fastforce split: option.splits)
  qed
  then obtain r where r: "(case cuckoo_parent (fl_config f) of Some p \<Rightarrow> store_cuckoo_id e p (store_fid e f) s | None \<Rightarrow> Ok s) = Ok r"
    "store_ok e r" "same_setup s r"
    and flo: "\<And>i. map_option fs_flo (map_of (flos r) i) = map_option fs_flo (map_of (flos s) i)" by blast
  obtain s' b where s': "place_flo e f r = Ok (s', b)" "store_ok e s'" "same_setup r s'"
    and b: "b \<longleftrightarrow> (\<forall>old. map_of (flos r) (store_fid e f) = Some old \<longrightarrow> fs_version old < data_version f)"
    and m: "map_of (flos s') = map_of (flos r) \<or> b \<and> map_of (flos s') = (map_of (flos r))(store_fid e f \<mapsto> flo_storage_from e f)"
    using place_flo_ok [OF r(2)] by blast
  have old: "(\<exists>w. map_of (flos r) i = Some w \<and> fs_flo w = fs_flo old)" if "map_of (flos s) i = Some old" for i old
    using flo [of i] that by (cases "map_of (flos r) i") auto
  have dom: "map_of (flos r) i \<noteq> None \<longleftrightarrow> map_of (flos s) i \<noteq> None" for i
    using flo [of i] by (metis option.map_disc_iff)
  have ver: "fs_version w = fs_version old" if "fs_flo w = fs_flo old" for w old
    using that by (simp add: fs_version_def)
  have b': "b \<longleftrightarrow> (\<forall>old. map_of (flos s) (store_fid e f) = Some old \<longrightarrow> fs_version old < data_version f)"
    unfolding b using flo [of "store_fid e f"]
    by (cases "map_of (flos r) (store_fid e f)"; cases "map_of (flos s) (store_fid e f)") (auto simp: fs_version_def)
  have "newer_or_gone s s'"
    unfolding newer_or_gone_def
  proof (intro allI impI, elim conjE)
    fix i o' n assume o: "map_of (flos s) i = Some o'" and n: "map_of (flos s') i = Some n"
    from old [OF o] obtain w where w: "map_of (flos r) i = Some w" "fs_flo w = fs_flo o'" by blast
    show "fs_flo n = fs_flo o' \<or> fs_version o' < fs_version n"
    proof (cases "map_of (flos s') i = map_of (flos r) i")
      case True
      with w n show ?thesis by simp
    next
      case False
      with m have "b" "i = store_fid e f" "n = flo_storage_from e f"
        using n by (auto split: if_splits)
      with b' o show ?thesis by (simp add: fs_version_def flo_storage_from_def)
    qed
  qed
  moreover have "upsert_place e f s = Ok (s', b)" by (simp add: upsert_place_def r s')
  moreover have "map_of (flos s) i \<noteq> None \<longrightarrow> map_of (flos s') i \<noteq> None" for i
    using m dom [of i] by auto
  moreover have "map_of (flos s') i \<noteq> None \<longrightarrow> map_of (flos s) i \<noteq> None \<or> i = store_fid e f" for i
    using m dom [of i] by (auto split: if_splits)
  ultimately show ?thesis using s' same_setup_trans [OF r(3) s'(3)] b' by blast
qed

lemma upsert_flo_spec:
  assumes "store_ok e s"
  shows "if max_space (st_realm_config s) < flo_size e f * 3 then upsert_flo e f s = Some (Ok (s, False))
    else \<exists>s1 b. upsert_place e f s = Ok (s1, b) \<and> store_ok e s1 \<and>
      (b \<longleftrightarrow> (\<forall>old. map_of (flos s) (store_fid e f) = Some old \<longrightarrow> fs_version old < data_version f)) \<and>
      (if entry_size e s1 (st_realm_id s) \<le> max_space (st_realm_config s)
       then \<exists>s'. upsert_flo e f s = Some (Ok (s', b)) \<and> store_ok e s' \<and> evicted s1 s' \<and>
              size_used s' \<le> max_space (st_realm_config s)
       else upsert_flo e f s = None)"
proof (cases "max_space (st_realm_config s) < flo_size e f * 3")
  case True
  then show ?thesis by (simp add: upsert_flo_def)
next
  case False
  from upsert_place_ok [OF assms, of f] obtain s1 b where p: "upsert_place e f s = Ok (s1, b)" "store_ok e s1"
    "same_setup s s1"
    "b \<longleftrightarrow> (\<forall>old. map_of (flos s) (store_fid e f) = Some old \<longrightarrow> fs_version old < data_version f)" by blast
  have set: "st_realm_config s1 = st_realm_config s" "st_realm_id s1 = st_realm_id s"
    using p(3) by (simp_all add: same_setup_def)
  have "if entry_size e s1 (st_realm_id s) \<le> max_space (st_realm_config s)
       then \<exists>s'. upsert_flo e f s = Some (Ok (s', b)) \<and> store_ok e s' \<and> evicted s1 s' \<and>
              size_used s' \<le> max_space (st_realm_config s)
       else upsert_flo e f s = None"
    using evict_returns [OF p(2)] evict_diverges [OF p(2)] False
    by (auto simp: upsert_flo_def p(1) set evicted_def same_setup_def)
  with p(1,2,4) False show ?thesis by auto
qed

text \<open>
  C2. \<open>upsert_flo\<close> on every branch. A Flo of more than a third of the space is turned away
  and nothing changes. Otherwise the store takes it in, or not, and evicts: the call returns
  exactly if the realm's own Flo then fits, the store it leaves is consistent and within the
  space, and the flag says whether the Flo was unknown or newer than the stored one. The size
  accounting never underflows on the way.
\<close>

theorem upsert_flo_bounded:
  assumes "store_ok e s"
  shows "if max_space (st_realm_config s) < flo_size e f * 3 then upsert_flo e f s = Some (Ok (s, False))
    else \<exists>s1 b. upsert_place e f s = Ok (s1, b) \<and> store_ok e s1 \<and>
      (b \<longleftrightarrow> (\<forall>old. map_of (flos s) (store_fid e f) = Some old \<longrightarrow> fs_version old < data_version f)) \<and>
      (if entry_size e s1 (st_realm_id s) \<le> max_space (st_realm_config s)
       then \<exists>s'. upsert_flo e f s = Some (Ok (s', b)) \<and> store_ok e s' \<and> evicted s1 s' \<and>
              size_used s' \<le> max_space (st_realm_config s)
       else upsert_flo e f s = None)"
  by (rule upsert_flo_spec [OF assms])

theorem upsert_flo_bounded_witness:
  "\<exists>s. store_ok toy_store_env s \<and> upsert_flo toy_store_env (toy_flo 40) s = Some (Ok (s, False))"
proof -
  obtain s where s: "store_ok toy_store_env s" "max_space (st_realm_config s) = 100" using toy_store by blast
  have "max_space (st_realm_config s) < flo_size toy_store_env (toy_flo 40) * 3"
    by (simp add: s(2) toy_store_env_def toy_flo_def flo_new_def)
  with upsert_flo_bounded [OF s(1), of "toy_flo 40"] s(1) show ?thesis by auto
qed

text \<open>
  No call of \<open>upsert_flo\<close> that returns takes the store back: an entry that is still there
  holds the same Flo or a strictly newer version of it, nothing but the new Flo can appear, and
  the realm's own Flo is never lost.
\<close>

theorem upsert_flo_monotone:
  assumes "store_ok e s" and "upsert_flo e f s = Some (Ok (s', b))"
  shows "store_ok e s' \<and> newer_or_gone s s' \<and>
    (\<forall>i. map_of (flos s') i \<noteq> None \<longrightarrow> map_of (flos s) i \<noteq> None \<or> i = store_fid e f) \<and>
    (map_of (flos s) (st_realm_id s) \<noteq> None \<longrightarrow> map_of (flos s') (st_realm_id s) \<noteq> None)"
proof (cases "max_space (st_realm_config s) < flo_size e f * 3")
  case True
  with assms show ?thesis by (auto simp: upsert_flo_def newer_or_gone_def)
next
  case False
  from upsert_place_ok [OF assms(1), of f] obtain s1 b1 where p: "upsert_place e f s = Ok (s1, b1)" "store_ok e s1"
    "same_setup s s1" "newer_or_gone s s1"
    "\<forall>i. map_of (flos s) i \<noteq> None \<longrightarrow> map_of (flos s1) i \<noteq> None"
    "\<forall>i. map_of (flos s1) i \<noteq> None \<longrightarrow> map_of (flos s) i \<noteq> None \<or> i = store_fid e f" by blast
  have ev: "evict e s1 = Some (Ok s')"
    using assms(2) False by (auto simp: upsert_flo_def p(1) bind_outcome_Ok)
  with evict_diverges [OF p(2)] evict_returns [OF p(2)]
  have e: "store_ok e s'" "evicted s1 s'" by (cases "entry_size e s1 (st_realm_id s1) \<le> max_space (st_realm_config s1)"; auto)+
  have kept: "map_of (flos s') i = map_of (flos s1) i \<or> map_of (flos s') i = None \<and> i \<noteq> st_realm_id s" for i
    using e(2) p(3) by (auto simp: evicted_def same_setup_def)
  have "newer_or_gone s s'"
    using p(4) kept unfolding newer_or_gone_def by (metis option.distinct(1))
  with e(1) p(5,6) kept show ?thesis by metis
qed

theorem upsert_flo_monotone_witness:
  "\<exists>s s'. upsert_flo toy_store_env (toy_flo 40) s = Some (Ok (s', False)) \<and> newer_or_gone s s'"
proof -
  obtain s where s: "store_ok toy_store_env s" "max_space (st_realm_config s) = 100" using toy_store by blast
  have up: "upsert_flo toy_store_env (toy_flo 40) s = Some (Ok (s, False))"
    by (simp add: upsert_flo_def s(2) toy_store_env_def toy_flo_def flo_new_def)
  with upsert_flo_monotone [OF s(1) up] show ?thesis by blast
qed

text \<open>A new version of a Flo starts with no cuckoos, whatever the old one had collected.\<close>

lemma put_forgets_cuckoos:
  assumes "store_ok e s"
  shows "\<exists>s'. put e f s = Ok s' \<and> get_cuckoo_ids (store_fid e f) s' = Some []"
  using put_ok [OF assms, of f] by (auto simp: get_cuckoo_ids_def flo_storage_from_def)

subsection \<open>Finding out what to ask for\<close>

definition up_to_date :: "realm_storage \<Rightarrow> u256 \<Rightarrow> flo_storage \<Rightarrow> bool" where
  "up_to_date s i fs' \<longleftrightarrow> (\<exists>fs. map_of (flos s) i = Some fs \<and> fs_version fs' \<le> fs_version fs \<and>
     (word_of_nat (length (fs_cuckoos fs')) :: u32) \<le> word_of_nat (length (fs_cuckoos fs)))"

lemma wanted_iff:
  "wanted s m \<longleftrightarrow> \<not> (\<exists>fs. map_of (flos s) (fm_id m) = Some fs \<and> fm_version m \<le> fs_version fs \<and>
     fm_cuckoos m \<le> word_of_nat (length (fs_cuckoos fs)))"
  by (cases "map_of (flos s) (fm_id m)") (auto simp: wanted_def fs_version_def)

text \<open>
  Synchronising two stores of a realm: out of what a neighbour says it has, a node asks
  for exactly the Flos it does not have, has in an older version, or has with fewer cuckoos,
  and it asks for nothing exactly if it is up to date with all of the neighbour's store.
\<close>

theorem sync_asks_for_missing:
  assumes "store_ok e s'"
  shows "set (case sync_available (get_flo_metas e s') s of Some ids \<Rightarrow> ids | None \<Rightarrow> [])
      = {i. \<exists>fs'. map_of (flos s') i = Some fs' \<and> \<not> up_to_date s i fs'} \<and>
    (sync_available (get_flo_metas e s') s = None \<longleftrightarrow>
      (\<forall>i fs'. map_of (flos s') i = Some fs' \<longrightarrow> up_to_date s i fs'))"
proof -
  let ?w = "filter (wanted s) (get_flo_metas e s')"
  have hm: "hm_ok (flos s')" and key: "\<And>i fs. map_of (flos s') i = Some fs \<Longrightarrow> store_fid e (fs_flo fs) = i"
    using assms by (auto simp: store_ok_def)
  have "set (map fm_id ?w) = {store_fid e (fs_flo fs') | i fs'. (i, fs') \<in> set (flos s') \<and>
      \<not> up_to_date s (store_fid e (fs_flo fs')) fs'}"
    unfolding get_flo_metas_def filter_map map_map set_map set_filter comp_def
    by (rule set_eqI) (auto simp: wanted_iff up_to_date_def image_iff)
  also have "\<dots> = {i. \<exists>fs'. map_of (flos s') i = Some fs' \<and> \<not> up_to_date s i fs'}"
    using key unfolding map_of_set_iff [OF hm] by blast
  finally have w: "set (map fm_id ?w) = {i. \<exists>fs'. map_of (flos s') i = Some fs' \<and> \<not> up_to_date s i fs'}" .
  have "set (case sync_available (get_flo_metas e s') s of Some ids \<Rightarrow> ids | None \<Rightarrow> []) = set (map fm_id ?w)"
    by (auto simp: sync_available_def Let_def filter_empty_conv)
  moreover have "sync_available (get_flo_metas e s') s = None \<longleftrightarrow> set (map fm_id ?w) = {}"
    by (auto simp: sync_available_def Let_def filter_empty_conv)
  ultimately show ?thesis unfolding w by auto
qed

theorem sync_asks_for_missing_witness:
  "\<exists>s. sync_available (get_flo_metas toy_store_env s) s = None"
proof -
  obtain s where s: "store_ok toy_store_env s" using toy_store by blast
  from sync_asks_for_missing [OF s, of s] show ?thesis by (auto simp: up_to_date_def)
qed

end
