(* ===== verification/Subsystem.thy ===== *)
theory Subsystem
  imports Prelude
begin

text \<open>
  What a broker of \<open>flarch/src/broker.rs\<close> expects of a module, the trait \<open>SubsystemHandler\<close>: it
  takes a batch of messages, changes its state and gives back messages. Most modules handle a
  batch one message after the other; the locale \<open>subsystem\<close> states the contract of such a module,
  which is proved for one message and then holds for every batch.
\<close>

fun handle_all :: "('m \<Rightarrow> 's \<Rightarrow> (unit, 's \<times> 'o list) outcome) \<Rightarrow> 'm list \<Rightarrow> 's \<Rightarrow> (unit, 's \<times> 'o list) outcome" where
  "handle_all handle [] s = Ok (s, [])"
| "handle_all handle (m # ms) s =
     bind_outcome (handle m s) (\<lambda>(s1, out1).
     bind_outcome (handle_all handle ms s1) (\<lambda>(s2, out2). Ok (s2, out1 @ out2)))"

text \<open>How the messages are cut into batches makes no difference.\<close>

lemma handle_all_append:
  "handle_all h (xs @ ys) s =
     bind_outcome (handle_all h xs s) (\<lambda>(s1, out1).
     bind_outcome (handle_all h ys s1) (\<lambda>(s2, out2). Ok (s2, out1 @ out2)))"
proof (induction xs arbitrary: s)
  case Nil
  then show ?case by (cases "handle_all h ys s") auto
next
  case (Cons x xs)
  show ?case
  proof (cases "h x s")
    case (Ok r)
    obtain s1 out1 where r: "r = (s1, out1)" by (cases r)
    show ?thesis
    proof (cases "handle_all h xs s1")
      case (Ok q)
      obtain s2 out2 where q: "q = (s2, out2)" by (cases q)
      with \<open>h x s = Ok r\<close> r Ok Cons.IH [of s1] show ?thesis
        by (cases "handle_all h ys s2") auto
    qed (use Ok r Cons.IH [of s1] in auto)
  qed auto
qed

locale subsystem =
  fixes handle :: "'m \<Rightarrow> 's \<Rightarrow> (unit, 's \<times> 'o list) outcome"
    and accepts :: "'m \<Rightarrow> bool"
    and invar :: "'s \<Rightarrow> bool"
    and promised :: "'o \<Rightarrow> bool"
  assumes handle_keeps:
    "invar s \<Longrightarrow> accepts m \<Longrightarrow> \<exists>s' out. handle m s = Ok (s', out) \<and> invar s' \<and> list_all promised out"
begin

lemma all_kept:
  assumes "invar s" and "list_all accepts ms"
  shows "\<exists>s' out. handle_all handle ms s = Ok (s', out) \<and> invar s' \<and> list_all promised out"
  using assms
proof (induction ms arbitrary: s)
  case (Cons m ms)
  then obtain s1 out1 where one: "handle m s = Ok (s1, out1)" "invar s1" "list_all promised out1"
    using handle_keeps [of s m] by auto
  with Cons obtain s2 out2 where "handle_all handle ms s1 = Ok (s2, out2)" "invar s2" "list_all promised out2"
    by fastforce
  with one show ?case by simp
qed simp

lemma never_panics: "invar s \<Longrightarrow> list_all accepts ms \<Longrightarrow> handle_all handle ms s \<noteq> Panic"
  using all_kept by fastforce

lemma kept: "invar s \<Longrightarrow> list_all accepts ms \<Longrightarrow> handle_all handle ms s = Ok (s', out) \<Longrightarrow> invar s'"
  using all_kept [of s ms] by auto

lemma outputs: "invar s \<Longrightarrow> list_all accepts ms \<Longrightarrow> handle_all handle ms s = Ok (s', out) \<Longrightarrow> list_all promised out"
  using all_kept [of s ms] by auto

end

end
