(* ===== verification/NodeInfo.thy ===== *)
theory NodeInfo
  imports NodeIds Subsystem
begin

text \<open>
  The public description of a node, \<open>flmodules/src/nodeconfig.rs\<close>: its identifier, the check of
  a signature with its key, and the older versions that are upgraded when a description is read.
  The crate \<open>ed25519_compact\<close> is a parameter.
\<close>

subsection \<open>Capabilities\<close>

text \<open>\<open>Modules\<close> of \<open>lib.rs\<close>: eight flags in 32 bits.\<close>

definition modules_all :: u32 where
  "modules_all = 0xff"

definition modules_from_bits :: "u32 \<Rightarrow> u32 option" where
  "modules_from_bits bits = (if bits AND NOT modules_all = 0 then Some bits else None)"

definition webproxy_requests :: u32 where
  "webproxy_requests = 0x20"

subsection \<open>Node descriptions\<close>

record node_info =
  ni_name :: string
  ni_client :: string
  ni_pubkey :: bytes
  ni_modules :: u32
  ni_id :: "u256 option"

record ('pk, 'sig) ed25519 =
  ed_public :: "bytes \<Rightarrow> 'pk option"
  ed_signature :: "bytes \<Rightarrow> 'sig option"
  ed_verify :: "'pk \<Rightarrow> bytes \<Rightarrow> 'sig \<Rightarrow> bool"

definition get_id :: "node_info \<Rightarrow> (unit, u256) outcome" where
  "get_id ni = (case ni_id ni of
     Some i \<Rightarrow> Ok i
   | None \<Rightarrow> if length (ni_pubkey ni) = 32 then Ok (U256 (ni_pubkey ni)) else Panic)"

definition ni_verify :: "('pk, 'sig) ed25519 \<Rightarrow> node_info \<Rightarrow> bytes \<Rightarrow> bytes \<Rightarrow> (unit, bool) outcome" where
  "ni_verify ed ni msg sig_bytes =
     bind_outcome (expect (ed_public ed (ni_pubkey ni))) (\<lambda>pk.
       case ed_signature ed sig_bytes of
         None \<Rightarrow> Ok False
       | Some s \<Rightarrow> Ok (ed_verify ed pk msg s))"

text \<open>Equality compares the identifiers, so it panics where \<open>get_id\<close> does.\<close>

definition ni_eq :: "node_info \<Rightarrow> node_info \<Rightarrow> (unit, bool) outcome" where
  "ni_eq a b = bind_outcome (get_id a) (\<lambda>i. bind_outcome (get_id b) (\<lambda>j. Ok (i = j)))"

text \<open>\<open>map(get_id)\<close> over a list.\<close>

fun get_ids :: "node_info list \<Rightarrow> (unit, node_ids) outcome" where
  "get_ids [] = Ok []"
| "get_ids (ni # nis) = bind_outcome (get_id ni) (\<lambda>i. bind_outcome (get_ids nis) (\<lambda>is. Ok (i # is)))"

subsection \<open>Older versions\<close>

record node_info_v2 =
  v2_name :: string
  v2_client :: string
  v2_pubkey :: bytes
  v2_modules :: u32

datatype node_info_version = NodeInfoV1 | NodeInfoV2 node_info_v2 | NodeInfoV3 node_info

definition modules_v2_into :: "u32 \<Rightarrow> u32" where
  "modules_v2_into bits = (case modules_from_bits bits of Some m \<Rightarrow> m | None \<Rightarrow> modules_all)"

definition node_info_from_v2 :: "node_info_v2 \<Rightarrow> node_info" where
  "node_info_from_v2 old = \<lparr>ni_name = v2_name old, ni_client = v2_client old, ni_pubkey = v2_pubkey old,
     ni_modules = modules_v2_into (v2_modules old), ni_id = None\<rparr>"

definition node_info_latest :: "node_info_version \<Rightarrow> (unit, node_info) outcome" where
  "node_info_latest v = (case v of
     NodeInfoV1 \<Rightarrow> Panic
   | NodeInfoV2 old \<Rightarrow> Ok (node_info_from_v2 old)
   | NodeInfoV3 ni \<Rightarrow> Ok ni)"

lemma get_id_cases:
  "get_id ni = Ok i \<longleftrightarrow> ni_id ni = Some i \<or> ni_id ni = None \<and> length (ni_pubkey ni) = 32 \<and> i = U256 (ni_pubkey ni)"
  by (auto simp: get_id_def split: option.splits)

lemma get_id_not_Err: "get_id ni \<noteq> Err x"
  by (simp add: get_id_def split: option.splits)

text \<open>A description whose key has not 32 bytes and that does not hold its identifier: \<open>get_id\<close> panics on it.\<close>

definition keyless :: "node_info \<Rightarrow> bool" where
  "keyless ni \<longleftrightarrow> ni_id ni = None \<and> length (ni_pubkey ni) \<noteq> 32"

definition none_keyless :: "node_info list \<Rightarrow> bool" where
  "none_keyless infos \<longleftrightarrow> (\<forall>ni \<in> set infos. \<not> keyless ni)"

lemma get_id_keyless: "keyless ni \<Longrightarrow> get_id ni = Panic" "\<not> keyless ni \<Longrightarrow> \<exists>i. get_id ni = Ok i"
  by (auto simp: keyless_def get_id_def split: option.splits)

lemma get_ids_keyless:
  "get_ids nis = (if none_keyless nis then Ok (map (\<lambda>ni. case ni_id ni of Some i \<Rightarrow> i | None \<Rightarrow> U256 (ni_pubkey ni)) nis) else Panic)"
  by (induction nis) (auto simp: none_keyless_def keyless_def get_id_def split: option.splits)

lemma modules_v2_into_keeps: "bits AND NOT 0x3f = 0 \<Longrightarrow> modules_v2_into bits = bits"
proof -
  assume b: "bits AND NOT 0x3f = 0"
  have "NOT modules_all = NOT 0x3f AND NOT modules_all" by (simp add: modules_all_def)
  then have "bits AND NOT modules_all = (bits AND NOT 0x3f) AND NOT modules_all"
    by (metis and.assoc)
  with b show ?thesis by (simp add: modules_v2_into_def modules_from_bits_def)
qed

lemma get_ids_all: "get_ids nis = Ok ids \<Longrightarrow> \<forall>ni \<in> set nis. \<exists>i. get_id ni = Ok i"
  by (induction nis arbitrary: ids) (auto simp: bind_outcome_Ok)

end
