(* ===== verification/RouterMsg.thy ===== *)
theory RouterMsg
  imports NodeInfo
begin

text \<open>
  What the modules say to each other: the wrapper in which every module sends its own messages
  through the network (\<open>NetworkWrapper\<close> of \<open>flmodules/src/router/messages.rs\<close>), the messages of the
  router, and the interface of the DHT router to the DHT storage
  (\<open>flmodules/src/dht_router/broker.rs\<close>).

  YAML is third-party code: a codec is a pair of functions, of which the theorems that need it
  assume that what is written can be read back.
\<close>

record network_wrapper =
  nw_module :: string
  nw_msg :: string

record 'm codec =
  to_yaml :: "'m \<Rightarrow> string option"
  from_yaml :: "string \<Rightarrow> 'm option"

text \<open>Writing never fails; and a message can be read back from what is written.\<close>

definition codec_total :: "'m codec \<Rightarrow> bool" where
  "codec_total c \<longleftrightarrow> (\<forall>m. to_yaml c m \<noteq> None)"

definition reads_back :: "'m codec \<Rightarrow> 'm \<Rightarrow> bool" where
  "reads_back c m \<longleftrightarrow> Option.bind (to_yaml c m) (from_yaml c) = Some m"

definition wrap_yaml :: "'m codec \<Rightarrow> string \<Rightarrow> 'm \<Rightarrow> network_wrapper option" where
  "wrap_yaml c name m = map_option (\<lambda>s. \<lparr>nw_module = name, nw_msg = s\<rparr>) (to_yaml c m)"

definition unwrap_yaml :: "'m codec \<Rightarrow> string \<Rightarrow> network_wrapper \<Rightarrow> 'm option" where
  "unwrap_yaml c name w = (if nw_module w = name then from_yaml c (nw_msg w) else None)"

lemma wrap_Some: "codec_total c \<Longrightarrow> \<exists>w. wrap_yaml c name m = Some w"
  by (auto simp: codec_total_def wrap_yaml_def)

lemma unwrap_wrap: "reads_back c m \<Longrightarrow> wrap_yaml c name m = Some w \<Longrightarrow> unwrap_yaml c name w = Some m"
  by (auto simp: reads_back_def wrap_yaml_def unwrap_yaml_def)

lemma unwrap_wrap_bind: "reads_back c m \<Longrightarrow> Option.bind (wrap_yaml c name m) (unwrap_yaml c name) = Some m"
  by (cases "to_yaml c m") (auto simp: reads_back_def wrap_yaml_def unwrap_yaml_def)

lemma unwrap_module: "unwrap_yaml c name w = Some m \<Longrightarrow> nw_module w = name"
  by (simp add: unwrap_yaml_def split: if_splits)

text \<open>
  The interface of the router to the modules above it. A \<open>FledgerConfig\<close> is the system realm it
  names.
\<close>

datatype router_internal =
    InternalConnected u256 | InternalDisconnected u256 | InternalAvailable "node_info list"
  | InternalMessageFromNode u256 string | InternalSystemConfig "u256 option"

datatype router_in = NetworkWrapperToNetwork u256 network_wrapper | Internal router_internal

datatype router_out =
    NodeInfoAvailable "node_info list" | NodeIDsConnected node_ids | NodeInfosConnected "node_info list"
  | NetworkWrapperFromNetwork u256 network_wrapper | Disconnected u256 | Connected u256
  | SystemConfig "u256 option"

datatype dht_router_in =
    MessageBroadcast network_wrapper | MessageNeighbourTo u256 network_wrapper
  | MessageClosestTo u256 network_wrapper | MessageDirectTo u256 network_wrapper

datatype dht_router_out =
    MessageNeighbourFrom u256 network_wrapper
  | MessageRouting u256 u256 u256 u256 network_wrapper
  | MessageClosestAt u256 u256 u256 network_wrapper
  | MessageDestAt u256 u256 network_wrapper
  | NodeList "u256 list"
  | SystemRealm u256

end
