(* ===== verification/DhtMessages.thy ===== *)
theory DhtMessages
  imports RealmStore RouterMsg
begin

text \<open>
  The message handlers of the DHT storage, \<open>flmodules/src/dht_storage/messages.rs\<close>: the realm
  stores of a node and what it does with each message of a user, of the router and of a
  neighbour. A handler returns the new state and the messages it sends, in an \<open>outcome\<close> (the
  \<open>expect\<close>s of the code are \<open>Panic\<close>) inside an \<open>option\<close>: \<open>None\<close> is not returning, which
  \<open>RealmStore.upsert_flo\<close> can do.

  Parameters in \<open>dht_env\<close>: the codecs of the three message types, the parser of realms, the size
  of a store on disk, the random request identifiers and the flag \<open>EVIL_NO_FORWARD\<close> of the
  experiments. The field \<open>dm_saved\<close> is what is written to the disk, \<open>dm_published\<close> the value of
  the watch channel of statistics.
\<close>

subsection \<open>Messages\<close>

type_synonym global_id = "u256 \<times> u256"
type_synonym flo_cuckoo = "flo \<times> u256 list"

record realm_object =
  ro_name :: string
  ro_config :: realm_config
  ro_services :: "(string, u256) hashmap"

datatype message_closest =
    StoreFlo flo | ReadFlo u256 u256 | GetCuckooIDs u256 | StoreCuckooID global_id

datatype message_dest =
    FloValue flo_cuckoo "u256 option" | UnknownFlo global_id | CookooIDs global_id "u256 list"

datatype message_neighbour =
    RequestRealmIDs | AvailableRealmIDs "u256 list" | RequestFloMetas u256
  | AvailableFlos u256 "flo_meta list" | RequestFlos u256 "u256 list" | Flos "flo_cuckoo list"

datatype dht_storage_in =
    InStoreFlo flo | InReadFlo global_id | InReadCuckooIDs global_id | GetFlos | GetRealms | SyncFromNeighbors

datatype dht_storage_out =
    OutFlos "flo list" | OutFloValue flo_cuckoo | OutFloValues "flo_cuckoo list" | OutRealmIDs "u256 list"
  | OutCuckooIDs global_id "u256 list" | OutValueMissing global_id

datatype intern_in = InRouting dht_router_out | InStorage dht_storage_in | PropagateFlos

datatype intern_out = OutRouting dht_router_in | OutStorage dht_storage_out

subsection \<open>State\<close>

record realm_stats =
  rs_real_size :: nat
  rs_size :: nat
  rs_flos :: nat
  rs_distribution :: "nat list"
  rs_config :: realm_config

record ds_metrics =
  store_flo_total :: u32
  request_flo_metas_sent_total :: u32
  flo_value_sent_total :: u32
  flo_value_sent_blocked_total :: u32
  available_flos_sent_total :: u32
  available_flos_sent_blocked_total :: u32
  flos_sent_total :: u32
  flos_sent_blocked_total :: u32
  max_flo_metas_received_in_available_flos :: u32
  max_flo_metas_requested_in_request_flos :: u32
  max_flo_ids_received_in_request_flos :: u32
  max_flos_sent_in_flos :: u32
  max_flos_received_in_flos :: u32

definition ds_metrics_new :: ds_metrics where
  "ds_metrics_new = \<lparr>store_flo_total = 0, request_flo_metas_sent_total = 0, flo_value_sent_total = 0,
     flo_value_sent_blocked_total = 0, available_flos_sent_total = 0, available_flos_sent_blocked_total = 0,
     flos_sent_total = 0, flos_sent_blocked_total = 0, max_flo_metas_received_in_available_flos = 0,
     max_flo_metas_requested_in_request_flos = 0, max_flo_ids_received_in_request_flos = 0,
     max_flos_sent_in_flos = 0, max_flos_received_in_flos = 0\<rparr>"

record stats =
  sts_realms :: "(u256, realm_stats) hashmap"
  sts_system_realms :: "u256 list"
  sts_metrics :: ds_metrics

record dht_env =
  de_store :: store_env
  de_closest :: "message_closest codec"
  de_dest :: "message_dest codec"
  de_neighbour :: "message_neighbour codec"
  de_realm_type :: string
  de_parse_realm :: "bytes \<Rightarrow> realm_object option"
  de_real_size :: "realm_storage \<Rightarrow> nat"
  de_evil_no_forward :: bool

record dht =
  dm_realms :: "(u256, realm_storage) hashmap"
  dm_nodes :: "u256 list"
  dm_config :: dht_config
  dm_our_id :: u256
  dm_saved :: "(u256, realm_storage) hashmap"
  dm_published :: stats
  dm_metrics :: ds_metrics

definition dht_module :: string where
  "dht_module = ''DHTStorage''"

definition realm_stats_from :: "dht_env \<Rightarrow> realm_storage \<Rightarrow> realm_stats" where
  "realm_stats_from e s = \<lparr>rs_real_size = de_real_size e s, rs_size = size_used s, rs_flos = flo_count s,
     rs_distribution = flo_distribution s, rs_config = st_realm_config s\<rparr>"

definition stats_from_realms ::
  "dht_env \<Rightarrow> (u256, realm_storage) hashmap \<Rightarrow> u256 list \<Rightarrow> ds_metrics \<Rightarrow> stats" where
  "stats_from_realms e rs system m =
     \<lparr>sts_realms = map (\<lambda>(i, s). (i, realm_stats_from e s)) rs, sts_system_realms = system, sts_metrics = m\<rparr>"

definition refresh_stats :: "dht_env \<Rightarrow> dht \<Rightarrow> dht" where
  "refresh_stats e d =
     d\<lparr>dm_published := stats_from_realms e (dm_realms d) (realms (dm_config d)) (dm_metrics d)\<rparr>"

definition dht_store :: "dht_env \<Rightarrow> dht \<Rightarrow> dht" where
  "dht_store e d = (refresh_stats e d)\<lparr>dm_saved := dm_realms d\<rparr>"

definition dht_new :: "dht_env \<Rightarrow> (u256, realm_storage) hashmap option \<Rightarrow> dht_config \<Rightarrow> u256 \<Rightarrow> dht" where
  "dht_new e loaded cfg our =
     (let rs = (case loaded of Some m \<Rightarrow> m | None \<Rightarrow> [])
      in dht_store e \<lparr>dm_realms = rs, dm_nodes = [], dm_config = cfg, dm_our_id = our, dm_saved = rs,
           dm_published = \<lparr>sts_realms = [], sts_system_realms = [], sts_metrics = ds_metrics_new\<rparr>,
           dm_metrics = ds_metrics_new\<rparr>)"

text \<open>\<open>increment_stat!\<close> and \<open>max_stat!\<close>; the counters are \<open>u32\<close> and wrap around.\<close>

definition increment_stat :: "dht_env \<Rightarrow> (ds_metrics \<Rightarrow> ds_metrics) \<Rightarrow> dht \<Rightarrow> dht" where
  "increment_stat e bump d = refresh_stats e (d\<lparr>dm_metrics := bump (dm_metrics d)\<rparr>)"

definition max_stat :: "dht_env \<Rightarrow> (ds_metrics \<Rightarrow> u32) \<Rightarrow> (u32 \<Rightarrow> ds_metrics \<Rightarrow> ds_metrics) \<Rightarrow> nat \<Rightarrow> dht \<Rightarrow> dht" where
  "max_stat e get upd n d =
     (let v = word_of_nat n in if v > get (dm_metrics d)
      then refresh_stats e (d\<lparr>dm_metrics := upd v (dm_metrics d)\<rparr>) else d)"

subsection \<open>Sending\<close>

definition closest_out :: "dht_env \<Rightarrow> u256 \<Rightarrow> message_closest \<Rightarrow> intern_out option" where
  "closest_out e dst m = map_option (\<lambda>w. OutRouting (MessageClosestTo dst w)) (wrap_yaml (de_closest e) dht_module m)"

definition dest_out :: "dht_env \<Rightarrow> u256 \<Rightarrow> message_dest \<Rightarrow> intern_out option" where
  "dest_out e dst m = map_option (\<lambda>w. OutRouting (MessageDirectTo dst w)) (wrap_yaml (de_dest e) dht_module m)"

fun message_len :: "message_neighbour \<Rightarrow> nat" where
  "message_len (AvailableRealmIDs ids) = length ids"
| "message_len (AvailableFlos _ ms) = length ms"
| "message_len (RequestFlos _ ids) = length ids"
| "message_len (Flos fs) = length fs"
| "message_len _ = 1"

definition to_neighbour :: "dht_env \<Rightarrow> u256 \<Rightarrow> message_neighbour \<Rightarrow> intern_out option" where
  "to_neighbour e dst m =
     (if 0 < message_len m
      then map_option (\<lambda>w. OutRouting (MessageNeighbourTo dst w)) (wrap_yaml (de_neighbour e) dht_module m)
      else None)"

definition to_broadcast :: "dht_env \<Rightarrow> message_neighbour \<Rightarrow> intern_out option" where
  "to_broadcast e m =
     (if 0 < message_len m
      then map_option (\<lambda>w. OutRouting (MessageBroadcast w)) (wrap_yaml (de_neighbour e) dht_module m)
      else None)"

definition maybe :: "'a option \<Rightarrow> 'a list" where
  "maybe x = (case x of Some a \<Rightarrow> [a] | None \<Rightarrow> [])"


subsection \<open>Handlers\<close>

type_synonym 'a run = "(unit, 'a) outcome option"

definition run_bind :: "'a run \<Rightarrow> ('a \<Rightarrow> 'b run) \<Rightarrow> 'b run" where
  "run_bind m f = (case m of None \<Rightarrow> None | Some (Ok a) \<Rightarrow> f a | Some (Err x) \<Rightarrow> Some (Err x) | Some Panic \<Rightarrow> Some Panic)"

definition read_flo :: "global_id \<Rightarrow> dht \<Rightarrow> flo_cuckoo option" where
  "read_flo gid d = Option.bind (map_of (dm_realms d) (fst gid)) (get_flo_cuckoo (snd gid))"

definition try_into_realm :: "dht_env \<Rightarrow> flo \<Rightarrow> realm_object option" where
  "try_into_realm e f = (if flo_type f = de_realm_type e then de_parse_realm e (data f) else None)"

definition set_realm :: "u256 \<Rightarrow> realm_storage \<Rightarrow> dht \<Rightarrow> dht" where
  "set_realm i s d = d\<lparr>dm_realms := AList.update i s (dm_realms d)\<rparr>"

definition create_realm :: "dht_env \<Rightarrow> flo \<Rightarrow> realm_object \<Rightarrow> dht \<Rightarrow> (unit, dht) outcome" where
  "create_realm e f ro d =
     (if \<not> accepts_realm (dm_config d) (realm f) then Err ()
      else bind_outcome (realm_storage_new (de_store e) (dm_config d) (dm_our_id d) (ro_config ro) f)
             (\<lambda>s. Ok (set_realm (realm f) s d)))"

definition dht_upsert_flo :: "dht_env \<Rightarrow> flo \<Rightarrow> dht \<Rightarrow> (dht \<times> bool) run" where
  "dht_upsert_flo e f d =
     (case map_of (dm_realms d) (realm f) of
        Some s \<Rightarrow> run_bind (upsert_flo (de_store e) f s)
          (\<lambda>(s', m). let d1 = set_realm (realm f) s' d in Some (Ok (if m then dht_store e d1 else d1, m)))
      | None \<Rightarrow>
          (case try_into_realm e f of
             None \<Rightarrow> Some (Ok (d, False))
           | Some ro \<Rightarrow>
               (case create_realm e f ro d of
                  Ok d1 \<Rightarrow> Some (Ok (dht_store e d1, True))
                | Err _ \<Rightarrow> Some (Ok (d, False))
                | Panic \<Rightarrow> Some Panic)))"

definition store_flo_out :: "dht_env \<Rightarrow> flo \<Rightarrow> bool \<Rightarrow> (unit, intern_out list) outcome" where
  "store_flo_out e f modified =
     bind_outcome
       (if modified
        then bind_outcome (expect (closest_out e (store_fid (de_store e) f) (StoreFlo f))) (\<lambda>o1. Ok [o1])
        else Ok [])
       (\<lambda>out1. bind_outcome
          (case cuckoo_parent (fl_config f) of
             Some p \<Rightarrow> bind_outcome (expect (closest_out e p
                 (StoreCuckooID (flo_global_id (se_flo (de_store e)) f)))) (\<lambda>o2. Ok [o2])
           | None \<Rightarrow> Ok [])
          (\<lambda>out2. Ok (out1 @ out2)))"

definition store_flo :: "dht_env \<Rightarrow> flo \<Rightarrow> dht \<Rightarrow> (dht \<times> intern_out list) run" where
  "store_flo e f d =
     run_bind (dht_upsert_flo e f (increment_stat e (\<lambda>m. m\<lparr>store_flo_total := store_flo_total m + 1\<rparr>) d)) (\<lambda>(d1, modified).
     Some (bind_outcome (store_flo_out e f modified) (\<lambda>out. Ok (d1, out))))"

definition on_realm :: "u256 \<Rightarrow> (realm_storage \<Rightarrow> (unit, realm_storage) outcome) \<Rightarrow> dht \<Rightarrow> (unit, dht) outcome" where
  "on_realm i op d =
     (case map_of (dm_realms d) i of
        Some s \<Rightarrow> bind_outcome (op s) (\<lambda>s'. Ok (set_realm i s' d))
      | None \<Rightarrow> Ok d)"

text \<open>What the experiments switch off with \<open>EVIL_NO_FORWARD\<close> is only counted.\<close>

definition msg_routing :: "dht_env \<Rightarrow> u256 \<Rightarrow> u256 \<Rightarrow> message_closest \<Rightarrow> dht \<Rightarrow> (dht \<times> intern_out list) run" where
  "msg_routing e origin key msg d =
     (case msg of
        StoreFlo f \<Rightarrow> store_flo e f d
      | ReadFlo rid req \<Rightarrow>
          (case read_flo (rid, key) d of
             Some fc \<Rightarrow>
               if \<not> de_evil_no_forward e
               then Some (Ok (increment_stat e (\<lambda>m. m\<lparr>flo_value_sent_total := flo_value_sent_total m + 1\<rparr>) d,
                      maybe (dest_out e origin (FloValue fc (Some req)))))
               else Some (Ok (increment_stat e
                      (\<lambda>m. m\<lparr>flo_value_sent_blocked_total := flo_value_sent_blocked_total m + 1\<rparr>) d, []))
           | None \<Rightarrow> Some (Ok (d, [])))
      | GetCuckooIDs rid \<Rightarrow>
          Some (Ok (d, case Option.bind (map_of (dm_realms d) rid) (get_cuckoo_ids key) of
                         Some ids \<Rightarrow> maybe (dest_out e origin (CookooIDs (rid, key) ids))
                       | None \<Rightarrow> []))
      | StoreCuckooID gid \<Rightarrow>
          Some (bind_outcome (on_realm (fst gid) (store_cuckoo_id (de_store e) key (snd gid)) d) (\<lambda>d1. Ok (d1, []))))"

definition msg_dest :: "dht_env \<Rightarrow> message_dest \<Rightarrow> dht \<Rightarrow> (dht \<times> intern_out list) run" where
  "msg_dest e msg d =
     (case msg of
        FloValue fc _ \<Rightarrow>
          run_bind (store_flo e (fst fc) d) (\<lambda>(d1, _).
          Some (bind_outcome
            (on_realm (realm (fst fc)) (store_cuckoo_ids (de_store e) (store_fid (de_store e) (fst fc)) (snd fc)) d1)
            (\<lambda>d2. Ok (d2, [OutStorage (OutFloValue fc)]))))
      | UnknownFlo key \<Rightarrow> Some (Ok (d, [OutStorage (OutValueMissing key)]))
      | CookooIDs gid ids \<Rightarrow> Some (Ok (d, [OutStorage (OutCuckooIDs gid ids)])))"

text \<open>The Flos of a neighbour are stored one by one; what \<open>store_flo\<close> wants to send is dropped.\<close>

fun store_flos :: "dht_env \<Rightarrow> flo_cuckoo list \<Rightarrow> dht \<Rightarrow> dht run" where
  "store_flos e [] d = Some (Ok d)"
| "store_flos e (fc # fcs) d =
     run_bind (store_flo e (fst fc) d) (\<lambda>(d1, _).
     run_bind (Some (on_realm (realm (fst fc))
                (store_cuckoo_ids (de_store e) (store_fid (de_store e) (fst fc)) (snd fc)) d1))
       (store_flos e fcs))"

definition answer_neighbour ::
  "dht_env \<Rightarrow> message_neighbour \<Rightarrow> dht \<Rightarrow> (dht \<times> message_neighbour list) run" where
  "answer_neighbour e msg d =
     (case msg of
        RequestRealmIDs \<Rightarrow> Some (Ok (d, [AvailableRealmIDs (map fst (dm_realms d))]))
      | AvailableRealmIDs rids \<Rightarrow>
          (let d1 = increment_stat e (\<lambda>m. m\<lparr>request_flo_metas_sent_total := request_flo_metas_sent_total m + 1\<rparr>) d;
               accepted = filter (accepts_realm (dm_config d1)) rids
           in Some (Ok (d1,
                map (\<lambda>rid. RequestFlos rid [rid]) (filter (\<lambda>rid. \<not> hm_contains (dm_realms d1) rid) accepted) @
                map RequestFloMetas accepted)))
      | RequestFloMetas rid \<Rightarrow>
          if \<not> de_evil_no_forward e
          then (let d1 = increment_stat e (\<lambda>m. m\<lparr>available_flos_sent_total := available_flos_sent_total m + 1\<rparr>) d
                in Some (Ok (d1, case map_of (dm_realms d1) rid of
                                   Some s \<Rightarrow> [AvailableFlos rid (get_flo_metas (de_store e) s)] | None \<Rightarrow> [])))
          else Some (Ok (increment_stat e
                 (\<lambda>m. m\<lparr>available_flos_sent_blocked_total := available_flos_sent_blocked_total m + 1\<rparr>) d, []))
      | AvailableFlos rid metas \<Rightarrow>
          (let d1 = max_stat e max_flo_metas_received_in_available_flos
                      (\<lambda>v m. m\<lparr>max_flo_metas_received_in_available_flos := v\<rparr>) (length metas) d
           in case Option.bind (map_of (dm_realms d1) rid) (sync_available metas) of
                Some needed \<Rightarrow> Some (Ok (max_stat e max_flo_metas_requested_in_request_flos
                      (\<lambda>v m. m\<lparr>max_flo_metas_requested_in_request_flos := v\<rparr>) (length needed) d1,
                    [RequestFlos rid needed]))
              | None \<Rightarrow> Some (Ok (d1, [])))
      | RequestFlos rid ids \<Rightarrow>
          (let d1 = max_stat e max_flo_ids_received_in_request_flos
                      (\<lambda>v m. m\<lparr>max_flo_ids_received_in_request_flos := v\<rparr>) (length ids) d
           in if \<not> de_evil_no_forward e
              then (let d2 = increment_stat e (\<lambda>m. m\<lparr>flos_sent_total := flos_sent_total m + 1\<rparr>) d1
                    in case map_of (dm_realms d2) rid of
                         Some s \<Rightarrow>
                           let fcs = List.map_filter (\<lambda>i. get_flo_cuckoo i s) ids
                           in Some (Ok (max_stat e max_flos_sent_in_flos (\<lambda>v m. m\<lparr>max_flos_sent_in_flos := v\<rparr>)
                                (length fcs) d2, [Flos fcs]))
                       | None \<Rightarrow> Some (Ok (d2, [])))
              else Some (Ok (increment_stat e (\<lambda>m. m\<lparr>flos_sent_blocked_total := flos_sent_blocked_total m + 1\<rparr>) d1, [])))
      | Flos fcs \<Rightarrow>
          (let d1 = max_stat e max_flos_received_in_flos (\<lambda>v m. m\<lparr>max_flos_received_in_flos := v\<rparr>) (length fcs) d
           in run_bind (store_flos e fcs d1) (\<lambda>d2. Some (Ok (d2, [])))))"

definition msg_neighbour :: "dht_env \<Rightarrow> u256 \<Rightarrow> message_neighbour \<Rightarrow> dht \<Rightarrow> (dht \<times> intern_out list) run" where
  "msg_neighbour e origin msg d =
     run_bind (answer_neighbour e msg d)
       (\<lambda>(d1, answers). Some (Ok (d1, List.map_filter (to_neighbour e origin) answers)))"

definition msg_dht_storage :: "dht_env \<Rightarrow> u256 \<Rightarrow> dht_storage_in \<Rightarrow> dht \<Rightarrow> (dht \<times> intern_out list) run" where
  "msg_dht_storage e rnd msg d =
     (case msg of
        InStoreFlo f \<Rightarrow> store_flo e f d
      | InReadFlo gid \<Rightarrow>
          (case read_flo gid d of
             Some fc \<Rightarrow> Some (Ok (d, [OutStorage (OutFloValue fc)]))
           | None \<Rightarrow> Some (bind_outcome (expect (closest_out e (snd gid) (ReadFlo (fst gid) rnd))) (\<lambda>out. Ok (d, [out]))))
      | InReadCuckooIDs gid \<Rightarrow>
          (let local = (case Option.bind (map_of (dm_realms d) (fst gid)) (get_cuckoo_ids (snd gid)) of
                          Some cids \<Rightarrow> [OutStorage (OutCuckooIDs gid cids)] | None \<Rightarrow> [])
           in Some (bind_outcome (expect (closest_out e (snd gid) (GetCuckooIDs (fst gid)))) (\<lambda>out. Ok (d, local @ [out]))))
      | SyncFromNeighbors \<Rightarrow>
          Some (bind_outcome (expect (to_broadcast e RequestRealmIDs)) (\<lambda>out. Ok (d, [out])))
      | GetRealms \<Rightarrow> Some (Ok (d, [OutStorage (OutRealmIDs (map fst (dm_realms d)))]))
      | GetFlos \<Rightarrow> Some (Ok (d, [OutStorage (OutFloValues (concat (map (\<lambda>(i, s). get_all_flo_cuckoos s) (dm_realms d))))])))"

definition or_nothing :: "'m option \<Rightarrow> ('m \<Rightarrow> dht \<Rightarrow> (dht \<times> intern_out list) run) \<Rightarrow> dht \<Rightarrow> (dht \<times> intern_out list) run" where
  "or_nothing m f d = (case m of Some x \<Rightarrow> f x d | None \<Rightarrow> Some (Ok (d, [])))"

definition msg_dht_router :: "dht_env \<Rightarrow> dht_router_out \<Rightarrow> dht \<Rightarrow> (dht \<times> intern_out list) run" where
  "msg_dht_router e msg d =
     (case msg of
        MessageRouting origin _ _ key w \<Rightarrow> or_nothing (unwrap_yaml (de_closest e) dht_module w) (msg_routing e origin key) d
      | MessageClosestAt origin _ key w \<Rightarrow> or_nothing (unwrap_yaml (de_closest e) dht_module w) (msg_routing e origin key) d
      | MessageDestAt _ _ w \<Rightarrow> or_nothing (unwrap_yaml (de_dest e) dht_module w) (msg_dest e) d
      | NodeList nodes \<Rightarrow> Some (Ok (d\<lparr>dm_nodes := nodes\<rparr>, []))
      | MessageNeighbourFrom origin w \<Rightarrow> or_nothing (unwrap_yaml (de_neighbour e) dht_module w) (msg_neighbour e origin) d
      | SystemRealm rid \<Rightarrow>
          Some (Ok (if rid \<in> set (realms (dm_config d)) then d
                    else d\<lparr>dm_config := (dm_config d)\<lparr>realms := realms (dm_config d) @ [rid]\<rparr>\<rparr>, [])))"

text \<open>Each message comes with the random number its handler would draw.\<close>

definition dht_message :: "dht_env \<Rightarrow> u256 \<times> intern_in \<Rightarrow> dht \<Rightarrow> (dht \<times> intern_out list) run" where
  "dht_message e m d =
     (case snd m of
        InRouting r \<Rightarrow> msg_dht_router e r d
      | InStorage s \<Rightarrow> msg_dht_storage e (fst m) s d
      | PropagateFlos \<Rightarrow> Some (Ok (d, maybe (to_broadcast e (AvailableRealmIDs (map fst (dm_realms d)))))))"

fun dht_messages :: "dht_env \<Rightarrow> (u256 \<times> intern_in) list \<Rightarrow> dht \<Rightarrow> (dht \<times> intern_out list) run" where
  "dht_messages e [] d = Some (Ok (d, []))"
| "dht_messages e (m # ms) d =
     run_bind (dht_message e m d) (\<lambda>(d1, out1).
     run_bind (dht_messages e ms d1) (\<lambda>(d2, out2). Some (Ok (d2, out1 @ out2))))"


subsection \<open>The contract of a realm's store\<close>

text \<open>
  What the handlers rely on: an operation on a well-formed store gives a well-formed store with
  the same identity or does not return; it never panics.
\<close>

locale realm_store =
  fixes ok :: "'s \<Rightarrow> bool"
    and ident :: "'s \<Rightarrow> 'i"
    and upsert :: "'f \<Rightarrow> 's \<Rightarrow> ('s \<times> bool) run"
    and cuckoo :: "'i \<Rightarrow> 'i \<Rightarrow> 's \<Rightarrow> (unit, 's) outcome"
  assumes upsert_ok: "ok s \<Longrightarrow> upsert f s = Some r \<Longrightarrow> \<exists>s' b. r = Ok (s', b) \<and> ok s' \<and> ident s' = ident s"
    and cuckoo_ok: "ok s \<Longrightarrow> \<exists>s'. cuckoo p c s = Ok s' \<and> ok s' \<and> ident s' = ident s"
begin

definition stores_ok :: "('i, 's) hashmap \<Rightarrow> bool" where
  "stores_ok m \<longleftrightarrow> hm_ok m \<and> (\<forall>i s. map_of m i = Some s \<longrightarrow> ok s \<and> ident s = i)"

lemma stores_ok_update: "stores_ok m \<Longrightarrow> ok s \<Longrightarrow> ident s = i \<Longrightarrow> stores_ok (AList.update i s m)"
  by (simp add: stores_ok_def)

lemma stores_ok_upsert:
  "stores_ok m \<Longrightarrow> map_of m i = Some s \<Longrightarrow> upsert f s = Some r \<Longrightarrow>
     \<exists>s' b. r = Ok (s', b) \<and> stores_ok (AList.update i s' m)"
  using upsert_ok [of s f r] stores_ok_update [of m _ i] by (auto simp: stores_ok_def)

lemma cuckoos_ok:
  "ok s \<Longrightarrow> \<exists>s'. fold (\<lambda>c m. bind_outcome m (cuckoo p c)) cs (Ok s) = Ok s' \<and> ok s' \<and> ident s' = ident s"
proof (induction cs arbitrary: s)
  case (Cons c cs)
  obtain s1 where "cuckoo p c s = Ok s1" "ok s1" "ident s1 = ident s" using cuckoo_ok [OF Cons.prems] by blast
  with Cons.IH [of s1] show ?case by auto
qed simp

end

lemma upsert_flo_ok:
  assumes "store_ok e s" and "upsert_flo e f s = Some r"
  shows "\<exists>s' b. r = Ok (s', b) \<and> store_ok e s' \<and> same_setup s s'"
proof (cases "max_space (st_realm_config s) < flo_size e f * 3")
  case True
  with assms show ?thesis by (auto simp: upsert_flo_def)
next
  case False
  obtain s1 b where p: "upsert_place e f s = Ok (s1, b)" "same_setup s s1" "store_ok e s1"
    using upsert_place_ok [OF assms(1), of f] by blast
  obtain m where m: "evict e s1 = Some m" "r = bind_outcome m (\<lambda>s. Ok (s, b))"
    using assms(2) False by (auto simp: upsert_flo_def p(1))
  have "entry_size e s1 (st_realm_id s1) \<le> max_space (st_realm_config s1)"
    using evict_diverges [OF p(3)] m(1) by force
  from evict_returns [OF p(3) this] m obtain s' where "r = Ok (s', b)" "store_ok e s'" "evicted s1 s'" by auto
  with p(2) show ?thesis using same_setup_trans by (auto simp: evicted_def)
qed

interpretation rs: realm_store "store_ok e" st_realm_id "upsert_flo e" "store_cuckoo_id e" for e
proof unfold_locales
  show "\<exists>s' b. r = Ok (s', b) \<and> store_ok e s' \<and> st_realm_id s' = st_realm_id s"
    if "store_ok e s" "upsert_flo e f s = Some r" for s f r
    using upsert_flo_ok [OF that] by (auto simp: same_setup_def)
  show "\<exists>s'. store_cuckoo_id e p c s = Ok s' \<and> store_ok e s' \<and> st_realm_id s' = st_realm_id s"
    if "store_ok e s" for s p c
    using store_cuckoo_id_ok [OF that, of p c] by (auto simp: same_setup_def)
qed

lemma store_cuckoo_ids_fold:
  "store_cuckoo_ids e p cs s = fold (\<lambda>c m. bind_outcome m (store_cuckoo_id e p c)) cs (Ok s)"
proof (induction cs arbitrary: s)
  case (Cons c cs)
  have stuck: "fold (\<lambda>c m. bind_outcome m (store_cuckoo_id e p c)) cs m = m" if "\<nexists>s. m = Ok s" for m
    using that by (induction cs) (cases m; simp)+
  show ?case using stuck [of "store_cuckoo_id e p c s"] Cons.IH by (cases "store_cuckoo_id e p c s") auto
qed simp

subsection \<open>All messages\<close>

definition dht_ok :: "dht_env \<Rightarrow> dht \<Rightarrow> bool" where
  "dht_ok e d \<longleftrightarrow> hm_ok (dm_realms d) \<and>
     (\<forall>i s. map_of (dm_realms d) i = Some s \<longrightarrow> store_ok (de_store e) s \<and> st_realm_id s = i)"

lemma dht_ok_stores: "dht_ok e d \<longleftrightarrow> rs.stores_ok (de_store e) (dm_realms d)"
  by (simp add: dht_ok_def rs.stores_ok_def)

definition codecs_total :: "dht_env \<Rightarrow> bool" where
  "codecs_total e \<longleftrightarrow> codec_total (de_closest e) \<and> codec_total (de_dest e) \<and> codec_total (de_neighbour e)"

definition run_ok :: "('a \<Rightarrow> bool) \<Rightarrow> 'a run \<Rightarrow> bool" where
  "run_ok P m \<longleftrightarrow> (case m of None \<Rightarrow> True | Some (Ok a) \<Rightarrow> P a | Some _ \<Rightarrow> False)"

lemma run_ok_simps [simp]: "run_ok P None" "run_ok P (Some (Ok a)) \<longleftrightarrow> P a" "\<not> run_ok P (Some Panic)" "\<not> run_ok P (Some (Err x))"
  by (simp_all add: run_ok_def)

lemma run_bind_simps [simp]: "run_bind None f = None" "run_bind (Some (Ok a)) f = f a"
  "run_bind (Some Panic) f = Some Panic" "run_bind (Some (Err x)) f = Some (Err x)"
  by (simp_all add: run_bind_def)

lemma run_ok_bind: "run_ok P m \<Longrightarrow> (\<And>a. P a \<Longrightarrow> run_ok Q (f a)) \<Longrightarrow> run_ok Q (run_bind m f)"
  by (cases m rule: option.exhaust; cases "the m") auto

lemma run_ok_mono: "run_ok P m \<Longrightarrow> (\<And>a. P a \<Longrightarrow> Q a) \<Longrightarrow> run_ok Q m"
  by (cases m rule: option.exhaust; cases "the m") auto

lemma dm_frame [simp]:
  "dm_realms (refresh_stats e d) = dm_realms d" "dm_config (refresh_stats e d) = dm_config d"
  "dm_realms (dht_store e d) = dm_realms d" "dm_config (dht_store e d) = dm_config d"
  "dm_realms (increment_stat e bump d) = dm_realms d" "dm_config (increment_stat e bump d) = dm_config d"
  "dm_realms (max_stat e get upd n d) = dm_realms d" "dm_config (max_stat e get upd n d) = dm_config d"
  "dm_our_id (refresh_stats e d) = dm_our_id d" "dm_our_id (dht_store e d) = dm_our_id d"
  "dm_our_id (increment_stat e bump d) = dm_our_id d" "dm_our_id (max_stat e get upd n d) = dm_our_id d"
  by (simp_all add: refresh_stats_def dht_store_def increment_stat_def max_stat_def Let_def)

lemma dht_ok_frame [simp]:
  "dht_ok e (dht_store e' d) = dht_ok e d" "dht_ok e (increment_stat e' bump d) = dht_ok e d"
  "dht_ok e (max_stat e' get upd n d) = dht_ok e d" "dht_ok e (d\<lparr>dm_nodes := ns\<rparr>) = dht_ok e d"
  "dht_ok e (d\<lparr>dm_config := c\<rparr>) = dht_ok e d"
  by (simp_all add: dht_ok_def)


lemma expect_closest: "codecs_total e \<Longrightarrow> \<exists>w. closest_out e dst m = Some (OutRouting (MessageClosestTo dst w)) \<and>
    wrap_yaml (de_closest e) dht_module m = Some w"
  using wrap_Some [of "de_closest e" dht_module m]
  by (auto simp: codecs_total_def closest_out_def)

lemma dht_upsert_flo_ok:
  assumes "dht_ok e d"
  shows "run_ok (\<lambda>(d1, m). dht_ok e d1) (dht_upsert_flo e f d)"
proof (cases "map_of (dm_realms d) (realm f)")
  case (Some s)
  show ?thesis
  proof (cases "upsert_flo (de_store e) f s")
    case None
    with Some show ?thesis by (simp add: dht_upsert_flo_def)
  next
    case (Some r)
    with \<open>map_of (dm_realms d) (realm f) = Some s\<close>
      rs.stores_ok_upsert [OF assms [unfolded dht_ok_stores] \<open>map_of (dm_realms d) (realm f) = Some s\<close> Some]
    show ?thesis by (auto simp: dht_upsert_flo_def Let_def dht_ok_stores set_realm_def)
  qed
next
  case None
  show ?thesis
  proof (cases "try_into_realm e f")
    case None
    with assms \<open>map_of (dm_realms d) (realm f) = None\<close> show ?thesis by (simp add: dht_upsert_flo_def)
  next
    case (Some ro)
    obtain s where "realm_storage_new (de_store e) (dm_config d) (dm_our_id d) (ro_config ro) f = Ok s"
      "store_ok (de_store e) s" "st_realm_id s = realm f"
      using realm_storage_new_ok by metis
    with assms None Some rs.stores_ok_update [of "de_store e" "dm_realms d" s "realm f"] show ?thesis
      by (auto simp: dht_upsert_flo_def create_realm_def dht_ok_stores set_realm_def)
  qed
qed

lemma store_flo_out_ok: "codecs_total e \<Longrightarrow> \<exists>out. store_flo_out e f m = Ok out"
  using expect_closest [of e "store_fid (de_store e) f" "StoreFlo f"]
    expect_closest [of e "the (cuckoo_parent (fl_config f))" "StoreCuckooID (flo_global_id (se_flo (de_store e)) f)"]
  by (auto simp: store_flo_out_def expect_def split: option.splits)

lemma store_flo_ok:
  assumes "codecs_total e" and "dht_ok e d"
  shows "run_ok (\<lambda>(d1, out). dht_ok e d1) (store_flo e f d)"
  unfolding store_flo_def
proof (rule run_ok_bind [OF dht_upsert_flo_ok])
  show "dht_ok e (increment_stat e (\<lambda>m. m\<lparr>store_flo_total := store_flo_total m + 1\<rparr>) d)" using assms(2) by simp
  fix r :: "dht \<times> bool"
  assume "case r of (d1, m) \<Rightarrow> dht_ok e d1"
  moreover obtain out where "store_flo_out e f (snd r) = Ok out" using store_flo_out_ok [OF assms(1)] by blast
  ultimately show "run_ok (\<lambda>(d1, out). dht_ok e d1) (case r of (d1, modified) \<Rightarrow>
      Some (bind_outcome (store_flo_out e f modified) (\<lambda>out. Ok (d1, out))))"
    by (cases r) simp
qed

lemma on_realm_cuckoos_ok:
  assumes "dht_ok e d"
  shows "\<exists>d1. on_realm i (store_cuckoo_ids (de_store e) p cs) d = Ok d1 \<and> dht_ok e d1"
proof (cases "map_of (dm_realms d) i")
  case (Some s)
  with assms rs.cuckoos_ok [of "de_store e" s p cs]
  obtain s' where "store_cuckoo_ids (de_store e) p cs s = Ok s'" "store_ok (de_store e) s'" "st_realm_id s' = i"
    by (auto simp: dht_ok_def store_cuckoo_ids_fold)
  with Some assms show ?thesis
    using rs.stores_ok_update [of "de_store e" "dm_realms d" s' i]
    by (simp add: on_realm_def dht_ok_stores set_realm_def)
qed (use assms in \<open>simp add: on_realm_def\<close>)

lemma on_realm_cuckoo_ok:
  "dht_ok e d \<Longrightarrow> \<exists>d1. on_realm i (store_cuckoo_id (de_store e) p c) d = Ok d1 \<and> dht_ok e d1"
proof -
  assume ok: "dht_ok e d"
  have "store_cuckoo_ids (de_store e) p [c] s = store_cuckoo_id (de_store e) p c s" for s
    by (cases "store_cuckoo_id (de_store e) p c s") simp_all
  then have "store_cuckoo_ids (de_store e) p [c] = store_cuckoo_id (de_store e) p c" by (rule ext)
  with on_realm_cuckoos_ok [OF ok, of i p "[c]"] show ?thesis by simp
qed

lemma msg_routing_ok:
  assumes "codecs_total e" and "dht_ok e d"
  shows "run_ok (\<lambda>(d1, out). dht_ok e d1) (msg_routing e origin key msg d)"
proof (cases msg)
  case (StoreFlo f)
  with store_flo_ok [OF assms] show ?thesis by (simp add: msg_routing_def)
next
  case (StoreCuckooID gid)
  with on_realm_cuckoo_ok [OF assms(2), of "fst gid" key "snd gid"] show ?thesis
    by (auto simp: msg_routing_def)
qed (use assms(2) in \<open>auto simp: msg_routing_def split: option.splits\<close>)

lemma msg_dest_ok:
  assumes "codecs_total e" and "dht_ok e d"
  shows "run_ok (\<lambda>(d1, out). dht_ok e d1) (msg_dest e msg d)"
proof (cases msg)
  case (FloValue fc req)
  show ?thesis
    unfolding msg_dest_def FloValue message_dest.case
  proof (rule run_ok_bind [OF store_flo_ok [OF assms]])
    fix r assume "case r of (d1, out) \<Rightarrow> dht_ok e d1"
    then show "run_ok (\<lambda>(d1, out). dht_ok e d1) ((\<lambda>(d1, _).
          Some (bind_outcome
            (on_realm (realm (fst fc)) (store_cuckoo_ids (de_store e) (store_fid (de_store e) (fst fc)) (snd fc)) d1)
            (\<lambda>d2. Ok (d2, [OutStorage (OutFloValue fc)])))) r)"
      using on_realm_cuckoos_ok [of e "fst r" "realm (fst fc)" "store_fid (de_store e) (fst fc)" "snd fc"]
      by (auto split: prod.splits)
  qed
qed (use assms(2) in \<open>simp_all add: msg_dest_def\<close>)

lemma store_flos_ok:
  assumes "codecs_total e"
  shows "dht_ok e d \<Longrightarrow> run_ok (dht_ok e) (store_flos e fcs d)"
proof (induction fcs arbitrary: d)
  case (Cons fc fcs)
  show ?case
    unfolding store_flos.simps
  proof (rule run_ok_bind [OF store_flo_ok [OF assms Cons.prems]])
    fix r assume "case r of (d1, out) \<Rightarrow> dht_ok e d1"
    then obtain d2 where "on_realm (realm (fst fc)) (store_cuckoo_ids (de_store e) (store_fid (de_store e) (fst fc)) (snd fc))
        (fst r) = Ok d2" "dht_ok e d2"
      using on_realm_cuckoos_ok [of e "fst r" "realm (fst fc)" "store_fid (de_store e) (fst fc)" "snd fc"] by (auto split: prod.splits)
    with Cons.IH show "run_ok (dht_ok e) ((\<lambda>(d1, _).
     run_bind (Some (on_realm (realm (fst fc))
                (store_cuckoo_ids (de_store e) (store_fid (de_store e) (fst fc)) (snd fc)) d1))
       (store_flos e fcs)) r)"
      by (auto split: prod.splits)
  qed
qed simp


lemma answer_neighbour_ok:
  assumes "codecs_total e" and "dht_ok e d"
  shows "run_ok (\<lambda>(d1, out). dht_ok e d1) (answer_neighbour e msg d)"
proof (cases msg)
  case (Flos fcs)
  let ?d = "max_stat e max_flos_received_in_flos (\<lambda>v m. m\<lparr>max_flos_received_in_flos := v\<rparr>) (length fcs) d"
  have "dht_ok e ?d" using assms(2) by simp
  from run_ok_bind [OF store_flos_ok [OF assms(1) this, of fcs],
      of "\<lambda>(d1, out). dht_ok e d1" "\<lambda>d2. Some (Ok (d2, []))"]
  show ?thesis by (simp add: answer_neighbour_def Flos)
qed (use assms(2) in \<open>simp_all add: answer_neighbour_def Let_def split: option.splits\<close>)

lemma msg_neighbour_ok:
  assumes "codecs_total e" and "dht_ok e d"
  shows "run_ok (\<lambda>(d1, out). dht_ok e d1) (msg_neighbour e origin msg d)"
  unfolding msg_neighbour_def by (rule run_ok_bind [OF answer_neighbour_ok [OF assms]]) auto

lemma msg_dht_storage_ok:
  assumes "codecs_total e" and "dht_ok e d"
  shows "run_ok (\<lambda>(d1, out). dht_ok e d1) (msg_dht_storage e rnd msg d)"
proof (cases msg)
  case (InStoreFlo f)
  with store_flo_ok [OF assms] show ?thesis by (simp add: msg_dht_storage_def)
next
  case (InReadFlo gid)
  with assms expect_closest [OF assms(1), of "snd gid" "ReadFlo (fst gid) rnd"] show ?thesis
    by (auto simp: msg_dht_storage_def expect_def split: option.splits)
next
  case (InReadCuckooIDs gid)
  with assms expect_closest [OF assms(1), of "snd gid" "GetCuckooIDs (fst gid)"] show ?thesis
    by (auto simp: msg_dht_storage_def expect_def Let_def)
next
  case SyncFromNeighbors
  with assms wrap_Some [of "de_neighbour e" dht_module RequestRealmIDs] show ?thesis
    by (auto simp: msg_dht_storage_def expect_def to_broadcast_def codecs_total_def)
qed (use assms in \<open>simp_all add: msg_dht_storage_def\<close>)

lemma dht_message_ok:
  assumes "codecs_total e" and "dht_ok e d"
  shows "run_ok (\<lambda>(d1, out). dht_ok e d1) (dht_message e m d)"
proof (cases "snd m")
  case (InRouting r)
  with assms msg_routing_ok msg_dest_ok msg_neighbour_ok show ?thesis
    by (cases r) (simp_all add: dht_message_def msg_dht_router_def or_nothing_def split: option.splits)
next
  case (InStorage s)
  with msg_dht_storage_ok [OF assms] show ?thesis by (simp add: dht_message_def)
qed (use assms in \<open>simp add: dht_message_def\<close>)

lemma dht_messages_inv:
  assumes "codecs_total e"
  shows "dht_ok e d \<Longrightarrow> run_ok (\<lambda>(d1, out). dht_ok e d1) (dht_messages e ms d)"
proof (induction ms arbitrary: d)
  case (Cons m ms)
  show ?case
    unfolding dht_messages.simps
  proof (rule run_ok_bind [OF dht_message_ok [OF assms Cons.prems]])
    fix r :: "dht \<times> intern_out list" assume "case r of (d1, out) \<Rightarrow> dht_ok e d1"
    then have "run_ok (\<lambda>(d1, out). dht_ok e d1) (dht_messages e ms (fst r))" using Cons.IH by auto
    from run_ok_bind [OF this, of "\<lambda>(d1, out). dht_ok e d1" "\<lambda>(d2, out2). Some (Ok (d2, snd r @ out2))"]
    show "run_ok (\<lambda>(d1, out). dht_ok e d1) (case r of (d1, out1) \<Rightarrow>
        run_bind (dht_messages e ms d1) (\<lambda>(d2, out2). Some (Ok (d2, out1 @ out2))))"
      by (auto split: prod.splits)
  qed
qed simp

text \<open>
  C6. Whatever messages reach the DHT storage of a node, and in whatever order, from users,
  routed through the DHT or from neighbours: no handler panics or fails, and as long as they
  return every realm store keeps its index, its sizes and its identity consistent.
\<close>

theorem dht_messages_ok:
  assumes "codecs_total e" and "dht_ok e d" and "dht_messages e ms d = Some r"
  shows "\<exists>d' out. r = Ok (d', out) \<and> dht_ok e d'"
  using dht_messages_inv [OF assms(1,2), of ms] assms(3) by (cases r) auto


text \<open>A node to apply the theorems to: sizes are lengths, and every realm text asks for little space.\<close>

definition toy_dht_env :: dht_env where
  "toy_dht_env = \<lparr>de_store = toy_store_env,
     de_closest = \<lparr>to_yaml = (\<lambda>_. Some []), from_yaml = (\<lambda>_. None)\<rparr>,
     de_dest = \<lparr>to_yaml = (\<lambda>_. Some []), from_yaml = (\<lambda>_. None)\<rparr>,
     de_neighbour = \<lparr>to_yaml = (\<lambda>_. Some []), from_yaml = (\<lambda>_. None)\<rparr>,
     de_realm_type = ''T'',
     de_parse_realm = (\<lambda>bs. Some \<lparr>ro_name = [], ro_config = \<lparr>max_space = 60, max_flo_size = 10\<rparr>, ro_services = []\<rparr>),
     de_real_size = size_used, de_evil_no_forward = False\<rparr>"

lemma toy_codecs: "codecs_total toy_dht_env"
  by (simp add: codecs_total_def codec_total_def toy_dht_env_def)

lemma dht_new_ok: "dht_ok e (dht_new e None cfg our)"
  by (simp add: dht_ok_def dht_new_def)

theorem dht_messages_ok_witness:
  "\<exists>d out. dht_messages toy_dht_env [(u256_zero, InStorage GetRealms), (u256_zero, PropagateFlos)]
      (dht_new toy_dht_env None dht_config_default u256_zero) = Some (Ok (d, out)) \<and> dht_ok toy_dht_env d"
proof -
  obtain r where r: "dht_messages toy_dht_env [(u256_zero, InStorage GetRealms), (u256_zero, PropagateFlos)]
      (dht_new toy_dht_env None dht_config_default u256_zero) = Some r"
    by (simp add: dht_message_def msg_dht_storage_def)
  from dht_messages_ok [OF toy_codecs dht_new_ok r] r show ?thesis by auto
qed

subsection \<open>What a message does\<close>

lemma upsert_flo_hangs:
  assumes "store_ok e s" and "max_space (st_realm_config s) < entry_size e s (st_realm_id s)"
    and "flo_size e f * 3 \<le> max_space (st_realm_config s)" and "store_fid e f \<noteq> st_realm_id s"
    and "cuckoo_parent (fl_config f) = None"
  shows "upsert_flo e f s = None"
proof -
  obtain s1 b where p: "place_flo e f s = Ok (s1, b)" "store_ok e s1" "same_setup s s1"
    "map_of (flos s1) = map_of (flos s) \<or> map_of (flos s1) = (map_of (flos s))(store_fid e f \<mapsto> flo_storage_from e f)"
    using place_flo_ok [OF assms(1), of f] by blast
  then have "entry_size e s1 (st_realm_id s) = entry_size e s (st_realm_id s)"
    using assms(4) by (auto simp: entry_size_def)
  then have "evict e s1 = None"
    using evict_diverges [OF p(2)] assms(2) p(3) by (simp add: same_setup_def)
  then show ?thesis
    using assms(3,5) p(1) by (simp add: upsert_flo_def upsert_place_def)
qed

lemma store_flo_new_realm:
  assumes "codecs_total e" and "map_of (dm_realms d) (realm rf) = None"
    and "try_into_realm e rf = Some ro" and "accepts_realm (dm_config d) (realm rf)"
  shows "\<exists>s d1 out. store_flo e rf d = Some (Ok (d1, out)) \<and> map_of (dm_realms d1) (realm rf) = Some s \<and>
    store_ok (de_store e) s \<and> st_realm_id s = realm rf \<and> st_realm_config s = ro_config ro \<and>
    map_of (flos s) = [store_fid (de_store e) rf \<mapsto> flo_storage_from (de_store e) rf]"
proof -
  let ?d = "increment_stat e (\<lambda>m. m\<lparr>store_flo_total := store_flo_total m + 1\<rparr>) d"
  obtain s where s: "realm_storage_new (de_store e) (dm_config ?d) (dm_our_id ?d) (ro_config ro) rf = Ok s"
    "store_ok (de_store e) s" "st_realm_config s = ro_config ro" "st_realm_id s = realm rf"
    "map_of (flos s) = [store_fid (de_store e) rf \<mapsto> flo_storage_from (de_store e) rf]"
    using realm_storage_new_ok by blast
  have "dht_upsert_flo e rf ?d = Some (Ok (dht_store e (set_realm (realm rf) s ?d), True))"
    using assms(2-4) s(1) by (simp add: dht_upsert_flo_def create_realm_def)
  moreover obtain out where "store_flo_out e rf True = Ok out" using store_flo_out_ok [OF assms(1)] by blast
  ultimately have "store_flo e rf d = Some (Ok (dht_store e (set_realm (realm rf) s ?d), out))"
    by (simp add: store_flo_def)
  with s(2-5) show ?thesis by (auto simp: set_realm_def)
qed

lemma store_flo_hangs:
  "map_of (dm_realms d) (realm f) = Some s \<Longrightarrow> upsert_flo (de_store e) f s = None \<Longrightarrow> store_flo e f d = None"
  by (simp add: store_flo_def dht_upsert_flo_def)

text \<open>
  C16. Two messages from anywhere in the network can make a node hang: a realm's Flo that is
  larger than the space it asks for is taken in without a check, since only later Flos are
  checked; and then any small enough Flo of this realm sends the eviction into an endless loop,
  because a realm's own Flo is never evicted.
\<close>

theorem realm_too_small_hangs:
  assumes "codecs_total e" and "map_of (dm_realms d) (realm rf) = None"
    and "try_into_realm e rf = Some ro" and "accepts_realm (dm_config d) (realm rf)"
    and "realm rf = store_fid (de_store e) rf"
    and "max_space (ro_config ro) < fs_size (de_store e) (flo_storage_from (de_store e) rf)"
    and "realm f = realm rf" and "store_fid (de_store e) f \<noteq> realm rf"
    and "flo_size (de_store e) f * 3 \<le> max_space (ro_config ro)" and "cuckoo_parent (fl_config f) = None"
  shows "\<exists>d1 out. msg_routing e o1 k1 (StoreFlo rf) d = Some (Ok (d1, out)) \<and>
    msg_routing e o2 k2 (StoreFlo f) d1 = None"
proof -
  obtain s d1 out where s: "store_flo e rf d = Some (Ok (d1, out))" "map_of (dm_realms d1) (realm rf) = Some s"
    "store_ok (de_store e) s" "st_realm_id s = realm rf" "st_realm_config s = ro_config ro"
    "map_of (flos s) = [store_fid (de_store e) rf \<mapsto> flo_storage_from (de_store e) rf]"
    using store_flo_new_realm [OF assms(1-4)] by blast
  have "entry_size (de_store e) s (st_realm_id s) = fs_size (de_store e) (flo_storage_from (de_store e) rf)"
    using s(4,6) assms(5) by (simp add: entry_size_def)
  then have "upsert_flo (de_store e) f s = None"
    using upsert_flo_hangs [OF s(3), of f] s(4,5) assms(6,8-10) by simp
  then have "store_flo e f d1 = None" using s(2) assms(7) store_flo_hangs by metis
  with s(1) show ?thesis by (simp add: msg_routing_def)
qed


definition toy_realm_flo :: flo where
  "toy_realm_flo = (toy_flo 100)\<lparr>realm := store_fid toy_store_env (toy_flo 100)\<rparr>"

definition toy_member_flo :: flo where
  "toy_member_flo = (toy_flo 10)\<lparr>realm := realm toy_realm_flo, nonce := U256 (1 # replicate 31 0)\<rparr>"

lemma toy_ids:
  "realm toy_realm_flo = store_fid toy_store_env toy_realm_flo"
  "store_fid toy_store_env toy_member_flo \<noteq> realm toy_realm_flo"
  by code_simp+

theorem realm_too_small_hangs_witness:
  "\<exists>d1 out. msg_routing toy_dht_env u256_zero u256_zero (StoreFlo toy_realm_flo)
       (dht_new toy_dht_env None dht_config_default u256_zero) = Some (Ok (d1, out)) \<and>
     msg_routing toy_dht_env u256_zero u256_zero (StoreFlo toy_member_flo) d1 = None"
proof -
  let ?d = "dht_new toy_dht_env None dht_config_default u256_zero"
  have ids: "realm toy_realm_flo = store_fid (de_store toy_dht_env) toy_realm_flo"
    "store_fid (de_store toy_dht_env) toy_member_flo \<noteq> realm toy_realm_flo"
    using toy_ids by (simp_all add: toy_dht_env_def)
  have new: "map_of (dm_realms ?d) (realm toy_realm_flo) = None"
    "accepts_realm (dm_config ?d) (realm toy_realm_flo)"
    by (simp_all add: dht_new_def accepts_realm_def dht_config_default_def)
  have ro: "try_into_realm toy_dht_env toy_realm_flo =
      Some \<lparr>ro_name = [], ro_config = \<lparr>max_space = 60, max_flo_size = 10\<rparr>, ro_services = []\<rparr>"
    by (simp add: try_into_realm_def toy_dht_env_def toy_realm_flo_def toy_flo_def flo_new_def)
  show ?thesis
    by (rule realm_too_small_hangs [OF toy_codecs new(1) ro new(2) ids(1) _ _ ids(2)])
      (simp_all add: toy_dht_env_def toy_store_env_def toy_realm_flo_def toy_member_flo_def toy_flo_def flo_new_def
        flo_storage_from_def cuckoo_parent_def flo_config_default_def)
qed

text \<open>
  What is stored can be read: a Flo of a known realm that is new or newer than the stored
  version, and fits beside the others, is answered to a read of its identifier from then on, and
  storing it sends it on towards its place in the network, so that the nodes around it hold it
  too.
\<close>

theorem store_flo_then_read:
  assumes "codecs_total e" and "dht_ok e d" and "map_of (dm_realms d) (realm f) = Some s"
    and "\<forall>old. map_of (flos s) (store_fid (de_store e) f) = Some old \<longrightarrow> fs_version old < data_version f"
    and "size_used s + fs_size (de_store e) (flo_storage_from (de_store e) f) \<le> max_space (st_realm_config s)"
    and "flo_size (de_store e) f * 3 \<le> max_space (st_realm_config s)" and "cuckoo_parent (fl_config f) = None"
  shows "\<exists>d1 w. store_flo e f d = Some (Ok (d1, [OutRouting (MessageClosestTo (store_fid (de_store e) f) w)])) \<and>
    wrap_yaml (de_closest e) dht_module (StoreFlo f) = Some w \<and>
    msg_dht_storage e rnd (InReadFlo (realm f, store_fid (de_store e) f)) d1 =
      Some (Ok (d1, [OutStorage (OutFloValue (f, []))])) \<and>
    dm_saved d1 = dm_realms d1"
proof -
  let ?E = "de_store e"
  have ok: "store_ok ?E s" using assms(2,3) by (simp add: dht_ok_def)
  obtain s1 where s1: "put ?E f s = Ok s1" "store_ok ?E s1" "same_setup s s1"
    "map_of (flos s1) = (map_of (flos s))(store_fid ?E f \<mapsto> flo_storage_from ?E f)"
    "size_used s1 + entry_size ?E s (store_fid ?E f) = size_used s + fs_size ?E (flo_storage_from ?E f)"
    using put_ok [OF ok] by blast
  have place: "upsert_place ?E f s = Ok (s1, True)"
    using assms(4,5,7) s1(1) by (auto simp: upsert_place_def place_flo_def Let_def split: option.splits)
  have "\<not> too_big (Ok s1)"
    using s1(3,5) assms(5) by (simp add: too_big_def same_setup_def)
  then have "evict ?E s1 = Some (Ok s1)" by (simp add: evict_def while_option_unfold)
  then have up: "upsert_flo ?E f s = Some (Ok (s1, True))"
    using place assms(6) by (simp add: upsert_flo_def)
  obtain w where w: "closest_out e (store_fid ?E f) (StoreFlo f) = Some (OutRouting (MessageClosestTo (store_fid ?E f) w))"
    "wrap_yaml (de_closest e) dht_module (StoreFlo f) = Some w"
    using expect_closest [OF assms(1)] by blast
  have out: "store_flo_out e f True = Ok [OutRouting (MessageClosestTo (store_fid ?E f) w)]"
    using w(1) assms(7) by (simp add: store_flo_out_def expect_def)
  let ?d1 = "dht_store e (set_realm (realm f) s1 (increment_stat e (\<lambda>m. m\<lparr>store_flo_total := store_flo_total m + 1\<rparr>) d))"
  have "store_flo e f d = Some (Ok (?d1, [OutRouting (MessageClosestTo (store_fid ?E f) w)]))"
    using assms(3) up out by (simp add: store_flo_def dht_upsert_flo_def Let_def)
  moreover have "read_flo (realm f, store_fid ?E f) ?d1 = Some (f, [])"
    using s1(4) by (simp add: read_flo_def set_realm_def get_flo_cuckoo_def flo_storage_from_def)
  moreover have "dm_saved ?d1 = dm_realms ?d1" by (simp add: dht_store_def)
  ultimately show ?thesis using w(2) by (auto simp: msg_dht_storage_def)
qed


definition toy_empty_store :: realm_storage where
  "toy_empty_store = \<lparr>st_dht_config = dht_config_default, st_realm_config = \<lparr>max_space = 60, max_flo_size = 10\<rparr>,
     st_realm_id = u256_zero, st_root = u256_zero, flos = [], distances = [], size_used = 0\<rparr>"

lemma dm_realms_new [simp]: "dm_realms (dht_new e (Some m) cfg our) = m"
  by (simp add: dht_new_def Let_def)

theorem store_flo_then_read_witness:
  "\<exists>d1 out. store_flo toy_dht_env (toy_flo 10) (dht_new toy_dht_env (Some [(u256_zero, toy_empty_store)]) dht_config_default u256_zero)
       = Some (Ok (d1, out)) \<and>
     msg_dht_storage toy_dht_env u256_zero (InReadFlo (u256_zero, store_fid toy_store_env (toy_flo 10))) d1 =
       Some (Ok (d1, [OutStorage (OutFloValue (toy_flo 10, []))]))"
proof -
  let ?d = "dht_new toy_dht_env (Some [(u256_zero, toy_empty_store)]) dht_config_default u256_zero"
  have st: "store_ok toy_store_env toy_empty_store"
    by (simp add: store_ok_def at_depth_def toy_empty_store_def)
  have ok: "dht_ok toy_dht_env ?d"
    using st by (simp add: dht_ok_def toy_dht_env_def toy_empty_store_def)
  have r: "realm (toy_flo 10) = u256_zero" by (simp add: toy_flo_def flo_new_def)
  have m: "map_of (dm_realms ?d) (realm (toy_flo 10)) = Some toy_empty_store"
    by (simp add: r)
  have "\<exists>d1 w. store_flo toy_dht_env (toy_flo 10) ?d =
      Some (Ok (d1, [OutRouting (MessageClosestTo (store_fid (de_store toy_dht_env) (toy_flo 10)) w)])) \<and>
    wrap_yaml (de_closest toy_dht_env) dht_module (StoreFlo (toy_flo 10)) = Some w \<and>
    msg_dht_storage toy_dht_env u256_zero (InReadFlo (realm (toy_flo 10), store_fid (de_store toy_dht_env) (toy_flo 10))) d1 =
      Some (Ok (d1, [OutStorage (OutFloValue (toy_flo 10, []))])) \<and> dm_saved d1 = dm_realms d1"
    by (rule store_flo_then_read [OF toy_codecs ok m])
      (simp_all add: toy_empty_store_def toy_dht_env_def toy_store_env_def toy_flo_def flo_new_def
        flo_storage_from_def cuckoo_parent_def flo_config_default_def)
  then show ?thesis unfolding r by (auto simp: toy_dht_env_def)
qed

end
