(* ===== verification/DhtRouter.thy ===== *)
theory DhtRouter
  imports KadRouting DhtMessages
begin

text \<open>
  The message handlers of the DHT router, \<open>flmodules/src/dht_router/messages.rs\<close>, on top of the
  Kademlia table: pinging, forwarding towards a key or a node, and the blacklist of the
  experiments. A handler returns the new state and what it sends; \<open>None\<close> is not returning (the
  splitting loop of the table), \<open>Panic\<close> the \<open>unwrap\<close> of a message that cannot be written.

  The channel of the statistics is \<open>dr_published\<close>, the value sent last. The random choices of a handler are given
  with the message: \<open>rn_whitelist\<close> is the index drawn when the coin of \<open>randomly_whitelist\<close>
  falls, \<open>rn_hop\<close> the next hop drawn by \<open>message_direct\<close>. The static flag \<open>LOCAL_BLACKLISTS\<close> is a
  field of the environment. A \<open>HashSet\<close> is a list without duplicates.
\<close>

subsection \<open>Messages and state\<close>

datatype dht_router_message =
    Ping | Pong | ConnectedIDsRequest | ConnectedIDsReply node_ids | Neighbour network_wrapper
  | Closest u256 u256 network_wrapper | Direct u256 u256 network_wrapper

datatype dr_in = FromDht dht_router_in | FromRouter router_out | RouterTick

datatype dr_out = ToDht dht_router_out | ToRouter router_in

record router_stats =
  drs_all_nodes :: node_ids
  drs_bucket_nodes :: "node_ids list"
  drs_active :: nat

record router_env =
  re_codec :: "dht_router_message codec"
  re_closest :: "message_closest codec"
  re_local_blacklists :: bool

record randoms =
  rn_whitelist :: "nat option"
  rn_hop :: nat

record dht_router =
  dr_core :: kademlia
  dr_connected :: node_ids
  requests_in_flight :: "(u256, u256) hashmap"
  blacklisted_nodes :: node_ids
  dr_published :: router_stats

definition router_module :: string where
  "router_module = ''DHTRouter''"

definition dht_router_new :: "u256 \<Rightarrow> kconfig \<Rightarrow> dht_router" where
  "dht_router_new root cfg = \<lparr>dr_core = kademlia_new root cfg, dr_connected = [], requests_in_flight = [],
     blacklisted_nodes = [], dr_published = \<lparr>drs_all_nodes = [], drs_bucket_nodes = [], drs_active = 0\<rparr>\<rparr>"

definition update_stats :: "dht_router \<Rightarrow> dht_router" where
  "update_stats r = r\<lparr>dr_published := \<lparr>drs_all_nodes = active_nodes (dr_core r) @ cache_nodes (dr_core r),
     drs_bucket_nodes = bucket_nodes (dr_core r), drs_active = length (active_nodes (dr_core r))\<rparr>\<rparr>"

definition wrapper_network :: "router_env \<Rightarrow> u256 \<Rightarrow> dht_router_message \<Rightarrow> (unit, dr_out) outcome" where
  "wrapper_network e dst m =
     bind_outcome (expect (wrap_yaml (re_codec e) router_module m)) (\<lambda>w. Ok (ToRouter (NetworkWrapperToNetwork dst w)))"

fun send_each :: "router_env \<Rightarrow> (u256 \<times> dht_router_message) list \<Rightarrow> (unit, dr_out list) outcome" where
  "send_each e [] = Ok []"
| "send_each e (p # ps) =
     bind_outcome (wrapper_network e (fst p) (snd p)) (\<lambda>out. bind_outcome (send_each e ps) (\<lambda>outs. Ok (out # outs)))"

subsection \<open>Next hops and the blacklist\<close>

definition closest_or_connected :: "u256 \<Rightarrow> u256 option \<Rightarrow> dht_router \<Rightarrow> node_ids" where
  "closest_or_connected key last_hop r =
     (if key \<in> set (dr_connected r) then [key] else route_closest key last_hop (dr_core r))"

definition get_readflo_id :: "router_env \<Rightarrow> network_wrapper \<Rightarrow> u256 option" where
  "get_readflo_id e w =
     (if nw_module w = ''DHTStorage''
      then (case unwrap_yaml (re_closest e) ''DHTStorage'' w of Some (ReadFlo _ req) \<Rightarrow> Some req | _ \<Rightarrow> None)
      else None)"

text \<open>A node with more than ten requests in flight is taken off the table and blacklisted.\<close>

definition blacklist_node :: "u256 \<Rightarrow> dht_router \<Rightarrow> dht_router" where
  "blacklist_node n r = r\<lparr>requests_in_flight := filter (\<lambda>p. snd p \<noteq> n) (requests_in_flight r),
     dr_core := remove_node n (dr_core r), blacklisted_nodes := List.insert n (blacklisted_nodes r)\<rparr>"

definition blacklist_bad_nodes :: "router_env \<Rightarrow> dht_router \<Rightarrow> dht_router" where
  "blacklist_bad_nodes e r =
     (if \<not> re_local_blacklists e then r
      else let hops = map snd (requests_in_flight r)
           in fold (\<lambda>n r. if count_list hops n > 10 then blacklist_node n r else r) (remdups hops) r)"

definition randomly_whitelist :: "router_env \<Rightarrow> randoms \<Rightarrow> dht_router \<Rightarrow> dht_router option" where
  "randomly_whitelist e rnd r =
     (if \<not> re_local_blacklists e then Some r
      else case rn_whitelist rnd of
             None \<Rightarrow> Some r
           | Some i \<Rightarrow>
               if i < length (blacklisted_nodes r)
               then let n = blacklisted_nodes r ! i
                    in map_option (\<lambda>k. r\<lparr>dr_core := k, blacklisted_nodes := removeAll n (blacklisted_nodes r)\<rparr>)
                         (add_node n (dr_core r))
               else Some r)"

subsection \<open>Handlers\<close>

definition route_on ::
  "router_env \<Rightarrow> u256 \<Rightarrow> u256 \<Rightarrow> u256 \<Rightarrow> network_wrapper \<Rightarrow> u256 option \<Rightarrow> u256 option \<Rightarrow> dht_router \<Rightarrow>
     (dht_router \<times> dr_out list) run" where
  "route_on e orig last_hop key w readflo closest r =
     (case closest of
        Some next_hop \<Rightarrow>
          (let r1 = (case readflo of
                       Some req \<Rightarrow> r\<lparr>requests_in_flight := AList.update req next_hop (requests_in_flight r)\<rparr>
                     | None \<Rightarrow> r)
           in Some (bind_outcome (wrapper_network e next_hop (Closest orig key w))
                (\<lambda>out. Ok (r1, [out, ToDht (MessageRouting orig last_hop next_hop key w)]))))
      | None \<Rightarrow>
          if key = kroot (dr_core r) then Some (Ok (r, [ToDht (MessageDestAt orig last_hop w)]))
          else Some (Ok (r, [ToDht (MessageClosestAt orig last_hop key w)])))"

definition first_opt :: "'a list \<Rightarrow> 'a option" where
  "first_opt xs = (case xs of [] \<Rightarrow> None | x # _ \<Rightarrow> Some x)"

definition message_closest ::
  "router_env \<Rightarrow> randoms \<Rightarrow> u256 \<Rightarrow> u256 \<Rightarrow> u256 \<Rightarrow> network_wrapper \<Rightarrow> dht_router \<Rightarrow> (dht_router \<times> dr_out list) run" where
  "message_closest e rnd orig last_hop key w r =
     (let readflo = get_readflo_id e w;
          r1 = blacklist_bad_nodes e r;
          closest = first_opt (closest_or_connected key (Some last_hop) r1)
      in case randomly_whitelist e rnd r1 of
           None \<Rightarrow> None
         | Some r2 \<Rightarrow> route_on e orig last_hop key w readflo closest r2)"

definition message_direct ::
  "router_env \<Rightarrow> randoms \<Rightarrow> u256 \<Rightarrow> u256 \<Rightarrow> u256 \<Rightarrow> network_wrapper \<Rightarrow> dht_router \<Rightarrow> (unit, dr_out list) outcome" where
  "message_direct e rnd orig last_hop dst w r =
     (if dst = kroot (dr_core r) then Ok [ToDht (MessageDestAt orig last_hop w)]
      else let hops = closest_or_connected dst (Some last_hop) r
           in if length hops = 0 then Ok []
              else send_each e [(hops ! (rn_hop rnd mod length hops), Direct orig dst w)])"

definition router_add_nodes :: "node_ids \<Rightarrow> dht_router \<Rightarrow> (dht_router \<times> dr_out list) run" where
  "router_add_nodes nodes r =
     (case add_nodes nodes (dr_core r) of
        None \<Rightarrow> None
      | Some k \<Rightarrow> Some (Ok (r\<lparr>dr_core := k\<rparr>, [ToDht (NodeList (active_nodes k))])))"

definition node_message ::
  "router_env \<Rightarrow> randoms \<Rightarrow> u256 \<Rightarrow> dht_router_message \<Rightarrow> dht_router \<Rightarrow> (dht_router \<times> dr_out list) run" where
  "node_message e rnd from_node m r =
     (case m of
        Ping \<Rightarrow> Some (bind_outcome (send_each e [(from_node, Pong)]) (\<lambda>out. Ok (r, out)))
      | Pong \<Rightarrow> Some (Ok (r, []))
      | Closest orig key w \<Rightarrow> message_closest e rnd orig from_node key w r
      | Direct orig dst w \<Rightarrow> Some (bind_outcome (message_direct e rnd orig from_node dst w r) (\<lambda>out. Ok (r, out)))
      | Neighbour w \<Rightarrow> Some (Ok (r, [ToDht (MessageNeighbourFrom from_node w)]))
      | ConnectedIDsRequest \<Rightarrow>
          Some (bind_outcome (send_each e [(from_node, ConnectedIDsReply (active_nodes (dr_core r)))]) (\<lambda>out. Ok (r, out)))
      | ConnectedIDsReply nodes \<Rightarrow> router_add_nodes nodes r)"

definition router_node_message ::
  "router_env \<Rightarrow> randoms \<Rightarrow> u256 \<Rightarrow> network_wrapper \<Rightarrow> dht_router \<Rightarrow> (dht_router \<times> dr_out list) run" where
  "router_node_message e rnd from_node w r =
     run_bind (case unwrap_yaml (re_codec e) router_module w of
                 Some m \<Rightarrow> node_message e rnd from_node m r
               | None \<Rightarrow> Some (Ok (r, [])))
       (\<lambda>(r1, out). let (k, activated) = node_active from_node (dr_core r1); r2 = r1\<lparr>dr_core := k\<rparr>
                    in Some (Ok (r2, if activated then out @ [ToDht (NodeList (active_nodes k))] else out)))"

definition new_closest :: "router_env \<Rightarrow> u256 \<Rightarrow> network_wrapper \<Rightarrow> dht_router \<Rightarrow> (unit, dr_out list) outcome" where
  "new_closest e key w r =
     (case first_opt (closest_or_connected key None r) of
        Some next_hop \<Rightarrow> send_each e [(next_hop, Closest (kroot (dr_core r)) key w)]
      | None \<Rightarrow> Ok [])"

definition new_direct :: "router_env \<Rightarrow> u256 \<Rightarrow> network_wrapper \<Rightarrow> dht_router \<Rightarrow> (unit, dr_out list) outcome" where
  "new_direct e dst w r =
     (case first_opt (closest_or_connected dst None r) of
        Some next_hop \<Rightarrow> send_each e [(next_hop, Direct (kroot (dr_core r)) dst w)]
      | None \<Rightarrow> Ok [])"

definition msg_dht :: "router_env \<Rightarrow> dht_router_in \<Rightarrow> dht_router \<Rightarrow> (unit, dr_out list) outcome" where
  "msg_dht e m r =
     (case m of
        MessageBroadcast w \<Rightarrow> send_each e (map (\<lambda>dst. (dst, Neighbour w)) (active_nodes (dr_core r)))
      | MessageClosestTo key w \<Rightarrow> new_closest e key w r
      | MessageDirectTo key w \<Rightarrow> new_direct e key w r
      | MessageNeighbourTo dst w \<Rightarrow> if dst \<in> set (dr_connected r) then send_each e [(dst, Neighbour w)] else Ok [])"

definition msg_network :: "router_env \<Rightarrow> randoms \<Rightarrow> router_out \<Rightarrow> dht_router \<Rightarrow> (dht_router \<times> dr_out list) run" where
  "msg_network e rnd m r =
     (case m of
        NodeInfoAvailable infos \<Rightarrow> run_bind (Some (get_ids infos)) (\<lambda>ids. router_add_nodes ids r)
      | NodeIDsConnected ids \<Rightarrow> router_add_nodes ids (r\<lparr>dr_connected := ids\<rparr>)
      | NetworkWrapperFromNetwork from_node w \<Rightarrow> router_node_message e rnd from_node w r
      | SystemConfig rid \<Rightarrow> Some (Ok (r, case rid of Some i \<Rightarrow> [ToDht (SystemRealm i)] | None \<Rightarrow> []))
      | Disconnected i \<Rightarrow> Some (Ok (r\<lparr>dr_core := node_disconnected i (dr_core r)\<rparr>, []))
      | _ \<Rightarrow> Some (Ok (r, [])))"

definition router_tick :: "router_env \<Rightarrow> dht_router \<Rightarrow> (dht_router \<times> dr_out list) run" where
  "router_tick e r =
     run_bind (Some (kad_tick (dr_core r))) (\<lambda>(k, t).
     Some (bind_outcome (send_each e (map (\<lambda>i. (i, Ping)) (ping t) @ map (\<lambda>i. (i, ConnectedIDsRequest)) (active_nodes k)))
       (\<lambda>out. Ok (r\<lparr>dr_core := k\<rparr>, out))))"

definition router_message :: "router_env \<Rightarrow> randoms \<times> dr_in \<Rightarrow> dht_router \<Rightarrow> (dht_router \<times> dr_out list) run" where
  "router_message e m r =
     (case snd m of
        RouterTick \<Rightarrow> router_tick e r
      | FromDht d \<Rightarrow> Some (bind_outcome (msg_dht e d r) (\<lambda>out. Ok (r, out)))
      | FromRouter n \<Rightarrow> msg_network e (fst m) n r)"

fun router_run :: "router_env \<Rightarrow> (randoms \<times> dr_in) list \<Rightarrow> dht_router \<Rightarrow> (dht_router \<times> dr_out list) run" where
  "router_run e [] r = Some (Ok (r, []))"
| "router_run e (m # ms) r =
     run_bind (router_message e m r) (\<lambda>(r1, out1).
     run_bind (router_run e ms r1) (\<lambda>(r2, out2). Some (Ok (r2, out1 @ out2))))"

definition router_messages :: "router_env \<Rightarrow> (randoms \<times> dr_in) list \<Rightarrow> dht_router \<Rightarrow> (dht_router \<times> dr_out list) run" where
  "router_messages e ms r = run_bind (router_run e ms r) (\<lambda>(r1, out). Some (Ok (update_stats r1, out)))"

subsection \<open>The state stays well formed and every message is answered\<close>

definition ids_ok :: "node_ids \<Rightarrow> bool" where
  "ids_ok ids \<longleftrightarrow> (\<forall>i \<in> set ids. u256_ok i)"

definition router_ok :: "dht_router \<Rightarrow> bool" where
  "router_ok r \<longleftrightarrow> table_ok (dr_core r) \<and> ids_ok (dr_connected r) \<and> hm_ok (requests_in_flight r) \<and>
     ids_ok (map snd (requests_in_flight r)) \<and> distinct (blacklisted_nodes r) \<and> ids_ok (blacklisted_nodes r)"

text \<open>
  The type \<open>U256\<close> of the source has 32 bytes, so every identifier that is read or received is
  well formed; in the model this is said of the codec and of the messages.
\<close>

fun message_ok :: "dht_router_message \<Rightarrow> bool" where
  "message_ok (ConnectedIDsReply ids) \<longleftrightarrow> ids_ok ids"
| "message_ok (Closest orig key w) \<longleftrightarrow> u256_ok key"
| "message_ok (Direct orig dst w) \<longleftrightarrow> u256_ok dst"
| "message_ok _ \<longleftrightarrow> True"

definition dr_env_ok :: "router_env \<Rightarrow> bool" where
  "dr_env_ok e \<longleftrightarrow> codec_total (re_codec e) \<and>
     (\<forall>s m. from_yaml (re_codec e) s = Some m \<longrightarrow> message_ok m)"

fun dr_in_typed :: "dr_in \<Rightarrow> bool" where
  "dr_in_typed (FromRouter (NodeInfoAvailable infos)) \<longleftrightarrow> (\<forall>ni \<in> set infos. \<forall>i. ni_id ni = Some i \<longrightarrow> u256_ok i)"
| "dr_in_typed (FromRouter (NodeIDsConnected ids)) \<longleftrightarrow> ids_ok ids"
| "dr_in_typed _ \<longleftrightarrow> True"

text \<open>The one input that a handler cannot take: a list with a key that is no identifier.\<close>

fun dr_readable :: "dr_in \<Rightarrow> bool" where
  "dr_readable (FromRouter (NodeInfoAvailable infos)) \<longleftrightarrow> none_keyless infos"
| "dr_readable _ \<longleftrightarrow> True"

definition dr_in_ok :: "dr_in \<Rightarrow> bool" where
  "dr_in_ok m \<longleftrightarrow> dr_in_typed m \<and> dr_readable m"

lemma dr_in_ids:
  "dr_in_ok (FromRouter (NodeInfoAvailable infos)) \<Longrightarrow> \<exists>ids. get_ids infos = Ok ids \<and> ids_ok ids"
  by (auto simp: dr_in_ok_def get_ids_keyless ids_ok_def none_keyless_def keyless_def u256_ok_def split: option.splits)

text \<open>A run that returns without a panic, in a state with the property.\<close>

definition returns :: "('a \<Rightarrow> bool) \<Rightarrow> 'a run \<Rightarrow> bool" where
  "returns P m \<longleftrightarrow> (case m of Some (Ok a) \<Rightarrow> P a | _ \<Rightarrow> False)"

lemma returns_simps [simp]: "returns P (Some (Ok a)) \<longleftrightarrow> P a" "\<not> returns P None"
  by (simp_all add: returns_def)

lemma returnsD: "returns P m \<Longrightarrow> \<exists>a. m = Some (Ok a) \<and> P a"
  by (auto simp: returns_def split: option.splits outcome.splits)

lemma returns_bind: "returns P m \<Longrightarrow> (\<And>a. P a \<Longrightarrow> returns Q (f a)) \<Longrightarrow> returns Q (run_bind m f)"
  by (auto dest!: returnsD)

abbreviation keeps :: "dht_router \<Rightarrow> (dht_router \<times> dr_out list) run \<Rightarrow> bool" where
  "keeps r \<equiv> returns (\<lambda>(r', out). router_ok r' \<and> kroot (dr_core r') = kroot (dr_core r))"

lemma wrapper_network_ok:
  "dr_env_ok e \<Longrightarrow> \<exists>w. wrap_yaml (re_codec e) router_module m = Some w \<and>
     wrapper_network e dst m = Ok (ToRouter (NetworkWrapperToNetwork dst w))"
  using wrap_Some [of "re_codec e" router_module m] by (auto simp: dr_env_ok_def wrapper_network_def expect_def)

lemma send_each_ok: "dr_env_ok e \<Longrightarrow> \<exists>out. send_each e ps = Ok out \<and> length out = length ps"
proof (induction ps)
  case (Cons p ps)
  with wrapper_network_ok [OF Cons.prems, of "snd p" "fst p"] show ?case by auto
qed simp

lemma keeps_send: "dr_env_ok e \<Longrightarrow> router_ok r \<Longrightarrow> keeps r (Some (bind_outcome (send_each e ps) (\<lambda>out. Ok (r, out))))"
  using send_each_ok [of e ps] by auto

lemma router_add_nodes_ok: "router_ok r \<Longrightarrow> ids_ok ids \<Longrightarrow> keeps r (router_add_nodes ids r)"
  using add_nodes_ok [of "dr_core r" ids] by (auto simp: router_add_nodes_def router_ok_def ids_ok_def)

lemma ids_ok_filter: "ids_ok (map snd m) \<Longrightarrow> ids_ok (map snd (filter P m))"
  by (auto simp: ids_ok_def)

lemma blacklist_node_ok:
  "router_ok r \<Longrightarrow> u256_ok n \<Longrightarrow> router_ok (blacklist_node n r) \<and> kroot (dr_core (blacklist_node n r)) = kroot (dr_core r)"
  using nt.remove_ok [of "dr_core r" n]
  by (auto simp: router_ok_def blacklist_node_def ids_ok_filter distinct_map_filter)
    (auto simp: ids_ok_def)

lemma blacklist_fold_ok:
  "router_ok r \<Longrightarrow> ids_ok ns \<Longrightarrow>
     router_ok (fold (\<lambda>n r. if P n then blacklist_node n r else r) ns r) \<and>
     kroot (dr_core (fold (\<lambda>n r. if P n then blacklist_node n r else r) ns r)) = kroot (dr_core r)"
proof (induction ns arbitrary: r)
  case (Cons n ns)
  with blacklist_node_ok [of r n] Cons.IH [of "blacklist_node n r"] Cons.IH [of r] show ?case
    by (auto simp: ids_ok_def)
qed simp

lemma blacklist_bad_nodes_ok:
  "router_ok r \<Longrightarrow> router_ok (blacklist_bad_nodes e r) \<and> kroot (dr_core (blacklist_bad_nodes e r)) = kroot (dr_core r)"
  unfolding blacklist_bad_nodes_def Let_def
  using blacklist_fold_ok [of r "remdups (map snd (requests_in_flight r))"
      "\<lambda>n. 10 < count_list (map snd (requests_in_flight r)) n"]
  by (auto simp: router_ok_def ids_ok_def)

lemma randomly_whitelist_ok:
  assumes "router_ok r"
  shows "\<exists>r'. randomly_whitelist e rnd r = Some r' \<and> router_ok r' \<and> kroot (dr_core r') = kroot (dr_core r)"
proof (cases "rn_whitelist rnd")
  case (Some i)
  show ?thesis
  proof (cases "i < length (blacklisted_nodes r)")
    case True
    then have "blacklisted_nodes r ! i \<in> set (blacklisted_nodes r)" by simp
    with assms have "table_ok (dr_core r)" "u256_ok (blacklisted_nodes r ! i)"
      by (auto simp: router_ok_def ids_ok_def)
    from nt.add_ok [OF this] assms Some True show ?thesis
      by (auto simp: randomly_whitelist_def router_ok_def ids_ok_def distinct_removeAll Let_def)
  qed (use Some assms in \<open>simp add: randomly_whitelist_def\<close>)
qed (use assms in \<open>simp add: randomly_whitelist_def\<close>)

lemma active_nodes_knodes: "active_nodes kad = map kn_id (active_knodes kad)"
  by (simp add: active_nodes_def active_knodes_def)

lemma get_nodes_active: "h \<in> set (get_nodes_depth d kad) \<Longrightarrow> h \<in> set (active_nodes kad)"
  by (drule get_nodes_depth_mem) (auto simp: active_nodes_knodes)

lemma route_closest_active: "h \<in> set (route_closest dst l kad) \<Longrightarrow> h \<in> set (active_nodes kad)"
  by (auto simp: route_closest_def Let_def simp del: first_nonempty.simps split: option.splits
      dest!: first_nonempty_mem dest: get_nodes_active)

lemma closest_or_connected_ok:
  "router_ok r \<Longrightarrow> h \<in> set (closest_or_connected key l r) \<Longrightarrow> u256_ok h"
  using nt.live_wf [of "dr_core r" h] route_closest_active [of h key l "dr_core r"]
  by (auto simp: closest_or_connected_def router_ok_def ids_ok_def split: if_splits)

lemma first_opt_mem: "first_opt xs = Some x \<Longrightarrow> x \<in> set xs"
  by (auto simp: first_opt_def split: list.splits)

lemma route_on_ok:
  assumes "dr_env_ok e" and "router_ok r" and "\<forall>h. closest = Some h \<longrightarrow> u256_ok h"
  shows "keeps r (route_on e orig last_hop key w readflo closest r)"
proof (cases closest)
  case (Some h)
  obtain x where x: "wrapper_network e h (Closest orig key w) = Ok x" using wrapper_network_ok [OF assms(1)] by blast
  have "ids_ok (map snd (AList.update i h (requests_in_flight r)))" for i
  proof -
    have "snd p = h \<or> p \<in> set (requests_in_flight r)" if "p \<in> set (AList.update i h (requests_in_flight r))" for p
      using that by (induction "requests_in_flight r" rule: list.induct)
        (metis (no_types) AList.update_conv' assms(2) hm_ok_update map_of_eq_Some_iff fun_upd_apply option.inject prod.collapse router_ok_def)+
    with assms Some show ?thesis by (auto simp: router_ok_def ids_ok_def)
  qed
  with assms Some x show ?thesis by (auto simp: route_on_def router_ok_def Let_def split: option.splits)
qed (use assms in \<open>simp add: route_on_def\<close>)

lemma message_closest_ok:
  assumes "dr_env_ok e" and "router_ok r" and "u256_ok key"
  shows "keeps r (message_closest e rnd orig last_hop key w r)"
proof -
  let ?r1 = "blacklist_bad_nodes e r"
  note r1 = blacklist_bad_nodes_ok [OF assms(2), of e]
  then obtain r2 where r2: "randomly_whitelist e rnd ?r1 = Some r2" "router_ok r2" "kroot (dr_core r2) = kroot (dr_core r)"
    using randomly_whitelist_ok [of ?r1 e rnd] by auto
  have "\<forall>h. first_opt (closest_or_connected key (Some last_hop) ?r1) = Some h \<longrightarrow> u256_ok h"
    using first_opt_mem closest_or_connected_ok [OF conjunct1 [OF r1], of _ key "Some last_hop"] by fast
  from route_on_ok [OF assms(1) r2(2) this] r2 show ?thesis by (simp add: message_closest_def Let_def)
qed

lemma send_one_ok: "dr_env_ok e \<Longrightarrow> \<exists>x. send_each e [p] = Ok [x]"
  using wrapper_network_ok [of e "snd p" "fst p"] by auto

lemma message_direct_ok: "dr_env_ok e \<Longrightarrow> \<exists>out. message_direct e rnd orig last_hop dst w r = Ok out \<and> length out \<le> 1"
  using send_one_ok [of e "(closest_or_connected dst (Some last_hop) r !
      (rn_hop rnd mod length (closest_or_connected dst (Some last_hop) r)), Direct orig dst w)"]
  by (auto simp: message_direct_def Let_def simp del: send_each.simps)

lemma node_message_ok:
  assumes "dr_env_ok e" and "router_ok r" and "message_ok m"
  shows "keeps r (node_message e rnd from_node m r)"
proof (cases m)
  case (Closest orig key w)
  with message_closest_ok [OF assms(1,2)] assms(3) show ?thesis by (simp add: node_message_def)
next
  case (Direct orig dst w)
  with message_direct_ok [OF assms(1), of rnd orig from_node dst w r] assms(2) show ?thesis
    by (auto simp: node_message_def)
qed (use assms keeps_send [OF assms(1,2)] router_add_nodes_ok [OF assms(2)] in \<open>simp_all add: node_message_def del: send_each.simps\<close>)

lemma decoded_ok: "dr_env_ok e \<Longrightarrow> unwrap_yaml (re_codec e) name w = Some m \<Longrightarrow> message_ok m"
  by (auto simp: dr_env_ok_def unwrap_yaml_def split: if_splits)

lemma router_node_message_ok:
  assumes "dr_env_ok e" and "router_ok r"
  shows "keeps r (router_node_message e rnd from_node w r)"
  unfolding router_node_message_def
proof (rule returns_bind)
  show "keeps r (case unwrap_yaml (re_codec e) router_module w of
      None \<Rightarrow> Some (Ok (r, [])) | Some m \<Rightarrow> node_message e rnd from_node m r)"
    using node_message_ok [OF assms decoded_ok [OF assms(1)]] assms(2) by (auto split: option.splits)
  fix p :: "dht_router \<times> dr_out list"
  assume "case p of (r', out) \<Rightarrow> router_ok r' \<and> kroot (dr_core r') = kroot (dr_core r)"
  then show "keeps r (case p of (r1, out) \<Rightarrow> let (k, activated) = node_active from_node (dr_core r1); r2 = r1\<lparr>dr_core := k\<rparr>
      in Some (Ok (r2, if activated then out @ [ToDht (NodeList (active_nodes k))] else out)))"
    using nt.act_ok by (cases p) (fastforce simp: Let_def router_ok_def split: prod.splits)
qed

lemma new_closest_ok: "dr_env_ok e \<Longrightarrow> \<exists>out. new_closest e key w r = Ok out \<and> length out \<le> 1"
  using send_one_ok [of e "(the (first_opt (closest_or_connected key None r)), Closest (kroot (dr_core r)) key w)"]
  by (auto simp: new_closest_def simp del: send_each.simps split: option.splits)

lemma new_direct_ok: "dr_env_ok e \<Longrightarrow> \<exists>out. new_direct e key w r = Ok out \<and> length out \<le> 1"
  using send_one_ok [of e "(the (first_opt (closest_or_connected key None r)), Direct (kroot (dr_core r)) key w)"]
  by (auto simp: new_direct_def simp del: send_each.simps split: option.splits)

lemma msg_dht_ok: "dr_env_ok e \<Longrightarrow> \<exists>out. msg_dht e m r = Ok out"
proof (cases m)
  case (MessageBroadcast w)
  assume "dr_env_ok e"
  with send_each_ok [of e "map (\<lambda>dst. (dst, Neighbour w)) (active_nodes (dr_core r))"] MessageBroadcast
  show ?thesis by (auto simp: msg_dht_def)
next
  case (MessageClosestTo key w)
  assume "dr_env_ok e"
  with new_closest_ok [of e key w r] MessageClosestTo show ?thesis by (auto simp: msg_dht_def)
next
  case (MessageDirectTo key w)
  assume "dr_env_ok e"
  with new_direct_ok [of e key w r] MessageDirectTo show ?thesis by (auto simp: msg_dht_def)
next
  case (MessageNeighbourTo dst w)
  assume "dr_env_ok e"
  with send_one_ok [of e "(dst, Neighbour w)"] MessageNeighbourTo show ?thesis
    by (auto simp: msg_dht_def simp del: send_each.simps)
qed

lemma router_message_ok:
  assumes "dr_env_ok e" and "router_ok r" and "dr_in_ok (snd m)"
  shows "keeps r (router_message e m r)"
proof (cases "snd m")
  case (FromDht d)
  with msg_dht_ok [OF assms(1), of d r] assms(2) show ?thesis by (auto simp: router_message_def)
next
  case (FromRouter n)
  show ?thesis
  proof (cases n)
    case (NodeInfoAvailable infos)
    then obtain ids where "get_ids infos = Ok ids" "ids_ok ids" using FromRouter assms(3) dr_in_ids by auto
    with FromRouter NodeInfoAvailable router_add_nodes_ok [OF assms(2)] show ?thesis
      by (simp add: router_message_def msg_network_def)
  next
    case (NodeIDsConnected ids)
    with FromRouter router_add_nodes_ok [of "r\<lparr>dr_connected := ids\<rparr>" ids] assms(2,3) show ?thesis
      by (simp add: router_message_def msg_network_def router_ok_def dr_in_ok_def)
  next
    case (NetworkWrapperFromNetwork i w)
    with FromRouter router_node_message_ok [OF assms(1,2)] show ?thesis
      by (simp add: router_message_def msg_network_def)
  next
    case (Disconnected i)
    with FromRouter nt.disconnected_ok [of "dr_core r" i] assms(2) show ?thesis
      by (simp add: router_message_def msg_network_def router_ok_def)
  qed (use FromRouter assms(2) in \<open>simp_all add: router_message_def msg_network_def\<close>)
next
  case RouterTick
  obtain k t where k: "kad_tick (dr_core r) = Ok (k, t)" "table_ok k" "kroot k = kroot (dr_core r)"
    using nt.clock_ok [of "dr_core r"] assms(2) by (auto simp: router_ok_def)
  have "router_ok (r\<lparr>dr_core := k\<rparr>)" using assms(2) k(2) by (simp add: router_ok_def)
  then show ?thesis
    using send_each_ok [OF assms(1), of "map (\<lambda>i. (i, Ping)) (ping t) @ map (\<lambda>i. (i, ConnectedIDsRequest)) (active_nodes k)"]
    by (auto simp: RouterTick router_message_def router_tick_def k)
qed

lemma router_run_ok:
  "dr_env_ok e \<Longrightarrow> router_ok r \<Longrightarrow> \<forall>m \<in> set ms. dr_in_ok (snd m) \<Longrightarrow> keeps r (router_run e ms r)"
proof (induction ms arbitrary: r)
  case (Cons m ms)
  obtain r1 out1 where r1: "router_message e m r = Some (Ok (r1, out1))" "router_ok r1" "kroot (dr_core r1) = kroot (dr_core r)"
    using returnsD [OF router_message_ok [OF Cons.prems(1,2), of m]] Cons.prems(3) by auto
  from returnsD [OF Cons.IH [OF Cons.prems(1) r1(2)]] Cons.prems(3) obtain r2 out2 where
    "router_run e ms r1 = Some (Ok (r2, out2))" "router_ok r2" "kroot (dr_core r2) = kroot (dr_core r1)" by auto
  with r1 show ?case by simp
qed simp

lemma update_stats_frame [simp]: "router_ok (update_stats r) = router_ok r" "dr_core (update_stats r) = dr_core r"
  by (simp_all add: update_stats_def router_ok_def)

lemma router_new_ok: "table_ok (kademlia_new root cfg) \<Longrightarrow> router_ok (dht_router_new root cfg)"
  by (simp add: router_ok_def dht_router_new_def ids_ok_def)

lemma table_new_ok: "u256_ok root \<Longrightarrow> 0 < cfg_k cfg \<Longrightarrow> 0 < ping_interval cfg \<Longrightarrow> table_ok (kademlia_new root cfg)"
  using kad_ok_new [of root cfg] by (simp add: table_ok_def ids_wf_def) (simp add: kademlia_new_def all_nodes_def)

lemma unreadable_panics: "\<not> dr_readable (snd m) \<Longrightarrow> router_message e m r = Some Panic"
  by (cases "snd m" rule: dr_readable.cases) (auto simp: router_message_def msg_network_def get_ids_keyless)

lemma router_run_panics:
  "dr_env_ok e \<Longrightarrow> router_ok r \<Longrightarrow> \<forall>m \<in> set ms. dr_in_typed (snd m) \<Longrightarrow> \<exists>m \<in> set ms. \<not> dr_readable (snd m) \<Longrightarrow>
     router_run e ms r = Some Panic"
proof (induction ms arbitrary: r)
  case (Cons m ms)
  show ?case
  proof (cases "dr_readable (snd m)")
    case True
    then have "dr_in_ok (snd m)" using Cons.prems(3) by (simp add: dr_in_ok_def)
    from returnsD [OF router_message_ok [OF Cons.prems(1,2) this]] obtain r1 out1 where
      "router_message e m r = Some (Ok (r1, out1))" "router_ok r1" by auto
    with Cons.IH [of r1] Cons.prems True show ?thesis by simp
  qed (simp add: unreadable_panics)
qed simp

lemma stats_count: "length (active_nodes k @ cache_nodes k) = length (all_nodes k)"
proof -
  have "length (concat (map active bs)) + length (concat (map cache bs)) = length (concat (map b_nodes bs))" for bs
    by (induction bs) (auto simp: b_nodes_def)
  from this [of "buckets k"] show ?thesis
    by (simp add: active_nodes_def cache_nodes_def all_nodes_def b_nodes_def)
qed

text \<open>
  C14. Any batch of messages is handled to its end, with one exception that is exactly known. If no
  list of nodes in the batch has a description without an identifier whose key is not 32 bytes
  long, no handler panics, the splitting loop of the table returns, and the state is well formed
  again (every node of the table in the bucket of its depth, the maps without double keys, all
  identifiers well formed), with the same root; the statistics published last count the nodes of
  the new table. With such a description in any list of the batch, the node panics on it.
\<close>

theorem dht_router_messages_ok:
  assumes "dr_env_ok e" and "router_ok r" and "\<forall>m \<in> set ms. dr_in_typed (snd m)"
  shows "if \<forall>m infos ni. m \<in> set ms \<and> snd m = FromRouter (NodeInfoAvailable infos) \<and> ni \<in> set infos \<longrightarrow>
           ni_id ni \<noteq> None \<or> length (ni_pubkey ni) = 32
    then \<exists>r' out. router_messages e ms r = Some (Ok (r', out)) \<and> router_ok r' \<and>
      kroot (dr_core r') = kroot (dr_core r) \<and>
      drs_active (dr_published r') = length (active_nodes (dr_core r')) \<and>
      length (drs_all_nodes (dr_published r')) = length (all_nodes (dr_core r'))
    else router_messages e ms r = Some Panic"
proof -
  have readable: "dr_readable x \<longleftrightarrow> (\<forall>infos ni. x = FromRouter (NodeInfoAvailable infos) \<and> ni \<in> set infos \<longrightarrow>
      ni_id ni \<noteq> None \<or> length (ni_pubkey ni) = 32)" for x
    by (cases x rule: dr_readable.cases) (auto simp: none_keyless_def keyless_def)
  have cond: "(\<forall>m infos ni. m \<in> set ms \<and> snd m = FromRouter (NodeInfoAvailable infos) \<and> ni \<in> set infos \<longrightarrow>
           ni_id ni \<noteq> None \<or> length (ni_pubkey ni) = 32) \<longleftrightarrow> (\<forall>m \<in> set ms. dr_readable (snd m))"
    unfolding readable by blast
  show ?thesis unfolding cond
  proof (cases "\<forall>m \<in> set ms. dr_readable (snd m)")
    case True
    with assms(3) have "\<forall>m \<in> set ms. dr_in_ok (snd m)" by (simp add: dr_in_ok_def)
    from returnsD [OF router_run_ok [OF assms(1,2) this]] obtain r1 out where
      "router_run e ms r = Some (Ok (r1, out))" "router_ok r1" "kroot (dr_core r1) = kroot (dr_core r)" by auto
    with True show "if \<forall>m \<in> set ms. dr_readable (snd m)
      then \<exists>r' out. router_messages e ms r = Some (Ok (r', out)) \<and> router_ok r' \<and>
        kroot (dr_core r') = kroot (dr_core r) \<and>
        drs_active (dr_published r') = length (active_nodes (dr_core r')) \<and>
        length (drs_all_nodes (dr_published r')) = length (all_nodes (dr_core r'))
      else router_messages e ms r = Some Panic"
      using stats_count by (simp add: router_messages_def) (simp add: update_stats_def)
  next
    case False
    with router_run_panics [OF assms] show "if \<forall>m \<in> set ms. dr_readable (snd m)
      then \<exists>r' out. router_messages e ms r = Some (Ok (r', out)) \<and> router_ok r' \<and>
        kroot (dr_core r') = kroot (dr_core r) \<and>
        drs_active (dr_published r') = length (active_nodes (dr_core r')) \<and>
        length (drs_all_nodes (dr_published r')) = length (all_nodes (dr_core r'))
      else router_messages e ms r = Some Panic" by (auto simp: router_messages_def)
  qed
qed

definition toy_router_env :: router_env where
  "toy_router_env =
     \<lparr>re_codec = \<lparr>to_yaml = (\<lambda>m. Some (if m = Ping then ''Ping'' else ''other'')),
                  from_yaml = (\<lambda>s. if s = ''Ping'' then Some Ping else None)\<rparr>,
      re_closest = \<lparr>to_yaml = (\<lambda>_. None), from_yaml = (\<lambda>_. None)\<rparr>, re_local_blacklists = True\<rparr>"

lemma toy_router_env_ok: "dr_env_ok toy_router_env"
  by (simp add: dr_env_ok_def toy_router_env_def codec_total_def)

lemma two_node_router_ok: "router_ok (dht_router_new u256_zero kconfig_default)"
  by (intro router_new_ok table_new_ok) (simp_all add: far_node_ok kconfig_default_def u256_ok_def u256_zero_def)

definition far_info :: node_info where
  "far_info = \<lparr>ni_name = ''far'', ni_client = ''libc'', ni_pubkey = u256_bytes far_node, ni_modules = modules_all, ni_id = None\<rparr>"

lemma far_info_ids: "get_ids [far_info] = Ok [far_node]"
  using far_node_ok(1) by (simp add: far_info_def get_id_def u256_ok_def)

theorem dht_router_messages_ok_witness:
  "\<exists>r out. router_messages toy_router_env
     [(\<lparr>rn_whitelist = None, rn_hop = 0\<rparr>, FromRouter (NodeInfoAvailable [far_info])),
      (\<lparr>rn_whitelist = Some 0, rn_hop = 1\<rparr>, RouterTick)] (dht_router_new u256_zero kconfig_default) = Some (Ok (r, out)) \<and>
     router_ok r"
proof -
  have "\<forall>m \<in> set [(\<lparr>rn_whitelist = None, rn_hop = 0\<rparr>, FromRouter (NodeInfoAvailable [far_info])),
      (\<lparr>rn_whitelist = Some 0, rn_hop = 1\<rparr>, RouterTick)]. dr_in_typed (snd m)"
    by (simp add: far_info_def)
  from dht_router_messages_ok [OF toy_router_env_ok two_node_router_ok this] far_node_ok(1) show ?thesis
    by (auto simp: far_info_def u256_ok_def split: if_splits)
qed

subsection \<open>Forwarding\<close>

lemma blacklist_connected: "dr_connected (blacklist_bad_nodes e r) = dr_connected r"
proof -
  have "dr_connected (fold (\<lambda>n r. if P n then blacklist_node n r else r) ns r) = dr_connected r" for P ns r
    by (induction ns arbitrary: r) (simp_all add: blacklist_node_def)
  then show ?thesis by (simp add: blacklist_bad_nodes_def Let_def)
qed

lemma closest_message_outcome:
  assumes "dr_env_ok e" and "router_ok r" and "u256_ok key"
  shows "\<exists>r' out. message_closest e rnd orig last_hop key w r = Some (Ok (r', out)) \<and> router_ok r' \<and>
    (case first_opt (closest_or_connected key (Some last_hop) (blacklist_bad_nodes e r)) of
       Some h \<Rightarrow> (\<exists>x. wrap_yaml (re_codec e) router_module (Closest orig key w) = Some x \<and>
         out = [ToRouter (NetworkWrapperToNetwork h x), ToDht (MessageRouting orig last_hop h key w)])
     | None \<Rightarrow> out = [ToDht (if key = kroot (dr_core r) then MessageDestAt orig last_hop w
                              else MessageClosestAt orig last_hop key w)])"
proof -
  let ?r1 = "blacklist_bad_nodes e r" and ?c = "first_opt (closest_or_connected key (Some last_hop) (blacklist_bad_nodes e r))"
  obtain r' out where run: "message_closest e rnd orig last_hop key w r = Some (Ok (r', out))" "router_ok r'"
    using returnsD [OF message_closest_ok [OF assms(1-3)], of rnd orig last_hop w] by auto
  obtain r2 where r2: "randomly_whitelist e rnd ?r1 = Some r2" "kroot (dr_core r2) = kroot (dr_core r)"
    using randomly_whitelist_ok [OF conjunct1 [OF blacklist_bad_nodes_ok [OF assms(2), of e]], of e rnd]
      blacklist_bad_nodes_ok [OF assms(2), of e] by auto
  have route: "route_on e orig last_hop key w (get_readflo_id e w) ?c r2 = Some (Ok (r', out))"
    using run(1) r2(1) by (simp add: message_closest_def Let_def)
  show ?thesis
  proof (cases ?c)
    case None
    with route r2(2) run show ?thesis by (auto simp: route_on_def split: if_splits)
  next
    case (Some h)
    obtain x where "wrap_yaml (re_codec e) router_module (Closest orig key w) = Some x"
      "wrapper_network e h (Closest orig key w) = Ok (ToRouter (NetworkWrapperToNetwork h x))"
      using wrapper_network_ok [OF assms(1)] by blast
    with Some route run show ?thesis by (auto simp: route_on_def Let_def)
  qed
qed

lemma active_at_nearer:
  assumes "kad_ok kad" and "ids_wf kad" and "u256_ok key" and "key \<noteq> kroot kad"
    and "h \<in> active_at kad (get_depth (kroot kad) key)"
  shows "common_bits (kroot kad) key < common_bits h key"
  using route_direct_progress [OF assms(1-4)] assms(5) depth_nodes [OF assms(1)] by (auto simp: route_direct_def)

text \<open>
  C15. Where a message for a key goes, and when it stays, exactly. It leaves the node at most once, and
  the storage always hears of it exactly once. It goes straight to the key if that node is
  connected. Otherwise it goes to an active node of the table that branches off this node where
  the key does; such a node is nearer to the key than this node, unless the key is this node. If
  the table has none, it goes to an active node of the least depth that is greater than the
  depths of the key and of the node the message came from, and smaller than the depth of the
  last active node of the root bucket. If there is no such node either, the message stays: it
  has arrived if the key is this node, and else it is at the closest node.
\<close>

theorem closest_message_forwarded:
  fixes key last_hop :: u256
  assumes "dr_env_ok e" and "router_ok r" and "u256_ok key"
  defines "kad \<equiv> dr_core (blacklist_bad_nodes e r)"
  defines "near \<equiv> get_depth (kroot kad) key"
  defines "beyond \<equiv> max near (get_depth (kroot kad) last_hop)"
  defines "reach \<equiv> (case last_depth (root_bucket kad) of Some d \<Rightarrow> d | None \<Rightarrow> beyond)"
  shows "\<exists>r' out. message_closest e rnd orig last_hop key w r = Some (Ok (r', out)) \<and> router_ok r' \<and>
    (if key \<in> set (dr_connected r) \<or> active_at kad near \<noteq> {} \<or> (\<exists>d. beyond < d \<and> d < reach \<and> active_at kad d \<noteq> {})
     then \<exists>h x. out = [ToRouter (NetworkWrapperToNetwork h x), ToDht (MessageRouting orig last_hop h key w)] \<and>
       wrap_yaml (re_codec e) router_module (Closest orig key w) = Some x \<and>
       (if key \<in> set (dr_connected r) then h = key
        else if active_at kad near \<noteq> {}
        then h \<in> active_at kad near \<and> (key = kroot kad \<or> common_bits (kroot kad) key < common_bits h key)
        else \<exists>d. beyond < d \<and> d < reach \<and> h \<in> active_at kad d \<and> (\<forall>e. beyond < e \<and> e < d \<longrightarrow> active_at kad e = {}))
     else out = [ToDht (if key = kroot kad then MessageDestAt orig last_hop w else MessageClosestAt orig last_hop key w)])"
proof -
  let ?r1 = "blacklist_bad_nodes e r"
  have b: "router_ok ?r1" "kroot kad = kroot (dr_core r)"
    using blacklist_bad_nodes_ok [OF assms(2), of e] by (simp_all add: kad_def)
  have con: "dr_connected ?r1 = dr_connected r" by (rule blacklist_connected)
  have tab: "kad_ok kad" "ids_wf kad" using b(1) by (simp_all add: kad_def router_ok_def table_ok_def)
  note near = active_at_nearer [OF tab assms(3), folded near_def]
  from closest_message_outcome [OF assms(1-3), of rnd orig last_hop w] obtain r' out where
    run: "message_closest e rnd orig last_hop key w r = Some (Ok (r', out))" "router_ok r'"
    and out: "case first_opt (closest_or_connected key (Some last_hop) ?r1) of
       Some h \<Rightarrow> (\<exists>x. wrap_yaml (re_codec e) router_module (Closest orig key w) = Some x \<and>
         out = [ToRouter (NetworkWrapperToNetwork h x), ToDht (MessageRouting orig last_hop h key w)])
     | None \<Rightarrow> out = [ToDht (if key = kroot (dr_core r) then MessageDestAt orig last_hop w
                              else MessageClosestAt orig last_hop key w)]" by blast
  show ?thesis
  proof (cases "key \<in> set (dr_connected r)")
    case True
    with run out show ?thesis by (auto simp: closest_or_connected_def con first_opt_def)
  next
    case False
    then have hops: "closest_or_connected key (Some last_hop) ?r1 = route_closest key (Some last_hop) kad"
      by (simp add: closest_or_connected_def con kad_def)
    consider "route_closest key (Some last_hop) kad = []" "active_at kad near = {}"
        "\<forall>d. beyond < d \<and> d < reach \<longrightarrow> active_at kad d = {}"
      | d where "set (route_closest key (Some last_hop) kad) = active_at kad d" "active_at kad d \<noteq> {}"
        "d = near \<or> active_at kad near = {} \<and> beyond < d \<and> d < reach \<and>
          (\<forall>e. beyond < e \<and> e < d \<longrightarrow> active_at kad e = {})"
      using route_closest_exact [OF tab(1), of key last_hop, folded near_def, folded beyond_def, folded reach_def] by blast
    then show ?thesis
    proof cases
      case 1
      with False run out b(2) hops show ?thesis by (auto simp: first_opt_def)
    next
      case (2 d)
      note d = 2(1,2) and at = 2(3)
      obtain h where h: "first_opt (closest_or_connected key (Some last_hop) ?r1) = Some h" "h \<in> active_at kad d"
        using d unfolding hops by (cases "route_closest key (Some last_hop) kad") (auto simp: first_opt_def)
      from at show ?thesis
      proof (elim disjE conjE)
        assume "d = near"
        with run out False d(2) h near [of h] show ?thesis by auto
      next
        assume beyond: "active_at kad near = {}" "beyond < d" "d < reach"
          "\<forall>e. beyond < e \<and> e < d \<longrightarrow> active_at kad e = {}"
        with h(2) have hop: "\<exists>d. beyond < d \<and> d < reach \<and> h \<in> active_at kad d \<and>
            (\<forall>e. beyond < e \<and> e < d \<longrightarrow> active_at kad e = {})"
          and some: "\<exists>d. beyond < d \<and> d < reach \<and> active_at kad d \<noteq> {}" by blast+
        from out h(1) obtain x where "wrap_yaml (re_codec e) router_module (Closest orig key w) = Some x"
          "out = [ToRouter (NetworkWrapperToNetwork h x), ToDht (MessageRouting orig last_hop h key w)]" by auto
        with run hop some beyond(1) False show ?thesis by (intro exI [of _ r'] exI [of _ out]) simp
      qed
    qed
  qed
qed

definition two_node_router :: dht_router where
  "two_node_router = (dht_router_new u256_zero kconfig_default)\<lparr>dr_core := two_node_table u256_zero\<rparr>"

lemma two_node_router_wf: "router_ok two_node_router" "kroot (dr_core two_node_router) = u256_zero"
proof -
  have "kad_ok (two_node_table u256_zero)" "ids_wf (two_node_table u256_zero)"
    using two_node_network far_node_ok(2) by (auto simp: network_ok_def)
  moreover have "kconf (two_node_table u256_zero) = kconfig_default"
    by (simp add: two_node_table_def kademlia_new_def)
  ultimately show "router_ok two_node_router"
    by (simp add: two_node_router_def router_ok_def dht_router_new_def ids_ok_def table_ok_def kconfig_default_def)
  show "kroot (dr_core two_node_router) = u256_zero"
    by (simp add: two_node_router_def two_node_table_def kademlia_new_def)
qed

theorem closest_message_forwarded_witness:
  "\<exists>r out. message_closest toy_router_env \<lparr>rn_whitelist = None, rn_hop = 0\<rparr> far_node u256_zero far_node
     \<lparr>nw_module = ''DHTStorage'', nw_msg = ''''\<rparr> two_node_router = Some (Ok (r, out)) \<and> router_ok r \<and> out \<noteq> []"
  using closest_message_forwarded [OF toy_router_env_ok two_node_router_wf(1) far_node_ok(1),
      of "\<lparr>rn_whitelist = None, rn_hop = 0\<rparr>" far_node u256_zero "\<lparr>nw_module = ''DHTStorage'', nw_msg = ''''\<rparr>"]
  by (auto split: if_splits)

subsection \<open>The blacklist\<close>

lemma blacklist_fold:
  assumes "table_ok (dr_core r)"
  shows "requests_in_flight (fold (\<lambda>n r. if P n then blacklist_node n r else r) ns r) = filter (\<lambda>p. \<not> (P (snd p) \<and> snd p \<in> set ns)) (requests_in_flight r) \<and>
    set (blacklisted_nodes (fold (\<lambda>n r. if P n then blacklist_node n r else r) ns r)) = set (blacklisted_nodes r) \<union> {n \<in> set ns. P n} \<and>
    (has_node_id m (dr_core (fold (\<lambda>n r. if P n then blacklist_node n r else r) ns r)) \<longleftrightarrow> has_node_id m (dr_core r) \<and> \<not> (P m \<and> m \<in> set ns))"
  using assms
proof (induction ns arbitrary: r)
  case (Cons n ns)
  show ?case
  proof (cases "P n")
    case True
    have ok: "kad_ok (dr_core r)" using Cons.prems by (simp add: table_ok_def)
    have "table_ok (dr_core (blacklist_node n r))"
      using nt.remove_ok [OF Cons.prems, of n] by (simp add: blacklist_node_def)
    moreover have "has_node_id m (remove_node n (dr_core r)) \<longleftrightarrow> has_node_id m (dr_core r) \<and> m \<noteq> n"
    proof -
      have "mset (all_nodes (remove_node n (dr_core r))) = filter_mset (\<lambda>x. kn_id x \<noteq> n) (mset (all_nodes (dr_core r)))"
        using remove_node_spec [OF ok, of n] by blast
      from arg_cong [OF this, of set_mset]
      have "set (all_nodes (remove_node n (dr_core r))) = {x \<in> set (all_nodes (dr_core r)). kn_id x \<noteq> n}" by simp
      then show ?thesis by (auto simp: has_node_id_iff)
    qed
    ultimately show ?thesis using Cons.IH [of "blacklist_node n r"] True
      by (auto simp: blacklist_node_def intro!: filter_cong)
  next
    case False
    with Cons.IH [OF Cons.prems] show ?thesis by (auto intro!: filter_cong)
  qed
qed simp

lemma count_list_filter_le: "\<not> P n \<Longrightarrow> count_list (map f (filter (\<lambda>p. P (f p)) xs)) n = 0"
  by (induction xs) auto

lemma count_list_map_filter: "P n \<Longrightarrow> count_list (map f (filter (\<lambda>p. P (f p)) xs)) n = count_list (map f xs) n"
  by (induction xs) auto

text \<open>
  C17. With local blacklists, the nodes with more than ten requests in flight, and no others, are
  taken off the table and blacklisted, and their requests are forgotten: afterwards no node has
  more than ten, and none of the bad nodes is the next hop of a message for another key.
\<close>

theorem blacklist_exact:
  assumes "router_ok r" and "re_local_blacklists e"
  defines "bad \<equiv> {n. 10 < count_list (map snd (requests_in_flight r)) n}"
  shows "requests_in_flight (blacklist_bad_nodes e r) = filter (\<lambda>p. snd p \<notin> bad) (requests_in_flight r) \<and>
    set (blacklisted_nodes (blacklist_bad_nodes e r)) = set (blacklisted_nodes r) \<union> bad \<and>
    (has_node_id m (dr_core (blacklist_bad_nodes e r)) \<longleftrightarrow> has_node_id m (dr_core r) \<and> m \<notin> bad) \<and>
    count_list (map snd (requests_in_flight (blacklist_bad_nodes e r))) m \<le> 10 \<and>
    (m \<in> bad \<and> m \<noteq> key \<longrightarrow> m \<notin> set (closest_or_connected key l (blacklist_bad_nodes e r)))"
proof -
  let ?hops = "map snd (requests_in_flight r)" and ?r = "blacklist_bad_nodes e r"
  have t: "table_ok (dr_core r)" using assms(1) by (simp add: router_ok_def)
  have bad: "n \<in> set ?hops" if "n \<in> bad" for n
    using that count_notin [of n ?hops] unfolding bad_def by (metis mem_Collect_eq not_less0)
  have P: "(10 < count_list ?hops n \<and> n \<in> set (remdups ?hops)) = (n \<in> bad)" for n
    using bad [of n] by (auto simp: bad_def)
  have r: "?r = fold (\<lambda>n r. if 10 < count_list ?hops n then blacklist_node n r else r) (remdups ?hops) r"
    using assms(2) by (simp add: blacklist_bad_nodes_def Let_def)
  note f = blacklist_fold [OF t, of "\<lambda>n. 10 < count_list ?hops n" "remdups ?hops" m, folded r, unfolded P]
  then have req: "requests_in_flight ?r = filter (\<lambda>p. snd p \<notin> bad) (requests_in_flight r)" by simp
  have "{n \<in> set (remdups ?hops). 10 < count_list ?hops n} = bad" using bad by (auto simp: bad_def)
  with f have bl: "set (blacklisted_nodes ?r) = set (blacklisted_nodes r) \<union> bad" by simp
  have cnt: "count_list (map snd (requests_in_flight ?r)) m \<le> 10"
  proof (cases "m \<in> bad")
    case True
    then show ?thesis unfolding req using count_list_filter_le [of "\<lambda>n. n \<notin> bad" m snd "requests_in_flight r"] by simp
  next
    case False
    then show ?thesis unfolding req using count_list_map_filter [of "\<lambda>n. n \<notin> bad" m snd "requests_in_flight r"] by (simp add: bad_def)
  qed
  have "m \<notin> set (closest_or_connected key l ?r)" if "m \<in> bad" "m \<noteq> key"
  proof
    assume "m \<in> set (closest_or_connected key l ?r)"
    with that(2) have "m \<in> set (active_nodes (dr_core ?r))"
      by (auto simp: closest_or_connected_def split: if_splits dest: route_closest_active)
    then have "has_node_id m (dr_core ?r)"
      using active_all [of _ "dr_core ?r"] by (auto simp: active_nodes_knodes has_node_id_iff)
    with f that(1) show False by simp
  qed
  with f req bl cnt show ?thesis by simp
qed

lemma eleven_requests: "router_ok (two_node_router\<lparr>requests_in_flight := map (\<lambda>i. (U256 (word_of_nat i # replicate 31 0), far_node)) [0..<11]\<rparr>)"
proof -
  have "distinct (map (\<lambda>i. U256 (word_of_nat i # replicate 31 0)) [0..<11])"
    by (simp add: upt_rec distinct_map)
  with two_node_router_wf(1) far_node_ok(1) show ?thesis
    by (simp add: router_ok_def ids_ok_def comp_def image_iff)
qed

theorem blacklist_exact_witness:
  "\<not> has_node_id far_node (dr_core (blacklist_bad_nodes toy_router_env
      (two_node_router\<lparr>requests_in_flight := map (\<lambda>i. (U256 (word_of_nat i # replicate 31 0), far_node)) [0..<11]\<rparr>)))"
proof -
  have "re_local_blacklists toy_router_env" by (simp add: toy_router_env_def)
  note b = blacklist_exact [OF eleven_requests this, of far_node]
  have "10 < count_list (map snd (map (\<lambda>i. (U256 (word_of_nat i # replicate 31 0), far_node)) [0..<11])) far_node"
    by (simp add: upt_rec comp_def)
  with b show ?thesis by simp
qed

subsection \<open>What the book of requests forgets\<close>

text \<open>No message but a routed one touches the book of requests, and no answer clears it.\<close>

definition grows :: "dht_router \<Rightarrow> dht_router \<Rightarrow> bool" where
  "grows r r' \<longleftrightarrow> fst ` set (requests_in_flight r) \<subseteq> fst ` set (requests_in_flight r') \<and>
     blacklisted_nodes r' = blacklisted_nodes r"

lemma grows_refl [simp]: "grows r r" and grows_trans: "grows r r1 \<Longrightarrow> grows r1 r2 \<Longrightarrow> grows r r2"
  by (auto simp: grows_def)

lemma grows_frame [simp]:
  "grows r (r'\<lparr>dr_core := k\<rparr>) = grows r r'" "grows r (r'\<lparr>dr_connected := c\<rparr>) = grows r r'"
  "grows r (update_stats r') = grows r r'"
  by (simp_all add: grows_def update_stats_def)

lemma grows_update [simp]: "grows r (r\<lparr>requests_in_flight := AList.update i h (requests_in_flight r)\<rparr>)"
  by (simp add: grows_def fst_set_update subset_insertI)

lemma message_closest_grows:
  assumes "\<not> re_local_blacklists e" and "message_closest e rnd orig last_hop key w r = Some (Ok (r', out))"
  shows "grows r r'"
  using assms
  by (auto simp: message_closest_def randomly_whitelist_def blacklist_bad_nodes_def route_on_def Let_def
      bind_outcome_Ok split: option.splits if_split_asm)

lemma node_message_grows:
  assumes "\<not> re_local_blacklists e" and "node_message e rnd from_node m r = Some (Ok (r', out))"
  shows "grows r r'"
  using assms message_closest_grows [OF assms(1)]
  by (auto simp: node_message_def router_add_nodes_def bind_outcome_Ok simp del: send_each.simps
      split: dht_router_message.splits option.splits)

lemma run_bind_Ok: "run_bind m f = Some (Ok b) \<longleftrightarrow> (\<exists>a. m = Some (Ok a) \<and> f a = Some (Ok b))"
  by (auto simp: run_bind_def split: option.splits outcome.splits)

lemma router_node_message_grows:
  assumes "\<not> re_local_blacklists e" and "router_node_message e rnd from_node w r = Some (Ok (r', out))"
  shows "grows r r'"
proof -
  from assms(2) obtain r1 out1 where r1:
    "(case unwrap_yaml (re_codec e) router_module w of Some m \<Rightarrow> node_message e rnd from_node m r
      | None \<Rightarrow> Some (Ok (r, []))) = Some (Ok (r1, out1))"
    "r' = r1\<lparr>dr_core := fst (node_active from_node (dr_core r1))\<rparr>"
    by (auto simp: router_node_message_def run_bind_Ok Let_def split_beta)
  from r1(1) have "grows r r1" by (auto dest: node_message_grows [OF assms(1)] split: option.splits)
  then show ?thesis by (simp add: r1(2))
qed

lemma router_message_grows:
  assumes "\<not> re_local_blacklists e" and "router_message e m r = Some (Ok (r', out))"
  shows "grows r r'"
  using assms router_node_message_grows [OF assms(1)]
  by (auto simp: router_message_def msg_network_def router_add_nodes_def router_tick_def bind_outcome_Ok
      run_bind_Ok split: dr_in.splits router_out.splits option.splits)

lemma router_run_grows:
  "\<not> re_local_blacklists e \<Longrightarrow> router_run e ms r = Some (Ok (r', out)) \<Longrightarrow> grows r r'"
  by (induction ms arbitrary: r out)
    (auto simp: run_bind_Ok split: prod.splits dest!: router_message_grows intro: grows_trans)

text \<open>
  Without local blacklists the book of requests in flight only grows: whatever messages are
  handled, replies included, no entry is ever taken out again, and every read request that was
  forwarded has left one.
\<close>

theorem requests_never_cleared:
  assumes "dr_env_ok e" and "router_ok r" and "\<not> re_local_blacklists e" and "\<forall>m \<in> set ms. dr_in_ok (snd m)"
    and "u256_ok key" and "get_readflo_id e w = Some req" and "key \<in> set (dr_connected r)"
  shows "\<exists>r' out r'' out'. message_closest e rnd orig last_hop key w r = Some (Ok (r', out)) \<and>
    router_messages e ms r' = Some (Ok (r'', out')) \<and>
    insert req (fst ` set (requests_in_flight r)) \<subseteq> fst ` set (requests_in_flight r'')"
proof -
  obtain r' out where r': "message_closest e rnd orig last_hop key w r = Some (Ok (r', out))" "router_ok r'"
    using returnsD [OF message_closest_ok [OF assms(1,2,5)], of rnd orig last_hop w] by auto
  have "r' = r\<lparr>requests_in_flight := AList.update req key (requests_in_flight r)\<rparr>"
    using r'(1) assms(3,6,7)
    by (auto simp: message_closest_def randomly_whitelist_def blacklist_bad_nodes_def route_on_def Let_def
        closest_or_connected_def first_opt_def bind_outcome_Ok)
  then have new: "insert req (fst ` set (requests_in_flight r)) \<subseteq> fst ` set (requests_in_flight r')"
    by (simp add: fst_set_update)
  obtain r2 out' where run: "router_run e ms r' = Some (Ok (r2, out'))"
    using returnsD [OF router_run_ok [OF assms(1) r'(2) assms(4)]] by auto
  then have "router_messages e ms r' = Some (Ok (update_stats r2, out'))" by (simp add: router_messages_def)
  moreover have "insert req (fst ` set (requests_in_flight r)) \<subseteq> fst ` set (requests_in_flight (update_stats r2))"
    using new router_run_grows [OF assms(3) run] by (simp add: grows_def update_stats_def) blast
  ultimately show ?thesis using r'(1) by blast
qed

definition plain_router_env :: router_env where
  "plain_router_env = toy_router_env\<lparr>re_local_blacklists := False,
     re_closest := \<lparr>to_yaml = (\<lambda>_. None), from_yaml = (\<lambda>_. Some (ReadFlo u256_zero u256_zero))\<rparr>\<rparr>"

theorem requests_never_cleared_witness:
  "\<exists>r' out r'' out'. message_closest plain_router_env \<lparr>rn_whitelist = None, rn_hop = 0\<rparr> far_node u256_zero far_node
     \<lparr>nw_module = ''DHTStorage'', nw_msg = ''read''\<rparr> (two_node_router\<lparr>dr_connected := [far_node]\<rparr>) = Some (Ok (r', out)) \<and>
     router_messages plain_router_env [(\<lparr>rn_whitelist = None, rn_hop = 0\<rparr>, RouterTick)] r' = Some (Ok (r'', out')) \<and>
     u256_zero \<in> fst ` set (requests_in_flight r'')"
proof -
  have e: "dr_env_ok plain_router_env" "\<not> re_local_blacklists plain_router_env"
    using toy_router_env_ok by (simp_all add: dr_env_ok_def plain_router_env_def)
  have r: "router_ok (two_node_router\<lparr>dr_connected := [far_node]\<rparr>)"
    using two_node_router_wf(1) far_node_ok(1) by (simp add: router_ok_def ids_ok_def)
  have g: "get_readflo_id plain_router_env \<lparr>nw_module = ''DHTStorage'', nw_msg = ''read''\<rparr> = Some u256_zero"
    by (simp add: get_readflo_id_def unwrap_yaml_def plain_router_env_def)
  have "\<forall>m \<in> set [(\<lparr>rn_whitelist = None, rn_hop = 0\<rparr>, RouterTick)]. dr_in_ok (snd m)" by (simp add: dr_in_ok_def)
  from requests_never_cleared [OF e(1) r e(2) this far_node_ok(1) g,
      of "\<lparr>rn_whitelist = None, rn_hop = 0\<rparr>" far_node u256_zero] show ?thesis by fastforce
qed

end
