(* ===== verification/GossipCore.thy ===== *)
theory GossipCore
  imports Signer Complex_Main
begin

text \<open>
  The event store of the gossip module, \<open>flmodules/src/gossip_events/core.rs\<close>: events by
  identifier, one store per category, with an upper bound on the number of events and, for
  some categories, at most one event per source. The migration of stores saved by older
  versions of the program is in \<open>GossipNode\<close>.

  The hash is an argument; times of creation are \<open>int\<close> (an \<open>i64\<close> in the code), strings are
  lists of bytes.
\<close>

subsection \<open>Data\<close>

datatype category = TextMessage | NodeInfo

record category_config =
  unique :: bool
  max_events :: nat

record event =
  ev_category :: category
  ev_src :: u256
  ev_created :: int
  ev_msg :: string

record events =
  ec_config :: category_config
  ec_events :: "(u256, event) hashmap"

type_synonym events_storage = "(category, events) hashmap"

fun category_debug :: "category \<Rightarrow> string" where
  "category_debug TextMessage = ''TextMessage''"
| "category_debug NodeInfo = ''NodeInfo''"

definition le_bytes8 :: "int \<Rightarrow> bytes" where
  "le_bytes8 n = map (\<lambda>k. word_of_int (n div 256 ^ k)) [0..<8]"

definition event_id :: "(bytes \<Rightarrow> u256) \<Rightarrow> event \<Rightarrow> u256" where
  "event_id h e = h (str_bytes (category_debug (ev_category e)) @ u256_bytes (ev_src e) @
     le_bytes8 (ev_created e) @ str_bytes (ev_msg e))"

subsection \<open>One category\<close>

definition limit :: "events \<Rightarrow> events" where
  "limit es =
     (if length (ec_events es) \<le> max_events (ec_config es) then es
      else let ids = map fst (drop (max_events (ec_config es))
                       (sort_key (\<lambda>(k, created). - created)
                          (map (\<lambda>(k, v). (k, ev_created v)) (ec_events es))))
           in es\<lparr>ec_events := fold AList.delete ids (ec_events es)\<rparr>)"

definition insert_simple :: "(bytes \<Rightarrow> u256) \<Rightarrow> event \<Rightarrow> events \<Rightarrow> events \<times> bool" where
  "insert_simple h e es =
     (limit (es\<lparr>ec_events := AList.update (event_id h e) e (ec_events es)\<rparr>), True)"

definition insert_unique :: "(bytes \<Rightarrow> u256) \<Rightarrow> event \<Rightarrow> events \<Rightarrow> events \<times> bool" where
  "insert_unique h e es =
     (case find (\<lambda>(i, v). ev_src v = ev_src e) (ec_events es) of
        Some (i, ev) \<Rightarrow>
          if ev_created e < ev_created ev then (es, False)
          else insert_simple h e (es\<lparr>ec_events := AList.delete i (ec_events es)\<rparr>)
      | None \<Rightarrow> insert_simple h e es)"

definition insert_event :: "(bytes \<Rightarrow> u256) \<Rightarrow> event \<Rightarrow> events \<Rightarrow> events \<times> bool" where
  "insert_event h e es =
     (if map_of (ec_events es) (event_id h e) \<noteq> None then (es, False)
      else if unique (ec_config es) then insert_unique h e es else insert_simple h e es)"

definition events_by_ids :: "(bytes \<Rightarrow> u256) \<Rightarrow> u256 list \<Rightarrow> events \<Rightarrow> event list" where
  "events_by_ids h ids es =
     (if unique (ec_config es)
      then filter (\<lambda>e. event_id h e \<in> set ids) (map snd (ec_events es))
      else List.map_filter (map_of (ec_events es)) ids)"

definition get_event :: "(bytes \<Rightarrow> u256) \<Rightarrow> u256 \<Rightarrow> events \<Rightarrow> event option" where
  "get_event h i es = (case events_by_ids h [i] es of [] \<Rightarrow> None | e # _ \<Rightarrow> Some e)"

subsection \<open>All categories\<close>

definition events_storage_new :: events_storage where
  "events_storage_new =
     [(TextMessage, \<lparr>ec_config = \<lparr>unique = False, max_events = 50\<rparr>, ec_events = []\<rparr>),
      (NodeInfo, \<lparr>ec_config = \<lparr>unique = True, max_events = 100\<rparr>, ec_events = []\<rparr>)]"

definition add_event :: "(bytes \<Rightarrow> u256) \<Rightarrow> event \<Rightarrow> events_storage \<Rightarrow> events_storage \<times> bool" where
  "add_event h e st =
     (case map_of st (ev_category e) of
        None \<Rightarrow> (st, False)
      | Some es \<Rightarrow> let (es', modified) = insert_event h e es
                  in (AList.update (ev_category e) es' st, modified))"

fun find_event :: "(bytes \<Rightarrow> u256) \<Rightarrow> u256 \<Rightarrow> events list \<Rightarrow> event option" where
  "find_event h i [] = None"
| "find_event h i (es # rest) =
     (case get_event h i es of Some e \<Rightarrow> Some e | None \<Rightarrow> find_event h i rest)"

definition storage_event :: "(bytes \<Rightarrow> u256) \<Rightarrow> u256 \<Rightarrow> events_storage \<Rightarrow> event option" where
  "storage_event h i st = find_event h i (map snd st)"

text \<open>\<open>events\<close> unwraps the lookup of the category.\<close>

definition storage_events :: "category \<Rightarrow> events_storage \<Rightarrow> (unit, event list) outcome" where
  "storage_events cat st =
     (case map_of st cat of Some es \<Rightarrow> Ok (map snd (ec_events es)) | None \<Rightarrow> Panic)"

definition get_events_by_ids :: "(bytes \<Rightarrow> u256) \<Rightarrow> u256 list \<Rightarrow> events_storage \<Rightarrow> event list" where
  "get_events_by_ids h ids st = concat (map (\<lambda>(c, es). events_by_ids h ids es) st)"

definition event_ids :: "(bytes \<Rightarrow> u256) \<Rightarrow> events_storage \<Rightarrow> u256 list" where
  "event_ids h st = concat (map (\<lambda>(c, es). map (\<lambda>(k, e). event_id h e) (ec_events es)) st)"

subsection \<open>The invariant of one category\<close>

definition events_ok :: "(bytes \<Rightarrow> u256) \<Rightarrow> events \<Rightarrow> bool" where
  "events_ok h es \<longleftrightarrow> hm_ok (ec_events es) \<and>
     (\<forall>p \<in> set (ec_events es). event_id h (snd p) = fst p) \<and>
     length (ec_events es) \<le> max_events (ec_config es) \<and>
     (unique (ec_config es) \<longrightarrow> distinct (map (\<lambda>p. ev_src (snd p)) (ec_events es)))"

definition stored :: "events \<Rightarrow> event set" where
  "stored es = snd ` set (ec_events es)"

lemma fold_delete: "fold AList.delete ids m = filter (\<lambda>p. fst p \<notin> set ids) m"
proof (induction ids arbitrary: m)
  case (Cons i ids)
  have "AList.delete i m = filter (\<lambda>p. fst p \<noteq> i) m"
    by (induction m) auto
  then show ?case by (simp add: Cons.IH filter_filter)
qed simp

lemma insort_key_map: "insort_key f (g x) (map g xs) = map g (insort_key (f \<circ> g) x xs)"
  by (induction xs) auto

lemma sort_key_map: "sort_key f (map g xs) = map g (sort_key (f \<circ> g) xs)"
  by (induction xs) (auto simp: insort_key_map comp_def)

text \<open>What the limit drops are the last entries of the list sorted by decreasing time.\<close>

lemma limit_split:
  assumes "hm_ok (ec_events es)"
  shows "\<exists>keep dropped. mset (ec_events es) = mset keep + mset dropped \<and>
    mset (ec_events (limit es)) = mset keep \<and>
    length keep = min (length (ec_events es)) (max_events (ec_config es)) \<and>
    (\<forall>a \<in> set keep. \<forall>b \<in> set dropped. ev_created (snd b) \<le> ev_created (snd a))"
proof (cases "length (ec_events es) \<le> max_events (ec_config es)")
  case True
  then show ?thesis by (intro exI [of _ "ec_events es"] exI [of _ "[]"]) (simp add: limit_def)
next
  case False
  let ?n = "max_events (ec_config es)"
  let ?key = "\<lambda>p :: u256 \<times> event. - ev_created (snd p)"
  let ?s = "sort_key ?key (ec_events es)"
  have ids: "map fst (drop ?n (sort_key (\<lambda>(k, created). - created) (map (\<lambda>(k, v). (k, ev_created v)) (ec_events es))))
      = map fst (drop ?n ?s)"
    by (simp add: sort_key_map comp_def case_prod_unfold drop_map)
  have dist: "distinct (map fst ?s)"
    using assms mset_eq_imp_distinct_iff [of "map fst ?s" "map fst (ec_events es)"] by simp
  have fil: "filter (\<lambda>p. fst p \<notin> set (map fst (drop ?n ?s))) ?s = take ?n ?s"
  proof -
    let ?P = "\<lambda>p. fst p \<notin> set (map fst (drop ?n ?s))"
    have disj: "fst ` set (take ?n ?s) \<inter> fst ` set (drop ?n ?s) = {}"
    proof -
      have "distinct (map fst (take ?n ?s) @ map fst (drop ?n ?s))"
        using dist by (simp only: map_append [symmetric] append_take_drop_id)
      then show ?thesis by (simp only: distinct_append set_map)
    qed
    have "filter ?P ?s = filter ?P (take ?n ?s) @ filter ?P (drop ?n ?s)"
      by (metis append_take_drop_id filter_append)
    moreover have "filter ?P (take ?n ?s) = take ?n ?s"
      using disj by (auto simp: filter_id_conv)
    moreover have "filter ?P (drop ?n ?s) = []"
      by (auto simp: filter_empty_conv)
    ultimately show ?thesis by simp
  qed
  have "mset (ec_events (limit es)) = mset (filter (\<lambda>p. fst p \<notin> set (map fst (drop ?n ?s))) (ec_events es))"
    using False by (simp add: limit_def ids fold_delete Let_def)
  also have "\<dots> = mset (take ?n ?s)"
    by (subst fil [symmetric]) (simp only: mset_filter mset_sort)
  finally have "mset (ec_events (limit es)) = mset (take ?n ?s)" .
  moreover have "mset (ec_events es) = mset (take ?n ?s) + mset (drop ?n ?s)"
    by (metis append_take_drop_id mset_append mset_sort)
  moreover have "length (take ?n ?s) = min (length (ec_events es)) ?n" by (simp add: min.commute)
  moreover have "ev_created (snd b) \<le> ev_created (snd a)" if "a \<in> set (take ?n ?s)" "b \<in> set (drop ?n ?s)" for a b
  proof -
    have "sorted (map ?key (take ?n ?s) @ map ?key (drop ?n ?s))"
      by (metis append_take_drop_id map_append sorted_sort_key)
    with that have "?key a \<le> ?key b" by (auto simp: sorted_append)
    then show ?thesis by simp
  qed
  ultimately show ?thesis by blast
qed

lemma limit_config [simp]: "ec_config (limit es) = ec_config es"
  by (simp add: limit_def Let_def)

lemma stored_mset: "stored es = set_mset (image_mset snd (mset (ec_events es)))"
  by (simp add: stored_def)

lemma limit_sub: "hm_ok (ec_events es) \<Longrightarrow> set (ec_events (limit es)) \<subseteq> set (ec_events es)"
proof -
  assume "hm_ok (ec_events es)"
  from limit_split [OF this] obtain keep dropped where "mset (ec_events es) = mset keep + mset dropped"
    "mset (ec_events (limit es)) = mset keep" by blast
  from this [THEN arg_cong [of _ _ set_mset]] show ?thesis by auto
qed

lemma limit_ok:
  assumes "hm_ok (ec_events es)" and "\<forall>p \<in> set (ec_events es). event_id h (snd p) = fst p"
    and "unique (ec_config es) \<longrightarrow> distinct (map (\<lambda>p. ev_src (snd p)) (ec_events es))"
  shows "events_ok h (limit es)"
proof -
  obtain keep dropped where k: "mset (ec_events es) = mset keep + mset dropped"
    "mset (ec_events (limit es)) = mset keep"
    "length keep = min (length (ec_events es)) (max_events (ec_config es))"
    using limit_split [OF assms(1)] by blast
  have sub: "mset (map f (ec_events (limit es))) \<subseteq># mset (map f (ec_events es))" for f :: "u256 \<times> event \<Rightarrow> u256"
    by (simp add: k(1,2) image_mset_subseteq_mono)
  have dist: "distinct (map f (ec_events (limit es)))" if "distinct (map f (ec_events es))" for f :: "u256 \<times> event \<Rightarrow> u256"
  proof -
    have "count (mset (map f (ec_events (limit es)))) a \<le> count (mset (map f (ec_events es))) a" for a
      by (rule mset_subset_eq_count [OF sub])
    with that show ?thesis unfolding distinct_iff_count by (meson order_trans)
  qed
  have "length (ec_events (limit es)) = length keep" using k(2) by (metis size_mset)
  then show ?thesis
    using k(3) dist assms limit_sub [OF assms(1)] by (auto simp: events_ok_def)
qed

subsection \<open>Keeping the newest\<close>

definition newest :: "nat \<Rightarrow> event set \<Rightarrow> event set" where
  "newest n S = {e \<in> S. card {x \<in> S. ev_created e < ev_created x} < n}"

lemma newest_all: "finite S \<Longrightarrow> card S \<le> n \<Longrightarrow> newest n S = S"
proof -
  assume fin: "finite S" and le: "card S \<le> n"
  have "card {x \<in> S. ev_created e < ev_created x} < n" if "e \<in> S" for e
  proof -
    have "{x \<in> S. ev_created e < ev_created x} \<subset> S" using that by auto
    from psubset_card_mono [OF fin this] le show ?thesis by linarith
  qed
  then show ?thesis by (auto simp: newest_def)
qed

lemma newest_split:
  assumes "finite S" and "S = K \<union> D" and "K \<inter> D = {}" and "card K = n"
    and "inj_on ev_created S" and "\<forall>a \<in> K. \<forall>b \<in> D. ev_created b \<le> ev_created a"
  shows "newest n S = K"
proof (intro equalityI subsetI)
  have fin: "finite K" "finite D" using assms(1,2) by auto
  have lt: "ev_created b < ev_created a" if "a \<in> K" "b \<in> D" for a b
  proof -
    have "a \<noteq> b" using that assms(3) by auto
    then have "ev_created a \<noteq> ev_created b"
      using that assms(2,5) by (auto simp: inj_on_def)
    with assms(6) that show ?thesis by force
  qed
  {
    fix e assume "e \<in> newest n S"
    then have e: "e \<in> S" "card {x \<in> S. ev_created e < ev_created x} < n" by (auto simp: newest_def)
    show "e \<in> K"
    proof (rule ccontr)
      assume "e \<notin> K"
      with e(1) assms(2) have "e \<in> D" by auto
      then have "K \<subseteq> {x \<in> S. ev_created e < ev_created x}" using lt assms(2) by auto
      then have "card K \<le> card {x \<in> S. ev_created e < ev_created x}"
        using assms(1) by (intro card_mono) auto
      with e(2) assms(4) show False by simp
    qed
  next
    fix e assume e: "e \<in> K"
    have "{x \<in> S. ev_created e < ev_created x} \<subseteq> K - {e}"
      using e lt assms(2) by (auto dest: order.asym)
    then have "card {x \<in> S. ev_created e < ev_created x} \<le> card (K - {e})"
      using fin by (intro card_mono) auto
    also have "\<dots> < n" using e fin assms(4) by (metis card_Diff1_less)
    finally show "e \<in> newest n S" using e assms(2) by (auto simp: newest_def)
  }
qed

lemma newest_insert:
  assumes "finite T"
  shows "newest n (insert e (newest n T)) = newest n (insert e T)"
proof -
  let ?S = "newest n T"
  have sub: "?S \<subseteq> T" by (auto simp: newest_def)
  have fin: "finite ?S" using finite_subset [OF sub assms] .
  have same: "card {x \<in> insert e ?S. ev_created y < ev_created x} < n \<longleftrightarrow>
      card {x \<in> insert e T. ev_created y < ev_created x} < n" for y
  proof -
    let ?AS = "{x \<in> insert e ?S. ev_created y < ev_created x}"
    let ?AT = "{x \<in> insert e T. ev_created y < ev_created x}"
    have finA: "finite ?AT" "finite ?AS" using assms fin by auto
    have le: "card ?AS \<le> card ?AT" using sub finA by (intro card_mono) auto
    show ?thesis
    proof (cases "?AT \<subseteq> insert e ?S")
      case True
      then have "?AS = ?AT" using sub by auto
      then show ?thesis by simp
    next
      case False
      then obtain z0 where z0: "z0 \<in> T - ?S" "ev_created y < ev_created z0" by auto
      define Z where "Z = {z \<in> T - ?S. ev_created y < ev_created z}"
      have "finite (ev_created ` Z)" "ev_created ` Z \<noteq> {}"
        using assms z0 by (auto simp: Z_def)
      then obtain z where z: "z \<in> Z" "\<forall>x \<in> Z. ev_created x \<le> ev_created z"
        using Max_in [of "ev_created ` Z"] Max_ge [of "ev_created ` Z"]
        by (metis (no_types, lifting) image_iff)
      then have zT: "z \<in> T" "z \<notin> ?S" "ev_created y < ev_created z" by (auto simp: Z_def)
      then have "n \<le> card {x \<in> T. ev_created z < ev_created x}" by (auto simp: newest_def)
      also have "{x \<in> T. ev_created z < ev_created x} \<subseteq> ?AS"
      proof
        fix x assume x: "x \<in> {x \<in> T. ev_created z < ev_created x}"
        have "x \<in> ?S"
        proof (rule ccontr)
          assume "x \<notin> ?S"
          with x zT have "x \<in> Z" by (auto simp: Z_def)
          with z(2) x show False by force
        qed
        with x zT show "x \<in> ?AS" by auto
      qed
      then have "card {x \<in> T. ev_created z < ev_created x} \<le> card ?AS"
        using finA by (intro card_mono) auto
      finally have "n \<le> card ?AS" .
      with le show ?thesis by simp
    qed
  qed
  have old: "card {x \<in> insert e T. ev_created y < ev_created x} \<ge> n" if "y \<in> T" "y \<notin> ?S" for y
  proof -
    have "n \<le> card {x \<in> T. ev_created y < ev_created x}" using that by (auto simp: newest_def)
    also have "\<dots> \<le> card {x \<in> insert e T. ev_created y < ev_created x}"
      using assms by (intro card_mono) auto
    finally show ?thesis .
  qed
  show ?thesis
  proof (intro set_eqI iffI)
    fix y assume "y \<in> newest n (insert e ?S)"
    with same [of y] sub show "y \<in> newest n (insert e T)" by (auto simp: newest_def [of n "insert _ _"])
  next
    fix y assume y: "y \<in> newest n (insert e T)"
    then have "y \<in> insert e ?S" using old [of y] by (auto simp: newest_def [of n "insert _ _"])
    with y same [of y] show "y \<in> newest n (insert e ?S)" by (auto simp: newest_def [of n "insert _ _"])
  qed
qed

lemma limit_newest:
  assumes "hm_ok (ec_events es)" and "\<forall>p \<in> set (ec_events es). event_id h (snd p) = fst p"
    and "inj_on ev_created (stored es)"
  shows "stored (limit es) = newest (max_events (ec_config es)) (stored es)"
proof -
  obtain keep dropped where k: "mset (ec_events es) = mset keep + mset dropped"
    "mset (ec_events (limit es)) = mset keep"
    "length keep = min (length (ec_events es)) (max_events (ec_config es))"
    "\<forall>a \<in> set keep. \<forall>b \<in> set dropped. ev_created (snd b) \<le> ev_created (snd a)"
    using limit_split [OF assms(1)] by blast
  have inj: "inj_on snd (set (ec_events es))"
  proof (rule inj_onI)
    fix p q assume "p \<in> set (ec_events es)" "q \<in> set (ec_events es)" "snd p = snd q"
    with assms(2) show "p = q" by (metis prod_eq_iff)
  qed
  have dist: "distinct (map snd (ec_events es))"
    using assms(1) inj by (simp add: distinct_map)
  have setE: "set (ec_events es) = set keep \<union> set dropped"
    using arg_cong [OF k(1), of set_mset] by simp
  have st: "stored (limit es) = snd ` set keep" using arg_cong [OF k(2), of set_mset] by (simp add: stored_def)
  show ?thesis
  proof (cases "length (ec_events es) \<le> max_events (ec_config es)")
    case True
    then have "limit es = es" by (simp add: limit_def)
    moreover have "card (stored es) \<le> max_events (ec_config es)"
      using True card_length [of "map snd (ec_events es)"] by (simp add: stored_def)
    ultimately show ?thesis by (simp add: newest_all stored_def)
  next
    case False
    have dk: "distinct (map snd (keep @ dropped))"
      using dist k(1) mset_eq_imp_distinct_iff [of "map snd (keep @ dropped)" "map snd (ec_events es)"] by simp
    have "newest (max_events (ec_config es)) (stored es) = snd ` set keep"
    proof (rule newest_split)
      show "finite (stored es)" by (simp add: stored_def)
      show "stored es = snd ` set keep \<union> snd ` set dropped" by (simp add: stored_def setE image_Un)
      show "snd ` set keep \<inter> snd ` set dropped = {}" using dk by auto
      have "card (set (map snd keep)) = length keep" using dk by (intro distinct_card [THEN trans]) auto
      then show "card (snd ` set keep) = max_events (ec_config es)" using False k(3) by simp
    qed (use assms(3) k(4) in auto)
    with st show ?thesis by simp
  qed
qed

subsection \<open>Inserting\<close>

lemma update_new_append: "map_of m k = None \<Longrightarrow> AList.update k v m = m @ [(k, v)]"
  by (induction m) (auto split: if_splits)

definition same_source :: "event \<Rightarrow> events \<Rightarrow> event set" where
  "same_source e es = {v \<in> stored es. ev_src v = ev_src e}"

lemma find_source:
  assumes "events_ok h es" and "unique (ec_config es)"
  shows "case find (\<lambda>(i, v). ev_src v = ev_src e) (ec_events es) of
      Some (i, ev) \<Rightarrow> (i, ev) \<in> set (ec_events es) \<and> same_source e es = {ev}
    | None \<Rightarrow> same_source e es = {}"
proof (cases "find (\<lambda>(i, v). ev_src v = ev_src e) (ec_events es)")
  case None
  then have "\<forall>p \<in> set (ec_events es). ev_src (snd p) \<noteq> ev_src e"
    by (auto simp: find_None_iff)
  with None show ?thesis by (auto simp: same_source_def stored_def)
next
  case (Some p)
  obtain i ev where p: "p = (i, ev)" by (cases p)
  from Some p have mem: "(i, ev) \<in> set (ec_events es)" "ev_src ev = ev_src e"
    by (auto simp: find_Some_iff in_set_conv_nth) 
  have inj: "inj_on (\<lambda>p. ev_src (snd p)) (set (ec_events es))"
    using assms by (auto simp: events_ok_def distinct_map)
  have "v = ev" if "v \<in> same_source e es" for v
  proof -
    from that obtain q where q: "q \<in> set (ec_events es)" "v = snd q" "ev_src v = ev_src e"
      by (auto simp: same_source_def stored_def)
    with mem have "ev_src (snd q) = ev_src (snd (i, ev))" by simp
    with inj_onD [OF inj _ q(1) mem(1)] q(2) show ?thesis by simp
  qed
  moreover have "ev \<in> same_source e es" using mem by (force simp: same_source_def stored_def)
  ultimately have "same_source e es = {ev}" by blast
  with Some p mem show ?thesis by simp
qed

text \<open>Adding an event whose identifier is new, then limiting.\<close>

lemma insert_simple_ok:
  assumes "events_ok h es" and "map_of (ec_events es) (event_id h e) = None"
    and "unique (ec_config es) \<longrightarrow> same_source e es = {}"
  shows "events_ok h (fst (insert_simple h e es))"
    and "stored (fst (insert_simple h e es)) \<subseteq> insert e (stored es)"
    and "ec_config (fst (insert_simple h e es)) = ec_config es"
    and "inj_on ev_created (insert e (stored es)) \<Longrightarrow>
      stored (fst (insert_simple h e es)) = newest (max_events (ec_config es)) (insert e (stored es))"
    and "length (ec_events es) < max_events (ec_config es) \<Longrightarrow>
      stored (fst (insert_simple h e es)) = insert e (stored es)"
proof -
  let ?es = "es\<lparr>ec_events := AList.update (event_id h e) e (ec_events es)\<rparr>"
  have ev: "ec_events ?es = ec_events es @ [(event_id h e, e)]"
    using update_new_append [OF assms(2)] by simp
  have hm: "hm_ok (ec_events ?es)" using assms(1) by (simp add: events_ok_def)
  have ids: "\<forall>p \<in> set (ec_events ?es). event_id h (snd p) = fst p"
    unfolding ev using assms(1) by (auto simp: events_ok_def)
  have uq: "unique (ec_config ?es) \<longrightarrow> distinct (map (\<lambda>p. ev_src (snd p)) (ec_events ?es))"
    unfolding ev using assms(1,3) by (auto simp: events_ok_def same_source_def stored_def)
  have st: "stored ?es = insert e (stored es)" unfolding stored_def ev by auto
  show "events_ok h (fst (insert_simple h e es))"
    using limit_ok [OF hm ids uq] by (simp add: insert_simple_def)
  show "stored (fst (insert_simple h e es)) \<subseteq> insert e (stored es)"
    using limit_sub [OF hm] st by (auto simp: insert_simple_def stored_def)
  show "ec_config (fst (insert_simple h e es)) = ec_config es" by (simp add: insert_simple_def)
  show "stored (fst (insert_simple h e es)) = newest (max_events (ec_config es)) (insert e (stored es))"
    if "inj_on ev_created (insert e (stored es))"
    using limit_newest [OF hm ids] that st by (simp add: insert_simple_def)
  show "stored (fst (insert_simple h e es)) = insert e (stored es)"
    if "length (ec_events es) < max_events (ec_config es)"
    using that ev st by (simp add: insert_simple_def limit_def)
qed

definition drop_id :: "u256 \<Rightarrow> events \<Rightarrow> events" where
  "drop_id i es = es\<lparr>ec_events := AList.delete i (ec_events es)\<rparr>"

lemma drop_id_ok:
  assumes "events_ok h es" and "(i, ev) \<in> set (ec_events es)"
  shows "events_ok h (drop_id i es)" and "stored (drop_id i es) = stored es - {ev}"
    and "length (ec_events (drop_id i es)) < max_events (ec_config es)"
    and "ec_config (drop_id i es) = ec_config es"
proof -
  have hm: "hm_ok (ec_events es)" and ids: "\<forall>p \<in> set (ec_events es). event_id h (snd p) = fst p"
    using assms(1) by (simp_all add: events_ok_def)
  have del: "ec_events (drop_id i es) = filter (\<lambda>p. fst p \<noteq> i) (ec_events es)"
    using fold_delete [of "[i]" "ec_events es"] by (simp add: drop_id_def)
  have "map_of (ec_events es) i = Some ev" using hm assms(2) by simp
  then have len: "length (ec_events (drop_id i es)) = length (ec_events es) - 1"
    using length_delete [OF hm, of i] by (simp add: drop_id_def)
  have "0 < length (ec_events es)" using assms(2) by (cases "ec_events es") auto
  with len have "length (ec_events (drop_id i es)) < length (ec_events es)" by linarith
  also have "\<dots> \<le> max_events (ec_config es)" using assms(1) by (simp add: events_ok_def)
  finally show "length (ec_events (drop_id i es)) < max_events (ec_config es)" .
  show "ec_config (drop_id i es) = ec_config es" by (simp add: drop_id_def)
  show "stored (drop_id i es) = stored es - {ev}"
  proof -
    have key: "fst p = i \<longleftrightarrow> snd p = ev" if "p \<in> set (ec_events es)" for p
    proof -
      have 1: "event_id h (snd p) = fst p" using ids that by blast
      have 2: "event_id h ev = i" using ids assms(2) by (metis fst_conv snd_conv)
      have 3: "map_of (ec_events es) (fst p) = Some (snd p)"
        using map_of_is_SomeI [OF hm, of "fst p" "snd p"] that by simp
      show ?thesis
      proof
        assume "fst p = i"
        with 3 \<open>map_of (ec_events es) i = Some ev\<close> show "snd p = ev" by simp
      next
        assume "snd p = ev"
        with 1 2 show "fst p = i" by simp
      qed
    qed
    then have "{p \<in> set (ec_events es). fst p \<noteq> i} = {p \<in> set (ec_events es). snd p \<noteq> ev}" by blast
    then have "stored (drop_id i es) = snd ` {p \<in> set (ec_events es). snd p \<noteq> ev}"
      by (simp only: stored_def del set_filter)
    then show ?thesis by (auto simp: stored_def)
  qed
  have "length (filter (\<lambda>p. fst p \<noteq> i) (ec_events es)) \<le> max_events (ec_config es)"
    by (rule order_trans [OF length_filter_le]) (use assms(1) in \<open>simp add: events_ok_def\<close>)
  with assms(1) show "events_ok h (drop_id i es)"
    by (auto simp: events_ok_def del distinct_map_filter) (auto simp: drop_id_def del)
qed

lemma known_id:
  assumes "events_ok h es"
  shows "map_of (ec_events es) (event_id h e) \<noteq> None \<longleftrightarrow> event_id h e \<in> event_id h ` stored es"
proof -
  have "fst ` set (ec_events es) = (\<lambda>p. event_id h (snd p)) ` set (ec_events es)"
    using assms by (intro image_cong) (auto simp: events_ok_def)
  also have "\<dots> = event_id h ` stored es" by (simp add: stored_def image_image)
  finally show ?thesis by (metis map_of_eq_None_iff)
qed

lemma insert_event_spec:
  assumes "events_ok h es" and "insert_event h e es = (es', modified)"
  shows "events_ok h es' \<and> ec_config es' = ec_config es \<and> stored es' \<subseteq> insert e (stored es) \<and>
    (modified \<longleftrightarrow> event_id h e \<notin> event_id h ` stored es \<and>
       (unique (ec_config es) \<longrightarrow> (\<forall>v \<in> same_source e es. ev_created v \<le> ev_created e))) \<and>
    (\<not> modified \<longrightarrow> es' = es) \<and>
    (modified \<and> \<not> unique (ec_config es) \<and> inj_on ev_created (insert e (stored es)) \<longrightarrow>
       stored es' = newest (max_events (ec_config es)) (insert e (stored es))) \<and>
    (modified \<and> unique (ec_config es) \<and> same_source e es \<noteq> {} \<longrightarrow>
       stored es' = insert e (stored es - same_source e es)) \<and>
    (modified \<and> same_source e es = {} \<and> length (ec_events es) < max_events (ec_config es) \<longrightarrow>
       stored es' = insert e (stored es))"
proof (cases "map_of (ec_events es) (event_id h e) = None")
  case False
  with assms known_id [OF assms(1), of e] show ?thesis by (auto simp: insert_event_def)
next
  case new: True
  then have id: "event_id h e \<notin> event_id h ` stored es" using known_id [OF assms(1), of e] by simp
  show ?thesis
  proof (cases "unique (ec_config es)")
    case False
    then have r: "es' = fst (insert_simple h e es)" "modified"
      using assms(2) new by (auto simp: insert_event_def insert_simple_def)
    have "unique (ec_config es) \<longrightarrow> same_source e es = {}" using False by simp
    from insert_simple_ok [OF assms(1) new this] r id False show ?thesis by auto
  next
    case True
    show ?thesis
    proof (cases "find (\<lambda>(i, v). ev_src v = ev_src e) (ec_events es)")
      case None
      with find_source [OF assms(1) True, of e] have none: "same_source e es = {}" by simp
      have r: "es' = fst (insert_simple h e es)" "modified"
        using assms(2) new True None by (auto simp: insert_event_def insert_unique_def insert_simple_def)
      from none have "unique (ec_config es) \<longrightarrow> same_source e es = {}" by simp
      from insert_simple_ok [OF assms(1) new this] r id True none show ?thesis by auto
    next
      case (Some p)
      obtain i ev where p: "p = (i, ev)" by (cases p)
      from Some p find_source [OF assms(1) True, of e] have mem: "(i, ev) \<in> set (ec_events es)"
        and src: "same_source e es = {ev}" by auto
      show ?thesis
      proof (cases "ev_created e < ev_created ev")
        case old: True
        with assms new True Some p src show ?thesis
          by (auto simp: insert_event_def insert_unique_def)
      next
        case False
        note d = drop_id_ok [OF assms(1) mem]
        have r: "es' = fst (insert_simple h e (drop_id i es))" "modified"
          using assms(2) new True Some p False
          by (auto simp: insert_event_def insert_unique_def insert_simple_def drop_id_def)
        have new': "map_of (ec_events (drop_id i es)) (event_id h e) = None"
          using new by (simp add: drop_id_def)
        have none: "unique (ec_config (drop_id i es)) \<longrightarrow> same_source e (drop_id i es) = {}"
          using src by (auto simp: same_source_def d(2))
        note s = insert_simple_ok [OF d(1) new' none]
        have "length (ec_events (drop_id i es)) < max_events (ec_config (drop_id i es))" using d(3,4) by simp
        from s(5) [OF this] s(1,3) r d(2,4) id True src False show ?thesis by auto
      qed
    qed
  qed
qed

text \<open>
  One category under any insertion: the store stays within its bound, keyed by the
  identifiers of its events and, where it must be, with one event per source. The flag says
  no for a known identifier and, in a category with one event per source, for an event
  older than the one of its source; otherwise yes. With yes, nothing but the new event comes
  in, and what leaves is the replaced event of the source or what the bound drops.
\<close>

theorem insert_event_ok:
  assumes "events_ok h es" and "insert_event h e es = (es', modified)"
  shows "events_ok h es' \<and> ec_config es' = ec_config es \<and> stored es' \<subseteq> insert e (stored es) \<and>
    (modified \<longleftrightarrow> event_id h e \<notin> event_id h ` stored es \<and>
       (unique (ec_config es) \<longrightarrow> (\<forall>v \<in> same_source e es. ev_created v \<le> ev_created e))) \<and>
    (\<not> modified \<longrightarrow> es' = es)"
  using insert_event_spec [OF assms] by blast

definition toy_event :: "category \<Rightarrow> nat \<Rightarrow> event" where
  "toy_event c n = \<lparr>ev_category = c, ev_src = U256 [word_of_nat n], ev_created = int n, ev_msg = []\<rparr>"

definition toy_events :: "bool \<Rightarrow> nat \<Rightarrow> events" where
  "toy_events u n = \<lparr>ec_config = \<lparr>unique = u, max_events = n\<rparr>, ec_events = []\<rparr>"

lemma toy_events_ok: "events_ok h (toy_events u n)"
  by (simp add: events_ok_def toy_events_def)

theorem insert_event_ok_witness:
  "snd (insert_event toy_hash (toy_event TextMessage 7) (toy_events False 2)) \<and>
   events_ok toy_hash (fst (insert_event toy_hash (toy_event TextMessage 7) (toy_events False 2)))"
proof -
  obtain es m where r: "insert_event toy_hash (toy_event TextMessage 7) (toy_events False 2) = (es, m)"
    by fastforce
  from insert_event_ok [OF toy_events_ok r] r show ?thesis
    by (auto simp: toy_events_def stored_def)
qed

subsection \<open>Convergence\<close>

definition insert_all :: "(bytes \<Rightarrow> u256) \<Rightarrow> event list \<Rightarrow> events \<Rightarrow> events" where
  "insert_all h xs es = fold (\<lambda>e es. fst (insert_event h e es)) xs es"

lemma insert_all_snoc: "insert_all h (xs @ [x]) es = fst (insert_event h x (insert_all h xs es))"
  by (simp add: insert_all_def)

lemma insert_all_ok:
  "events_ok h es \<Longrightarrow> events_ok h (insert_all h xs es) \<and> ec_config (insert_all h xs es) = ec_config es"
proof (induction xs rule: rev_induct)
  case (snoc x xs)
  obtain es' m where r: "insert_event h x (insert_all h xs es) = (es', m)" by fastforce
  with insert_event_spec [OF _ r] snoc show ?case by (simp add: insert_all_snoc)
qed (simp add: insert_all_def)

lemma empty_ok: "ec_events es = [] \<Longrightarrow> events_ok h es"
  by (simp add: events_ok_def)

lemma insert_all_newest:
  assumes "events_ok h es" and "\<not> unique (ec_config es)"
    and "stored es = newest (max_events (ec_config es)) T" and "finite T"
    and "inj_on (event_id h) (T \<union> set xs)" and "inj_on ev_created (T \<union> set xs)"
  shows "stored (insert_all h xs es) = newest (max_events (ec_config es)) (T \<union> set xs)"
  using assms(5,6)
proof (induction xs rule: rev_induct)
  case Nil
  with assms(3) show ?case by (simp add: insert_all_def)
next
  case (snoc x xs)
  let ?n = "max_events (ec_config es)" and ?e = "insert_all h xs es"
  have part: "T \<union> set xs \<subseteq> T \<union> set (xs @ [x])" by auto
  have IH: "stored ?e = newest ?n (T \<union> set xs)"
    using snoc.IH [OF inj_on_subset [OF snoc.prems(1) part] inj_on_subset [OF snoc.prems(2) part]] .
  have ok: "events_ok h ?e" "ec_config ?e = ec_config es"
    using insert_all_ok [OF assms(1), of xs] by simp_all
  have sub: "stored ?e \<subseteq> T \<union> set xs" by (auto simp: IH newest_def)
  obtain es' m where r: "insert_event h x ?e = (es', m)" by fastforce
  note spec = insert_event_spec [OF ok(1) r]
  show ?case
  proof (cases "event_id h x \<in> event_id h ` stored ?e")
    case True
    then obtain v where v: "v \<in> T \<union> set xs" "event_id h x = event_id h v" using sub by auto
    with inj_onD [OF snoc.prems(1) v(2)] have "x \<in> T \<union> set xs" by auto
    then have "T \<union> set (xs @ [x]) = T \<union> set xs" by auto
    with spec True r IH show ?thesis by (simp add: insert_all_snoc)
  next
    case False
    have "inj_on ev_created (insert x (stored ?e))"
      using sub by (intro inj_on_subset [OF snoc.prems(2)]) auto
    with spec False assms(2) ok(2) r
    have "stored (insert_all h (xs @ [x]) es) = newest ?n (insert x (newest ?n (T \<union> set xs)))"
      by (simp add: insert_all_snoc IH)
    then show ?thesis using assms(4) by (simp add: newest_insert)
  qed
qed

text \<open>
  C3. Text messages converge: whatever the order in which they arrive and however often, a
  node ends up with the newest messages, as many as the bound allows, of all it was ever
  offered. So two nodes that were offered the same messages hold the same ones, although
  each has dropped messages on the way (no two messages with the same time or identifier).
\<close>

theorem text_messages_converge:
  assumes "ec_events es = []" and "\<not> unique (ec_config es)"
    and "inj_on (event_id h) (set xs)" and "inj_on ev_created (set xs)"
  shows "stored (insert_all h xs es) = newest (max_events (ec_config es)) (set xs)"
  using insert_all_newest [OF empty_ok [OF assms(1)] assms(2), of "{}" h xs] assms
  by (simp add: stored_def newest_def)

theorem text_messages_converge_witness:
  "stored (insert_all toy_hash (map (toy_event TextMessage) [2, 1, 3]) (toy_events False 2))
     = newest 2 (set (map (toy_event TextMessage) [2, 1, 3]))"
proof -
  let ?xs = "map (toy_event TextMessage) [2, 1, 3]"
  have "inj_on (event_id toy_hash) (set ?xs)"
    by (simp add: event_id_def toy_event_def toy_hash_def le_bytes8_def str_bytes_def upt_rec)
  moreover have "inj_on ev_created (set ?xs)" by (simp add: toy_event_def)
  moreover have "ec_events (toy_events False 2) = []" "\<not> unique (ec_config (toy_events False 2))"
    by (simp_all add: toy_events_def)
  ultimately show ?thesis
    using text_messages_converge [of "toy_events False 2" toy_hash ?xs] by (simp add: toy_events_def)
qed

definition latest :: "event set \<Rightarrow> event set" where
  "latest T = {e \<in> T. \<forall>x \<in> T. ev_src x = ev_src e \<longrightarrow> ev_created x \<le> ev_created e}"

lemma latest_above:
  assumes "finite T" and "u \<in> T"
  shows "\<exists>v \<in> latest T. ev_src v = ev_src u \<and> ev_created u \<le> ev_created v"
proof -
  let ?C = "{x \<in> T. ev_src x = ev_src u}"
  have "finite (ev_created ` ?C)" "ev_created ` ?C \<noteq> {}" using assms by auto
  then obtain v where v: "v \<in> ?C" "ev_created v = Max (ev_created ` ?C)"
    using Max_in [of "ev_created ` ?C"] by (metis (no_types, lifting) imageE)
  have "ev_created x \<le> ev_created v" if "x \<in> ?C" for x
    unfolding v(2) using assms(1) that by (intro Max_ge) auto
  with v(1) assms(2) show ?thesis by (intro bexI [of _ v]) (auto simp: latest_def)
qed

lemma src_latest: "finite T \<Longrightarrow> ev_src ` latest T = ev_src ` T"
  using latest_above by (fastforce simp: latest_def image_iff)

lemma latest_insert:
  assumes "finite T" and "\<And>a b. a \<in> insert x T \<Longrightarrow> b \<in> insert x T \<Longrightarrow> ev_src a = ev_src b \<Longrightarrow>
      ev_created a = ev_created b \<Longrightarrow> a = b" and "x \<notin> T"
  shows "latest (insert x T) =
    (if \<forall>v \<in> latest T. ev_src v = ev_src x \<longrightarrow> ev_created v \<le> ev_created x
     then insert x (latest T - {v \<in> latest T. ev_src v = ev_src x}) else latest T)"
proof (cases "\<forall>v \<in> latest T. ev_src v = ev_src x \<longrightarrow> ev_created v \<le> ev_created x")
  case True
  have le: "ev_created u \<le> ev_created x" if "u \<in> T" "ev_src u = ev_src x" for u
    using latest_above [OF assms(1) that(1)] True that(2) by fastforce
  have lt: "ev_created u < ev_created x" if "u \<in> T" "ev_src u = ev_src x" for u
    using le [OF that] assms(2) [of u x] that assms(3) by force
  show ?thesis
    using True le lt by (auto simp: latest_def dest: leD)
next
  case False
  then obtain v where v: "v \<in> latest T" "ev_src v = ev_src x" "ev_created x < ev_created v" by force
  then have "v \<in> T" by (simp add: latest_def)
  have "latest (insert x T) = latest T"
  proof (intro set_eqI iffI)
    fix e assume "e \<in> latest (insert x T)"
    with v \<open>v \<in> T\<close> show "e \<in> latest T" by (auto simp: latest_def dest: leD)
  next
    fix e assume e: "e \<in> latest T"
    have "ev_created x \<le> ev_created e" if "ev_src x = ev_src e"
      using e v \<open>v \<in> T\<close> that by (force simp: latest_def)
    with e show "e \<in> latest (insert x T)" by (auto simp: latest_def)
  qed
  with False show ?thesis by (simp only: if_False)
qed

text \<open>
  Node information converges to the last word of every node: whatever the order in which
  the events arrive, a node ends up with exactly the most recent event of each source, as
  long as there are no more sources than the category holds.
\<close>

theorem node_info_converges:
  assumes "ec_events es = []" and "unique (ec_config es)" and "inj_on (event_id h) (set xs)"
    and "\<forall>a \<in> set xs. \<forall>b \<in> set xs. ev_src a = ev_src b \<and> ev_created a = ev_created b \<longrightarrow> a = b"
    and "card (ev_src ` set xs) \<le> max_events (ec_config es)"
  shows "stored (insert_all h xs es) = latest (set xs)"
  using assms(3-5)
proof (induction xs rule: rev_induct)
  case Nil
  with assms(1) show ?case by (simp add: insert_all_def stored_def latest_def)
next
  case (snoc x xs)
  let ?e = "insert_all h xs es"
  have sub_src: "card (ev_src ` set xs) \<le> card (ev_src ` set (xs @ [x]))"
    by (intro card_mono) auto
  have IH: "stored ?e = latest (set xs)"
    using snoc sub_src by (simp add: inj_on_Un inj_on_insert)
  have ok: "events_ok h ?e" "ec_config ?e = ec_config es"
    using insert_all_ok [OF empty_ok [OF assms(1)], of h xs] by simp_all
  obtain es' m where r: "insert_event h x ?e = (es', m)" by fastforce
  note spec = insert_event_spec [OF ok(1) r]
  have sub: "stored ?e \<subseteq> set xs" by (auto simp: IH latest_def)
  have same: "same_source x ?e = {v \<in> latest (set xs). ev_src v = ev_src x}"
    by (simp add: same_source_def IH)
  have out: "insert_all h (xs @ [x]) es = es'" by (simp add: insert_all_snoc r)
  show ?case
  proof (cases "event_id h x \<in> event_id h ` stored ?e")
    case True
    then obtain v where "v \<in> set xs" "event_id h x = event_id h v" using sub by auto
    with snoc.prems(1) have "x = v" by (auto simp: inj_on_def)
    with \<open>v \<in> set xs\<close> spec True IH out show ?thesis by (simp add: insert_absorb)
  next
    case new: False
    show ?thesis
    proof (cases "x \<in> set xs")
      case True
      then obtain v where v: "v \<in> latest (set xs)" "ev_src v = ev_src x" "ev_created x \<le> ev_created v"
        using latest_above [of "set xs" x] by auto
      have "v \<noteq> x" using new IH v(1) by auto
      moreover have "v \<in> set xs" using v(1) by (simp add: latest_def)
      ultimately have "ev_created x < ev_created v"
        using snoc.prems(2) v True by force
      with spec new v same assms(2) ok(2) have "\<not> m" by force
      with spec IH True out show ?thesis by (simp add: insert_absorb)
    next
      case False
      have dist: "a = b" if "a \<in> insert x (set xs)" "b \<in> insert x (set xs)" "ev_src a = ev_src b"
        "ev_created a = ev_created b" for a b
      proof -
        have "insert x (set xs) = set (xs @ [x])" by simp
        with snoc.prems(2) that show ?thesis by blast
      qed
      have li: "latest (insert x (set xs)) =
          (if \<forall>v \<in> latest (set xs). ev_src v = ev_src x \<longrightarrow> ev_created v \<le> ev_created x
           then insert x (latest (set xs) - {v \<in> latest (set xs). ev_src v = ev_src x}) else latest (set xs))"
        by (rule latest_insert [OF finite_set dist False])
      have m: "m \<longleftrightarrow> (\<forall>v \<in> latest (set xs). ev_src v = ev_src x \<longrightarrow> ev_created v \<le> ev_created x)"
        using spec new assms(2) ok(2) same by auto
      have grow: "stored es' = insert x (stored ?e)" if "m" and none: "same_source x ?e = {}"
      proof -
        have "ev_src x \<notin> ev_src ` set xs"
          using none same latest_above [of "set xs"] by fastforce
        then have "card (ev_src ` set xs) < max_events (ec_config es)"
          using snoc.prems(3) by simp
        moreover have "length (ec_events ?e) = card (ev_src ` set xs)"
        proof -
          have "distinct (map (\<lambda>p. ev_src (snd p)) (ec_events ?e))"
            using ok assms(2) by (simp add: events_ok_def)
          from distinct_card [OF this] have "length (ec_events ?e) = card (ev_src ` stored ?e)"
            by (simp add: stored_def image_image)
          then show ?thesis by (simp add: IH src_latest)
        qed
        ultimately show ?thesis using spec that ok(2) by simp
      qed
      show ?thesis
      proof (cases m)
        case True
        have "stored es' = insert x (stored ?e - same_source x ?e)"
          using spec True grow assms(2) ok(2) by (cases "same_source x ?e = {}") auto
        moreover have "latest (insert x (set xs)) = insert x (latest (set xs) - same_source x ?e)"
          unfolding same using li if_P [OF iffD1 [OF m True]] by (rule trans)
        ultimately show ?thesis using out IH by simp
      next
        case False
        then have older: "\<not> (\<forall>v \<in> latest (set xs). ev_src v = ev_src x \<longrightarrow> ev_created v \<le> ev_created x)"
          using m by blast
        have "latest (insert x (set xs)) = latest (set xs)"
          using li if_not_P [OF older] by (rule trans)
        with False spec out IH show ?thesis by simp
      qed
    qed
  qed
qed

theorem node_info_converges_witness:
  "stored (insert_all toy_hash (map (toy_event NodeInfo) [2, 1]) (toy_events True 2))
     = latest (set (map (toy_event NodeInfo) [2, 1]))"
proof -
  let ?xs = "map (toy_event NodeInfo) [2, 1]"
  have a: "inj_on (event_id toy_hash) (set ?xs)"
    by (simp add: event_id_def toy_event_def toy_hash_def le_bytes8_def str_bytes_def upt_rec)
  have b: "\<forall>a \<in> set ?xs. \<forall>b \<in> set ?xs. ev_src a = ev_src b \<and> ev_created a = ev_created b \<longrightarrow> a = b"
    by (simp add: toy_event_def)
  have c: "card (ev_src ` set ?xs) \<le> max_events (ec_config (toy_events True 2))"
    using card_length [of "map ev_src ?xs"] by (simp add: toy_events_def)
  have d: "ec_events (toy_events True 2) = []" "unique (ec_config (toy_events True 2))"
    by (simp_all add: toy_events_def)
  show ?thesis by (rule node_info_converges [OF d a b c])
qed

end
