(* ===== verification/GossipNode.thy ===== *)
theory GossipNode
  imports GossipCore "HOL-Library.Log_Nat"
begin

text \<open>
  The gossip module on top of its event store: the migration of saved stores
  (\<open>flmodules/src/gossip_events/core.rs\<close>) and the message handlers (\<open>messages.rs\<close>). Parsing
  the saved text (\<open>serde_yaml\<close>) is a parameter. What a handler sends is the list it returns;
  saving the store is the field \<open>g_saved\<close>.

  The locale \<open>event_store\<close> is the contract the handlers rely on, with what follows from it for
  a batch of events; it is interpreted on the storage of all categories.
\<close>

subsection \<open>Migrations\<close>

text \<open>
  The values of an \<open>f64\<close>. The conversion from \<open>i64\<close> rounds to 53 significant bits, ties to
  even; the way back truncates and saturates.
\<close>

datatype f64 = Fin rat | PInf | NInf | NaN

definition round_significand :: "int \<Rightarrow> int" where
  "round_significand n =
     (if \<bar>n\<bar> < 2 ^ 53 then n
      else let e = nat (bitlen \<bar>n\<bar> - 53); q = \<bar>n\<bar> div 2 ^ e; r = \<bar>n\<bar> mod 2 ^ e;
               up = 2 * r > 2 ^ e \<or> (2 * r = 2 ^ e \<and> odd q)
           in sgn n * ((if up then q + 1 else q) * 2 ^ e))"

definition i64_to_f64 :: "int \<Rightarrow> f64" where
  "i64_to_f64 n = Fin (of_int (round_significand n))"

definition saturate_i64 :: "int \<Rightarrow> int" where
  "saturate_i64 n = max (- (2 ^ 63)) (min (2 ^ 63 - 1) n)"

fun f64_to_i64 :: "f64 \<Rightarrow> int" where
  "f64_to_i64 (Fin r) = saturate_i64 (if 0 \<le> r then \<lfloor>r\<rfloor> else \<lceil>r\<rceil>)"
| "f64_to_i64 PInf = 2 ^ 63 - 1"
| "f64_to_i64 NInf = - (2 ^ 63)"
| "f64_to_i64 NaN = 0"

record event_v1 =
  ev1_category :: category
  ev1_src :: u256
  ev1_created :: int
  ev1_msg :: string

record events_v1 =
  ec1_config :: category_config
  ec1_events :: "(u256, event_v1) hashmap"

record event_v2 =
  ev2_category :: category
  ev2_src :: u256
  ev2_created :: f64
  ev2_msg :: string

record events_v2 =
  ec2_config :: category_config
  ec2_events :: "(u256, event_v2) hashmap"

text \<open>\<open>collect\<close> into a hash map: a later entry replaces an earlier one with its key.\<close>

definition hm_collect :: "('k \<times> 'v) list \<Rightarrow> ('k, 'v) hashmap" where
  "hm_collect xs = fold (\<lambda>(k, v). AList.update k v) xs []"

definition events_v1_to_latest :: "events_v1 \<Rightarrow> events_v2" where
  "events_v1_to_latest es =
     \<lparr>ec2_config = ec1_config es,
      ec2_events = hm_collect (map (\<lambda>(k, v). (k,
        \<lparr>ev2_category = ev1_category v, ev2_src = ev1_src v,
         ev2_created = i64_to_f64 (ev1_created v), ev2_msg = ev1_msg v\<rparr>)) (ec1_events es))\<rparr>"

definition events_v2_to_latest :: "(bytes \<Rightarrow> u256) \<Rightarrow> events_v2 \<Rightarrow> events" where
  "events_v2_to_latest h es =
     \<lparr>ec_config = ec2_config es,
      ec_events = hm_collect (map (\<lambda>(_, v).
        let e = \<lparr>ev_category = ev2_category v, ev_src = ev2_src v,
                 ev_created = f64_to_i64 (ev2_created v), ev_msg = ev2_msg v\<rparr>
        in (event_id h e, e)) (ec2_events es))\<rparr>"

definition storage_v2_to_latest :: "(bytes \<Rightarrow> u256) \<Rightarrow> (category, events_v2) hashmap \<Rightarrow> events_storage" where
  "storage_v2_to_latest h st = hm_collect (map (\<lambda>(k, v). (k, events_v2_to_latest h v)) st)"

definition storage_v1_to_latest :: "(bytes \<Rightarrow> u256) \<Rightarrow> (category, events_v1) hashmap \<Rightarrow> events_storage" where
  "storage_v1_to_latest h st =
     storage_v2_to_latest h (hm_collect (map (\<lambda>(k, v). (k, events_v1_to_latest v)) st))"

definition storage_v3_to_latest :: "(bytes \<Rightarrow> u256) \<Rightarrow> (category, events) hashmap \<Rightarrow> events_storage" where
  "storage_v3_to_latest h st = hm_collect (map (\<lambda>(cat, ev). (cat,
     \<lparr>ec_config = ec_config ev,
      ec_events = hm_collect (map (\<lambda>(_, ev). (event_id h ev, ev)) (ec_events ev))\<rparr>)) st)"

datatype events_storage_save =
    SaveV1 "(category, events_v1) hashmap" | SaveV2 "(category, events_v2) hashmap"
  | SaveV3 "(category, events) hashmap" | SaveV4 events_storage

fun save_to_latest :: "(bytes \<Rightarrow> u256) \<Rightarrow> events_storage_save \<Rightarrow> events_storage" where
  "save_to_latest h (SaveV1 es) = storage_v1_to_latest h es"
| "save_to_latest h (SaveV2 es) = storage_v2_to_latest h es"
| "save_to_latest h (SaveV3 es) = storage_v3_to_latest h es"
| "save_to_latest h (SaveV4 es) = es"

definition save_from_str ::
  "(bytes \<Rightarrow> u256) \<Rightarrow> (string \<Rightarrow> events_storage_save option) \<Rightarrow>
   (string \<Rightarrow> (category, events_v1) hashmap option) \<Rightarrow> string \<Rightarrow> events_storage option" where
  "save_from_str h parse_save parse_v1 s =
     (case parse_save s of
        Some es \<Rightarrow> Some (save_to_latest h es)
      | None \<Rightarrow> map_option (storage_v1_to_latest h) (parse_v1 s))"

lemma map_of_hm_collect: "map_of (hm_collect xs) = map_of (rev xs)"
proof -
  have "map_of (fold (\<lambda>(k, v). AList.update k v) xs m) = map_of m ++ map_of (rev xs)" for m
    by (induction xs arbitrary: m) (auto simp: map_add_upd map_add_def split: option.split)
  then show ?thesis by (simp add: hm_collect_def)
qed

lemma hm_ok_collect: "hm_ok (hm_collect xs)"
proof -
  have "hm_ok (fold (\<lambda>(k, v). AList.update k v) xs m)" if "hm_ok m" for m
    using that by (induction xs arbitrary: m) (auto split: prod.split)
  then show ?thesis by (simp add: hm_collect_def)
qed

lemma set_hm_collect_sub: "set (hm_collect xs) \<subseteq> set xs"
proof -
  have "(k, v) \<in> set xs" if "(k, v) \<in> set (hm_collect xs)" for k v
    using that map_of_is_SomeI [OF hm_ok_collect that] map_of_SomeD [of "rev xs" k v]
    by (simp add: map_of_hm_collect)
  then show ?thesis by auto
qed

lemma set_hm_collect: "distinct (map fst xs) \<Longrightarrow> set (hm_collect xs) = set xs"
proof
  assume d: "distinct (map fst xs)"
  show "set xs \<subseteq> set (hm_collect xs)"
  proof
    fix p assume "p \<in> set xs"
    then have "map_of (rev xs) (fst p) = Some (snd p)"
      using d map_of_is_SomeI [of "rev xs" "fst p" "snd p"] by (simp add: rev_map [symmetric])
    then show "p \<in> set (hm_collect xs)"
      using map_of_SomeD [of "hm_collect xs" "fst p" "snd p"] by (simp add: map_of_hm_collect)
  qed
qed (rule set_hm_collect_sub)

lemma round_small: "\<bar>n\<bar> \<le> 2 ^ 53 \<Longrightarrow> round_significand n = n"
proof -
  assume le: "\<bar>n\<bar> \<le> 2 ^ 53"
  show ?thesis
  proof (cases "\<bar>n\<bar> = 2 ^ 53")
    case True
    then have "n = 2 ^ 53 \<or> n = - (2 ^ 53)" by linarith
    moreover have "bitlen (2 ^ 53) = 54" using bitlen_pow2 [of 1 53] by (simp add: bitlen_alt_def [of 1])
    ultimately show ?thesis by (auto simp: round_significand_def Let_def)
  qed (use le in \<open>simp add: round_significand_def\<close>)
qed

lemma f64_roundtrip: "\<bar>n\<bar> \<le> 2 ^ 53 \<Longrightarrow> f64_to_i64 (i64_to_f64 n) = n"
  by (auto simp: i64_to_f64_def round_small saturate_i64_def)

text \<open>What a stored event of version 1 stands for today.\<close>

definition upgrade_v1 :: "event_v1 \<Rightarrow> event" where
  "upgrade_v1 v = \<lparr>ev_category = ev1_category v, ev_src = ev1_src v, ev_created = ev1_created v, ev_msg = ev1_msg v\<rparr>"

definition times_exact :: "events_v1 \<Rightarrow> bool" where
  "times_exact es \<longleftrightarrow> (\<forall>(k, v) \<in> set (ec1_events es). \<bar>ev1_created v\<bar> \<le> 2 ^ 53)"

lemma migrate_events_v1:
  assumes "hm_ok (ec1_events es)" and "times_exact es"
    and "inj_on (event_id h) (upgrade_v1 ` snd ` set (ec1_events es))"
  shows "stored (events_v2_to_latest h (events_v1_to_latest es)) = upgrade_v1 ` snd ` set (ec1_events es)"
    and "hm_ok (ec_events (events_v2_to_latest h (events_v1_to_latest es)))"
    and "\<forall>p \<in> set (ec_events (events_v2_to_latest h (events_v1_to_latest es))). event_id h (snd p) = fst p"
proof -
  let ?two = "\<lambda>(k, v). (k, \<lparr>ev2_category = ev1_category v, ev2_src = ev1_src v,
         ev2_created = i64_to_f64 (ev1_created v), ev2_msg = ev1_msg v\<rparr>)"
  let ?now = "\<lambda>(k :: u256, v). let e = \<lparr>ev_category = ev2_category v, ev_src = ev2_src v,
         ev_created = f64_to_i64 (ev2_created v), ev_msg = ev2_msg v\<rparr> in (event_id h e, e)"
  let ?m2 = "hm_collect (map ?two (ec1_events es))"
  have keys: "map fst (map ?two (ec1_events es)) = map fst (ec1_events es)"
    by (auto simp: comp_def)
  have "set ?m2 = set (map ?two (ec1_events es))"
    by (rule set_hm_collect) (simp only: keys assms(1))
  then have m2: "set ?m2 = ?two ` set (ec1_events es)" by (simp only: set_map)
  have now: "?now (?two p) = (event_id h (upgrade_v1 (snd p)), upgrade_v1 (snd p))"
    if "p \<in> set (ec1_events es)" for p
    using that assms(2) by (cases p) (auto simp: times_exact_def f64_roundtrip upgrade_v1_def Let_def)
  have all: "set (map ?now ?m2) = (\<lambda>e. (event_id h e, e)) ` upgrade_v1 ` snd ` set (ec1_events es)"
  proof -
    have "set (map ?now ?m2) = (\<lambda>p. ?now (?two p)) ` set (ec1_events es)" by (simp add: m2 image_image)
    also have "\<dots> = (\<lambda>p. (event_id h (upgrade_v1 (snd p)), upgrade_v1 (snd p))) ` set (ec1_events es)"
      by (rule image_cong [OF refl now])
    finally show ?thesis by (simp add: image_image)
  qed
  let ?out = "hm_collect (map ?now ?m2)"
  have out: "ec_events (events_v2_to_latest h (events_v1_to_latest es)) = ?out"
    by (simp add: events_v2_to_latest_def events_v1_to_latest_def case_prod_unfold)
  show "hm_ok (ec_events (events_v2_to_latest h (events_v1_to_latest es)))"
    unfolding out by (rule hm_ok_collect)
  have sub: "set ?out \<subseteq> set (map ?now ?m2)" by (rule set_hm_collect_sub)
  show keyed: "\<forall>p \<in> set (ec_events (events_v2_to_latest h (events_v1_to_latest es))). event_id h (snd p) = fst p"
  proof
    fix p assume "p \<in> set (ec_events (events_v2_to_latest h (events_v1_to_latest es)))"
    then have "p \<in> (\<lambda>e. (event_id h e, e)) ` upgrade_v1 ` snd ` set (ec1_events es)"
      using sub unfolding out all by blast
    then show "event_id h (snd p) = fst p" by auto
  qed
  show "stored (events_v2_to_latest h (events_v1_to_latest es)) = upgrade_v1 ` snd ` set (ec1_events es)"
  proof
    show "stored (events_v2_to_latest h (events_v1_to_latest es)) \<subseteq> upgrade_v1 ` snd ` set (ec1_events es)"
      using image_mono [OF sub [unfolded all], of snd] unfolding stored_def out by (simp add: image_image)
    show "upgrade_v1 ` snd ` set (ec1_events es) \<subseteq> stored (events_v2_to_latest h (events_v1_to_latest es))"
    proof
      fix e assume e: "e \<in> upgrade_v1 ` snd ` set (ec1_events es)"
      then have "(event_id h e, e) \<in> set (map ?now ?m2)" unfolding all by blast
      then have "event_id h e \<in> fst ` set (map ?now ?m2)" by (rule image_eqI [rotated]) simp
      then have "event_id h e \<in> dom (map_of ?out)"
        by (simp add: map_of_hm_collect dom_map_of_conv_image_fst image_image)
      then obtain v where v: "map_of ?out (event_id h e) = Some v" by auto
      then have "(event_id h e, v) \<in> set (map ?now ?m2)" using sub map_of_SomeD [OF v] by auto
      then have "v \<in> upgrade_v1 ` snd ` set (ec1_events es)" "event_id h v = event_id h e"
        unfolding all by auto
      with inj_onD [OF assms(3)] e have "v = e" by blast
      then show "e \<in> stored (events_v2_to_latest h (events_v1_to_latest es))"
        unfolding stored_def out using map_of_SomeD [OF v] by force
    qed
  qed
qed

text \<open>
  Loading a store saved by the first version of the program loses no event, changes none
  and keys each by its identifier of today, although the times went through floating-point
  numbers in between, as long as they are below \<open>2 ^ 53\<close> and no two events collide.
\<close>

theorem migrate_v1_lossless:
  assumes "hm_ok (ec1_events es)" and "times_exact es"
    and "inj_on (event_id h) (upgrade_v1 ` snd ` set (ec1_events es))"
  shows "\<exists>es'. map_of (save_to_latest h (SaveV1 [(c, es)])) c = Some es' \<and>
    ec_config es' = ec1_config es \<and> stored es' = upgrade_v1 ` snd ` set (ec1_events es) \<and>
    hm_ok (ec_events es') \<and> (\<forall>p \<in> set (ec_events es'). event_id h (snd p) = fst p)"
proof -
  have "map_of (save_to_latest h (SaveV1 [(c, es)])) c = Some (events_v2_to_latest h (events_v1_to_latest es))"
    by (simp add: storage_v1_to_latest_def storage_v2_to_latest_def hm_collect_def)
  moreover have "ec_config (events_v2_to_latest h (events_v1_to_latest es)) = ec1_config es"
    by (simp add: events_v2_to_latest_def events_v1_to_latest_def)
  ultimately show ?thesis using migrate_events_v1 [OF assms] by blast
qed

theorem migrate_v1_lossless_witness:
  "\<exists>es'. map_of (save_to_latest toy_hash (SaveV1 [(TextMessage,
     \<lparr>ec1_config = \<lparr>unique = False, max_events = 5\<rparr>, ec1_events = [(u256_zero,
        \<lparr>ev1_category = TextMessage, ev1_src = u256_zero, ev1_created = 1700000000000, ev1_msg = ''hi''\<rparr>)]\<rparr>)])) TextMessage = Some es' \<and>
     stored es' = {\<lparr>ev_category = TextMessage, ev_src = u256_zero, ev_created = 1700000000000, ev_msg = ''hi''\<rparr>}"
proof -
  let ?v = "\<lparr>ev1_category = TextMessage, ev1_src = u256_zero, ev1_created = 1700000000000, ev1_msg = ''hi''\<rparr>"
  let ?es = "\<lparr>ec1_config = \<lparr>unique = False, max_events = 5\<rparr>, ec1_events = [(u256_zero, ?v)]\<rparr>"
  have a: "hm_ok (ec1_events ?es)" "times_exact ?es" by (simp_all add: times_exact_def)
  have b: "inj_on (event_id toy_hash) (upgrade_v1 ` snd ` set (ec1_events ?es))" by simp
  from migrate_v1_lossless [OF a b, of TextMessage] show ?thesis
    by (simp add: upgrade_v1_def) blast
qed

text \<open>Above \<open>2 ^ 53\<close> a time can change on the way.\<close>

lemma f64_rounds: "f64_to_i64 (i64_to_f64 (2 ^ 53 + 1)) = 2 ^ 53"
proof -
  have "bitlen (2 ^ 53 + 1) = 54"
    using bitlen_twopow_add_eq [where w = 53 and b = 1] by simp
  then show ?thesis by (simp add: i64_to_f64_def round_significand_def Let_def saturate_i64_def)
qed

subsection \<open>The state and the messages\<close>

datatype module_message =
    KnownEventIDs "u256 list" | EventsMsg "event list" | RequestEventIDs | RequestEvents "u256 list"

datatype gossip_in =
    GossipTick | FromNetwork u256 module_message | AddEvent event | UpdateNodeList node_ids

datatype gossip_out = ToNetwork u256 module_message | NewEvent event

record gossip =
  g_events :: events_storage
  g_saved :: events_storage
  g_id :: u256
  g_nodes :: node_ids
  g_outstanding :: "u256 list"
  g_ticks :: nat

definition gossip_new :: "u256 \<Rightarrow> events_storage option \<Rightarrow> gossip" where
  "gossip_new i loaded =
     (let evs = (case loaded of Some st \<Rightarrow> st | None \<Rightarrow> events_storage_new)
      in \<lparr>g_events = evs, g_saved = evs, g_id = i, g_nodes = [], g_outstanding = [], g_ticks = 0\<rparr>)"

definition store :: "gossip \<Rightarrow> gossip" where
  "store g = g\<lparr>g_saved := g_events g\<rparr>"

definition send_events :: "(bytes \<Rightarrow> u256) \<Rightarrow> u256 \<Rightarrow> event list \<Rightarrow> gossip \<Rightarrow> gossip_out list" where
  "send_events h src evs g =
     map (\<lambda>n. ToNetwork n (KnownEventIDs (map (event_id h) (filter (\<lambda>e. n \<noteq> ev_src e) evs))))
       (filter (\<lambda>n. n \<noteq> src \<and> n \<noteq> g_id g) (g_nodes g)) @ map NewEvent evs"

definition gossip_add_event :: "(bytes \<Rightarrow> u256) \<Rightarrow> event \<Rightarrow> gossip \<Rightarrow> gossip \<times> gossip_out list" where
  "gossip_add_event h e g =
     (let (st, modified) = add_event h e (g_events g); g' = g\<lparr>g_events := st\<rparr>
      in if modified then (store g', send_events h (g_id g) [e] g') else (g', []))"

text \<open>One pass: each event is taken off the outstanding ones, then added; the new ones are kept.\<close>

fun add_events :: "(bytes \<Rightarrow> u256) \<Rightarrow> event list \<Rightarrow> gossip \<Rightarrow> gossip \<times> event list" where
  "add_events h [] g = (g, [])"
| "add_events h (e # es) g =
     (let g1 = g\<lparr>g_outstanding := filter (\<lambda>os. os \<noteq> event_id h e) (g_outstanding g)\<rparr>;
          (st, modified) = add_event h e (g_events g1);
          (g2, new) = add_events h es (g1\<lparr>g_events := st\<rparr>)
      in (g2, if modified then e # new else new))"

definition node_list :: "node_ids \<Rightarrow> gossip \<Rightarrow> gossip \<times> gossip_out list" where
  "node_list ids g =
     (g\<lparr>g_nodes := ids\<rparr>,
      map (\<lambda>i. ToNetwork i RequestEventIDs) (filter (\<lambda>i. i \<notin> set (g_nodes g) \<and> i \<noteq> g_id g) ids))"

definition filter_known_events :: "(bytes \<Rightarrow> u256) \<Rightarrow> u256 list \<Rightarrow> gossip \<Rightarrow> u256 list" where
  "filter_known_events h ids g =
     filter (\<lambda>i. i \<notin> set (event_ids h (g_events g)) \<and> i \<notin> set (g_outstanding g)) ids"

definition node_known_event_ids :: "(bytes \<Rightarrow> u256) \<Rightarrow> u256 \<Rightarrow> u256 list \<Rightarrow> gossip \<Rightarrow> gossip \<times> gossip_out list" where
  "node_known_event_ids h src ids g =
     (let unknown = filter_known_events h ids g
      in if unknown \<noteq> []
         then (g\<lparr>g_outstanding := g_outstanding g @ unknown\<rparr>, [ToNetwork src (RequestEvents unknown)])
         else (g, []))"

definition node_events :: "(bytes \<Rightarrow> u256) \<Rightarrow> u256 \<Rightarrow> event list \<Rightarrow> gossip \<Rightarrow> gossip \<times> gossip_out list" where
  "node_events h src evs g =
     (let (g', new) = add_events h evs g; out = send_events h src new g'
      in (if new \<noteq> [] then store g' else g', out))"

definition node_request_events :: "(bytes \<Rightarrow> u256) \<Rightarrow> u256 \<Rightarrow> u256 list \<Rightarrow> gossip \<Rightarrow> gossip_out list" where
  "node_request_events h src ids g =
     (let evs = get_events_by_ids h ids (g_events g)
      in if evs \<noteq> [] then [ToNetwork src (EventsMsg evs)] else [])"

definition node_request_event_list :: "(bytes \<Rightarrow> u256) \<Rightarrow> u256 \<Rightarrow> gossip \<Rightarrow> gossip_out list" where
  "node_request_event_list h src g = [ToNetwork src (KnownEventIDs (event_ids h (g_events g)))]"

definition gossip_tick :: "gossip \<Rightarrow> gossip \<times> gossip_out list" where
  "gossip_tick g =
     (g\<lparr>g_outstanding := []\<rparr>, map (\<lambda>i. ToNetwork i RequestEventIDs) (g_nodes g))"

fun process_node_message ::
  "(bytes \<Rightarrow> u256) \<Rightarrow> u256 \<Rightarrow> module_message \<Rightarrow> gossip \<Rightarrow> gossip \<times> gossip_out list" where
  "process_node_message h src (KnownEventIDs ids) g = node_known_event_ids h src ids g"
| "process_node_message h src (EventsMsg evs) g = node_events h src evs g"
| "process_node_message h src (RequestEvents ids) g = (g, node_request_events h src ids g)"
| "process_node_message h src RequestEventIDs g = (g, node_request_event_list h src g)"

fun process_message :: "(bytes \<Rightarrow> u256) \<Rightarrow> gossip_in \<Rightarrow> gossip \<Rightarrow> gossip \<times> gossip_out list" where
  "process_message h GossipTick g =
     (let g' = g\<lparr>g_ticks := Suc (g_ticks g)\<rparr>
      in if 3 \<le> g_ticks g' then gossip_tick g' else (g', []))"
| "process_message h (FromNetwork src msg) g = process_node_message h src msg g"
| "process_message h (AddEvent e) g = gossip_add_event h e g"
| "process_message h (UpdateNodeList ids) g = node_list ids g"

fun process_messages :: "(bytes \<Rightarrow> u256) \<Rightarrow> gossip_in list \<Rightarrow> gossip \<Rightarrow> gossip \<times> gossip_out list" where
  "process_messages h [] g = (g, [])"
| "process_messages h (m # ms) g =
     (let (g1, out) = process_message h m g; (g2, out') = process_messages h ms g1 in (g2, out @ out'))"

subsection \<open>The contract of an event store\<close>

text \<open>What the message handlers rely on: adding keeps the store well-formed, adds nothing else,
  and is without effect for what is stored already.\<close>

locale event_store =
  fixes inv :: "'s \<Rightarrow> bool"
    and items :: "'s \<Rightarrow> 'e set"
    and add :: "'e \<Rightarrow> 's \<Rightarrow> 's \<times> bool"
  assumes add_inv: "inv s \<Longrightarrow> inv (fst (add e s))"
    and add_known: "inv s \<Longrightarrow> e \<in> items s \<Longrightarrow> add e s = (s, False)"
    and add_items: "inv s \<Longrightarrow> items (fst (add e s)) \<subseteq> insert e (items s)"
begin

fun batch :: "'e list \<Rightarrow> 's \<Rightarrow> 's \<times> 'e list" where
  "batch [] s = (s, [])"
| "batch (e # es) s =
     (let (s1, m) = add e s; (s2, new) = batch es s1 in (s2, if m then e # new else new))"

lemma batch_spec:
  "inv s \<Longrightarrow> inv (fst (batch es s)) \<and> items (fst (batch es s)) \<subseteq> items s \<union> set es \<and>
     set (snd (batch es s)) \<subseteq> set es"
proof (induction es arbitrary: s)
  case (Cons e es)
  obtain s1 m where r: "add e s = (s1, m)" by fastforce
  from Cons.IH [of s1] add_inv [OF Cons.prems, of e] add_items [OF Cons.prems, of e] r
  show ?case by (auto simp: Let_def split: prod.splits)
qed simp

lemma batch_known: "inv s \<Longrightarrow> set es \<subseteq> items s \<Longrightarrow> batch es s = (s, [])"
  by (induction es) (auto simp: add_known)

end

definition all_events :: "events_storage \<Rightarrow> event set" where
  "all_events st = (\<Union>p \<in> set st. stored (snd p))"

definition storage_ok :: "(bytes \<Rightarrow> u256) \<Rightarrow> events_storage \<Rightarrow> bool" where
  "storage_ok h st \<longleftrightarrow> hm_ok st \<and> (\<forall>p \<in> set st. events_ok h (snd p) \<and>
     (\<forall>e \<in> stored (snd p). ev_category e = fst p))"

lemma storage_new_ok: "storage_ok h events_storage_new"
  by (simp add: storage_ok_def events_storage_new_def events_ok_def stored_def)

lemma set_event_ids: "set (event_ids h st) = event_id h ` all_events st"
  by (simp add: event_ids_def all_events_def stored_def image_UN image_image case_prod_unfold)

lemma storage_ok_lookup:
  assumes "storage_ok h st" and "map_of st c = Some es"
  shows "events_ok h es" and "\<forall>e \<in> stored es. ev_category e = c" and "stored es \<subseteq> all_events st"
  using assms map_of_SomeD [OF assms(2)] by (force simp: storage_ok_def all_events_def)+

lemma all_events_cat:
  assumes "storage_ok h st" and "e \<in> all_events st"
  obtains es where "map_of st (ev_category e) = Some es" and "e \<in> stored es"
proof -
  from assms(2) obtain p where p: "p \<in> set st" "e \<in> stored (snd p)" by (auto simp: all_events_def)
  then have "fst p = ev_category e" using assms(1) by (auto simp: storage_ok_def)
  moreover have "map_of st (fst p) = Some (snd p)"
    using assms(1) p(1) by (intro map_of_is_SomeI) (auto simp: storage_ok_def)
  ultimately show ?thesis using that p(2) by simp
qed

lemma add_event_lookup:
  "map_of (fst (add_event h e st)) c =
     (if c = ev_category e then map_option (\<lambda>es. fst (insert_event h e es)) (map_of st c)
      else map_of st c)"
  by (auto simp: add_event_def Let_def split: option.splits prod.splits)

lemma add_event_spec:
  assumes "storage_ok h st"
  shows "storage_ok h (fst (add_event h e st)) \<and> all_events (fst (add_event h e st)) \<subseteq> insert e (all_events st)"
proof (cases "map_of st (ev_category e)")
  case None
  with assms show ?thesis by (auto simp: add_event_def)
next
  case (Some es)
  obtain es' m where r: "insert_event h e es = (es', m)" by fastforce
  define st' where "st' = AList.update (ev_category e) es' st"
  have res: "fst (add_event h e st) = st'" using Some r by (simp add: add_event_def st'_def)
  note ok = storage_ok_lookup [OF assms Some]
  have spec: "events_ok h es'" "stored es' \<subseteq> insert e (stored es)"
    using insert_event_spec [OF ok(1) r] by blast+
  have entry: "p = (ev_category e, es') \<or> p \<in> set st" if "p \<in> set st'" for p
    using that set_update [of "ev_category e" es' st] by (auto simp: st'_def)
  have "hm_ok st'" using assms by (simp add: st'_def storage_ok_def)
  moreover have "events_ok h (snd p) \<and> (\<forall>x \<in> stored (snd p). ev_category x = fst p)" if "p \<in> set st'" for p
    using entry [OF that]
  proof
    assume "p \<in> set st"
    then show ?thesis using assms by (simp add: storage_ok_def)
  qed (use spec ok(2) in auto)
  moreover have "stored (snd p) \<subseteq> insert e (all_events st)" if "p \<in> set st'" for p
    using entry [OF that]
  proof
    assume "p \<in> set st"
    then show ?thesis by (auto simp: all_events_def)
  qed (use spec ok(3) in auto)
  ultimately show ?thesis unfolding res storage_ok_def [of h st'] all_events_def [of st'] by blast
qed

lemma add_event_known:
  assumes "storage_ok h st" and "e \<in> all_events st"
  shows "add_event h e st = (st, False)"
proof -
  obtain es where es: "map_of st (ev_category e) = Some es" "e \<in> stored es"
    using all_events_cat [OF assms] .
  have "map_of (ec_events es) (event_id h e) \<noteq> None"
    using known_id [OF storage_ok_lookup(1) [OF assms(1) es(1)], of e] es(2) by auto
  then have "insert_event h e es = (es, False)" by (simp add: insert_event_def)
  moreover have "AList.update (ev_category e) es st = st" using es(1) by (simp add: update_triv)
  ultimately show ?thesis using es(1) by (simp add: add_event_def)
qed

interpretation gs: event_store "storage_ok h" all_events "add_event h" for h
  by unfold_locales (auto simp: add_event_spec add_event_known dest: add_event_spec)


subsection \<open>The handlers\<close>

lemma add_events_batch:
  "add_events h es g =
     (g\<lparr>g_events := fst (gs.batch h es (g_events g)),
        g_outstanding := filter (\<lambda>os. os \<notin> event_id h ` set es) (g_outstanding g)\<rparr>,
      snd (gs.batch h es (g_events g)))"
proof (induction es arbitrary: g)
  case (Cons e es)
  show ?case
    by (auto simp: Cons.IH Let_def split: prod.splits intro!: filter_cong)
qed simp

lemma add_event_unmodified: "storage_ok h st \<Longrightarrow> add_event h e st = (st', False) \<Longrightarrow> st' = st"
proof (cases "map_of st (ev_category e)")
  case (Some es)
  assume ok: "storage_ok h st" and r: "add_event h e st = (st', False)"
  from r Some obtain es' where i: "insert_event h e es = (es', False)" "st' = AList.update (ev_category e) es' st"
    by (auto simp: add_event_def split: prod.splits)
  then have "es' = es" using insert_event_spec [OF storage_ok_lookup(1) [OF ok Some] i(1)] by blast
  with i(2) Some show ?thesis by (simp add: update_triv)
qed (simp add: add_event_def)

lemma batch_unmodified: "storage_ok h st \<Longrightarrow> snd (gs.batch h es st) = [] \<Longrightarrow> fst (gs.batch h es st) = st"
proof (induction es arbitrary: st)
  case (Cons e es)
  obtain st1 m where r: "add_event h e st = (st1, m)" by fastforce
  with Cons.prems have m: "\<not> m" by (auto split: prod.splits if_splits)
  with r have "st1 = st" using add_event_unmodified [OF Cons.prems(1)] by simp
  with Cons r m show ?case by (auto split: prod.splits)
qed simp

definition gossip_ok :: "(bytes \<Rightarrow> u256) \<Rightarrow> gossip \<Rightarrow> bool" where
  "gossip_ok h g \<longleftrightarrow> storage_ok h (g_events g) \<and> g_saved g = g_events g"

definition received :: "gossip_in list \<Rightarrow> event set" where
  "received ms = {e. AddEvent e \<in> set ms \<or> (\<exists>src evs. FromNetwork src (EventsMsg evs) \<in> set ms \<and> e \<in> set evs)}"

definition announced :: "gossip_out list \<Rightarrow> event set" where
  "announced out = {e. NewEvent e \<in> set out}"

lemma announced_simps [simp]: "announced [] = {}" "announced (NewEvent e # out) = insert e (announced out)"
  "announced (ToNetwork n m # out) = announced out" "announced (out @ out') = announced out \<union> announced out'"
  by (auto simp: announced_def)

lemma announced_network [simp]: "announced (map (\<lambda>n. ToNetwork (f n) (m n)) ns) = {}"
  by (auto simp: announced_def)

lemma announced_send: "announced (send_events h src evs g) = set evs"
  by (auto simp: send_events_def announced_def)

lemma received_Cons: "received (m # ms) = received [m] \<union> received ms"
  by (auto simp: received_def)

lemma received_simps [simp]: "received [] = {}" "received [AddEvent e] = {e}" "received [FromNetwork src (EventsMsg evs)] = set evs"
  by (auto simp: received_def)

lemma node_events_ok:
  assumes "gossip_ok h g" and "node_events h src evs g = (g', out)"
  shows "gossip_ok h g' \<and> announced out \<subseteq> set evs \<and> all_events (g_events g') \<subseteq> all_events (g_events g) \<union> set evs"
proof -
  have ok: "storage_ok h (g_events g)" using assms(1) by (simp add: gossip_ok_def)
  from gs.batch_spec [OF ok, of evs] batch_unmodified [OF ok, of evs] assms show ?thesis
    by (auto simp: node_events_def add_events_batch Let_def gossip_ok_def store_def announced_send
        split: if_splits)
qed

lemma gossip_add_event_ok:
  assumes "gossip_ok h g" and "gossip_add_event h e g = (g', out)"
  shows "gossip_ok h g' \<and> announced out \<subseteq> {e} \<and> all_events (g_events g') \<subseteq> insert e (all_events (g_events g))"
proof -
  obtain st m where r: "add_event h e (g_events g) = (st, m)" by fastforce
  have ok: "storage_ok h (g_events g)" using assms(1) by (simp add: gossip_ok_def)
  from add_event_spec [OF ok, of e] add_event_unmodified [OF ok, of e] assms r show ?thesis
    by (auto simp: gossip_add_event_def gossip_ok_def store_def announced_send Let_def split: if_splits)
qed

lemma process_message_ok:
  assumes "gossip_ok h g" and "process_message h m g = (g', out)"
  shows "gossip_ok h g' \<and> announced out \<subseteq> received [m] \<and>
    all_events (g_events g') \<subseteq> all_events (g_events g) \<union> received [m] \<and> g_id g' = g_id g"
proof (cases m)
  case GossipTick
  with assms show ?thesis by (auto simp: gossip_tick_def gossip_ok_def Let_def split: if_splits)
next
  case (FromNetwork src msg)
  show ?thesis
  proof (cases msg)
    case (KnownEventIDs ids)
    with assms FromNetwork show ?thesis
      by (auto simp: node_known_event_ids_def gossip_ok_def Let_def split: if_splits)
  next
    case (EventsMsg evs)
    then have r: "node_events h src evs g = (g', out)" using assms(2) FromNetwork by simp
    have "g_id g' = g_id g" using r by (auto simp: node_events_def add_events_batch store_def Let_def)
    with node_events_ok [OF assms(1) r] FromNetwork EventsMsg show ?thesis by simp
  qed (use assms FromNetwork in \<open>auto simp: node_request_event_list_def node_request_events_def Let_def split: if_splits\<close>)
next
  case (AddEvent e)
  then have r: "gossip_add_event h e g = (g', out)" using assms(2) by simp
  have "g_id g' = g_id g" using r by (auto simp: gossip_add_event_def store_def Let_def split: prod.splits if_splits)
  with gossip_add_event_ok [OF assms(1) r] AddEvent show ?thesis by simp
next
  case (UpdateNodeList ids)
  with assms show ?thesis by (auto simp: node_list_def gossip_ok_def)
qed

lemma process_messages_inv:
  "gossip_ok h g \<Longrightarrow> process_messages h ms g = (g', out) \<Longrightarrow>
     gossip_ok h g' \<and> announced out \<subseteq> received ms \<and>
     all_events (g_events g') \<subseteq> all_events (g_events g) \<union> received ms \<and> g_id g' = g_id g"
proof (induction ms arbitrary: g g' out)
  case (Cons m ms)
  obtain g1 o1 where r1: "process_message h m g = (g1, o1)" by fastforce
  obtain g2 o2 where r2: "process_messages h ms g1 = (g2, o2)" by fastforce
  have "g' = g2" "out = o1 @ o2" using Cons.prems(2) r1 r2 by auto
  with process_message_ok [OF Cons.prems(1) r1] Cons.IH [OF _ r2] show ?case
    unfolding received_Cons [of m ms] by auto
qed simp

text \<open>
  Whatever messages arrive, in whatever order, the store of a node stays well-formed, what
  it publishes is what it holds, and every event it holds or reports was loaded or received.
\<close>

theorem gossip_messages_ok:
  assumes "storage_ok h (case loaded of Some st \<Rightarrow> st | None \<Rightarrow> events_storage_new)"
    and "process_messages h ms (gossip_new i loaded) = (g, out)"
  shows "storage_ok h (g_events g) \<and> g_saved g = g_events g \<and> g_id g = i \<and> announced out \<subseteq> received ms \<and>
    all_events (g_events g) \<subseteq> all_events (case loaded of Some st \<Rightarrow> st | None \<Rightarrow> events_storage_new) \<union> received ms"
proof -
  have "gossip_ok h (gossip_new i loaded)" using assms(1) by (simp add: gossip_new_def gossip_ok_def Let_def)
  from process_messages_inv [OF this assms(2)] show ?thesis by (simp add: gossip_ok_def gossip_new_def Let_def)
qed

theorem gossip_messages_ok_witness:
  "storage_ok toy_hash (g_events (fst (process_messages toy_hash
     [UpdateNodeList [u256_zero], AddEvent (toy_event TextMessage 1), GossipTick,
      FromNetwork u256_zero (EventsMsg [toy_event NodeInfo 2])] (gossip_new u256_zero None))))"
proof -
  let ?ms = "[UpdateNodeList [u256_zero], AddEvent (toy_event TextMessage 1), GossipTick,
      FromNetwork u256_zero (EventsMsg [toy_event NodeInfo 2])]"
  obtain g out where r: "process_messages toy_hash ?ms (gossip_new u256_zero None) = (g, out)" by fastforce
  have "storage_ok toy_hash (case None of Some st \<Rightarrow> st | None \<Rightarrow> events_storage_new)"
    by (simp add: storage_new_ok)
  from gossip_messages_ok [OF this r] show ?thesis unfolding r by simp
qed


subsection \<open>A round between two nodes\<close>

definition sent_to :: "u256 \<Rightarrow> gossip_out list \<Rightarrow> module_message list" where
  "sent_to n out = List.map_filter (\<lambda>msg. case msg of ToNetwork d m \<Rightarrow> if d = n then Some m else None | NewEvent _ \<Rightarrow> None) out"

text \<open>
  Node \<open>a\<close> asks \<open>b\<close> for its event identifiers, as every tick does; each message is delivered
  in turn: \<open>KnownEventIDs\<close>, \<open>RequestEvents\<close> and \<open>Events\<close>.
\<close>

definition deliver :: "(bytes \<Rightarrow> u256) \<Rightarrow> u256 \<Rightarrow> u256 \<Rightarrow> gossip_out list \<Rightarrow> gossip \<Rightarrow> gossip \<times> gossip_out list" where
  "deliver h from to out g = process_messages h (map (FromNetwork from) (sent_to to out)) g"

definition gossip_round :: "(bytes \<Rightarrow> u256) \<Rightarrow> gossip \<Rightarrow> gossip \<Rightarrow> gossip \<times> gossip" where
  "gossip_round h a b =
     (let (b1, known) = deliver h (g_id a) (g_id b) [ToNetwork (g_id b) RequestEventIDs] b;
          (a1, wanted) = deliver h (g_id b) (g_id a) known a;
          (b2, evs) = deliver h (g_id a) (g_id b) wanted b1;
          (a2, _) = deliver h (g_id b) (g_id a) evs a1
      in (a2, b2))"

lemma sent_to_simps [simp]: "sent_to n [] = []"
  "sent_to n (ToNetwork d m # out) = (if d = n then m # sent_to n out else sent_to n out)"
  by (auto simp: sent_to_def map_filter_simps)

lemma newest_finite: "finite T \<Longrightarrow> finite (newest n T)"
  by (rule finite_subset [of _ T]) (auto simp: newest_def)

lemma newest_union: "finite X \<Longrightarrow> finite T \<Longrightarrow> newest n (X \<union> newest n T) = newest n (X \<union> T)"
proof (induction X rule: finite_induct)
  case empty
  have "newest n (insert e (newest n T)) = newest n (insert e T)" for e
    by (rule newest_insert [OF empty])
  show ?case
  proof (cases "T = {}")
    case False
    then obtain e where "e \<in> T" by blast
    have sub: "newest n T \<subseteq> T" by (auto simp: newest_def)
    show ?thesis
    proof (cases "newest n T = {}")
      case True
      moreover have "newest n {} = {}" by (simp add: newest_def)
      ultimately show ?thesis by simp
    next
      case False
      then obtain e where "e \<in> newest n T" by blast
      with sub newest_insert [OF empty, of n e] show ?thesis by (simp add: insert_absorb subsetD)
    qed
  qed (simp add: newest_def)
next
  case (insert x X)
  have fin: "finite (X \<union> newest n T)" "finite (X \<union> T)"
    using insert.hyps insert.prems newest_finite by auto
  have "newest n (insert x X \<union> newest n T) = newest n (insert x (newest n (X \<union> newest n T)))"
    using newest_insert [OF fin(1), of n x] by simp
  also have "\<dots> = newest n (insert x (X \<union> T))"
    using insert newest_insert [OF fin(2), of n x] by simp
  finally show ?case by simp
qed

lemma set_map_filter: "set (List.map_filter f xs) = {y. \<exists>x \<in> set xs. f x = Some y}"
  by (induction xs) (auto simp: map_filter_simps split: option.splits)

lemma set_events_by_ids:
  assumes "events_ok h es"
  shows "set (events_by_ids h ids es) = {e \<in> stored es. event_id h e \<in> set ids}"
proof (cases "unique (ec_config es)")
  case True
  then show ?thesis by (auto simp: events_by_ids_def stored_def)
next
  case False
  have "map_of (ec_events es) i = Some e \<longleftrightarrow> e \<in> stored es \<and> event_id h e = i" for i e
    using assms by (force simp: events_ok_def stored_def map_of_set_iff [symmetric])
  then have "set (List.map_filter (map_of (ec_events es)) ids) = {e \<in> stored es. event_id h e \<in> set ids}"
    by (auto simp: set_map_filter)
  with False show ?thesis by (simp add: events_by_ids_def)
qed

lemma set_get_events_by_ids:
  assumes "storage_ok h st"
  shows "set (get_events_by_ids h ids st) = {e \<in> all_events st. event_id h e \<in> set ids}"
proof -
  have "set (events_by_ids h ids (snd p)) = {e \<in> stored (snd p). event_id h e \<in> set ids}" if "p \<in> set st" for p
    using assms that by (intro set_events_by_ids) (simp add: storage_ok_def)
  then show ?thesis by (auto simp: get_events_by_ids_def all_events_def case_prod_unfold)
qed

lemma batch_lookup:
  "map_of st c = Some es \<Longrightarrow>
     map_of (fst (gs.batch h evs st)) c = Some (insert_all h (filter (\<lambda>e. ev_category e = c) evs) es)"
proof (induction evs arbitrary: st es)
  case (Cons e evs)
  obtain st1 m where r: "add_event h e st = (st1, m)" by fastforce
  have "map_of st1 c = Some (if c = ev_category e then fst (insert_event h e es) else es)"
    using add_event_lookup [of h e st c] r Cons.prems by auto
  from Cons.IH [OF this] r show ?case
    by (auto simp: insert_all_def split: prod.splits)
qed (simp add: insert_all_def)


text \<open>What a round does to the store of the node that asked.\<close>

lemma gossip_round_spec:
  assumes ok: "storage_ok h (g_events a)" "storage_ok h (g_events b)" and idle: "g_outstanding a = []"
  shows "\<exists>evs. g_events (fst (gossip_round h a b)) = fst (gs.batch h evs (g_events a)) \<and>
      set evs = {e \<in> all_events (g_events b). event_id h e \<notin> event_id h ` all_events (g_events a)} \<and>
      g_events (snd (gossip_round h a b)) = g_events b"
proof -
  let ?ids = "filter (\<lambda>i. i \<notin> set (event_ids h (g_events a))) (event_ids h (g_events b))"
  let ?evs = "get_events_by_ids h ?ids (g_events b)"
  have evs: "set ?evs = {e \<in> all_events (g_events b). event_id h e \<notin> event_id h ` all_events (g_events a)}"
    using set_get_events_by_ids [OF ok(2), of ?ids] by (auto simp: set_event_ids)
  have "g_events (fst (gossip_round h a b)) = fst (gs.batch h ?evs (g_events a)) \<and>
      g_events (snd (gossip_round h a b)) = g_events b"
  proof (cases "?ids = []")
    case True
    then have "?evs = []" using set_get_events_by_ids [OF ok(2), of ?ids] by auto
    with True idle show ?thesis
      by (simp add: gossip_round_def deliver_def node_request_event_list_def node_known_event_ids_def
          filter_known_events_def)
  next
    case False
    show ?thesis
      using False idle
      by (auto simp: gossip_round_def deliver_def node_request_event_list_def node_known_event_ids_def
          filter_known_events_def node_request_events_def node_events_def add_events_batch store_def Let_def
          split: if_splits)
  qed
  with evs show ?thesis by blast
qed

text \<open>
  C13. A round of gossip merges: when a node asks another one for its events and all messages
  are delivered, it holds the newest text messages, as many as the bound allows, of everything
  the two were ever offered, although each had dropped messages before; the other node's store
  is unchanged (no two events with the same identifier, no two messages with the same time).
\<close>

theorem gossip_round_merges:
  assumes "storage_ok h (g_events a)" and "storage_ok h (g_events b)" and "g_outstanding a = []"
    and "map_of (g_events a) TextMessage = Some ea" and "map_of (g_events b) TextMessage = Some eb"
    and "\<not> unique (ec_config ea)" and "ec_config eb = ec_config ea"
    and "finite TA" and "finite TB"
    and "stored ea = newest (max_events (ec_config ea)) TA"
    and "stored eb = newest (max_events (ec_config eb)) TB"
    and "inj_on (event_id h) (all_events (g_events a) \<union> all_events (g_events b) \<union> TA \<union> TB)"
    and "inj_on ev_created (TA \<union> TB)"
  shows "\<exists>es. map_of (g_events (fst (gossip_round h a b))) TextMessage = Some es \<and>
    stored es = newest (max_events (ec_config ea)) (TA \<union> TB) \<and>
    g_events (snd (gossip_round h a b)) = g_events b"
proof -
  let ?n = "max_events (ec_config ea)"
  obtain evs where evs: "g_events (fst (gossip_round h a b)) = fst (gs.batch h evs (g_events a))"
    "set evs = {e \<in> all_events (g_events b). event_id h e \<notin> event_id h ` all_events (g_events a)}"
    "g_events (snd (gossip_round h a b)) = g_events b"
    using gossip_round_spec [OF assms(1-3)] by blast
  let ?xs = "filter (\<lambda>e. ev_category e = TextMessage) evs"
  have texts: "e \<in> stored ex" if "storage_ok h st" "map_of st TextMessage = Some ex" "e \<in> all_events st"
      "ev_category e = TextMessage" for st ex e
    using all_events_cat [OF that(1,3)] that(2,4) by auto
  have sub: "stored ea \<subseteq> TA" "stored eb \<subseteq> TB" using assms(10,11) by (auto simp: newest_def)
  have xs: "TA \<union> set ?xs = TA \<union> stored eb"
  proof -
    have "set ?xs \<subseteq> stored eb" using evs(2) texts [OF assms(2,5)] by auto
    moreover have "e \<in> TA \<union> set ?xs" if "e \<in> stored eb" for e
    proof (cases "e \<in> all_events (g_events a)")
      case True
      have "ev_category e = TextMessage" using storage_ok_lookup(2) [OF assms(2,5)] that by blast
      with texts [OF assms(1,4) True] sub(1) show ?thesis by auto
    next
      case False
      have eb: "e \<in> all_events (g_events b)" using storage_ok_lookup(3) [OF assms(2,5)] that by blast
      then have "event_id h e \<notin> event_id h ` all_events (g_events a)"
        using False inj_onD [OF assms(12), of e] by auto
      with eb storage_ok_lookup(2) [OF assms(2,5)] that show ?thesis by (auto simp: evs(2))
    qed
    ultimately show ?thesis by auto
  qed
  have "TA \<union> set ?xs \<subseteq> all_events (g_events a) \<union> all_events (g_events b) \<union> TA \<union> TB" "TA \<union> set ?xs \<subseteq> TA \<union> TB"
    using xs sub(2) by auto
  then have inj: "inj_on (event_id h) (TA \<union> set ?xs)" "inj_on ev_created (TA \<union> set ?xs)"
    using inj_on_subset assms(12,13) by blast+
  have "stored (insert_all h ?xs ea) = newest ?n (TA \<union> set ?xs)"
    by (rule insert_all_newest [OF storage_ok_lookup(1) [OF assms(1,4)] assms(6,10,8) inj])
  also have "\<dots> = newest ?n (TA \<union> TB)"
    unfolding xs using newest_union [OF assms(8,9)] assms(7,11) by simp
  finally show ?thesis
    using batch_lookup [OF assms(4), of h evs] evs(1,3) by simp
qed


definition toy_node :: "nat \<Rightarrow> gossip" where
  "toy_node n = gossip_new (U256 [word_of_nat n]) (Some [(TextMessage,
     \<lparr>ec_config = \<lparr>unique = False, max_events = 1\<rparr>,
      ec_events = [(event_id toy_hash (toy_event TextMessage n), toy_event TextMessage n)]\<rparr>)])"

lemma toy_node_facts:
  "storage_ok toy_hash (g_events (toy_node n))" "g_outstanding (toy_node n) = []"
  "map_of (g_events (toy_node n)) TextMessage = Some \<lparr>ec_config = \<lparr>unique = False, max_events = 1\<rparr>,
      ec_events = [(event_id toy_hash (toy_event TextMessage n), toy_event TextMessage n)]\<rparr>"
  "all_events (g_events (toy_node n)) = {toy_event TextMessage n}"
  by (simp_all add: toy_node_def gossip_new_def Let_def storage_ok_def events_ok_def stored_def all_events_def toy_event_def)

theorem gossip_round_merges_witness:
  "\<exists>es. map_of (g_events (fst (gossip_round toy_hash (toy_node 1) (toy_node 2)))) TextMessage = Some es \<and>
     stored es = newest 1 {toy_event TextMessage 1, toy_event TextMessage 2}"
proof -
  let ?e = "toy_event TextMessage" and ?es = "\<lambda>n. \<lparr>ec_config = \<lparr>unique = False, max_events = 1\<rparr>,
      ec_events = [(event_id toy_hash (toy_event TextMessage n), toy_event TextMessage n)]\<rparr>"
  have st: "stored (?es n) = newest (max_events (ec_config (?es n))) {?e n}" for n
    by (simp add: stored_def newest_all)
  have "event_id toy_hash (?e 1) \<noteq> event_id toy_hash (?e 2)"
    by (simp add: event_id_def toy_event_def toy_hash_def le_bytes8_def str_bytes_def upt_rec)
  then have inj: "inj_on (event_id toy_hash)
      (all_events (g_events (toy_node 1)) \<union> all_events (g_events (toy_node 2)) \<union> {?e 1} \<union> {?e 2})"
    by (auto simp: toy_node_facts(4))
  have "inj_on ev_created ({?e 1} \<union> {?e 2})" by (simp add: toy_event_def)
  from gossip_round_merges [OF toy_node_facts(1) toy_node_facts(1) toy_node_facts(2) toy_node_facts(3) toy_node_facts(3)
      _ _ _ _ st st inj this]
  show ?thesis by (auto simp: insert_commute)
qed

end
