(* ===== verification/RandomConnections.thy ===== *)
theory RandomConnections
  imports Complex_Main NodeInfo RouterMsg
begin

text \<open>
  The module that keeps a node connected to some random others,
  \<open>flmodules/src/random_connections\<close>: the lists of nodes with their age (\<open>nodes.rs\<close>), the storage
  that chooses new connections (\<open>core.rs\<close>) and the message handlers (\<open>messages.rs\<close>).

  The choice of random elements (\<open>choose_multiple\<close> of the crate \<open>rand\<close>) is the parameter \<open>pick\<close>:
  a seed, which comes with each message, the number of elements and the list. The number of nodes
  needed is a logarithm, taken here in the reals. Ages are 32-bit numbers that wrap around.
\<close>

subsection \<open>Nodes with their age\<close>

record node_time =
  nt_id :: u256
  nt_ticks :: u32

type_synonym aged = "node_time list"

definition get_nodes :: "aged \<Rightarrow> node_ids" where
  "get_nodes ns = map nt_id ns"

definition nodes_remove_missing :: "node_ids \<Rightarrow> aged \<Rightarrow> aged \<times> node_ids" where
  "nodes_remove_missing nodes ns =
     (let removed = snd (ids_remove_missing (get_nodes ns) nodes)
      in (filter (\<lambda>nt. nt_id nt \<notin> set removed) ns, removed))"

definition nodes_remove :: "node_ids \<Rightarrow> aged \<Rightarrow> aged" where
  "nodes_remove nodes ns = filter (\<lambda>nt. nt_id nt \<notin> set nodes) ns"

definition nodes_contains :: "u256 \<Rightarrow> aged \<Rightarrow> bool" where
  "nodes_contains node ns \<longleftrightarrow> node \<in> set (get_nodes ns)"

definition nodes_add_new :: "node_ids \<Rightarrow> aged \<Rightarrow> aged" where
  "nodes_add_new nodes ns =
     (let nodes_new = filter (\<lambda>n. \<not> nodes_contains n ns) nodes
      in ns @ map (\<lambda>n. \<lparr>nt_id = n, nt_ticks = 0\<rparr>) nodes_new)"

definition remove_oldest_n :: "nat \<Rightarrow> aged \<Rightarrow> aged \<times> node_ids" where
  "remove_oldest_n n ns =
     (let sorted_ns = sort_key (\<lambda>nt. - uint (nt_ticks nt)) ns; m = min n (length sorted_ns)
      in (drop m sorted_ns, map nt_id (take m sorted_ns)))"

definition remove_newest_n :: "nat \<Rightarrow> aged \<Rightarrow> aged \<times> node_ids" where
  "remove_newest_n n ns =
     (let sorted_ns = sort_key (\<lambda>nt. uint (nt_ticks nt)) ns; m = min n (length sorted_ns)
      in (drop m sorted_ns, map nt_id (take m sorted_ns)))"

definition keep_newest_n :: "nat \<Rightarrow> aged \<Rightarrow> aged \<times> node_ids" where
  "keep_newest_n n ns = (if n < length ns then remove_oldest_n (length ns - n) ns else (ns, []))"

definition keep_oldest_n :: "nat \<Rightarrow> aged \<Rightarrow> aged \<times> node_ids" where
  "keep_oldest_n n ns = (if n < length ns then remove_newest_n (length ns - n) ns else (ns, []))"

definition sorted_nodes :: "bool \<Rightarrow> aged \<Rightarrow> aged" where
  "sorted_nodes rising ns =
     (let s = sort_key (\<lambda>nt. uint (nt_ticks nt)) ns in if rising then s else rev s)"

definition oldest_ticks :: "u32 \<Rightarrow> aged \<Rightarrow> node_ids" where
  "oldest_ticks ticks ns = map nt_id (takeWhile (\<lambda>nt. ticks \<le> nt_ticks nt) (sorted_nodes False ns))"

definition count_expired :: "u32 \<Rightarrow> aged \<Rightarrow> nat" where
  "count_expired ticks ns = fold (\<lambda>nt a. if ticks \<le> nt_ticks nt then a + 1 else a) ns 0"

definition remove_oldest_ticks :: "u32 \<Rightarrow> aged \<Rightarrow> aged \<times> node_ids" where
  "remove_oldest_ticks ticks ns = (let nodes = oldest_ticks ticks ns in (drop (length nodes) ns, nodes))"

definition nodes_tick :: "aged \<Rightarrow> aged" where
  "nodes_tick ns = map (\<lambda>nt. nt\<lparr>nt_ticks := nt_ticks nt + 1\<rparr>) ns"

subsection \<open>The storage\<close>

record random_storage =
  rs_connected :: aged
  rs_connecting :: aged
  rs_known :: node_ids
  rs_infos :: "node_info list"

definition random_storage_default :: random_storage where
  "random_storage_default = \<lparr>rs_connected = [], rs_connecting = [], rs_known = [], rs_infos = []\<rparr>"

definition new_list :: "node_ids \<Rightarrow> random_storage \<Rightarrow> random_storage" where
  "new_list ids s = s\<lparr>rs_known := ids_merge (rs_known s) ids\<rparr>"

text \<open>
  \<open>unique\<close> keeps the first of equal elements. It compares hashes before identifiers, and the hash
  of a description is that of all its fields.
\<close>

definition unique :: "'a list \<Rightarrow> 'a list" where
  "unique xs = rev (remdups (rev xs))"

definition new_infos :: "node_info list \<Rightarrow> random_storage \<Rightarrow> (unit, random_storage) outcome" where
  "new_infos infos s =
     bind_outcome (get_ids infos) (\<lambda>ids. let s1 = new_list ids s in Ok (s1\<lparr>rs_infos := unique (rs_infos s1 @ infos)\<rparr>))"

fun filter_infos :: "aged \<Rightarrow> node_info list \<Rightarrow> (unit, node_info list) outcome" where
  "filter_infos ns [] = Ok []"
| "filter_infos ns (ni # nis) =
     bind_outcome (get_id ni) (\<lambda>i. bind_outcome (filter_infos ns nis) (\<lambda>rest.
       Ok (if nodes_contains i ns then ni # rest else rest)))"

definition get_connected_info :: "random_storage \<Rightarrow> (unit, node_info list) outcome" where
  "get_connected_info s = filter_infos (rs_connected s) (rs_infos s)"

definition rs_connect :: "node_ids \<Rightarrow> random_storage \<Rightarrow> random_storage" where
  "rs_connect nodes s =
     new_list nodes (s\<lparr>rs_connected := nodes_add_new nodes (rs_connected s),
                       rs_connecting := nodes_remove nodes (rs_connecting s)\<rparr>)"

definition rs_disconnect :: "node_ids \<Rightarrow> random_storage \<Rightarrow> random_storage" where
  "rs_disconnect nodes s =
     s\<lparr>rs_known := fst (ids_remove_existing (rs_known s) nodes),
       rs_connected := nodes_remove nodes (rs_connected s), rs_connecting := nodes_remove nodes (rs_connecting s)\<rparr>"

definition connecting :: "node_ids \<Rightarrow> random_storage \<Rightarrow> random_storage" where
  "connecting nodes s =
     new_list nodes (s\<lparr>rs_connecting := nodes_add_new nodes (rs_connecting s),
                       rs_connected := nodes_remove nodes (rs_connected s)\<rparr>)"

definition total_len :: "random_storage \<Rightarrow> nat" where
  "total_len s = length (rs_connected s) + length (rs_connecting s)"

definition failure :: "node_ids \<Rightarrow> random_storage \<Rightarrow> random_storage" where
  "failure nodes s =
     s\<lparr>rs_connecting := nodes_remove nodes (rs_connecting s), rs_connected := nodes_remove nodes (rs_connected s),
       rs_known := fst (ids_remove_existing (rs_known s) nodes)\<rparr>"

definition rs_tick :: "random_storage \<Rightarrow> random_storage" where
  "rs_tick s = s\<lparr>rs_connected := nodes_tick (rs_connected s), rs_connecting := nodes_tick (rs_connecting s)\<rparr>"

type_synonym pick = "nat \<Rightarrow> nat \<Rightarrow> node_ids \<Rightarrow> node_ids"

definition choose_new :: "pick \<Rightarrow> nat \<Rightarrow> nat \<Rightarrow> random_storage \<Rightarrow> random_storage \<times> node_ids" where
  "choose_new pick seed nodes s =
     (let unused = fst (ids_remove_existing (rs_known s) (get_nodes (rs_connected s)));
          unused = fst (ids_remove_existing unused (get_nodes (rs_connecting s)));
          chosen = pick seed (min nodes (length unused)) unused
      in (connecting chosen s, chosen))"

definition nodes_needed :: "random_storage \<Rightarrow> nat" where
  "nodes_needed s =
     (let nodes = length (rs_known s)
      in if nodes \<le> 1 then nodes else nat \<lceil>ln (real nodes) * 2\<rceil>)"

definition fill_up :: "pick \<Rightarrow> nat \<Rightarrow> random_storage \<Rightarrow> random_storage \<times> node_ids" where
  "fill_up pick seed s = choose_new pick seed ((nodes_needed s + 1) div 2 - total_len s) s"

definition limit_active :: "u32 \<Rightarrow> random_storage \<Rightarrow> random_storage \<times> node_ids" where
  "limit_active churn s =
     (let max_connected = nodes_needed s * 2;
          ids1 = (if total_len s > max_connected then ids_merge [] (oldest_ticks churn (rs_connected s)) else []);
          (s1, ids2) = (if total_len s - length ids1 > max_connected
             then let (c, removed) = keep_oldest_n (max_connected + length ids1) (rs_connected s)
                  in (s\<lparr>rs_connected := c\<rparr>, ids_merge ids1 removed)
             else (s, ids1))
      in (rs_disconnect ids2 s1, ids2))"

subsection \<open>Messages\<close>

datatype rc_message = RcModule network_wrapper | DropConnection

datatype random_in =
    NodeListIn "node_info list" | NodeFailure u256 | NodeConnected u256 | NodeDisconnected u256
  | NodeCommFromNetwork u256 rc_message | RcWrapperToNetwork u256 network_wrapper | RcTick

datatype random_out =
    ConnectNode u256 | DisconnectNode u256 | RcNodeIDsConnected node_ids
  | RcNodeInfosConnected "node_info list" | NodeCommToNetwork u256 rc_message
  | RcWrapperFromNetwork u256 network_wrapper

record random_config =
  churn_connected :: u32
  connecting_timeout :: u32
  fill_connected :: u32

record random_module =
  rc_id :: u256
  rc_cfg :: random_config
  rc_storage :: random_storage
  rc_published :: random_storage
  rc_fill :: u32

definition random_config_default :: random_config where
  "random_config_default = \<lparr>churn_connected = 60 * 60, connecting_timeout = 10, fill_connected = 10\<rparr>"

definition random_new :: "u256 \<Rightarrow> random_module" where
  "random_new i = \<lparr>rc_id = i, rc_cfg = random_config_default, rc_storage = random_storage_default,
     rc_published = random_storage_default, rc_fill = 0\<rparr>"

definition connected_msg :: "random_module \<Rightarrow> (unit, random_out list) outcome" where
  "connected_msg r = bind_outcome (get_connected_info (rc_storage r)) (\<lambda>infos.
     Ok [RcNodeIDsConnected (get_nodes (rs_connected (rc_storage r))), RcNodeInfosConnected infos])"

definition disconnect_msg :: "u256 \<Rightarrow> random_module \<Rightarrow> (unit, random_out list) outcome" where
  "disconnect_msg dst r = bind_outcome (connected_msg r) (\<lambda>out. Ok (out @ [DisconnectNode dst]))"

definition new_connection :: "pick \<Rightarrow> nat \<Rightarrow> random_module \<Rightarrow> random_module \<times> random_out list" where
  "new_connection pick seed r =
     (let (s, ids) = fill_up pick seed (rc_storage r) in (r\<lparr>rc_storage := s\<rparr>, map ConnectNode ids))"

definition network_msg :: "pick \<Rightarrow> nat \<Rightarrow> u256 \<Rightarrow> rc_message \<Rightarrow> random_module \<Rightarrow> random_module \<times> random_out list" where
  "network_msg pick seed i m r =
     (case m of
        RcModule w \<Rightarrow> (r\<lparr>rc_storage := rs_connect [i] (rc_storage r)\<rparr>, [RcWrapperFromNetwork i w])
      | DropConnection \<Rightarrow>
          (let (r1, out) = new_connection pick seed (r\<lparr>rc_storage := rs_disconnect [i] (rc_storage r)\<rparr>)
           in (r1, [DisconnectNode i] @ out)))"

definition fill_connection :: "pick \<Rightarrow> nat \<Rightarrow> random_module \<Rightarrow> random_module \<times> random_out list" where
  "fill_connection pick seed r =
     (let r1 = r\<lparr>rc_fill := rc_fill r + 1\<rparr>
      in if fill_connected (rc_cfg r1) \<le> rc_fill r1
         then let r2 = r1\<lparr>rc_fill := 0\<rparr>
              in if total_len (rc_storage r2) < nodes_needed (rc_storage r2)
                 then let (s, ids) = choose_new pick seed 1 (rc_storage r2)
                      in (r2\<lparr>rc_storage := s\<rparr>, map ConnectNode ids)
                 else (r2, [])
         else (r1, []))"

definition need_drop :: "random_module \<Rightarrow> random_module \<times> random_out list" where
  "need_drop r =
     (let (s, ids) = limit_active (churn_connected (rc_cfg r)) (rc_storage r)
      in (r\<lparr>rc_storage := s\<rparr>, concat (map (\<lambda>n. [NodeCommToNetwork n DropConnection, DisconnectNode n]) ids)))"

definition churn :: "pick \<Rightarrow> nat \<Rightarrow> random_module \<Rightarrow> random_module \<times> random_out list" where
  "churn pick seed r =
     (let (s, ids) = choose_new pick seed (count_expired (churn_connected (rc_cfg r)) (rs_connected (rc_storage r))) (rc_storage r)
      in (r\<lparr>rc_storage := s\<rparr>, map ConnectNode ids))"

definition rc_update :: "random_module \<Rightarrow> (unit, random_module \<times> random_out list) outcome" where
  "rc_update r =
     (let r1 = r\<lparr>rc_published := rc_storage r\<rparr> in bind_outcome (connected_msg r1) (\<lambda>out. Ok (r1, out)))"

definition random_message :: "pick \<Rightarrow> nat \<times> random_in \<Rightarrow> random_module \<Rightarrow> (unit, random_module \<times> random_out list) outcome" where
  "random_message pick m r =
     (case snd m of
        NodeListIn nodes \<Rightarrow>
          bind_outcome (new_infos nodes (rc_storage r)) (\<lambda>s. Ok (new_connection pick (fst m) (r\<lparr>rc_storage := s\<rparr>)))
      | NodeConnected node \<Rightarrow>
          (let r1 = r\<lparr>rc_storage := rs_connect [node] (rc_storage r)\<rparr>
           in bind_outcome (connected_msg r1) (\<lambda>out. Ok (r1, out)))
      | NodeDisconnected node \<Rightarrow>
          (let (r1, out1) = new_connection pick (fst m) (r\<lparr>rc_storage := rs_disconnect [node] (rc_storage r)\<rparr>)
           in bind_outcome (connected_msg r1) (\<lambda>out2. Ok (r1, out1 @ out2)))
      | NodeFailure node \<Rightarrow>
          (let (r1, out1) = new_connection pick (fst m) (r\<lparr>rc_storage := failure [node] (rc_storage r)\<rparr>)
           in bind_outcome (disconnect_msg node r1) (\<lambda>out2. Ok (r1, out1 @ out2)))
      | RcTick \<Rightarrow>
          (let (r1, out1) = new_connection pick (fst m) (r\<lparr>rc_storage := rs_tick (rc_storage r)\<rparr>);
               (r2, out2) = fill_connection pick (Suc (fst m)) r1
           in bind_outcome (rc_update r2) (\<lambda>(r3, out3). Ok (r3, out1 @ out2 @ out3)))
      | NodeCommFromNetwork i node_msg \<Rightarrow> Ok (network_msg pick (fst m) i node_msg r)
      | RcWrapperToNetwork dst w \<Rightarrow>
          if nodes_contains dst (rs_connected (rc_storage r))
          then Ok (r, [NodeCommToNetwork dst (RcModule w)])
          else (let r1 = r\<lparr>rc_storage := rs_disconnect [dst] (rc_storage r)\<rparr>
                in bind_outcome (connected_msg r1) (\<lambda>out. Ok (r1, out))))"

fun random_messages :: "pick \<Rightarrow> (nat \<times> random_in) list \<Rightarrow> random_module \<Rightarrow> (unit, random_module \<times> random_out list) outcome" where
  "random_messages pick [] r = Ok (r, [])"
| "random_messages pick (m # ms) r =
     bind_outcome (random_message pick m r) (\<lambda>(r1, out1).
     bind_outcome (random_messages pick ms r1) (\<lambda>(r2, out2). Ok (r2, out1 @ out2)))"

subsection \<open>The lists of nodes\<close>

lemma get_nodes_simps [simp]:
  "get_nodes [] = []" "get_nodes (nodes_remove ids ns) = filter (\<lambda>n. n \<notin> set ids) (get_nodes ns)"
  "get_nodes (nodes_tick ns) = get_nodes ns"
  "get_nodes (nodes_add_new ids ns) = get_nodes ns @ filter (\<lambda>n. n \<notin> set (get_nodes ns)) ids"
  by (simp_all add: get_nodes_def nodes_remove_def nodes_tick_def nodes_add_new_def nodes_contains_def
      filter_map comp_def Let_def)

lemma length_get_nodes: "length (get_nodes ns) = length ns"
  by (simp add: get_nodes_def)

lemma count_expired_filter: "count_expired t ns = length (filter (\<lambda>nt. t \<le> nt_ticks nt) ns)"
proof -
  have "fold (\<lambda>nt a. if t \<le> nt_ticks nt then a + 1 else a) ns n = n + length (filter (\<lambda>nt. t \<le> nt_ticks nt) ns)" for n
    by (induction ns arbitrary: n) simp_all
  then show ?thesis by (simp add: count_expired_def)
qed

lemma takeWhile_sorted:
  assumes "sorted (map f xs)"
  shows "takeWhile (\<lambda>x. t \<le> f x) (rev xs) = rev (filter (\<lambda>x. t \<le> f x) xs)"
  using assms
proof (induction xs rule: rev_induct)
  case (snoc x xs)
  show ?case
  proof (cases "t \<le> f x")
    case True
    with snoc show ?thesis by (simp add: sorted_append)
  next
    case False
    with snoc.prems have "\<forall>y \<in> set xs. \<not> t \<le> f y" by (fastforce simp: sorted_append)
    with False show ?thesis by (simp add: filter_False)
  qed
qed simp

text \<open>The nodes of the given age are found, but not removed: the first nodes of the list go instead.\<close>

lemma oldest_ticks_set: "set (oldest_ticks t ns) = nt_id ` {nt \<in> set ns. t \<le> nt_ticks nt}"
proof -
  have le: "(t \<le> nt_ticks nt) = (uint t \<le> uint (nt_ticks nt))" for nt by (simp add: word_le_def)
  have "takeWhile (\<lambda>nt. uint t \<le> uint (nt_ticks nt)) (rev (sort_key (\<lambda>nt. uint (nt_ticks nt)) ns))
      = rev (filter (\<lambda>nt. uint t \<le> uint (nt_ticks nt)) (sort_key (\<lambda>nt. uint (nt_ticks nt)) ns))"
    by (rule takeWhile_sorted) simp
  then show ?thesis by (simp add: oldest_ticks_def sorted_nodes_def Let_def le)
qed

lemma remove_oldest_ticks_wrong:
  "\<exists>ns. remove_oldest_ticks 5 ns = ([\<lparr>nt_id = u256_zero, nt_ticks = 7\<rparr>], [u256_zero]) \<and>
     ns = [\<lparr>nt_id = U256 [], nt_ticks = 1\<rparr>, \<lparr>nt_id = u256_zero, nt_ticks = 7\<rparr>]"
  by (simp add: remove_oldest_ticks_def oldest_ticks_def sorted_nodes_def Let_def word_le_def)

subsection \<open>The invariant\<close>

definition storage_ok :: "random_storage \<Rightarrow> bool" where
  "storage_ok s \<longleftrightarrow> distinct (get_nodes (rs_connected s)) \<and> distinct (get_nodes (rs_connecting s)) \<and>
     distinct (rs_known s) \<and> set (get_nodes (rs_connected s)) \<inter> set (get_nodes (rs_connecting s)) = {} \<and>
     set (get_nodes (rs_connected s)) \<union> set (get_nodes (rs_connecting s)) \<subseteq> set (rs_known s) \<and>
     (\<forall>ni \<in> set (rs_infos s). \<exists>i. get_id ni = Ok i)"

definition pick_ok :: "pick \<Rightarrow> bool" where
  "pick_ok pick \<longleftrightarrow> (\<forall>seed n xs. mset (pick seed n xs) \<subseteq># mset xs \<and> length (pick seed n xs) = min n (length xs))"

fun random_in_ok :: "random_in \<Rightarrow> bool" where
  "random_in_ok (NodeListIn infos) \<longleftrightarrow> (\<exists>ids. get_ids infos = Ok ids \<and> distinct ids)"
| "random_in_ok _ \<longleftrightarrow> True"

definition unused :: "random_storage \<Rightarrow> node_ids" where
  "unused s = filter (\<lambda>n. n \<notin> set (get_nodes (rs_connected s)) \<union> set (get_nodes (rs_connecting s))) (rs_known s)"

lemma pick_distinct:
  assumes "pick_ok pick" and "distinct xs"
  shows "distinct (pick seed n xs)" and "set (pick seed n xs) \<subseteq> set xs" and "length (pick seed n xs) = min n (length xs)"
proof -
  have sub: "mset (pick seed n xs) \<subseteq># mset xs" and len: "length (pick seed n xs) = min n (length xs)"
    using assms(1) by (simp_all add: pick_ok_def)
  show "set (pick seed n xs) \<subseteq> set xs" using set_mset_mono [OF sub] by simp
  show "distinct (pick seed n xs)"
    using assms(2) mset_subset_eq_count [OF sub] unfolding distinct_iff_count by (meson order_trans)
  show "length (pick seed n xs) = min n (length xs)" by (rule len)
qed

lemma choose_new_unused:
  "choose_new pick seed n s = (let c = pick seed (min n (length (unused s))) (unused s) in (connecting c s, c))"
proof -
  have "filter (\<lambda>n. n \<notin> set (get_nodes (rs_connecting s))) (filter (\<lambda>n. n \<notin> set (get_nodes (rs_connected s))) (rs_known s)) = unused s"
    by (auto simp: unused_def intro: filter_cong)
  then show ?thesis by (simp add: choose_new_def ids_remove_existing_filter Let_def)
qed

lemma ids_merge_known: "set ids \<subseteq> set known \<Longrightarrow> ids_merge known ids = known"
  by (auto simp: ids_merge_def filter_empty_conv)

lemma length_unused:
  assumes "storage_ok s"
  shows "length (unused s) + total_len s = length (rs_known s)"
proof -
  let ?A = "set (get_nodes (rs_connected s)) \<union> set (get_nodes (rs_connecting s))"
  have "length (unused s) = card (set (rs_known s) - ?A)"
    using assms distinct_card [of "unused s"] by (simp add: storage_ok_def unused_def Diff_eq Collect_conj_eq Collect_neg_eq)
  moreover have "card ?A = total_len s"
    using assms by (simp add: storage_ok_def card_Un_disjoint distinct_card total_len_def length_get_nodes)
  moreover have "card (set (rs_known s)) = length (rs_known s)" using assms by (simp add: storage_ok_def distinct_card)
  moreover have "card (set (rs_known s) - ?A) + card ?A = card (set (rs_known s))"
    using assms by (intro card_Diff_subset [THEN arg_cong2 [where f = "(+)", OF _ refl], THEN trans])
      (auto simp: storage_ok_def card_mono)
  ultimately show ?thesis by simp
qed

lemma choose_new_ok:
  assumes "pick_ok pick" and "storage_ok s" and "choose_new pick seed n s = (s', c)"
  shows "storage_ok s'" and "rs_connected s' = rs_connected s" and "rs_known s' = rs_known s" and "rs_infos s' = rs_infos s"
    and "total_len s' = total_len s + min n (length (unused s))" and "distinct c" and "set c \<subseteq> set (unused s)"
    and "get_nodes (rs_connecting s') = get_nodes (rs_connecting s) @ c"
proof -
  let ?m = "min n (length (unused s))"
  have c: "c = pick seed ?m (unused s)" and s': "s' = connecting c s"
    using assms(3) by (auto simp: choose_new_unused Let_def)
  have d: "distinct (unused s)" using assms(2) by (simp add: storage_ok_def unused_def)
  note p = pick_distinct [OF assms(1) d, of seed ?m, folded c]
  show "distinct c" "set c \<subseteq> set (unused s)" by (rule p)+
  have new: "n \<notin> set (get_nodes (rs_connected s))" "n \<notin> set (get_nodes (rs_connecting s))" "n \<in> set (rs_known s)"
    if "n \<in> set c" for n using p(2) that by (auto simp: unused_def)
  have f: "filter (\<lambda>n. n \<notin> set (get_nodes (rs_connecting s))) c = c" using new by (auto simp: filter_id_conv)
  have "nodes_remove c (rs_connected s) = rs_connected s"
    using new by (auto simp: nodes_remove_def filter_id_conv get_nodes_def)
  moreover have "set c \<subseteq> set (rs_known s)" using new by auto
  ultimately have s'_eq: "s' = s\<lparr>rs_connecting := nodes_add_new c (rs_connecting s)\<rparr>"
    by (simp add: s' connecting_def new_list_def ids_merge_known)
  then show "rs_connected s' = rs_connected s" "rs_known s' = rs_known s" "rs_infos s' = rs_infos s" by simp_all
  show conn: "get_nodes (rs_connecting s') = get_nodes (rs_connecting s) @ c" by (simp add: s'_eq f)
  have "length (rs_connecting s') = length (rs_connecting s) + length c"
    using arg_cong [OF conn, of length] by (simp add: length_get_nodes)
  then show "total_len s' = total_len s + ?m" using p(3) by (simp add: total_len_def s'_eq)
  show "storage_ok s'" using assms(2) p(1) new conn by (auto simp: storage_ok_def s'_eq)
qed

lemma storage_sub:
  assumes "storage_ok s" and "get_nodes (rs_connected s') = get_nodes (rs_connected s)"
    and "get_nodes (rs_connecting s') = get_nodes (rs_connecting s)"
    and "rs_known s' = rs_known s" and "\<forall>ni \<in> set (rs_infos s'). \<exists>i. get_id ni = Ok i"
  shows "storage_ok s'"
  using assms unfolding storage_ok_def by simp

lemma storage_ok_tick: "storage_ok s \<Longrightarrow> storage_ok (rs_tick s)"
  by (simp add: storage_ok_def rs_tick_def)

lemma storage_ok_connect: "storage_ok s \<Longrightarrow> storage_ok (rs_connect [i] s)"
  by (auto simp: storage_ok_def rs_connect_def new_list_def distinct_ids_merge)

lemma storage_ok_disconnect: "storage_ok s \<Longrightarrow> storage_ok (rs_disconnect ids s)"
  by (auto simp: storage_ok_def rs_disconnect_def ids_remove_existing_filter)

lemma failure_disconnect: "failure ids s = rs_disconnect ids s"
  by (simp add: failure_def rs_disconnect_def)

lemma set_unique [simp]: "set (unique xs) = set xs"
  by (simp add: unique_def)

lemma new_infos_ok:
  assumes "storage_ok s" and "get_ids infos = Ok ids" and "distinct ids"
  shows "\<exists>s'. new_infos infos s = Ok s' \<and> storage_ok s' \<and> set (rs_known s) \<subseteq> set (rs_known s')"
  using assms get_ids_all [OF assms(2)]
  by (auto simp: storage_ok_def new_infos_def new_list_def distinct_ids_merge)

lemma filter_infos_ok:
  "\<forall>ni \<in> set nis. \<exists>i. get_id ni = Ok i \<Longrightarrow> \<exists>infos. filter_infos ns nis = Ok infos"
proof (induction nis)
  case (Cons ni nis)
  then obtain i infos where "get_id ni = Ok i" "filter_infos ns nis = Ok infos" by auto
  then show ?case by simp
qed simp

text \<open>What the module reports about its connections.\<close>

definition reports :: "random_storage \<Rightarrow> random_out list \<Rightarrow> bool" where
  "reports s out \<longleftrightarrow> (\<exists>infos. filter_infos (rs_connected s) (rs_infos s) = Ok infos \<and>
     out = [RcNodeIDsConnected (get_nodes (rs_connected s)), RcNodeInfosConnected infos])"

lemma connected_msg_ok: "storage_ok (rc_storage r) \<Longrightarrow> \<exists>out. connected_msg r = Ok out \<and> reports (rc_storage r) out"
  using filter_infos_ok [of "rs_infos (rc_storage r)" "rs_connected (rc_storage r)"]
  by (auto simp: connected_msg_def get_connected_info_def storage_ok_def reports_def)

text \<open>
  How many connections are opened at once: so many that half of the nodes that are needed are
  connected or about to be, as far as unused nodes are known.
\<close>

lemma new_connection_ok:
  assumes "pick_ok pick" and "storage_ok (rc_storage r)" and "new_connection pick seed r = (r', out)"
  shows "storage_ok (rc_storage r')" and "rs_connected (rc_storage r') = rs_connected (rc_storage r)"
    and "rc_fill r' = rc_fill r" and "rc_cfg r' = rc_cfg r"
    and "total_len (rc_storage r') =
      min (length (rs_known (rc_storage r'))) (max (total_len (rc_storage r)) ((nodes_needed (rc_storage r') + 1) div 2))"
    and "rs_known (rc_storage r') = rs_known (rc_storage r)"
    and "\<exists>c. out = map ConnectNode c \<and> distinct c \<and> set c \<subseteq> set (unused (rc_storage r)) \<and>
      get_nodes (rs_connecting (rc_storage r')) = get_nodes (rs_connecting (rc_storage r)) @ c"
proof -
  let ?s = "rc_storage r"
  obtain s c where f: "choose_new pick seed ((nodes_needed ?s + 1) div 2 - total_len ?s) ?s = (s, c)"
    by fastforce
  then have r': "r' = r\<lparr>rc_storage := s\<rparr>" "out = map ConnectNode c"
    using assms(3) by (simp_all add: new_connection_def fill_up_def)
  note n = choose_new_ok [OF assms(1,2) f]
  show "storage_ok (rc_storage r')" "rs_connected (rc_storage r') = rs_connected ?s" "rc_fill r' = rc_fill r"
    "rc_cfg r' = rc_cfg r" "rs_known (rc_storage r') = rs_known ?s" using n by (simp_all add: r')
  have "nodes_needed s = nodes_needed ?s" using n(3) by (simp add: nodes_needed_def)
  moreover have "min a (max t k) = t + min (k - t) u" if "u + t = a" for a t k u :: nat using that by auto
  ultimately show "total_len (rc_storage r') =
      min (length (rs_known (rc_storage r'))) (max (total_len ?s) ((nodes_needed (rc_storage r') + 1) div 2))"
    using n(3,5) length_unused [OF assms(2)] by (simp add: r')
  show "\<exists>c. out = map ConnectNode c \<and> distinct c \<and> set c \<subseteq> set (unused ?s) \<and>
      get_nodes (rs_connecting (rc_storage r')) = get_nodes (rs_connecting ?s) @ c"
    using n(6,7,8) by (auto simp: r')
qed

lemma fill_connection_ok:
  assumes "pick_ok pick" and "storage_ok (rc_storage r)" and "fill_connection pick seed r = (r', out)"
  shows "storage_ok (rc_storage r')" and "nodes_needed (rc_storage r) \<le> total_len (rc_storage r) \<Longrightarrow> out = [] \<and> rc_storage r' = rc_storage r"
proof -
  obtain s c where f: "choose_new pick seed (Suc 0) (rc_storage r) = (s, c)" by fastforce
  show "storage_ok (rc_storage r')"
    using assms(2,3) choose_new_ok(1) [OF assms(1,2) f]
    by (auto simp: fill_connection_def Let_def f split: if_splits)
  show "nodes_needed (rc_storage r) \<le> total_len (rc_storage r) \<Longrightarrow> out = [] \<and> rc_storage r' = rc_storage r"
    using assms(3) by (auto simp: fill_connection_def Let_def split: if_splits)
qed

lemma random_message_ok:
  assumes "pick_ok pick" and "storage_ok (rc_storage r)" and "random_in_ok (snd m)"
  shows "\<exists>r' out. random_message pick m r = Ok (r', out) \<and> storage_ok (rc_storage r')"
proof -
  have drop: "\<exists>r' out. new_connection pick seed (r\<lparr>rc_storage := rs_disconnect ids (rc_storage r)\<rparr>) = (r', out) \<and> storage_ok (rc_storage r')"
    for seed ids
  proof -
    obtain r' out where n: "new_connection pick seed (r\<lparr>rc_storage := rs_disconnect ids (rc_storage r)\<rparr>) = (r', out)" by fastforce
    with new_connection_ok(1) [OF assms(1) _ n] storage_ok_disconnect [OF assms(2)] show ?thesis by simp
  qed
  show ?thesis
  proof (cases "snd m")
    case (NodeListIn infos)
    then obtain ids where "get_ids infos = Ok ids" "distinct ids" using assms(3) by auto
    from new_infos_ok [OF assms(2) this] obtain s where s: "new_infos infos (rc_storage r) = Ok s" "storage_ok s" by blast
    obtain r' out where n: "new_connection pick (fst m) (r\<lparr>rc_storage := s\<rparr>) = (r', out)" by fastforce
    with new_connection_ok(1) [OF assms(1) _ n] s NodeListIn show ?thesis by (simp add: random_message_def)
  next
    case (NodeFailure node)
    obtain r' out where n: "new_connection pick (fst m) (r\<lparr>rc_storage := rs_disconnect [node] (rc_storage r)\<rparr>) = (r', out)"
      "storage_ok (rc_storage r')" using drop [of "fst m" "[node]"] by blast
    from connected_msg_ok [OF n(2)] n NodeFailure show ?thesis
      by (auto simp: random_message_def failure_disconnect disconnect_msg_def)
  next
    case (NodeConnected node)
    from connected_msg_ok [of "r\<lparr>rc_storage := rs_connect [node] (rc_storage r)\<rparr>"] storage_ok_connect [OF assms(2)] NodeConnected
    show ?thesis by (auto simp: random_message_def Let_def)
  next
    case (NodeDisconnected node)
    obtain r' out where n: "new_connection pick (fst m) (r\<lparr>rc_storage := rs_disconnect [node] (rc_storage r)\<rparr>) = (r', out)"
      "storage_ok (rc_storage r')" using drop [of "fst m" "[node]"] by blast
    from connected_msg_ok [OF n(2)] n NodeDisconnected show ?thesis by (auto simp: random_message_def)
  next
    case (NodeCommFromNetwork i msg)
    show ?thesis
    proof (cases msg)
      case (RcModule w)
      with NodeCommFromNetwork storage_ok_connect [OF assms(2)] show ?thesis
        by (simp add: random_message_def network_msg_def)
    next
      case DropConnection
      with NodeCommFromNetwork drop [of "fst m" "[i]"] show ?thesis
        by (auto simp: random_message_def network_msg_def)
    qed
  next
    case (RcWrapperToNetwork dst w)
    from connected_msg_ok [of "r\<lparr>rc_storage := rs_disconnect [dst] (rc_storage r)\<rparr>"] storage_ok_disconnect [OF assms(2)]
      assms(2) RcWrapperToNetwork
    show ?thesis by (auto simp: random_message_def Let_def)
  next
    case RcTick
    obtain r1 out1 where n: "new_connection pick (fst m) (r\<lparr>rc_storage := rs_tick (rc_storage r)\<rparr>) = (r1, out1)" by fastforce
    have r1: "storage_ok (rc_storage r1)"
      using new_connection_ok(1) [OF assms(1) _ n] storage_ok_tick [OF assms(2)] by simp
    obtain r2 out2 where f: "fill_connection pick (Suc (fst m)) r1 = (r2, out2)" by fastforce
    note r2 = fill_connection_ok(1) [OF assms(1) r1 f]
    from connected_msg_ok [of "r2\<lparr>rc_published := rc_storage r2\<rparr>"] r2 obtain out3 where
      "connected_msg (r2\<lparr>rc_published := rc_storage r2\<rparr>) = Ok out3" by auto
    then show ?thesis using r2 by (simp add: random_message_def RcTick n f rc_update_def Let_def)
  qed
qed

text \<open>The nodes that a message names, and that become known with it.\<close>

fun names_in :: "random_in \<Rightarrow> u256 set" where
  "names_in (NodeListIn infos) = {i. \<exists>ni \<in> set infos. get_id ni = Ok i}"
| "names_in (NodeConnected i) = {i}"
| "names_in (NodeCommFromNetwork i (RcModule w)) = {i}"
| "names_in _ = {}"

abbreviation known_to :: "random_module \<Rightarrow> u256 set" where
  "known_to r \<equiv> set (rs_known (rc_storage r))"

definition dials_known :: "random_module \<Rightarrow> random_module \<Rightarrow> random_out list \<Rightarrow> bool" where
  "dials_known r r' out \<longleftrightarrow> rc_id r' = rc_id r \<and> known_to r' = known_to r \<and>
     (\<forall>i. ConnectNode i \<in> set out \<longrightarrow> i \<in> known_to r)"

lemma new_connection_known:
  assumes "pick_ok pick" and "storage_ok (rc_storage r)" and "new_connection pick seed r = (r', out)"
  shows "storage_ok (rc_storage r') \<and> dials_known r r' out"
proof -
  obtain c where c: "out = map ConnectNode c" "set c \<subseteq> set (unused (rc_storage r))"
    using new_connection_ok(7) [OF assms] by blast
  have "rc_id r' = rc_id r" using assms(3) by (auto simp: new_connection_def split_beta Let_def)
  moreover have "set (unused (rc_storage r)) \<subseteq> known_to r" by (auto simp: unused_def)
  ultimately show ?thesis using new_connection_ok(1,6) [OF assms] c by (auto simp: dials_known_def)
qed

lemma fill_connection_known:
  assumes "pick_ok pick" and "storage_ok (rc_storage r)" and "fill_connection pick seed r = (r', out)"
  shows "dials_known r r' out"
proof -
  obtain s c where f: "choose_new pick seed (Suc 0) (rc_storage r) = (s, c)" by fastforce
  have "set c \<subseteq> known_to r" using choose_new_ok(7) [OF assms(1,2) f] by (auto simp: unused_def)
  with assms(3) choose_new_ok(3) [OF assms(1,2) f] show ?thesis
    by (auto simp: fill_connection_def Let_def f dials_known_def split: if_splits)
qed

lemma no_dial [simp]: "connected_msg r = Ok out \<Longrightarrow> ConnectNode i \<notin> set out"
  by (auto simp: connected_msg_def bind_outcome_Ok)

lemma random_message_known:
  assumes "pick_ok pick" and "storage_ok (rc_storage r)" and "random_in_ok (snd m)"
    and "random_message pick m r = Ok (r', out)"
  shows "rc_id r' = rc_id r" and "known_to r' \<subseteq> known_to r \<union> names_in (snd m)"
    and "ConnectNode i \<in> set out \<Longrightarrow> i \<in> known_to r \<union> names_in (snd m)"
proof -
  have conn: "rc_id r'' = rc_id r0 \<and> known_to r'' = known_to r0 \<and> (ConnectNode i \<in> set out0 \<longrightarrow> i \<in> known_to r0)"
    if "storage_ok (rc_storage r0)" "new_connection pick seed r0 = (r'', out0)" for seed r0 r'' out0
    using new_connection_known [OF assms(1) that] by (auto simp: dials_known_def)
  have drop: "storage_ok (rs_disconnect ids (rc_storage r))" "set (rs_known (rs_disconnect ids (rc_storage r))) \<subseteq> known_to r" for ids
    using storage_ok_disconnect [OF assms(2)] by (auto simp: rs_disconnect_def ids_remove_existing_filter)
  have "rc_id r' = rc_id r \<and> known_to r' \<subseteq> known_to r \<union> names_in (snd m) \<and>
    (ConnectNode i \<in> set out \<longrightarrow> i \<in> known_to r \<union> names_in (snd m))"
  proof (cases "snd m")
    case (NodeListIn infos)
    then obtain ids where ids: "get_ids infos = Ok ids" "distinct ids" using assms(3) by auto
    from new_infos_ok [OF assms(2) this] obtain s where s: "new_infos infos (rc_storage r) = Ok s" "storage_ok s" by blast
    have "set ids = names_in (NodeListIn infos)" using ids(1)
      by (induction infos arbitrary: ids) (auto simp: bind_outcome_Ok)
    then have "set (rs_known s) = known_to r \<union> names_in (snd m)"
      using s(1) ids(1) NodeListIn by (auto simp: new_infos_def new_list_def)
    then show ?thesis
      using conn [of "r\<lparr>rc_storage := s\<rparr>" "fst m" r' out] assms(4) s NodeListIn by (auto simp: random_message_def)
  next
    case (NodeFailure node)
    obtain r1 out1 where n: "new_connection pick (fst m) (r\<lparr>rc_storage := rs_disconnect [node] (rc_storage r)\<rparr>) = (r1, out1)" by fastforce
    with conn [OF _ n] drop [of "[node]"] assms(4) NodeFailure show ?thesis
      by (auto simp: random_message_def failure_disconnect disconnect_msg_def bind_outcome_Ok)
  next
    case (NodeDisconnected node)
    obtain r1 out1 where n: "new_connection pick (fst m) (r\<lparr>rc_storage := rs_disconnect [node] (rc_storage r)\<rparr>) = (r1, out1)" by fastforce
    with conn [OF _ n] drop [of "[node]"] assms(4) NodeDisconnected show ?thesis
      by (auto simp: random_message_def bind_outcome_Ok)
  next
    case (NodeConnected node)
    with assms(4) show ?thesis
      by (auto simp: random_message_def Let_def bind_outcome_Ok rs_connect_def new_list_def)
  next
    case (NodeCommFromNetwork j msg)
    show ?thesis
    proof (cases msg)
      case (RcModule w)
      with NodeCommFromNetwork assms(4) show ?thesis
        by (auto simp: random_message_def network_msg_def rs_connect_def new_list_def)
    next
      case DropConnection
      obtain r1 out1 where n: "new_connection pick (fst m) (r\<lparr>rc_storage := rs_disconnect [j] (rc_storage r)\<rparr>) = (r1, out1)" by fastforce
      with conn [OF _ n] drop [of "[j]"] assms(4) NodeCommFromNetwork DropConnection show ?thesis
        by (auto simp: random_message_def network_msg_def)
    qed
  next
    case (RcWrapperToNetwork dst w)
    with assms(4) drop [of "[dst]"] show ?thesis
      by (auto simp: random_message_def Let_def bind_outcome_Ok split: if_splits)
  next
    case RcTick
    let ?r0 = "r\<lparr>rc_storage := rs_tick (rc_storage r)\<rparr>"
    obtain r1 out1 where n: "new_connection pick (fst m) ?r0 = (r1, out1)" by fastforce
    have "storage_ok (rc_storage ?r0)" using storage_ok_tick [OF assms(2)] by simp
    note k = new_connection_known [OF assms(1) this n]
    obtain r2 out2 where f: "fill_connection pick (Suc (fst m)) r1 = (r2, out2)" by fastforce
    from fill_connection_known [OF assms(1) _ f] k have "dials_known r1 r2 out2" by simp
    moreover obtain r3 out3 where u: "rc_update r2 = Ok (r3, out3)" "r' = r3" "out = out1 @ out2 @ out3"
      using assms(4) n f by (auto simp: random_message_def RcTick bind_outcome_Ok)
    moreover have "rc_id r3 = rc_id r2" "known_to r3 = known_to r2" "ConnectNode i \<notin> set out3"
      using u(1) by (auto simp: rc_update_def Let_def bind_outcome_Ok)
    ultimately show ?thesis using k by (auto simp: dials_known_def rs_tick_def)
  qed
  then show "rc_id r' = rc_id r" "known_to r' \<subseteq> known_to r \<union> names_in (snd m)"
    "ConnectNode i \<in> set out \<Longrightarrow> i \<in> known_to r \<union> names_in (snd m)" by auto
qed

lemma random_messages_all: "random_messages pick ms r = handle_all (random_message pick) ms r"
  by (induction ms arbitrary: r) simp_all

interpretation rc: subsystem "random_message pick" "\<lambda>m. pick_ok pick \<and> random_in_ok (snd m)"
    "\<lambda>r. storage_ok (rc_storage r)" "\<lambda>_. True" for pick
  by unfold_locales (auto simp: list_all_iff dest: random_message_ok)

text \<open>
  C40. Every sequence of messages with well-formed node lists is handled without a panic, and keeps
  the books of the module: no node is listed twice, none is connected and connecting at the same
  time, and all of them are known.
\<close>

theorem random_messages_ok:
  assumes "pick_ok pick" and "storage_ok (rc_storage r)" and "\<forall>m \<in> set ms. random_in_ok (snd m)"
  shows "\<exists>r' out. random_messages pick ms r = Ok (r', out) \<and> storage_ok (rc_storage r')"
  using rc.all_kept [OF assms(2), of pick ms] assms(1,3) by (auto simp: random_messages_all list_all_iff)

definition take_first :: pick where
  "take_first seed n xs = take n xs"

lemma take_first_ok: "pick_ok take_first"
proof -
  have "mset (take n xs) \<subseteq># mset xs" for n and xs :: node_ids
    by (metis append_take_drop_id mset_append mset_subset_eq_add_left)
  then show ?thesis by (simp add: pick_ok_def take_first_def min.commute)
qed

lemma random_new_ok: "storage_ok (rc_storage (random_new i))"
  by (simp add: random_new_def random_storage_default_def storage_ok_def)

theorem random_messages_ok_witness:
  "\<exists>r out. random_messages take_first
     [(0, NodeConnected u256_zero), (1, RcTick), (2, NodeCommFromNetwork (U256 []) DropConnection)] (random_new (U256 [])) = Ok (r, out) \<and>
     storage_ok (rc_storage r)"
  using random_messages_ok [OF take_first_ok random_new_ok,
      of "[(0, NodeConnected u256_zero), (1, RcTick), (2, NodeCommFromNetwork (U256 []) DropConnection)]" "U256 []"] by simp

text \<open>
  Connections are opened until half of the nodes that are needed are connected or about to be, or
  until every known node is; those that are chosen are known, all different, and neither
  connected nor being connected to already. No existing connection is touched.
\<close>

theorem new_connection_fills:
  assumes "pick_ok pick" and "storage_ok (rc_storage r)"
  shows "\<exists>r' c. new_connection pick seed r = (r', map ConnectNode c) \<and> storage_ok (rc_storage r') \<and>
    rs_connected (rc_storage r') = rs_connected (rc_storage r) \<and> distinct c \<and> set c \<subseteq> set (unused (rc_storage r)) \<and>
    get_nodes (rs_connecting (rc_storage r')) = get_nodes (rs_connecting (rc_storage r)) @ c \<and>
    total_len (rc_storage r') =
      min (length (rs_known (rc_storage r'))) (max (total_len (rc_storage r)) ((nodes_needed (rc_storage r') + 1) div 2))"
proof -
  obtain r' out where n: "new_connection pick seed r = (r', out)" by fastforce
  from new_connection_ok [OF assms n] n show ?thesis by auto
qed

theorem new_connection_fills_witness:
  "\<exists>r c. new_connection take_first 0 ((random_new (U256 []))\<lparr>rc_storage := random_storage_default\<lparr>rs_known := [u256_zero]\<rparr>\<rparr>)
     = (r, map ConnectNode c) \<and> total_len (rc_storage r) = 1"
proof -
  let ?r = "(random_new (U256 []))\<lparr>rc_storage := random_storage_default\<lparr>rs_known := [u256_zero]\<rparr>\<rparr>"
  have ok: "storage_ok (rc_storage ?r)" by (simp add: storage_ok_def random_storage_default_def)
  obtain r out where n: "new_connection take_first 0 ?r = (r, out)" by fastforce
  have "rs_known (rc_storage r) = [u256_zero]" using new_connection_ok(6) [OF take_first_ok ok n] by simp
  with new_connection_fills [OF take_first_ok ok, of 0] n show ?thesis
    by (auto simp: nodes_needed_def total_len_def random_storage_default_def)
qed

lemma new_connection_none:
  assumes "pick_ok pick" and "nodes_needed (rc_storage r) \<le> total_len (rc_storage r)"
  shows "new_connection pick seed r = (r, [])"
proof -
  have "(nodes_needed (rc_storage r) + 1) div 2 - total_len (rc_storage r) = 0" using assms(2) by simp
  moreover have "pick seed 0 xs = []" for xs
  proof -
    have "length (pick seed 0 xs) = 0" using assms(1) unfolding pick_ok_def by (metis min_0L)
    then show ?thesis by simp
  qed
  moreover have "connecting [] s = s" for s
    by (simp add: connecting_def new_list_def ids_merge_def nodes_add_new_def nodes_remove_def)
  ultimately show ?thesis by (simp add: new_connection_def fill_up_def choose_new_unused Let_def)
qed

text \<open>
  Nodes that never answer stay among the connecting ones for ever: once there are as many of them
  as nodes are needed, the clock alone opens no further connection and removes none of them.
\<close>

theorem unanswered_connections_stay:
  assumes "pick_ok pick" and "storage_ok (rc_storage r)" and "\<forall>m \<in> set ms. snd m = RcTick"
    and "nodes_needed (rc_storage r) \<le> total_len (rc_storage r)"
  shows "\<exists>r' out. random_messages pick ms r = Ok (r', out) \<and>
    get_nodes (rs_connecting (rc_storage r')) = get_nodes (rs_connecting (rc_storage r)) \<and>
    get_nodes (rs_connected (rc_storage r')) = get_nodes (rs_connected (rc_storage r)) \<and>
    (\<forall>n. ConnectNode n \<notin> set out)"
  using assms(2-4)
proof (induction ms arbitrary: r)
  case (Cons m ms)
  let ?r = "r\<lparr>rc_storage := rs_tick (rc_storage r)\<rparr>"
  have same: "nodes_needed (rs_tick s) = nodes_needed s" "total_len (rs_tick s) = total_len s" for s
    by (simp_all add: nodes_needed_def rs_tick_def total_len_def nodes_tick_def)
  have ok: "storage_ok (rc_storage ?r)" using storage_ok_tick [OF Cons.prems(1)] by simp
  have full: "nodes_needed (rc_storage ?r) \<le> total_len (rc_storage ?r)" using Cons.prems(3) same by simp
  obtain r2 out2 where f: "fill_connection pick (Suc (fst m)) ?r = (r2, out2)" by fastforce
  from fill_connection_ok(2) [OF assms(1) ok f full] have r2: "out2 = []" "rc_storage r2 = rs_tick (rc_storage r)" by auto
  let ?r3 = "r2\<lparr>rc_published := rc_storage r2\<rparr>"
  obtain out3 where out3: "connected_msg ?r3 = Ok out3" "reports (rc_storage ?r3) out3"
    using connected_msg_ok [of ?r3] ok r2 by auto
  have run: "random_message pick m r = Ok (?r3, out3)"
    using Cons.prems(2) new_connection_none [OF assms(1) full] out3(1)
    by (simp add: random_message_def f r2(1) rc_update_def Let_def)
  have "storage_ok (rc_storage ?r3)" "nodes_needed (rc_storage ?r3) \<le> total_len (rc_storage ?r3)"
    using ok full r2(2) by simp_all
  from Cons.IH [OF this(1) _ this(2)] Cons.prems(2) obtain r' out where
    "random_messages pick ms ?r3 = Ok (r', out)"
    "get_nodes (rs_connecting (rc_storage r')) = get_nodes (rs_connecting (rc_storage ?r3))"
    "get_nodes (rs_connected (rc_storage r')) = get_nodes (rs_connected (rc_storage ?r3))"
    "\<forall>n. ConnectNode n \<notin> set out" by auto
  with run r2(2) out3(2) show ?case by (auto simp: rs_tick_def reports_def)
qed simp

theorem unanswered_connections_stay_witness:
  "\<exists>r out. random_messages take_first [(0, RcTick), (1, RcTick)]
     ((random_new (U256 []))\<lparr>rc_storage := \<lparr>rs_connected = [], rs_connecting = [\<lparr>nt_id = u256_zero, nt_ticks = 99\<rparr>],
        rs_known = [u256_zero], rs_infos = []\<rparr>\<rparr>) = Ok (r, out) \<and>
     get_nodes (rs_connecting (rc_storage r)) = [u256_zero]"
proof -
  let ?r = "(random_new (U256 []))\<lparr>rc_storage := \<lparr>rs_connected = [], rs_connecting = [\<lparr>nt_id = u256_zero, nt_ticks = 99\<rparr>],
        rs_known = [u256_zero], rs_infos = []\<rparr>\<rparr>"
  have "storage_ok (rc_storage ?r)" "nodes_needed (rc_storage ?r) \<le> total_len (rc_storage ?r)"
    by (simp_all add: storage_ok_def nodes_needed_def total_len_def get_nodes_def)
  moreover have "\<forall>m \<in> set [(0, RcTick), (1, RcTick)]. snd m = RcTick" by simp
  ultimately show ?thesis
    using unanswered_connections_stay [OF take_first_ok, of ?r "[(0, RcTick), (1, RcTick)]"]
    by (auto simp: get_nodes_def)
qed

end
