(* ===== verification/WebRtc.thy ===== *)
theory WebRtc
  imports NodeInfo
begin

text \<open>
  A connection between two nodes, \<open>flarch/src/web_rtc\<close>: the messages of the connection setup and
  the state of a channel (\<open>messages.rs\<close>), and the handler of one connection with its queue and its
  packets (\<open>node_connection.rs\<close>). The WebRTC library under it, and the text form of a packet, are
  parameters: the writer, \<open>serde_json\<close>, and the reader, \<open>serde_yaml\<close>, are two functions that are not
  inverse to each other on every text.

  A character of a text is one of the first 256 code points, of which UTF-8 takes one or two bytes.
\<close>

subsection \<open>Messages\<close>

datatype peer_message = PeerInit | PeerOffer string | PeerAnswer string | PeerIceCandidate string

datatype direction = Incoming | Outgoing

record peer_info =
  id_init :: u256
  id_follow :: u256
  pi_message :: peer_message

definition get_remote :: "u256 \<Rightarrow> peer_info \<Rightarrow> u256 option" where
  "get_remote local p =
     (if id_init p = local then Some (id_follow p)
      else if id_follow p = local then Some (id_init p) else None)"

definition get_direction :: "u256 \<Rightarrow> peer_info \<Rightarrow> direction" where
  "get_direction local p = (if id_init p = local then Outgoing else Incoming)"

datatype conn_type = UnknownConn | HostConn | STUNPeer | STUNServer | TURN

datatype signaling_state = SigClosed | SigSetup | SigStable

datatype ice_gathering_state = GatherNew | Gathering | GatherComplete

datatype ice_connection_state =
  IceNew | IceChecking | IceConnected | IceCompleted | IceFailed | IceDisconnected | IceClosed

datatype data_channel_state = DcConnecting | DcOpen | DcClosing | DcClosed

record connection_state =
  type_local :: conn_type
  type_remote :: conn_type
  signaling :: signaling_state
  ice_gathering :: ice_gathering_state
  ice_connection :: ice_connection_state
  data_connection :: "data_channel_state option"
  rx_bytes :: u64
  tx_bytes :: u64
  delay_ms :: u32

definition connection_state_default :: connection_state where
  "connection_state_default = \<lparr>type_local = UnknownConn, type_remote = UnknownConn, signaling = SigClosed,
     ice_gathering = GatherNew, ice_connection = IceNew, data_connection = None,
     rx_bytes = 0, tx_bytes = 0, delay_ms = 0\<rparr>"

datatype web_rtc_input = RtcText string | RtcSetup peer_message | RtcFlush | RtcUpdateState | RtcReset | RtcDisconnect

datatype web_rtc_output =
    OnConnected | OnDisconnected | OnText string | OnSetup peer_message | OnState connection_state | OnError string

datatype nc_input =
    NcText string | NcDisconnect | NcGetStates | NcSetup direction peer_message
  | NcIncoming web_rtc_output | NcOutgoing web_rtc_output

datatype nc_output =
    NcConnected direction | NcDisconnected direction | NcTextOut string | NcState direction connection_state
  | NcSetupOut direction peer_message | NcIncomingOut web_rtc_input | NcOutgoingOut web_rtc_input

subsection \<open>Packets\<close>

record packet =
  pk_id :: "u256 option"
  pk_part :: "nat option"
  pk_total :: "nat option"
  pk_data :: string

record packet_text =
  pt_write :: "packet \<Rightarrow> string option"
  pt_read :: "string \<Rightarrow> packet option"

definition webrtc_max_size :: nat where
  "webrtc_max_size = 16384"

definition utf8_len :: "string \<Rightarrow> nat" where
  "utf8_len s = (\<Sum>c \<leftarrow> s. if (of_char c :: nat) < 128 then 1 else 2)"

function chunks :: "nat \<Rightarrow> 'a list \<Rightarrow> 'a list list" where
  "chunks n xs = (if n = 0 \<or> xs = [] then [] else take n xs # chunks n (drop n xs))"
  by pat_completeness auto
termination
  by (relation "measure (\<lambda>(n, xs). length xs)") auto

declare chunks.simps [simp del]

fun write_parts :: "packet_text \<Rightarrow> u256 \<Rightarrow> nat \<Rightarrow> nat \<Rightarrow> string list \<Rightarrow> (unit, string list) outcome" where
  "write_parts pt i tot part [] = Ok []"
| "write_parts pt i tot part (c # cs) =
     bind_outcome (expect (pt_write pt \<lparr>pk_id = Some i, pk_part = Some part, pk_total = Some tot, pk_data = c\<rparr>)) (\<lambda>s.
     bind_outcome (write_parts pt i tot (Suc part) cs) (\<lambda>ss. Ok (s # ss)))"

definition split_msg :: "packet_text \<Rightarrow> u256 \<Rightarrow> string \<Rightarrow> (unit, string list) outcome" where
  "split_msg pt rnd msg =
     (if utf8_len msg \<le> webrtc_max_size
      then bind_outcome (expect (pt_write pt \<lparr>pk_id = None, pk_part = None, pk_total = None, pk_data = msg\<rparr>)) (\<lambda>s. Ok [s])
      else let cs = chunks webrtc_max_size msg in write_parts pt rnd (length cs) 0 cs)"

type_synonym collector = "(u256, string option list) hashmap"

definition get_params :: "packet \<Rightarrow> (u256 \<times> nat \<times> nat) option" where
  "get_params p = Option.bind (pk_id p) (\<lambda>i. Option.bind (pk_total p) (\<lambda>t. map_option (\<lambda>n. (i, t, n)) (pk_part p)))"

definition full :: "string option list \<Rightarrow> bool" where
  "full parts \<longleftrightarrow> list_all (\<lambda>p. p \<noteq> None) parts"

definition joined :: "string option list \<Rightarrow> string" where
  "joined parts = concat (map (\<lambda>p. case p of Some s \<Rightarrow> s | None \<Rightarrow> []) parts)"

definition new_packet :: "packet \<Rightarrow> collector \<Rightarrow> collector \<times> string option" where
  "new_packet p packets =
     (case get_params p of
        None \<Rightarrow> (packets, Some (pk_data p))
      | Some (i, tot, part) \<Rightarrow>
          (let e = (case map_of packets i of Some e \<Rightarrow> e | None \<Rightarrow> replicate tot None);
               e = (if part < length e then e[part := Some (pk_data p)] else e);
               packets = AList.update i e packets
           in case find (\<lambda>(_, parts). full parts) packets of
                None \<Rightarrow> (packets, None)
              | Some (j, parts) \<Rightarrow> (AList.delete j packets, Some (joined parts))))"

definition new_packet_str :: "packet_text \<Rightarrow> string \<Rightarrow> collector \<Rightarrow> collector \<times> string option" where
  "new_packet_str pt s packets = (case pt_read pt s of None \<Rightarrow> (packets, None) | Some p \<Rightarrow> new_packet p packets)"

fun collect :: "packet_text \<Rightarrow> string list \<Rightarrow> collector \<Rightarrow> collector \<times> string option list" where
  "collect pt [] packets = (packets, [])"
| "collect pt (s # ss) packets =
     (let (packets1, r) = new_packet_str pt s packets; (packets2, rs) = collect pt ss packets1 in (packets2, r # rs))"

subsection \<open>One connection\<close>

record node_connection =
  msg_queue :: "string list"
  packet_collector :: collector
  state_incoming :: "connection_state option"
  state_outgoing :: "connection_state option"

definition node_connection_new :: node_connection where
  "node_connection_new = \<lparr>msg_queue = [], packet_collector = [], state_incoming = None, state_outgoing = None\<rparr>"

definition wrap_direction :: "direction \<Rightarrow> web_rtc_input \<Rightarrow> nc_output" where
  "wrap_direction dir m = (case dir of Incoming \<Rightarrow> NcIncomingOut m | Outgoing \<Rightarrow> NcOutgoingOut m)"

definition nc_send ::
  "direction \<Rightarrow> connection_state option \<Rightarrow> node_connection \<Rightarrow> node_connection \<times> nc_output list" where
  "nc_send dir state nc =
     (case state of
        Some csm \<Rightarrow>
          (case data_connection csm of
             Some dc \<Rightarrow> if dc = DcOpen
                        then (nc\<lparr>msg_queue := []\<rparr>, map (\<lambda>m. wrap_direction dir (RtcText m)) (msg_queue nc))
                        else (nc, [])
           | None \<Rightarrow> (nc, []))
      | None \<Rightarrow> (nc, []))"

definition send_queue :: "node_connection \<Rightarrow> node_connection \<times> nc_output list" where
  "send_queue nc =
     (let (nc1, out1) = (if length (msg_queue nc) > 0 then nc_send Outgoing (state_outgoing nc) nc else (nc, []));
          (nc2, out2) = (if length (msg_queue nc1) > 0 then nc_send Incoming (state_incoming nc1) nc1 else (nc1, []))
      in (nc2, out1 @ out2))"

definition nc_msg_in ::
  "packet_text \<Rightarrow> u256 \<Rightarrow> nc_input \<Rightarrow> node_connection \<Rightarrow> (unit, node_connection \<times> nc_output list) outcome" where
  "nc_msg_in pt rnd m nc =
     (case m of
        NcText msg \<Rightarrow> bind_outcome (split_msg pt rnd msg) (\<lambda>ps. Ok (send_queue (nc\<lparr>msg_queue := msg_queue nc @ ps\<rparr>)))
      | NcDisconnect \<Rightarrow> Ok (nc, [NcIncomingOut RtcDisconnect, NcOutgoingOut RtcDisconnect])
      | NcGetStates \<Rightarrow>
          Ok (nc, (case state_incoming nc of Some s \<Rightarrow> [NcState Incoming s] | None \<Rightarrow> []) @
                  (case state_outgoing nc of Some s \<Rightarrow> [NcState Outgoing s] | None \<Rightarrow> []))
      | NcSetup dir pm \<Rightarrow>
          Ok (case dir of
                Incoming \<Rightarrow> (nc, [NcIncomingOut (RtcSetup pm)])
              | Outgoing \<Rightarrow>
                  ((if state_outgoing nc = None then nc\<lparr>state_outgoing := Some connection_state_default\<rparr> else nc),
                   [NcOutgoingOut (RtcSetup pm)]))
      | _ \<Rightarrow> Ok (nc, []))"

definition set_state :: "direction \<Rightarrow> connection_state option \<Rightarrow> node_connection \<Rightarrow> node_connection" where
  "set_state dir s nc = (case dir of Incoming \<Rightarrow> nc\<lparr>state_incoming := s\<rparr> | Outgoing \<Rightarrow> nc\<lparr>state_outgoing := s\<rparr>)"

definition msg_conn :: "packet_text \<Rightarrow> direction \<Rightarrow> web_rtc_output \<Rightarrow> node_connection \<Rightarrow> node_connection \<times> nc_output list" where
  "msg_conn pt dir m nc =
     (case m of
        OnConnected \<Rightarrow>
          (let nc1 = set_state dir (Some (connection_state_default\<lparr>data_connection := Some DcOpen\<rparr>)) nc;
               (nc2, out) = send_queue nc1
           in (nc2, NcConnected dir # out))
      | OnSetup pm \<Rightarrow> (nc, [NcSetupOut dir pm])
      | OnText msg \<Rightarrow>
          (let (c, r) = new_packet_str pt msg (packet_collector nc)
           in (nc\<lparr>packet_collector := c\<rparr>, case r of Some s \<Rightarrow> [NcTextOut s] | None \<Rightarrow> []))
      | OnState s \<Rightarrow> (set_state dir (Some s) nc, [NcState dir s])
      | OnDisconnected \<Rightarrow> (set_state dir None nc, [wrap_direction dir RtcReset, NcDisconnected dir])
      | OnError _ \<Rightarrow> (set_state dir None nc, [wrap_direction dir RtcReset, NcDisconnected dir]))"

definition nc_message ::
  "packet_text \<Rightarrow> u256 \<times> nc_input \<Rightarrow> node_connection \<Rightarrow> (unit, node_connection \<times> nc_output list) outcome" where
  "nc_message pt m nc =
     (case snd m of
        NcIncoming w \<Rightarrow> Ok (msg_conn pt Incoming w nc)
      | NcOutgoing w \<Rightarrow> Ok (msg_conn pt Outgoing w nc)
      | _ \<Rightarrow> nc_msg_in pt (fst m) (snd m) nc)"

fun nc_messages ::
  "packet_text \<Rightarrow> (u256 \<times> nc_input) list \<Rightarrow> node_connection \<Rightarrow> (unit, node_connection \<times> nc_output list) outcome" where
  "nc_messages pt [] nc = Ok (nc, [])"
| "nc_messages pt (m # ms) nc =
     bind_outcome (nc_message pt m nc) (\<lambda>(nc1, out1).
     bind_outcome (nc_messages pt ms nc1) (\<lambda>(nc2, out2). Ok (nc2, out1 @ out2)))"

subsection \<open>Splitting and joining\<close>

lemma concat_chunks [simp]: "0 < n \<Longrightarrow> concat (chunks n xs) = xs"
proof (induction n xs rule: chunks.induct)
  case (1 n xs)
  then show ?case by (subst chunks.simps) auto
qed

lemma chunks_size: "c \<in> set (chunks n xs) \<Longrightarrow> c \<noteq> [] \<and> length c \<le> n"
proof (induction n xs rule: chunks.induct)
  case (1 n xs)
  then show ?case by (subst (asm) (2) chunks.simps) (auto split: if_splits)
qed

lemma chunks_empty: "0 < n \<Longrightarrow> chunks n xs = [] \<longleftrightarrow> xs = []"
  by (subst chunks.simps) auto

text \<open>
  What the text form promises. A packet is written as JSON, and that never fails. It is read as
  YAML, which takes the text of most packets back, but not of all: YAML refuses the control
  characters from U+007F on that JSON leaves unescaped, and takes U+0085 for the end of a line.
  A plain packet has none of them, an identifier of 32 bytes if any, and numbers of 32 bits.
\<close>

definition packets_written :: "packet_text \<Rightarrow> bool" where
  "packets_written pt \<longleftrightarrow> (\<forall>p. pt_write pt p \<noteq> None)"

definition yaml_char :: "char \<Rightarrow> bool" where
  "yaml_char c \<longleftrightarrow> (of_char c :: nat) < 127 \<or> 160 \<le> (of_char c :: nat)"

definition plain_packet :: "packet \<Rightarrow> bool" where
  "plain_packet p \<longleftrightarrow> list_all yaml_char (pk_data p) \<and>
     (\<forall>i. pk_id p = Some i \<longrightarrow> u256_ok i) \<and> (\<forall>n. pk_part p = Some n \<longrightarrow> n < 2 ^ 32) \<and>
     (\<forall>n. pk_total p = Some n \<longrightarrow> n < 2 ^ 32)"

definition packets_read :: "packet_text \<Rightarrow> bool" where
  "packets_read pt \<longleftrightarrow> (\<forall>p. plain_packet p \<longrightarrow> (\<exists>s. pt_write pt p = Some s \<and> pt_read pt s = Some p))"

lemma chunk_chars: "c \<in> set (chunks n xs) \<Longrightarrow> set c \<subseteq> set xs"
proof (induction n xs rule: chunks.induct)
  case (1 n xs)
  then show ?case by (subst (asm) (2) chunks.simps) (auto split: if_splits dest: in_set_takeD in_set_dropD)
qed

lemma length_chunks: "length (chunks n xs) \<le> length xs"
proof (induction n xs rule: chunks.induct)
  case (1 n xs)
  then show ?case by (subst chunks.simps) (cases xs; fastforce)
qed

lemma write_parts_ok:
  assumes "packets_read pt" and "u256_ok i" and "tot < 2 ^ 32"
  shows "k + length cs \<le> tot \<Longrightarrow> \<forall>c \<in> set cs. list_all yaml_char c \<Longrightarrow>
    \<exists>ss. write_parts pt i tot k cs = Ok ss \<and> length ss = length cs \<and>
    (\<forall>j < length cs. pt_read pt (ss ! j) = Some \<lparr>pk_id = Some i, pk_part = Some (k + j), pk_total = Some tot, pk_data = cs ! j\<rparr>)"
proof (induction cs arbitrary: k)
  case (Cons c cs)
  have "plain_packet \<lparr>pk_id = Some i, pk_part = Some k, pk_total = Some tot, pk_data = c\<rparr>"
    using assms(2,3) Cons.prems by (simp add: plain_packet_def)
  then obtain s where s: "pt_write pt \<lparr>pk_id = Some i, pk_part = Some k, pk_total = Some tot, pk_data = c\<rparr> = Some s"
    "pt_read pt s = Some \<lparr>pk_id = Some i, pk_part = Some k, pk_total = Some tot, pk_data = c\<rparr>"
    using assms(1) unfolding packets_read_def by blast
  obtain ss where ss: "write_parts pt i tot (Suc k) cs = Ok ss" "length ss = length cs"
    "\<forall>j < length cs. pt_read pt (ss ! j) = Some \<lparr>pk_id = Some i, pk_part = Some (Suc k + j), pk_total = Some tot, pk_data = cs ! j\<rparr>"
    using Cons.IH [of "Suc k"] Cons.prems by auto
  have "pt_read pt ((s # ss) ! j) = Some \<lparr>pk_id = Some i, pk_part = Some (k + j), pk_total = Some tot, pk_data = (c # cs) ! j\<rparr>"
    if "j < Suc (length cs)" for j
    using that s(2) ss(3) by (cases j) simp_all
  then show ?case using s(1) ss(1,2) by (auto simp: expect_def)
qed simp

definition no_full :: "collector \<Rightarrow> bool" where
  "no_full ps \<longleftrightarrow> (\<forall>p \<in> set ps. \<not> full (snd p))"

definition slots :: "string list \<Rightarrow> nat set \<Rightarrow> string option list" where
  "slots cs S = map (\<lambda>i. if i \<in> S then Some (cs ! i) else None) [0..<length cs]"

lemma slots_update: "j < length cs \<Longrightarrow> (slots cs S)[j := Some (cs ! j)] = slots cs (insert j S)"
  by (rule nth_equalityI) (auto simp: slots_def nth_list_update)

lemma slots_none: "slots cs {} = replicate (length cs) None"
  by (rule nth_equalityI) (auto simp: slots_def)

lemma slots_full: "full (slots cs S) \<longleftrightarrow> {..<length cs} \<subseteq> S"
  by (auto simp: full_def slots_def list_all_iff split: if_splits)

lemma slots_joined: "{..<length cs} \<subseteq> S \<Longrightarrow> joined (slots cs S) = concat cs"
proof -
  assume "{..<length cs} \<subseteq> S"
  then have "map (\<lambda>p. case p of Some s \<Rightarrow> s | None \<Rightarrow> []) (slots cs S) = map ((!) cs) [0..<length cs]"
    by (auto simp: slots_def)
  then show ?thesis by (simp add: joined_def map_nth)
qed

lemma set_update_cases:
  assumes "hm_ok m"
  shows "p \<in> set (AList.update k v m) \<longleftrightarrow> p = (k, v) \<or> p \<in> set m \<and> fst p \<noteq> k"
proof -
  obtain a b where p: "p = (a, b)" by fastforce
  have "(a, b) \<in> set (AList.update k v m) \<longleftrightarrow> map_of (AList.update k v m) a = Some b"
    by (rule map_of_set_iff) (simp add: assms)
  moreover have "(a, b) \<in> set m \<longleftrightarrow> map_of m a = Some b" by (rule map_of_set_iff [OF assms])
  ultimately show ?thesis unfolding p by (simp del: map_of_eq_Some_iff) blast
qed

lemma find_mem: "find P xs = Some x \<Longrightarrow> x \<in> set xs \<and> P x"
  by (induction xs) (auto split: if_splits)

lemma no_full_update: "hm_ok m \<Longrightarrow> no_full m \<Longrightarrow> \<not> full e \<Longrightarrow> no_full (AList.update i e m)"
  by (auto simp: no_full_def set_update_cases)

text \<open>One part arrives that was missing.\<close>

lemma new_part:
  assumes "hm_ok ps" and "no_full ps" and "map_of ps i = (if S = {} then None else Some (slots cs S))"
    and "j < length cs"
  defines "p \<equiv> \<lparr>pk_id = Some i, pk_part = Some j, pk_total = Some (length cs), pk_data = cs ! j\<rparr>"
  shows "\<not> {..<length cs} \<subseteq> insert j S \<Longrightarrow>
      new_packet p ps = (AList.update i (slots cs (insert j S)) ps, None)"
    and "{..<length cs} \<subseteq> insert j S \<Longrightarrow>
      new_packet p ps = (AList.delete i (AList.update i (slots cs (insert j S)) ps), Some (concat cs))"
proof -
  let ?e = "slots cs (insert j S)" and ?ps = "AList.update i (slots cs (insert j S)) ps"
  have e: "(case map_of ps i of Some e \<Rightarrow> e | None \<Rightarrow> replicate (length cs) None)[j := Some (cs ! j)] = ?e"
    using assms(3,4) slots_update [of j cs S] by (auto simp: slots_none [symmetric])
  have len: "length (case map_of ps i of Some e \<Rightarrow> e | None \<Rightarrow> replicate (length cs) None) = length cs"
    using assms(3) by (simp add: slots_def)
  have run: "new_packet p ps = (case find (\<lambda>(_, parts). full parts) ?ps of
      None \<Rightarrow> (?ps, None) | Some (j, parts) \<Rightarrow> (AList.delete j ?ps, Some (joined parts)))"
    using assms(4) by (simp add: p_def new_packet_def get_params_def e len Let_def cong: option.case_cong)
  show "new_packet p ps = (?ps, None)" if "\<not> {..<length cs} \<subseteq> insert j S"
  proof -
    have "no_full ?ps" using no_full_update [OF assms(1,2)] that by (simp add: slots_full)
    then have "find (\<lambda>(_, parts). full parts) ?ps = None" by (auto simp: find_None_iff no_full_def)
    with run show ?thesis by simp
  qed
  show "new_packet p ps = (AList.delete i ?ps, Some (concat cs))" if "{..<length cs} \<subseteq> insert j S"
  proof -
    have "full ?e" using that by (simp add: slots_full)
    then have "(i, ?e) \<in> set ?ps \<and> full (snd (i, ?e))" using set_update_cases [OF assms(1)] by simp
    then obtain q where q: "find (\<lambda>(_, parts). full parts) ?ps = Some q"
      by (cases "find (\<lambda>(_, parts). full parts) ?ps") (auto simp: find_None_iff)
    then have "q \<in> set ?ps" "full (snd q)" by (auto dest!: find_mem)
    with assms(2) set_update_cases [OF assms(1), of q i ?e] have "q = (i, ?e)" by (auto simp: no_full_def)
    with run q slots_joined [OF that] show ?thesis by simp
  qed
qed

lemma collect_parts:
  assumes "\<forall>j < length cs. pt_read pt (ss ! j) =
      Some \<lparr>pk_id = Some i, pk_part = Some j, pk_total = Some (length cs), pk_data = cs ! j\<rparr>"
  shows "hm_ok ps \<Longrightarrow> no_full ps \<Longrightarrow> map_of ps i = (if S = {} then None else Some (slots cs S)) \<Longrightarrow>
    S \<subseteq> {..<length cs} \<Longrightarrow> distinct order \<Longrightarrow> set order = {..<length cs} - S \<Longrightarrow> order \<noteq> [] \<Longrightarrow>
    \<exists>ps'. collect pt (map ((!) ss) order) ps = (ps', replicate (length order - 1) None @ [Some (concat cs)]) \<and>
      hm_ok ps' \<and> no_full ps' \<and> map_of ps' = (map_of ps)(i := None)"
proof (induction order arbitrary: ps S)
  case (Cons j order)
  have j: "j < length cs" "j \<notin> S" using Cons.prems(6) by auto
  note part = new_part [OF Cons.prems(1-3) j(1)]
  have read: "new_packet_str pt (ss ! j) ps = new_packet \<lparr>pk_id = Some i, pk_part = Some j, pk_total = Some (length cs), pk_data = cs ! j\<rparr> ps"
    using assms j(1) by (simp add: new_packet_str_def)
  show ?case
  proof (cases "order = []")
    case True
    then have all: "{..<length cs} \<subseteq> insert j S" using Cons.prems(6) by auto
    have "no_full (AList.delete i (AList.update i (slots cs (insert j S)) ps))"
      using Cons.prems(1,2) by (auto simp: no_full_def set_delete set_update_cases)
    with part(2) [OF all] read True Cons.prems(1) show ?thesis by auto
  next
    case False
    let ?ps = "AList.update i (slots cs (insert j S)) ps"
    have rest: "set order = {..<length cs} - insert j S" using Cons.prems(5,6) by auto
    have "set order \<noteq> {}" using False by simp
    then have more: "\<not> {..<length cs} \<subseteq> insert j S" unfolding rest Diff_eq_empty_iff .
    have "hm_ok ?ps" using Cons.prems(1) by simp
    moreover have "no_full ?ps" by (rule no_full_update [OF Cons.prems(1,2)]) (use more in \<open>simp add: slots_full\<close>)
    moreover have "map_of ?ps i = (if insert j S = {} then None else Some (slots cs (insert j S)))" by simp
    moreover have "insert j S \<subseteq> {..<length cs}" "distinct order" using j(1) Cons.prems(4,5) by simp_all
    ultimately obtain ps' where ps':
      "collect pt (map ((!) ss) order) ?ps = (ps', replicate (length order - 1) None @ [Some (concat cs)])"
      "hm_ok ps'" "no_full ps'" "map_of ps' = (map_of ?ps)(i := None)"
      using Cons.IH [OF _ _ _ _ _ rest False] by blast
    have "map_of ps' = (map_of ps)(i := None)" unfolding ps'(4) map_of_update fun_upd_upd ..
    with ps'(1-3) show ?thesis using part(1) [OF more] read False by (cases order) (simp_all add: fun_eq_iff)
  qed
qed simp

lemma packets_reassembled:
  assumes "packets_read pt" and "hm_ok ps" and "no_full ps" and "map_of ps i = None"
    and "u256_ok i" and "list_all yaml_char msg" and "length msg < 2 ^ 32"
    and "webrtc_max_size < utf8_len msg"
  shows "\<exists>ss. split_msg pt i msg = Ok ss \<and> ss \<noteq> [] \<and>
    (\<forall>order. mset order = mset [0..<length ss] \<longrightarrow>
      (\<exists>ps'. collect pt (map ((!) ss) order) ps = (ps', replicate (length ss - 1) None @ [Some msg]) \<and>
        hm_ok ps' \<and> no_full ps' \<and> map_of ps' = map_of ps))"
proof -
  let ?cs = "chunks webrtc_max_size msg"
  have pos: "0 < webrtc_max_size" by (simp add: webrtc_max_size_def)
  from assms(8) have "msg \<noteq> []" by (auto simp: utf8_len_def)
  then have cs: "?cs \<noteq> []" using chunks_empty [OF pos, of msg] by simp
  have few: "length ?cs < 2 ^ 32" using length_chunks [of webrtc_max_size msg] assms(7) by simp
  have plain: "\<forall>c \<in> set ?cs. list_all yaml_char c"
    using assms(6) by (auto simp: list_all_iff dest!: chunk_chars)
  obtain ss where ss: "write_parts pt i (length ?cs) 0 ?cs = Ok ss" "length ss = length ?cs"
    "\<forall>j < length ?cs. pt_read pt (ss ! j) = Some \<lparr>pk_id = Some i, pk_part = Some j, pk_total = Some (length ?cs), pk_data = ?cs ! j\<rparr>"
    using write_parts_ok [OF assms(1,5) few, of 0 ?cs] plain unfolding add_0 by blast
  have "\<exists>ps'. collect pt (map ((!) ss) order) ps = (ps', replicate (length ss - 1) None @ [Some msg]) \<and>
      hm_ok ps' \<and> no_full ps' \<and> map_of ps' = map_of ps" if "mset order = mset [0..<length ss]" for order
  proof -
    have d: "distinct order" using mset_eq_imp_distinct_iff [OF that] by simp
    have st: "set order = {..<length ?cs}" using mset_eq_setD [OF that] ss(2) by (simp add: atLeast0LessThan)
    have len: "length order = length ?cs" using mset_eq_length [OF that] ss(2) by simp
    with cs have "order \<noteq> []" by (metis length_0_conv)
    with d st len collect_parts [OF ss(3) assms(2,3), of "{}" order] assms(4) cs pos ss(2) show ?thesis
      by (auto simp: fun_upd_idem)
  qed
  moreover have "split_msg pt i msg = Ok ss" using assms(8) ss(1) by (simp add: split_msg_def Let_def)
  moreover have "ss \<noteq> []" using ss(2) cs by auto
  ultimately show ?thesis by blast
qed

subsection \<open>From node to node\<close>

lemma short_reassembled:
  assumes "packets_read pt" and "list_all yaml_char msg" and "utf8_len msg \<le> webrtc_max_size"
  shows "\<exists>s. split_msg pt i msg = Ok [s] \<and> new_packet_str pt s ps = (ps, Some msg)"
proof -
  have "plain_packet \<lparr>pk_id = None, pk_part = None, pk_total = None, pk_data = msg\<rparr>"
    using assms(2) by (simp add: plain_packet_def)
  then obtain s where "pt_write pt \<lparr>pk_id = None, pk_part = None, pk_total = None, pk_data = msg\<rparr> = Some s"
    "pt_read pt s = Some \<lparr>pk_id = None, pk_part = None, pk_total = None, pk_data = msg\<rparr>"
    using assms(1) unfolding packets_read_def by blast
  then show ?thesis
    using assms(3) by (simp add: split_msg_def expect_def new_packet_str_def new_packet_def get_params_def)
qed

lemma split_collected:
  assumes "packets_read pt" and "hm_ok ps" and "no_full ps" and "map_of ps i = None"
    and "u256_ok i" and "list_all yaml_char msg" and "length msg < 2 ^ 32"
  shows "\<exists>ss. split_msg pt i msg = Ok ss \<and> ss \<noteq> [] \<and>
    (\<forall>order. mset order = mset [0..<length ss] \<longrightarrow>
      (\<exists>ps'. collect pt (map ((!) ss) order) ps = (ps', replicate (length ss - 1) None @ [Some msg]) \<and>
        hm_ok ps' \<and> no_full ps' \<and> map_of ps' = map_of ps))"
proof (cases "webrtc_max_size < utf8_len msg")
  case True
  show ?thesis by (rule packets_reassembled [OF assms True])
next
  case False
  then obtain s where s: "split_msg pt i msg = Ok [s]" "new_packet_str pt s ps = (ps, Some msg)"
    using short_reassembled [OF assms(1,6)] by (metis not_less)
  have "order = [0]" if "mset order = mset [0..<length [s]]" for order
    using that by (cases order) (auto dest: mset_single_iff_right [THEN iffD1] simp: single_is_union)
  then show ?thesis using s assms(2,3) by (intro exI [of _ "[s]"]) (auto simp: assms)
qed

lemma received_texts:
  "collect pt ss (packet_collector nc) = (ps', rs) \<Longrightarrow>
   nc_messages pt (map (\<lambda>s. (z, NcIncoming (OnText s))) ss) nc =
     Ok (nc\<lparr>packet_collector := ps'\<rparr>, map NcTextOut (List.map_filter id rs))"
proof (induction ss arbitrary: nc rs)
  case (Cons s ss)
  obtain c r where c: "new_packet_str pt s (packet_collector nc) = (c, r)" by fastforce
  obtain rs2 where rs: "collect pt ss c = (ps', rs2)" "rs = r # rs2"
    using Cons.prems c by (auto split: prod.splits)
  show ?case
    using Cons.IH [of "nc\<lparr>packet_collector := c\<rparr>" rs2] rs c
    by (auto simp: nc_message_def msg_conn_def map_filter_def split: option.splits)
qed (simp add: map_filter_def)

lemma map_filter_last: "List.map_filter id (replicate n None @ [Some x]) = [x]"
  by (induction n) (simp_all add: map_filter_def)

definition channel_open :: "connection_state option \<Rightarrow> bool" where
  "channel_open st \<longleftrightarrow> (\<exists>c. st = Some c \<and> data_connection c = Some DcOpen)"

lemma send_queue_open:
  "channel_open (state_outgoing nc) \<Longrightarrow>
   send_queue nc = (nc\<lparr>msg_queue := []\<rparr>, map (\<lambda>m. NcOutgoingOut (RtcText m)) (msg_queue nc))"
  by (auto simp: send_queue_def nc_send_def channel_open_def wrap_direction_def)

text \<open>
  C32. A text given to an open connection goes out at once, in packets, whether it fits into one or
  has to be cut; and whatever the order in which the other node receives these packets, it hands
  the text on exactly once, unchanged, with the last of them. Its collector holds what it held
  before, so the next texts are received as well. This is said of texts of fewer than 2^32
  characters below U+0100, without the control characters from U+007F to U+009F: packets are
  written as JSON and read as YAML, which takes packets of such texts back as they were, but
  refuses or changes those with other control characters.
\<close>

theorem text_delivered:
  assumes "packets_read pt" and "\<forall>c \<in> set msg. yaml_char c" and "length msg < 2 ^ 32" and "u256_ok i"
    and "channel_open (state_outgoing a)" and "msg_queue a = []"
    and "hm_ok (packet_collector b)" and "no_full (packet_collector b)" and "map_of (packet_collector b) i = None"
  shows "\<exists>ss. nc_messages pt [(i, NcText msg)] a = Ok (a, map (\<lambda>s. NcOutgoingOut (RtcText s)) ss) \<and>
    (\<forall>order. mset order = mset [0..<length ss] \<longrightarrow>
      (\<exists>c. nc_messages pt (map (\<lambda>j. (z, NcIncoming (OnText (ss ! j)))) order) b =
          Ok (b\<lparr>packet_collector := c\<rparr>, [NcTextOut msg]) \<and>
        hm_ok c \<and> no_full c \<and> map_of c = map_of (packet_collector b)))"
proof -
  obtain ss where ss: "split_msg pt i msg = Ok ss"
    and col: "\<And>order. mset order = mset [0..<length ss] \<Longrightarrow>
      \<exists>c. collect pt (map ((!) ss) order) (packet_collector b) = (c, replicate (length ss - 1) None @ [Some msg]) \<and>
        hm_ok c \<and> no_full c \<and> map_of c = map_of (packet_collector b)"
    using split_collected [OF assms(1,7-9,4), of msg] assms(2,3) unfolding list_all_iff by blast
  have "a\<lparr>msg_queue := []\<rparr> = a" using assms(6) by simp
  then have "nc_messages pt [(i, NcText msg)] a = Ok (a, map (\<lambda>s. NcOutgoingOut (RtcText s)) ss)"
    using ss assms(5,6) by (simp add: nc_message_def nc_msg_in_def send_queue_open)
  moreover have "\<exists>c. nc_messages pt (map (\<lambda>j. (z, NcIncoming (OnText (ss ! j)))) order) b =
          Ok (b\<lparr>packet_collector := c\<rparr>, [NcTextOut msg]) \<and> hm_ok c \<and> no_full c \<and> map_of c = map_of (packet_collector b)"
    if "mset order = mset [0..<length ss]" for order
    using col [OF that] received_texts [of pt "map ((!) ss) order" b _ _ z]
    by (fastforce simp: map_filter_last comp_def)
  ultimately show ?thesis by blast
qed

subsection \<open>The queue\<close>

definition texts_sent :: "nc_output list \<Rightarrow> string list" where
  "texts_sent out = List.map_filter (\<lambda>x. case x of NcIncomingOut (RtcText t) \<Rightarrow> Some t
     | NcOutgoingOut (RtcText t) \<Rightarrow> Some t | _ \<Rightarrow> None) out"

fun enqueued :: "packet_text \<Rightarrow> (u256 \<times> nc_input) list \<Rightarrow> string list" where
  "enqueued pt [] = []"
| "enqueued pt (m # ms) =
     (case snd m of NcText msg \<Rightarrow> (case split_msg pt (fst m) msg of Ok ps \<Rightarrow> ps | _ \<Rightarrow> []) | _ \<Rightarrow> []) @ enqueued pt ms"

lemma texts_sent_simps [simp]: "texts_sent [] = []" "texts_sent (xs @ ys) = texts_sent xs @ texts_sent ys"
  "texts_sent (map (\<lambda>m. wrap_direction d (RtcText m)) ps) = ps"
proof -
  show "texts_sent (map (\<lambda>m. wrap_direction d (RtcText m)) ps) = ps"
    by (induction ps) (auto simp: texts_sent_def map_filter_def wrap_direction_def split: direction.splits)
qed (simp_all add: texts_sent_def map_filter_def)

lemma nc_send_fifo: "nc_send d st nc = (nc', out) \<Longrightarrow> texts_sent out @ msg_queue nc' = msg_queue nc"
  by (auto simp: nc_send_def split: option.splits if_splits)

lemma send_queue_fifo:
  assumes "send_queue nc = (nc', out)"
  shows "texts_sent out @ msg_queue nc' = msg_queue nc"
proof -
  obtain nc1 out1 where 1: "(if length (msg_queue nc) > 0 then nc_send Outgoing (state_outgoing nc) nc else (nc, [])) = (nc1, out1)"
    by fastforce
  obtain nc2 out2 where 2: "(if length (msg_queue nc1) > 0 then nc_send Incoming (state_incoming nc1) nc1 else (nc1, [])) = (nc2, out2)"
    by fastforce
  have "texts_sent out1 @ msg_queue nc1 = msg_queue nc" "texts_sent out2 @ msg_queue nc2 = msg_queue nc1"
    using 1 2 nc_send_fifo by (auto split: if_splits)
  moreover have "nc' = nc2" "out = out1 @ out2" using assms 1 2 by (auto simp: send_queue_def Let_def)
  ultimately show ?thesis by simp
qed

lemma write_parts_written: "packets_written pt \<Longrightarrow> \<exists>ss. write_parts pt i tot k cs = Ok ss"
proof (induction cs arbitrary: k)
  case (Cons c cs)
  obtain s where "pt_write pt \<lparr>pk_id = Some i, pk_part = Some k, pk_total = Some tot, pk_data = c\<rparr> = Some s"
    using Cons.prems unfolding packets_written_def by blast
  with Cons.IH [OF Cons.prems, of "Suc k"] show ?case by (auto simp: expect_def)
qed simp

lemma split_msg_ok: "packets_written pt \<Longrightarrow> \<exists>ss. split_msg pt i msg = Ok ss"
proof -
  assume w: "packets_written pt"
  obtain s where "pt_write pt \<lparr>pk_id = None, pk_part = None, pk_total = None, pk_data = msg\<rparr> = Some s"
    using w unfolding packets_written_def by blast
  with write_parts_written [OF w] show ?thesis by (simp add: split_msg_def expect_def Let_def)
qed

lemma set_state_queue [simp]: "msg_queue (set_state d st nc) = msg_queue nc"
  by (simp add: set_state_def split: direction.splits)

lemma msg_conn_fifo:
  assumes "msg_conn pt d m nc = (nc', out)"
  shows "texts_sent out @ msg_queue nc' = msg_queue nc"
proof (cases m)
  case OnConnected
  obtain nc2 out2 where 2: "send_queue (set_state d (Some (connection_state_default\<lparr>data_connection := Some DcOpen\<rparr>)) nc) = (nc2, out2)"
    by fastforce
  with send_queue_fifo [OF 2] assms OnConnected show ?thesis
    by (auto simp: msg_conn_def texts_sent_def map_filter_def)
qed (use assms in \<open>auto simp: msg_conn_def texts_sent_def map_filter_def wrap_direction_def
      split: prod.splits option.splits direction.splits\<close>)

lemma nc_message_fifo:
  assumes "packets_written pt"
  shows "\<exists>nc' out. nc_message pt m nc = Ok (nc', out) \<and>
    texts_sent out @ msg_queue nc' = msg_queue nc @ enqueued pt [m]"
proof (cases "snd m")
  case (NcText msg)
  obtain ss where ss: "split_msg pt (fst m) msg = Ok ss" using split_msg_ok [OF assms] by blast
  obtain nc' out where s: "send_queue (nc\<lparr>msg_queue := msg_queue nc @ ss\<rparr>) = (nc', out)" by fastforce
  from send_queue_fifo [OF s] NcText ss s show ?thesis by (simp add: nc_message_def nc_msg_in_def)
next
  case (NcIncoming w)
  obtain nc' out where s: "msg_conn pt Incoming w nc = (nc', out)" by fastforce
  from msg_conn_fifo [OF s] NcIncoming s show ?thesis by (simp add: nc_message_def)
next
  case (NcOutgoing w)
  obtain nc' out where s: "msg_conn pt Outgoing w nc = (nc', out)" by fastforce
  from msg_conn_fifo [OF s] NcOutgoing s show ?thesis by (simp add: nc_message_def)
qed (auto simp: nc_message_def nc_msg_in_def texts_sent_def map_filter_def split: option.splits direction.splits)

text \<open>
  C8. The connection is a queue: over any run, what was sent to the channels followed by what still
  waits is what waited before followed by the packets of the texts that were given to it. No
  packet is lost, doubled or overtaken on this side, whichever channels open and close, and the
  handler never panics.
\<close>

theorem connection_is_fifo:
  assumes "packets_written pt"
  shows "\<exists>nc' out. nc_messages pt ms nc = Ok (nc', out) \<and>
    texts_sent out @ msg_queue nc' = msg_queue nc @ enqueued pt ms"
proof (induction ms arbitrary: nc)
  case (Cons m ms)
  obtain nc1 out1 where 1: "nc_message pt m nc = Ok (nc1, out1)"
    "texts_sent out1 @ msg_queue nc1 = msg_queue nc @ enqueued pt [m]"
    using nc_message_fifo [OF assms] by blast
  obtain nc2 out2 where 2: "nc_messages pt ms nc1 = Ok (nc2, out2)"
    "texts_sent out2 @ msg_queue nc2 = msg_queue nc1 @ enqueued pt ms" using Cons.IH by blast
  have "texts_sent (out1 @ out2) @ msg_queue nc2 = (texts_sent out1 @ msg_queue nc1) @ enqueued pt ms"
    using 2(2) by simp
  also have "\<dots> = msg_queue nc @ enqueued pt (m # ms)" unfolding 1(2) by simp
  finally show ?case using 1(1) 2(1) by simp
qed simp

subsection \<open>A text form of packets\<close>

text \<open>Numbers in unary, bytes as characters: a text form that can be read back.\<close>

fun unary :: "nat \<Rightarrow> string" where
  "unary 0 = ''.''"
| "unary (Suc n) = CHR ''1'' # unary n"

fun read_unary :: "string \<Rightarrow> nat \<times> string" where
  "read_unary [] = (0, [])"
| "read_unary (c # cs) = (if c = CHR ''1'' then (let (n, r) = read_unary cs in (Suc n, r)) else (0, cs))"

definition num_opt :: "nat option \<Rightarrow> nat" where
  "num_opt n = (case n of None \<Rightarrow> 0 | Some k \<Rightarrow> Suc k)"

definition opt_num :: "nat \<Rightarrow> nat option" where
  "opt_num n = (if n = 0 then None else Some (n - 1))"

definition simple_write :: "packet \<Rightarrow> string" where
  "simple_write p = unary (num_opt (pk_part p)) @ unary (num_opt (pk_total p)) @
     (case pk_id p of None \<Rightarrow> unary 0
      | Some u \<Rightarrow> unary (Suc (length (u256_bytes u))) @ map (\<lambda>b. char_of (unat b)) (u256_bytes u)) @ pk_data p"

definition simple_read :: "string \<Rightarrow> packet" where
  "simple_read s = (let (part, s) = read_unary s; (tot, s) = read_unary s; (n, s) = read_unary s in
     \<lparr>pk_id = (if n = 0 then None else Some (U256 (map (\<lambda>c. word_of_nat (of_char c)) (take (n - 1) s)))),
      pk_part = opt_num part, pk_total = opt_num tot, pk_data = drop (n - 1) s\<rparr>)"

lemma read_unary [simp]: "read_unary (unary n @ s) = (n, s)"
  by (induction n) simp_all

lemma opt_num [simp]: "opt_num (num_opt n) = n"
  by (simp add: opt_num_def num_opt_def split: option.splits)

lemma byte_char: "word_of_nat (of_char (char_of (unat b) :: char)) = (b :: u8)"
  using unat_u8 [of b] by simp

lemma simple_read_write: "simple_read (simple_write p) = p"
proof (cases "pk_id p")
  case None
  then show ?thesis using read_unary [of 0 "pk_data p"]
    by (cases p) (simp add: simple_read_def simple_write_def)
next
  case (Some u)
  have "map (\<lambda>c. word_of_nat (of_char c)) (map (\<lambda>b. char_of (unat b) :: char) (u256_bytes u)) = u256_bytes u"
    unfolding map_map comp_def byte_char by simp
  with Some read_unary [of "Suc (length (u256_bytes u))" "map (\<lambda>b. char_of (unat b)) (u256_bytes u) @ pk_data p"] show ?thesis
    by (cases p) (simp add: simple_read_def simple_write_def del: map_map unary.simps)
qed

definition simple_packets :: packet_text where
  "simple_packets = \<lparr>pt_write = (\<lambda>p. Some (simple_write p)), pt_read = (\<lambda>s. Some (simple_read s))\<rparr>"

lemma simple_packets_ok: "packets_written simple_packets" "packets_read simple_packets"
  by (simp_all add: packets_written_def packets_read_def simple_packets_def simple_read_write)

definition open_connection :: node_connection where
  "open_connection = node_connection_new\<lparr>state_outgoing := Some (connection_state_default\<lparr>data_connection := Some DcOpen\<rparr>)\<rparr>"

theorem text_delivered_witness:
  "\<exists>ss. nc_messages simple_packets [(u256_zero, NcText (replicate 20000 CHR ''a''))] open_connection =
      Ok (open_connection, map (\<lambda>s. NcOutgoingOut (RtcText s)) ss) \<and>
    (\<exists>b. nc_messages simple_packets (map (\<lambda>j. (u256_zero, NcIncoming (OnText (ss ! j)))) (rev [0..<length ss])) node_connection_new =
      Ok (b, [NcTextOut (replicate 20000 CHR ''a'')]))"
proof -
  have "channel_open (state_outgoing open_connection)" "msg_queue open_connection = []"
    by (simp_all add: open_connection_def node_connection_new_def channel_open_def)
  moreover have "hm_ok (packet_collector node_connection_new)" "no_full (packet_collector node_connection_new)"
    "map_of (packet_collector node_connection_new) u256_zero = None"
    by (simp_all add: node_connection_new_def no_full_def)
  ultimately obtain ss where
    "nc_messages simple_packets [(u256_zero, NcText (replicate 20000 CHR ''a''))] open_connection =
      Ok (open_connection, map (\<lambda>s. NcOutgoingOut (RtcText s)) ss)"
    and all: "\<And>order. mset order = mset [0..<length ss] \<Longrightarrow>
      \<exists>c. nc_messages simple_packets (map (\<lambda>j. (u256_zero, NcIncoming (OnText (ss ! j)))) order) node_connection_new =
          Ok (node_connection_new\<lparr>packet_collector := c\<rparr>, [NcTextOut (replicate 20000 CHR ''a'')])"
    using text_delivered [OF simple_packets_ok(2), of "replicate 20000 CHR ''a''" u256_zero open_connection node_connection_new]
    by (simp add: yaml_char_def u256_ok_def u256_zero_def) blast
  moreover have "mset (rev [0..<length ss]) = mset [0..<length ss]" by simp
  ultimately show ?thesis by blast
qed

theorem connection_is_fifo_witness:
  "\<exists>nc out. nc_messages simple_packets [(u256_zero, NcText ''a''), (u256_zero, NcOutgoing OnConnected), (u256_zero, NcText ''b'')]
     node_connection_new = Ok (nc, out) \<and>
   texts_sent out @ msg_queue nc =
     enqueued simple_packets [(u256_zero, NcText ''a''), (u256_zero, NcOutgoing OnConnected), (u256_zero, NcText ''b'')]"
  using connection_is_fifo [OF simple_packets_ok(1), of "[(u256_zero, NcText ''a''), (u256_zero, NcOutgoing OnConnected), (u256_zero, NcText ''b'')]" node_connection_new]
  by (simp add: node_connection_new_def)

text \<open>
  The parts of a long text are cut by characters, the limit is in bytes: with characters of two
  bytes, the text of one packet alone is twice the limit.
\<close>

lemma chunk_over_limit:
  assumes "packets_written pt"
  shows "split_msg pt i (replicate webrtc_max_size (CHR 0xE9)) = write_parts pt i 1 0 [replicate webrtc_max_size (CHR 0xE9)] \<and>
    utf8_len (replicate webrtc_max_size (CHR 0xE9)) = 2 * webrtc_max_size"
proof -
  have "0 < webrtc_max_size" by (simp add: webrtc_max_size_def)
  then have "chunks webrtc_max_size (replicate webrtc_max_size (CHR 0xE9)) = [replicate webrtc_max_size (CHR 0xE9)]"
    by (subst chunks.simps, subst chunks.simps) simp
  moreover have "utf8_len (replicate n (CHR 0xE9)) = 2 * n" for n
    by (induction n) (simp_all add: utf8_len_def)
  ultimately show ?thesis using \<open>0 < webrtc_max_size\<close> by (simp add: split_msg_def Let_def del: write_parts.simps)
qed

end
