(* ===== verification/SignalServer.thy ===== *)
theory SignalServer
  imports WebRtc
begin

text \<open>
  The signalling server, \<open>flmodules/src/network/signal.rs\<close>, with the messages of
  the websocket server of \<open>flarch/src/web_rtc/websocket.rs\<close> it is connected to.

  The two-way map of the crate \<open>bimap\<close>, the JSON codec, the signature scheme and the choice of
  the nodes of a list are parameters. A random challenge comes with the message that needs it.
  The time to live is a 16-bit number that wraps around, as it does in a release build.
\<close>

subsection \<open>Messages\<close>

record node_stat =
  ns_id :: u256
  ns_version :: string
  ns_ping_ms :: u32
  ns_ping_rx :: u32

record message_announce =
  ma_version :: u64
  ma_challenge :: u256
  ma_node_info :: node_info
  ma_signature :: bytes

datatype ws_from_node =
    Announce message_announce | ListIDsRequest | PeerSetupFrom peer_info | NodeStatsFrom "node_stat list"

datatype ws_to_node =
    Challenge u64 u256 | ListIDsReply "node_info list" | PeerSetupTo peer_info | SystemConfigTo "u256 option"

datatype ws_server_out = WsMessage nat string | WsNewConnection nat | WsDisconnection nat | WsStopped

datatype ws_server_in = WsSend nat string | WsClose nat | WsStop

datatype signal_in = SigTimer | SigWs ws_server_out | SigStop

datatype signal_out = OutNodeStats "node_stat list" | OutNewNode u256 | OutWs ws_server_in | OutStopped

subsection \<open>State\<close>

record signal_config =
  ttl_minutes :: "16 word"
  sc_system_realm :: "u256 option"
  max_list_len :: "nat option"

record 'b bimap =
  bm_new :: 'b
  bm_insert :: "u256 \<Rightarrow> nat \<Rightarrow> 'b \<Rightarrow> 'b"
  bm_by_left :: "u256 \<Rightarrow> 'b \<Rightarrow> nat option"
  bm_by_right :: "nat \<Rightarrow> 'b \<Rightarrow> u256 option"
  bm_remove_right :: "nat \<Rightarrow> 'b \<Rightarrow> 'b"

record ('b, 'pk, 'sig) signal_env =
  sv_bimap :: "'b bimap"
  sv_ed :: "('pk, 'sig) ed25519"
  sv_write :: "ws_to_node \<Rightarrow> string option"
  sv_read :: "string \<Rightarrow> ws_from_node option"
  sv_pick :: "nat \<Rightarrow> nat \<Rightarrow> node_info list \<Rightarrow> node_info list"

record 'b signal_server =
  connection_ids :: 'b
  sg_info :: "(u256, node_info) hashmap"
  sg_ttl :: "(nat, 16 word) hashmap"
  sg_config :: signal_config

definition signal_version :: u64 where
  "signal_version = 3"

definition signal_new :: "('b, 'pk, 'sig) signal_env \<Rightarrow> signal_config \<Rightarrow> 'b signal_server" where
  "signal_new e c = \<lparr>connection_ids = bm_new (sv_bimap e), sg_info = [], sg_ttl = [], sg_config = c\<rparr>"

subsection \<open>Handlers\<close>

definition send_msg_node ::
  "('b, 'pk, 'sig) signal_env \<Rightarrow> nat \<Rightarrow> ws_to_node \<Rightarrow> (unit, signal_out list) outcome" where
  "send_msg_node e index m = bind_outcome (expect (sv_write e m)) (\<lambda>s. Ok [OutWs (WsSend index s)])"

definition sg_remove_node :: "('b, 'pk, 'sig) signal_env \<Rightarrow> nat \<Rightarrow> 'b signal_server \<Rightarrow> 'b signal_server" where
  "sg_remove_node e index s =
     (let s1 = (case bm_by_right (sv_bimap e) index (connection_ids s) of
                  Some i \<Rightarrow> s\<lparr>connection_ids := bm_remove_right (sv_bimap e) index (connection_ids s),
                             sg_info := AList.delete i (sg_info s)\<rparr>
                | None \<Rightarrow> s)
      in s1\<lparr>sg_ttl := AList.delete index (sg_ttl s1)\<rparr>)"

definition msg_in_timer :: "('b, 'pk, 'sig) signal_env \<Rightarrow> 'b signal_server \<Rightarrow> 'b signal_server" where
  "msg_in_timer e s =
     (let ttl = map (\<lambda>(i, t). (i, t - 1)) (sg_ttl s);
          to_remove = map fst (filter (\<lambda>(i, t). t = 0) ttl)
      in fold (sg_remove_node e) to_remove (s\<lparr>sg_ttl := ttl\<rparr>))"

definition msg_ws_connect ::
  "('b, 'pk, 'sig) signal_env \<Rightarrow> u256 \<Rightarrow> nat \<Rightarrow> 'b signal_server \<Rightarrow> (unit, 'b signal_server \<times> signal_out list) outcome" where
  "msg_ws_connect e challenge index s =
     bind_outcome (send_msg_node e index (Challenge signal_version challenge)) (\<lambda>out.
       Ok (s\<lparr>connection_ids := bm_insert (sv_bimap e) challenge index (connection_ids s),
             sg_ttl := AList.update index (ttl_minutes (sg_config s)) (sg_ttl s)\<rparr>, out))"

definition ws_announce ::
  "('b, 'pk, 'sig) signal_env \<Rightarrow> nat \<Rightarrow> message_announce \<Rightarrow> 'b signal_server \<Rightarrow>
     (unit, 'b signal_server \<times> signal_out list) outcome" where
  "ws_announce e index msg s =
     (case bm_by_right (sv_bimap e) index (connection_ids s) of
        None \<Rightarrow> Ok (s, [])
      | Some challenge \<Rightarrow>
          bind_outcome (ni_verify (sv_ed e) (ma_node_info msg) (u256_bytes challenge) (ma_signature msg)) (\<lambda>good.
            if \<not> good then Ok (s, [])
            else bind_outcome (get_id (ma_node_info msg)) (\<lambda>i.
              let s1 = s\<lparr>connection_ids := bm_insert (sv_bimap e) i index (connection_ids s),
                         sg_info := AList.update i (ma_node_info msg) (sg_info s)\<rparr>
              in bind_outcome (send_msg_node e index (SystemConfigTo (sc_system_realm (sg_config s1))))
                   (\<lambda>msgs. Ok (s1, msgs @ [OutNewNode i])))))"

definition ws_list_ids ::
  "('b, 'pk, 'sig) signal_env \<Rightarrow> nat \<Rightarrow> 'b signal_server \<Rightarrow> (unit, signal_out list) outcome" where
  "ws_list_ids e index s =
     (let max_size = (case max_list_len (sg_config s) of Some n \<Rightarrow> n | None \<Rightarrow> length (sg_info s))
      in send_msg_node e index (ListIDsReply (sv_pick e index max_size (map snd (sg_info s)))))"

definition ws_peer_setup ::
  "('b, 'pk, 'sig) signal_env \<Rightarrow> nat \<Rightarrow> peer_info \<Rightarrow> 'b signal_server \<Rightarrow> (unit, signal_out list) outcome" where
  "ws_peer_setup e index p s =
     (case bm_by_right (sv_bimap e) index (connection_ids s) of
        None \<Rightarrow> Ok []
      | Some i \<Rightarrow>
          (case get_remote i p of
             None \<Rightarrow> Ok []
           | Some dst \<Rightarrow>
               (case bm_by_left (sv_bimap e) dst (connection_ids s) of
                  Some dst_index \<Rightarrow> send_msg_node e dst_index (PeerSetupTo p)
                | None \<Rightarrow> Ok [])))"

definition ws_node_stats :: "node_stat list \<Rightarrow> signal_out list" where
  "ws_node_stats ns = [OutNodeStats ns]"

definition msg_ws_process ::
  "('b, 'pk, 'sig) signal_env \<Rightarrow> nat \<Rightarrow> ws_from_node \<Rightarrow> 'b signal_server \<Rightarrow>
     (unit, 'b signal_server \<times> signal_out list) outcome" where
  "msg_ws_process e index m s =
     (case m of
        Announce ann \<Rightarrow> ws_announce e index ann s
      | ListIDsRequest \<Rightarrow> bind_outcome (ws_list_ids e index s) (\<lambda>out. Ok (s, out))
      | PeerSetupFrom p \<Rightarrow> bind_outcome (ws_peer_setup e index p s) (\<lambda>out. Ok (s, out))
      | NodeStatsFrom ns \<Rightarrow> Ok (s, ws_node_stats ns))"

definition msg_wss ::
  "('b, 'pk, 'sig) signal_env \<Rightarrow> u256 \<Rightarrow> ws_server_out \<Rightarrow> 'b signal_server \<Rightarrow>
     (unit, 'b signal_server \<times> signal_out list) outcome" where
  "msg_wss e rnd m s =
     (case m of
        WsMessage index text \<Rightarrow>
          (let s1 = (if hm_contains (sg_ttl s) index
                     then s\<lparr>sg_ttl := AList.update index (ttl_minutes (sg_config s)) (sg_ttl s)\<rparr> else s)
           in case sv_read e text of
                Some msg_ws \<Rightarrow> msg_ws_process e index msg_ws s1
              | None \<Rightarrow> Ok (s1, []))
      | WsNewConnection index \<Rightarrow> msg_ws_connect e rnd index s
      | WsDisconnection index \<Rightarrow> Ok (sg_remove_node e index s, [])
      | WsStopped \<Rightarrow> Ok (s, [OutStopped]))"

definition signal_msg_in ::
  "('b, 'pk, 'sig) signal_env \<Rightarrow> u256 \<times> signal_in \<Rightarrow> 'b signal_server \<Rightarrow>
     (unit, 'b signal_server \<times> signal_out list) outcome" where
  "signal_msg_in e m s =
     (case snd m of
        SigTimer \<Rightarrow> Ok (msg_in_timer e s, [])
      | SigWs w \<Rightarrow> msg_wss e (fst m) w s
      | SigStop \<Rightarrow> Ok (s, [OutWs WsStop]))"

fun signal_messages ::
  "('b, 'pk, 'sig) signal_env \<Rightarrow> (u256 \<times> signal_in) list \<Rightarrow> 'b signal_server \<Rightarrow>
     (unit, 'b signal_server \<times> signal_out list) outcome" where
  "signal_messages e [] s = Ok (s, [])"
| "signal_messages e (m # ms) s =
     bind_outcome (signal_msg_in e m s) (\<lambda>(s1, out1).
     bind_outcome (signal_messages e ms s1) (\<lambda>(s2, out2). Ok (s2, out1 @ out2)))"

subsection \<open>The two-way map and the invariant of the server\<close>

text \<open>
  What \<open>bimap\<close> documents: an insertion overwrites whatever pair has the same left or the same
  right value. A pair of functions has these laws.
\<close>

definition bimap_laws :: "'b bimap \<Rightarrow> bool" where
  "bimap_laws b \<longleftrightarrow>
     (\<forall>l. bm_by_left b l (bm_new b) = None) \<and> (\<forall>r. bm_by_right b r (bm_new b) = None) \<and>
     (\<forall>l r l' m. bm_by_left b l' (bm_insert b l r m) =
        (if l' = l then Some r else if bm_by_left b l' m = Some r then None else bm_by_left b l' m)) \<and>
     (\<forall>l r r' m. bm_by_right b r' (bm_insert b l r m) =
        (if r' = r then Some l else if bm_by_right b r' m = Some l then None else bm_by_right b r' m)) \<and>
     (\<forall>r l' m. bm_by_left b l' (bm_remove_right b r m) = (if bm_by_left b l' m = Some r then None else bm_by_left b l' m)) \<and>
     (\<forall>r r' m. bm_by_right b r' (bm_remove_right b r m) = (if r' = r then None else bm_by_right b r' m))"

abbreviation name_of :: "('b, 'pk, 'sig) signal_env \<Rightarrow> 'b signal_server \<Rightarrow> nat \<Rightarrow> u256 option" where
  "name_of e s index \<equiv> bm_by_right (sv_bimap e) index (connection_ids s)"

abbreviation index_of :: "('b, 'pk, 'sig) signal_env \<Rightarrow> 'b signal_server \<Rightarrow> u256 \<Rightarrow> nat option" where
  "index_of e s l \<equiv> bm_by_left (sv_bimap e) l (connection_ids s)"

text \<open>
  The environment as documented: keys have 32 bytes, messages can always be written, and the
  field \<open>id\<close> of a description is skipped when it is read.
\<close>

definition signal_env_ok :: "('b, 'pk, 'sig) signal_env \<Rightarrow> bool" where
  "signal_env_ok e \<longleftrightarrow> bimap_laws (sv_bimap e) \<and> (\<forall>m. sv_write e m \<noteq> None) \<and>
     (\<forall>k. ed_public (sv_ed e) k \<noteq> None \<longleftrightarrow> length k = 32) \<and>
     (\<forall>text ann. sv_read e text = Some (Announce ann) \<longrightarrow> ni_id (ma_node_info ann) = None)"

definition signal_ok :: "('b, 'pk, 'sig) signal_env \<Rightarrow> 'b signal_server \<Rightarrow> bool" where
  "signal_ok e s \<longleftrightarrow> hm_ok (sg_info s) \<and> hm_ok (sg_ttl s) \<and>
     (\<forall>l i. index_of e s l = Some i \<longleftrightarrow> name_of e s i = Some l) \<and>
     (\<forall>i l. name_of e s i = Some l \<longrightarrow> map_of (sg_ttl s) i \<noteq> None) \<and>
     (\<forall>l ni. map_of (sg_info s) l = Some ni \<longrightarrow> get_id ni = Ok l)"

declare map_of_eq_Some_iff [simp del]

lemma send_msg_ok:
  assumes "signal_env_ok e"
  shows "\<exists>text. send_msg_node e i m = Ok [OutWs (WsSend i text)]"
proof -
  obtain tx where "sv_write e m = Some tx" using assms unfolding signal_env_ok_def by blast
  then show ?thesis by (simp add: send_msg_node_def expect_def)
qed

lemma name_unique:
  assumes "signal_ok e s" and "name_of e s i = Some l"
  shows "name_of e s j = Some l \<longleftrightarrow> j = i" and "index_of e s l = Some i"
proof -
  show "index_of e s l = Some i" using assms by (simp add: signal_ok_def)
  with assms show "name_of e s j = Some l \<longleftrightarrow> j = i" unfolding signal_ok_def by (metis option.inject)
qed

lemma signal_new_ok: "signal_env_ok e \<Longrightarrow> signal_ok e (signal_new e c)"
  by (simp add: signal_env_ok_def bimap_laws_def signal_ok_def signal_new_def)

lemma remove_node_names:
  assumes "signal_env_ok e"
  shows "name_of e (sg_remove_node e i s) j = (if j = i then None else name_of e s j)"
    and "sg_ttl (sg_remove_node e i s) = AList.delete i (sg_ttl s)"
    and "sg_info (sg_remove_node e i s) =
      (case name_of e s i of Some l \<Rightarrow> AList.delete l (sg_info s) | None \<Rightarrow> sg_info s)"
    and "sg_config (sg_remove_node e i s) = sg_config s"
  using assms by (auto simp: sg_remove_node_def Let_def signal_env_ok_def bimap_laws_def split: option.splits)

lemma unregister_ok:
  assumes "signal_env_ok e" and "signal_ok e s"
  shows "signal_ok e (sg_remove_node e i s)"
proof -
  have idx: "index_of e s l = Some j \<longleftrightarrow> name_of e s j = Some l" for l j using assms(2) by (simp add: signal_ok_def)
  have left: "index_of e (sg_remove_node e i s) l = (if name_of e s i = Some l then None else index_of e s l)" for l
    using assms(1) idx by (cases "name_of e s i")
      (auto simp: sg_remove_node_def Let_def signal_env_ok_def bimap_laws_def)
  have "index_of e (sg_remove_node e i s) l = Some j \<longleftrightarrow> name_of e (sg_remove_node e i s) j = Some l" for l j
    unfolding left remove_node_names(1) [OF assms(1)] using idx name_unique [OF assms(2)] by auto
  moreover have "hm_ok (sg_info (sg_remove_node e i s)) \<and> hm_ok (sg_ttl (sg_remove_node e i s))"
    using assms(2) by (auto simp: remove_node_names [OF assms(1)] signal_ok_def split: option.splits)
  moreover have "\<forall>j l. name_of e (sg_remove_node e i s) j = Some l \<longrightarrow> map_of (sg_ttl (sg_remove_node e i s)) j \<noteq> None"
    using assms(2) by (auto simp: remove_node_names [OF assms(1)] signal_ok_def)
  moreover have "\<forall>l ni. map_of (sg_info (sg_remove_node e i s)) l = Some ni \<longrightarrow> get_id ni = Ok l"
    using assms(2) by (auto simp: remove_node_names [OF assms(1)] signal_ok_def split: option.splits if_splits)
  ultimately show ?thesis unfolding signal_ok_def by blast
qed

lemma remove_nodes_ok:
  "signal_env_ok e \<Longrightarrow> signal_ok e s \<Longrightarrow> signal_ok e (fold (sg_remove_node e) ns s)"
  by (induction ns arbitrary: s) (auto intro: unregister_ok)

definition count_down :: "(nat, 16 word) hashmap \<Rightarrow> (nat, 16 word) hashmap" where
  "count_down ttl = map (\<lambda>(i, t). (i, t - 1)) ttl"

lemma count_down_keys [simp]: "map fst (count_down ttl) = map fst ttl"
  by (induction ttl) (auto simp: count_down_def)

lemma map_of_count_down: "map_of (count_down ttl) i = map_option (\<lambda>t. t - 1) (map_of ttl i)"
  by (induction ttl) (auto simp: count_down_def)

lemma timer_fold: "msg_in_timer e s = fold (sg_remove_node e)
    (map fst (filter (\<lambda>(i, t). t = 0) (count_down (sg_ttl s)))) (s\<lparr>sg_ttl := count_down (sg_ttl s)\<rparr>)"
  by (simp add: msg_in_timer_def Let_def count_down_def)

lemma counted_ok: "signal_ok e s \<Longrightarrow> signal_ok e (s\<lparr>sg_ttl := count_down (sg_ttl s)\<rparr>)"
  by (simp add: signal_ok_def map_of_count_down)

lemma timer_ok: "signal_env_ok e \<Longrightarrow> signal_ok e s \<Longrightarrow> signal_ok e (msg_in_timer e s)"
  by (simp add: timer_fold remove_nodes_ok counted_ok)

lemma insert_ok:
  assumes "signal_env_ok e" and "signal_ok e s" and "map_of (sg_ttl s) i \<noteq> None"
  shows "signal_ok e (s\<lparr>connection_ids := bm_insert (sv_bimap e) l i (connection_ids s)\<rparr>)"
proof -
  let ?s = "s\<lparr>connection_ids := bm_insert (sv_bimap e) l i (connection_ids s)\<rparr>"
  have right: "name_of e ?s j = (if j = i then Some l else if name_of e s j = Some l then None else name_of e s j)" for j
    using assms(1) by (simp add: signal_env_ok_def bimap_laws_def)
  have left: "index_of e ?s k = (if k = l then Some i else if index_of e s k = Some i then None else index_of e s k)" for k
    using assms(1) by (simp add: signal_env_ok_def bimap_laws_def)
  have idx: "index_of e s k = Some j \<longleftrightarrow> name_of e s j = Some k" for k j using assms(2) by (simp add: signal_ok_def)
  have "index_of e ?s k = Some j \<longleftrightarrow> name_of e ?s j = Some k" for k j
    unfolding left right using idx name_unique [OF assms(2)] by auto
  moreover have "\<forall>j k. name_of e ?s j = Some k \<longrightarrow> map_of (sg_ttl ?s) j \<noteq> None"
    unfolding right using assms(2,3) by (auto simp: signal_ok_def)
  ultimately show ?thesis using assms(2) unfolding signal_ok_def by simp
qed

lemma refresh_ok: "signal_ok e s \<Longrightarrow> signal_ok e (s\<lparr>sg_ttl := AList.update i t (sg_ttl s)\<rparr>)"
  by (auto simp: signal_ok_def)

text \<open>Announcements whose key can be read do not panic.\<close>

definition keys_readable :: "('b, 'pk, 'sig) signal_env \<Rightarrow> bool" where
  "keys_readable e \<longleftrightarrow>
     (\<forall>text ann. sv_read e text = Some (Announce ann) \<longrightarrow> length (ni_pubkey (ma_node_info ann)) = 32)"

definition announce_ok :: "('b, 'pk, 'sig) signal_env \<Rightarrow> message_announce \<Rightarrow> bool" where
  "announce_ok e ann \<longleftrightarrow> ni_id (ma_node_info ann) = None \<and> length (ni_pubkey (ma_node_info ann)) = 32"

lemma announce_cases:
  assumes "signal_env_ok e" and "announce_ok e ann"
  shows "(\<exists>l pk sg text. name_of e s i = Some l \<and> ed_public (sv_ed e) (ni_pubkey (ma_node_info ann)) = Some pk \<and>
      ed_signature (sv_ed e) (ma_signature ann) = Some sg \<and> ed_verify (sv_ed e) pk (u256_bytes l) sg \<and>
      ws_announce e i ann s = Ok (s\<lparr>connection_ids := bm_insert (sv_bimap e) (U256 (ni_pubkey (ma_node_info ann))) i (connection_ids s),
          sg_info := AList.update (U256 (ni_pubkey (ma_node_info ann))) (ma_node_info ann) (sg_info s)\<rparr>,
        [OutWs (WsSend i text), OutNewNode (U256 (ni_pubkey (ma_node_info ann)))])) \<or>
    ws_announce e i ann s = Ok (s, [])"
proof -
  obtain pk where "ed_public (sv_ed e) (ni_pubkey (ma_node_info ann)) = Some pk"
    using assms by (fastforce simp: signal_env_ok_def announce_ok_def)
  moreover obtain tx where "send_msg_node e i (SystemConfigTo (sc_system_realm (sg_config s))) = Ok [OutWs (WsSend i tx)]"
    using send_msg_ok [OF assms(1)] by blast
  ultimately show ?thesis using assms(2)
    by (auto simp: ws_announce_def ni_verify_def expect_def get_id_def announce_ok_def Let_def split: option.splits)
qed

lemma announce_keeps:
  assumes "signal_env_ok e" and "announce_ok e ann" and "signal_ok e s"
  shows "\<exists>s' out. ws_announce e i ann s = Ok (s', out) \<and> signal_ok e s'"
proof -
  let ?i = "U256 (ni_pubkey (ma_node_info ann))"
  have id: "get_id (ma_node_info ann) = Ok ?i" using assms(2) by (simp add: announce_ok_def get_id_def)
  have "signal_ok e (s\<lparr>connection_ids := bm_insert (sv_bimap e) ?i i (connection_ids s),
      sg_info := AList.update ?i (ma_node_info ann) (sg_info s)\<rparr>)" if "name_of e s i = Some l" for l
  proof -
    have "map_of (sg_ttl s) i \<noteq> None" using assms(3) that by (auto simp: signal_ok_def)
    from insert_ok [OF assms(1,3) this, of ?i] id show ?thesis by (auto simp: signal_ok_def)
  qed
  with announce_cases [OF assms(1,2), of i s] assms(3) show ?thesis by auto
qed

lemma signal_msg_keeps:
  assumes "signal_env_ok e" and "keys_readable e" and "signal_ok e s"
  shows "\<exists>s' out. signal_msg_in e m s = Ok (s', out) \<and> signal_ok e s'"
proof (cases "snd m")
  case SigTimer
  with timer_ok [OF assms(1,3)] show ?thesis by (simp add: signal_msg_in_def)
next
  case (SigWs w)
  show ?thesis
  proof (cases w)
    case (WsMessage i t)
    define s1 where "s1 = (if hm_contains (sg_ttl s) i
        then s\<lparr>sg_ttl := AList.update i (ttl_minutes (sg_config s)) (sg_ttl s)\<rparr> else s)"
    have s1: "signal_ok e s1" using assms(3) refresh_ok [OF assms(3)] by (simp add: s1_def)
    have run: "signal_msg_in e m s = (case sv_read e t of Some msg_ws \<Rightarrow> msg_ws_process e i msg_ws s1
        | None \<Rightarrow> Ok (s1, []))"
      unfolding s1_def by (simp add: signal_msg_in_def SigWs WsMessage msg_wss_def Let_def)
    show ?thesis
    proof (cases "sv_read e t")
      case (Some mw)
      show ?thesis
      proof (cases mw)
        case (Announce ann)
        have "announce_ok e ann"
          using assms(1,2) Some Announce by (auto simp: announce_ok_def signal_env_ok_def keys_readable_def)
        from announce_keeps [OF assms(1) this s1] Announce Some run show ?thesis
          by (simp add: msg_ws_process_def)
      next
        case ListIDsRequest
        obtain tx where "ws_list_ids e i s1 = Ok [OutWs (WsSend i tx)]"
          using send_msg_ok [OF assms(1)] by (auto simp: ws_list_ids_def Let_def)
        with Some run s1 ListIDsRequest show ?thesis by (simp add: msg_ws_process_def)
      next
        case (PeerSetupFrom p)
        have "\<exists>out. ws_peer_setup e i p s1 = Ok out"
          using send_msg_ok [OF assms(1)] by (fastforce simp: ws_peer_setup_def split: option.splits)
        with Some run s1 PeerSetupFrom show ?thesis by (auto simp: msg_ws_process_def)
      next
        case (NodeStatsFrom ns)
        with Some run s1 show ?thesis by (simp add: msg_ws_process_def)
      qed
    qed (use run s1 in simp)
  next
    case (WsNewConnection i)
    obtain tx where "send_msg_node e i (Challenge signal_version (fst m)) = Ok [OutWs (WsSend i tx)]"
      using send_msg_ok [OF assms(1)] by blast
    moreover have "signal_ok e (s\<lparr>connection_ids := bm_insert (sv_bimap e) (fst m) i (connection_ids s),
        sg_ttl := AList.update i (ttl_minutes (sg_config s)) (sg_ttl s)\<rparr>)"
    proof -
      have "signal_ok e (s\<lparr>sg_ttl := AList.update i (ttl_minutes (sg_config s)) (sg_ttl s),
          connection_ids := bm_insert (sv_bimap e) (fst m) i (connection_ids s)\<rparr>)"
        using insert_ok [OF assms(1) refresh_ok [OF assms(3), where i = i and t = "ttl_minutes (sg_config s)"],
            where i = i and l = "fst m"] by simp
      then show ?thesis by (simp add: signal_ok_def)
    qed
    ultimately show ?thesis
      by (simp add: signal_msg_in_def SigWs WsNewConnection msg_wss_def msg_ws_connect_def)
  next
    case (WsDisconnection i)
    with SigWs unregister_ok [OF assms(1,3)] show ?thesis by (simp add: signal_msg_in_def msg_wss_def)
  next
    case WsStopped
    with SigWs assms(3) show ?thesis by (simp add: signal_msg_in_def msg_wss_def)
  qed
next
  case SigStop
  with assms(3) show ?thesis by (simp add: signal_msg_in_def)
qed

lemma signal_messages_all: "signal_messages e ms s = handle_all (signal_msg_in e) ms s"
  by (induction ms arbitrary: s) simp_all

interpretation sg: subsystem "signal_msg_in e" "\<lambda>_. signal_env_ok e \<and> keys_readable e" "signal_ok e" "\<lambda>_. True" for e
proof
  fix s m
  assume "signal_ok e s" and "signal_env_ok e \<and> keys_readable e"
  with signal_msg_keeps [of e s m] show "\<exists>s' out. signal_msg_in e m s = Ok (s', out) \<and> signal_ok e s' \<and> list_all (\<lambda>_. True) out"
    by (simp add: list_all_iff)
qed

subsection \<open>Properties\<close>

text \<open>
  As long as the keys that are announced have the right length, the server answers every message
  and keeps its books: names and connections are one to one, every connection has a time to
  live, and every node is filed under its own identifier.
\<close>

theorem signal_messages_ok:
  assumes "signal_env_ok e" and "keys_readable e" and "signal_ok e s"
  shows "\<exists>s' out. signal_messages e ms s = Ok (s', out) \<and> signal_ok e s'"
  using sg.all_kept [OF assms(3), of ms] assms(1,2) by (auto simp: signal_messages_all list_all_iff)

type_synonym fun_map = "(u256 \<Rightarrow> nat option) \<times> (nat \<Rightarrow> u256 option)"

definition fun_bimap :: "fun_map bimap" where
  "fun_bimap = \<lparr>bm_new = (\<lambda>_. None, \<lambda>_. None),
     bm_insert = (\<lambda>l r (f, g). (\<lambda>l'. if l' = l then Some r else if f l' = Some r then None else f l',
                              \<lambda>r'. if r' = r then Some l else if g r' = Some l then None else g r')),
     bm_by_left = (\<lambda>l (f, g). f l), bm_by_right = (\<lambda>r (f, g). g r),
     bm_remove_right = (\<lambda>r (f, g). (\<lambda>l'. if f l' = Some r then None else f l', \<lambda>r'. if r' = r then None else g r'))\<rparr>"

definition toy_node_info :: "u8 \<Rightarrow> nat \<Rightarrow> node_info" where
  "toy_node_info b n = \<lparr>ni_name = ''toy'', ni_client = ''libc'', ni_pubkey = replicate n b, ni_modules = modules_all, ni_id = None\<rparr>"

definition toy_announce :: "u8 \<Rightarrow> nat \<Rightarrow> message_announce" where
  "toy_announce b n = \<lparr>ma_version = 3, ma_challenge = u256_zero, ma_node_info = toy_node_info b n, ma_signature = []\<rparr>"

definition toy_signal_env :: "(fun_map, bytes, bytes) signal_env" where
  "toy_signal_env = \<lparr>sv_bimap = fun_bimap,
     sv_ed = \<lparr>ed_public = (\<lambda>k. if length k = 32 then Some k else None), ed_signature = Some, ed_verify = (\<lambda>_ _ _. True)\<rparr>,
     sv_write = (\<lambda>_. Some ''''),
     sv_read = (\<lambda>t. if t = ''one'' then Some (Announce (toy_announce 1 32))
                   else if t = ''two'' then Some (Announce (toy_announce 2 32))
                   else if t = ''short'' then Some (Announce (toy_announce 3 5)) else None),
     sv_pick = (\<lambda>_ n xs. take n xs)\<rparr>"

lemma toy_signal_env_ok: "signal_env_ok toy_signal_env"
  by (auto simp: signal_env_ok_def toy_signal_env_def bimap_laws_def fun_bimap_def toy_announce_def
      toy_node_info_def split: if_splits prod.splits)

definition good_signal_env :: "(fun_map, bytes, bytes) signal_env" where
  "good_signal_env = toy_signal_env\<lparr>sv_read := (\<lambda>t. if t = ''short'' then None else sv_read toy_signal_env t)\<rparr>"

lemma good_signal_env_ok: "signal_env_ok good_signal_env" "keys_readable good_signal_env"
  using toy_signal_env_ok
  by (auto simp: good_signal_env_def signal_env_ok_def keys_readable_def)
    (auto simp: toy_signal_env_def toy_announce_def toy_node_info_def split: if_splits)

definition toy_config :: signal_config where
  "toy_config = \<lparr>ttl_minutes = 2, sc_system_realm = None, max_list_len = None\<rparr>"

theorem signal_messages_ok_witness:
  "\<exists>s out. signal_messages good_signal_env [(u256_zero, SigWs (WsNewConnection 7)), (u256_zero, SigWs (WsMessage 7 ''one''))]
     (signal_new good_signal_env toy_config) = Ok (s, out) \<and> signal_ok good_signal_env s"
  by (rule signal_messages_ok [OF good_signal_env_ok signal_new_ok [OF good_signal_env_ok(1)]])

text \<open>
  One message stops the server: a client that connects and announces itself with a key of the
  wrong length makes it panic, in whatever state it is, before any signature is checked.
\<close>

theorem short_key_stops_server:
  assumes "signal_env_ok e" and "sv_read e bad = Some (Announce ann)" and "length (ni_pubkey (ma_node_info ann)) \<noteq> 32"
  shows "signal_messages e ((challenge, SigWs (WsNewConnection i)) # (rnd, SigWs (WsMessage i bad)) # ms) s = Panic"
proof -
  have key: "ed_public (sv_ed e) (ni_pubkey (ma_node_info ann)) = None"
    using assms(1,3) unfolding signal_env_ok_def by (metis option.exhaust option.distinct(1))
  obtain tx where "send_msg_node e i (Challenge signal_version challenge) = Ok [OutWs (WsSend i tx)]"
    using send_msg_ok [OF assms(1)] by blast
  moreover have "bm_by_right (sv_bimap e) i (bm_insert (sv_bimap e) challenge i m) = Some challenge" for m
    using assms(1) by (simp add: signal_env_ok_def bimap_laws_def)
  ultimately show ?thesis
    using assms(2) key
    by (simp add: signal_msg_in_def msg_wss_def msg_ws_connect_def msg_ws_process_def ws_announce_def
        ni_verify_def expect_def Let_def)
qed

theorem short_key_stops_server_witness:
  "signal_messages toy_signal_env [(u256_zero, SigWs (WsNewConnection 7)), (u256_zero, SigWs (WsMessage 7 ''short''))]
     (signal_new toy_signal_env toy_config) = Panic"
proof -
  have "sv_read toy_signal_env ''short'' = Some (Announce (toy_announce 3 5))" by (simp add: toy_signal_env_def)
  moreover have "length (ni_pubkey (ma_node_info (toy_announce 3 5))) \<noteq> 32"
    by (simp add: toy_announce_def toy_node_info_def)
  ultimately show ?thesis by (rule short_key_stops_server [OF toy_signal_env_ok])
qed

subsubsection \<open>Registration\<close>

lemma remove_nodes_names:
  assumes "signal_env_ok e"
  shows "name_of e (fold (sg_remove_node e) ns s) j = (if j \<in> set ns then None else name_of e s j)"
    and "map_of (sg_ttl (fold (sg_remove_node e) ns s)) j = (if j \<in> set ns then None else map_of (sg_ttl s) j)"
    and "map_of (sg_info (fold (sg_remove_node e) ns s)) l =
      (if \<exists>j \<in> set ns. name_of e s j = Some l then None else map_of (sg_info s) l)"
proof -
  show "name_of e (fold (sg_remove_node e) ns s) j = (if j \<in> set ns then None else name_of e s j)"
    by (induction ns arbitrary: s) (simp_all add: remove_node_names [OF assms])
  show "map_of (sg_ttl (fold (sg_remove_node e) ns s)) j = (if j \<in> set ns then None else map_of (sg_ttl s) j)"
    by (induction ns arbitrary: s) (simp_all add: remove_node_names [OF assms])
  show "map_of (sg_info (fold (sg_remove_node e) ns s)) l =
      (if \<exists>j \<in> set ns. name_of e s j = Some l then None else map_of (sg_info s) l)"
    by (induction ns arbitrary: s) (auto simp: remove_node_names [OF assms] split: option.splits)
qed

lemma timer_names:
  assumes "signal_env_ok e" and "signal_ok e s"
  shows "name_of e (msg_in_timer e s) j = (if map_of (sg_ttl s) j = Some 1 then None else name_of e s j)"
    and "map_of (sg_ttl (msg_in_timer e s)) j =
      (if map_of (sg_ttl s) j = Some 1 then None else map_option (\<lambda>t. t - 1) (map_of (sg_ttl s) j))"
    and "map_of (sg_info (msg_in_timer e s)) l =
      (if \<exists>j. map_of (sg_ttl s) j = Some 1 \<and> name_of e s j = Some l then None else map_of (sg_info s) l)"
proof -
  have mem: "j \<in> set (map fst (filter (\<lambda>(i, t). t = 0) (count_down (sg_ttl s)))) \<longleftrightarrow> map_of (sg_ttl s) j = Some 1" for j
  proof -
    have "hm_ok (count_down (sg_ttl s))" using assms(2) by (simp add: signal_ok_def)
    then have "(j, 0) \<in> set (count_down (sg_ttl s)) \<longleftrightarrow> map_of (count_down (sg_ttl s)) j = Some 0"
      by (rule map_of_set_iff)
    also have "\<dots> \<longleftrightarrow> map_of (sg_ttl s) j = Some 1" by (auto simp: map_of_count_down)
    finally show ?thesis by force
  qed
  show "name_of e (msg_in_timer e s) j = (if map_of (sg_ttl s) j = Some 1 then None else name_of e s j)"
    unfolding timer_fold remove_nodes_names [OF assms(1)] mem by simp
  show "map_of (sg_ttl (msg_in_timer e s)) j =
      (if map_of (sg_ttl s) j = Some 1 then None else map_option (\<lambda>t. t - 1) (map_of (sg_ttl s) j))"
    unfolding timer_fold remove_nodes_names [OF assms(1)] mem by (simp add: map_of_count_down)
  show "map_of (sg_info (msg_in_timer e s)) l =
      (if \<exists>j. map_of (sg_ttl s) j = Some 1 \<and> name_of e s j = Some l then None else map_of (sg_info s) l)"
    unfolding timer_fold remove_nodes_names [OF assms(1)] Bex_def mem by auto
qed

text \<open>
  C9. Only a signed announcement registers a node: an entry that was not there before is the
  description of an announcement on some connection, filed under the identifier of its key,
  with a signature by that key over the name this connection had, its challenge or an identifier
  it announced before; and the connection now bears the new name.
\<close>

theorem registration_is_signed:
  assumes "signal_env_ok e" and "signal_ok e s" and "signal_msg_in e m s = Ok (s', out)"
    and "map_of (sg_info s') l = Some ni" and "map_of (sg_info s) l \<noteq> Some ni"
  shows "\<exists>i t ann name pk sg. snd m = SigWs (WsMessage i t) \<and> sv_read e t = Some (Announce ann) \<and>
    ma_node_info ann = ni \<and> get_id ni = Ok l \<and> name_of e s i = Some name \<and>
    ed_public (sv_ed e) (ni_pubkey ni) = Some pk \<and> ed_signature (sv_ed e) (ma_signature ann) = Some sg \<and>
    ed_verify (sv_ed e) pk (u256_bytes name) sg \<and> name_of e s' i = Some l \<and> index_of e s' l = Some i"
proof -
  have laws: "bm_by_right (sv_bimap e) r (bm_insert (sv_bimap e) k r b) = Some k"
    "bm_by_left (sv_bimap e) k (bm_insert (sv_bimap e) k r b) = Some r" for k r b
    using assms(1) by (simp_all add: signal_env_ok_def bimap_laws_def)
  have "\<exists>i t. snd m = SigWs (WsMessage i t)"
  proof (cases "snd m")
    case SigTimer
    with assms(3-5) timer_names(3) [OF assms(1,2), of l] show ?thesis
      by (auto simp: signal_msg_in_def split: if_splits)
  next
    case (SigWs w)
    with assms(3-5) show ?thesis
      by (cases w) (auto simp: signal_msg_in_def msg_wss_def msg_ws_connect_def bind_outcome_Ok
          remove_node_names [OF assms(1)] split: option.splits if_splits)
  qed (use assms(3-5) in \<open>simp add: signal_msg_in_def\<close>)
  then obtain i t where m: "snd m = SigWs (WsMessage i t)" by blast
  define s1 where "s1 = (if hm_contains (sg_ttl s) i
      then s\<lparr>sg_ttl := AList.update i (ttl_minutes (sg_config s)) (sg_ttl s)\<rparr> else s)"
  have s1: "sg_info s1 = sg_info s" "connection_ids s1 = connection_ids s" by (simp_all add: s1_def)
  have run: "(case sv_read e t of Some mw \<Rightarrow> msg_ws_process e i mw s1 | None \<Rightarrow> Ok (s1, [])) = Ok (s', out)"
    using assms(3) unfolding s1_def by (simp add: signal_msg_in_def m msg_wss_def Let_def)
  then obtain ann where ann: "sv_read e t = Some (Announce ann)" "ws_announce e i ann s1 = Ok (s', out)"
    using assms(4,5) s1 by (auto simp: msg_ws_process_def bind_outcome_Ok split: option.splits ws_from_node.splits)
  from ann(2) assms(4,5) m ann(1) s1 laws show ?thesis
    by (auto simp: ws_announce_def ni_verify_def expect_def bind_outcome_Ok Let_def split: option.splits if_splits)
qed

theorem registration_is_signed_witness:
  "\<exists>s0 out0 s out. signal_msg_in good_signal_env (u256_zero, SigWs (WsNewConnection 7)) (signal_new good_signal_env toy_config) = Ok (s0, out0) \<and>
     signal_msg_in good_signal_env (u256_zero, SigWs (WsMessage 7 ''one'')) s0 = Ok (s, out) \<and>
     index_of good_signal_env s (U256 (replicate 32 1)) = Some 7"
proof -
  obtain s0 out0 where s0: "signal_msg_in good_signal_env (u256_zero, SigWs (WsNewConnection 7)) (signal_new good_signal_env toy_config) = Ok (s0, out0)"
    "signal_ok good_signal_env s0"
    using signal_msg_keeps [OF good_signal_env_ok signal_new_ok [OF good_signal_env_ok(1)]] by blast
  then have conn: "name_of good_signal_env s0 7 = Some u256_zero" "sg_info s0 = []"
    by (auto simp: signal_msg_in_def msg_wss_def msg_ws_connect_def send_msg_node_def expect_def good_signal_env_def
        toy_signal_env_def fun_bimap_def signal_new_def)
  obtain s out where s: "signal_msg_in good_signal_env (u256_zero, SigWs (WsMessage 7 ''one'')) s0 = Ok (s, out)"
    using signal_msg_keeps [OF good_signal_env_ok s0(2)] by blast
  then have "map_of (sg_info s) (U256 (replicate 32 1)) = Some (toy_node_info 1 32)"
    using conn
    by (auto simp: signal_msg_in_def msg_wss_def msg_ws_process_def ws_announce_def ni_verify_def expect_def
        good_signal_env_def toy_signal_env_def toy_announce_def toy_node_info_def get_id_def Let_def bind_outcome_Ok split: if_splits)
  from registration_is_signed [OF good_signal_env_ok(1) s0(2) s this] conn(2) s0(1) s show ?thesis by fastforce
qed

subsubsection \<open>Idle nodes\<close>

lemma idle_step:
  assumes "signal_env_ok e" and "signal_ok e s" and "map_of (sg_ttl s) j = Some t" and "unat t = Suc k"
  shows "name_of e ((msg_in_timer e ^^ Suc k) s) j = None \<and> map_of (sg_ttl ((msg_in_timer e ^^ Suc k) s)) j = None \<and>
    (\<forall>l. name_of e s j = Some l \<longrightarrow> map_of (sg_info ((msg_in_timer e ^^ Suc k) s)) l = None) \<and>
    (\<forall>n < Suc k. name_of e ((msg_in_timer e ^^ n) s) j = name_of e s j)"
  using assms(2-4)
proof (induction k arbitrary: s t)
  case 0
  have "t = word_of_nat (unat t)" by simp
  with 0(3) have "t = 1" by simp
  with timer_names [OF assms(1) 0(1)] 0(2) show ?case by auto
next
  case (Suc k)
  from Suc.prems(3) have "t \<noteq> 0" "t \<noteq> 1" by auto
  with Suc.prems(3) unat_minus_one [of t] have t: "t \<noteq> 1" "unat (t - 1) = Suc k" by simp_all
  let ?s = "msg_in_timer e s"
  have s1: "signal_ok e ?s" "map_of (sg_ttl ?s) j = Some (t - 1)" "name_of e ?s j = name_of e s j"
    using timer_ok [OF assms(1) Suc.prems(1)] timer_names [OF assms(1) Suc.prems(1)] Suc.prems(2) t by auto
  note IH = Suc.IH [OF s1(1,2) t(2)]
  have "name_of e ((msg_in_timer e ^^ n) s) j = name_of e s j" if "n < Suc (Suc k)" for n
    using IH s1(3) that by (cases n) (simp_all add: funpow_Suc_right del: funpow.simps)
  with IH s1(3) show ?case by (simp add: funpow_Suc_right del: funpow.simps)
qed

text \<open>
  A connection that stays silent is forgotten with the tick of its time to live, and not before:
  its name, its time to live and the node it announced are gone, whatever else the same ticks
  remove.
\<close>

theorem idle_node_removed:
  assumes "signal_env_ok e" and "signal_ok e s" and "map_of (sg_ttl s) j = Some t" and "0 < t"
  defines "after \<equiv> (msg_in_timer e ^^ unat t) s"
  shows "name_of e after j = None \<and> map_of (sg_ttl after) j = None \<and>
    (\<forall>l. name_of e s j = Some l \<longrightarrow> map_of (sg_info after) l = None) \<and>
    (\<forall>n < unat t. name_of e ((msg_in_timer e ^^ n) s) j = name_of e s j)"
proof -
  obtain k where k: "unat t = Suc k" using assms(4) by (metis gr0_conv_Suc unat_gt_0 word_gt_0)
  show ?thesis unfolding after_def k by (rule idle_step [OF assms(1-3) k])
qed

theorem idle_node_removed_witness:
  "\<exists>s out. signal_msg_in good_signal_env (u256_zero, SigWs (WsNewConnection 7)) (signal_new good_signal_env toy_config) = Ok (s, out) \<and>
     name_of good_signal_env ((msg_in_timer good_signal_env ^^ 2) s) 7 = None"
proof -
  obtain s out where s: "signal_msg_in good_signal_env (u256_zero, SigWs (WsNewConnection 7)) (signal_new good_signal_env toy_config) = Ok (s, out)"
    "signal_ok good_signal_env s"
    using signal_msg_keeps [OF good_signal_env_ok signal_new_ok [OF good_signal_env_ok(1)]] by blast
  then have t: "map_of (sg_ttl s) 7 = Some 2"
    by (auto simp: signal_msg_in_def msg_wss_def msg_ws_connect_def send_msg_node_def expect_def good_signal_env_def
        toy_signal_env_def signal_new_def toy_config_def)
  from idle_node_removed [OF good_signal_env_ok(1) s(2) t] s(1) show ?thesis by simp
qed

subsubsection \<open>Entries that stay\<close>

definition quiet :: "signal_in \<Rightarrow> bool" where
  "quiet m \<longleftrightarrow> m = SigTimer \<or> m = SigStop \<or> (\<exists>i. m = SigWs (WsDisconnection i))"

lemma quiet_keeps_stale:
  assumes "signal_env_ok e" and "signal_ok e s" and "index_of e s a = None" and "map_of (sg_info s) a = Some ni"
    and "\<forall>m \<in> set ms. quiet (snd m)"
  shows "\<exists>s' out. signal_messages e ms s = Ok (s', out) \<and> map_of (sg_info s') a = Some ni \<and> index_of e s' a = None"
  using assms(2-5)
proof (induction ms arbitrary: s)
  case (Cons m ms)
  have un: "name_of e s j \<noteq> Some a" for j
    using Cons.prems(1,2) name_unique(2) [OF Cons.prems(1)] by fastforce
  have "\<exists>s1 out. signal_msg_in e m s = Ok (s1, out) \<and> signal_ok e s1 \<and> map_of (sg_info s1) a = Some ni \<and>
      (\<forall>j. name_of e s1 j \<noteq> Some a)"
  proof -
    from Cons.prems(4) consider "snd m = SigTimer" | "snd m = SigStop" | i where "snd m = SigWs (WsDisconnection i)"
      by (auto simp: quiet_def)
    then show ?thesis
    proof cases
      case 1
      with timer_names [OF assms(1) Cons.prems(1)] timer_ok [OF assms(1) Cons.prems(1)] un Cons.prems(3)
      show ?thesis by (auto simp: signal_msg_in_def)
    next
      case 2
      with Cons.prems un show ?thesis by (simp add: signal_msg_in_def)
    next
      case 3
      with remove_node_names [OF assms(1)] unregister_ok [OF assms(1) Cons.prems(1)] un Cons.prems(3)
      show ?thesis by (auto simp: signal_msg_in_def msg_wss_def split: option.splits)
    qed
  qed
  then obtain s1 out1 where s1: "signal_msg_in e m s = Ok (s1, out1)" "signal_ok e s1"
    "map_of (sg_info s1) a = Some ni" "\<forall>j. name_of e s1 j \<noteq> Some a" by blast
  then have "index_of e s1 a = None" by (cases "index_of e s1 a") (auto simp: signal_ok_def)
  from Cons.IH [OF s1(2) this s1(3)] Cons.prems(4) s1(1) show ?case by auto
qed simp

text \<open>
  A client that announces a second node on its connection leaves the first one behind: its entry
  stays in the list, without a connection, and neither the clock nor any disconnection will ever
  remove it.
\<close>

theorem second_announce_leaves_entry:
  assumes "signal_env_ok e" and "signal_ok e s" and "name_of e s i = Some a" and "map_of (sg_info s) a = Some ni"
    and "sv_read e t = Some (Announce ann)" and "length (ni_pubkey (ma_node_info ann)) = 32"
    and "ni_pubkey (ma_node_info ann) \<noteq> u256_bytes a"
    and "ed_public (sv_ed e) (ni_pubkey (ma_node_info ann)) = Some pk"
    and "ed_signature (sv_ed e) (ma_signature ann) = Some sg" and "ed_verify (sv_ed e) pk (u256_bytes a) sg"
    and "\<forall>m \<in> set ms. quiet (snd m)"
  shows "\<exists>s' out. signal_messages e ((rnd, SigWs (WsMessage i t)) # ms) s = Ok (s', out) \<and>
    map_of (sg_info s') a = Some ni \<and> index_of e s' a = None"
proof -
  define s1 where "s1 = (if hm_contains (sg_ttl s) i
      then s\<lparr>sg_ttl := AList.update i (ttl_minutes (sg_config s)) (sg_ttl s)\<rparr> else s)"
  have s1: "sg_info s1 = sg_info s" "connection_ids s1 = connection_ids s" by (simp_all add: s1_def)
  have ok1: "signal_ok e s1" using assms(2) refresh_ok [OF assms(2)] by (simp add: s1_def)
  let ?b = "U256 (ni_pubkey (ma_node_info ann))"
  have ann: "announce_ok e ann" using assms(1,5,6) by (auto simp: announce_ok_def signal_env_ok_def)
  obtain s2 out where s2: "ws_announce e i ann s1 = Ok (s2, out)" "signal_ok e s2"
    using announce_keeps [OF assms(1) ann ok1] by blast
  have run: "signal_msg_in e (rnd, SigWs (WsMessage i t)) s = Ok (s2, out)"
    using assms(5) s2(1) unfolding s1_def by (simp add: signal_msg_in_def msg_wss_def msg_ws_process_def Let_def)
  have b: "?b \<noteq> a" using assms(7) by auto
  have "ni_id (ma_node_info ann) = None" using ann by (simp add: announce_ok_def)
  then have upd: "connection_ids s2 = bm_insert (sv_bimap e) ?b i (connection_ids s)"
    "sg_info s2 = AList.update ?b (ma_node_info ann) (sg_info s)"
    using s2(1) s1 assms(3,6,8,9,10)
    by (auto simp: ws_announce_def ni_verify_def expect_def get_id_def Let_def bind_outcome_Ok)
  have "index_of e s2 a = None"
    using assms(1) b name_unique(2) [OF assms(2,3)] by (simp add: upd signal_env_ok_def bimap_laws_def)
  moreover have "map_of (sg_info s2) a = Some ni" using b assms(4) by (simp add: upd)
  ultimately obtain s3 out3 where "signal_messages e ms s2 = Ok (s3, out3)" "map_of (sg_info s3) a = Some ni"
    "index_of e s3 a = None"
    using quiet_keeps_stale [OF assms(1) s2(2) _ _ assms(11)] by blast
  with run show ?thesis by auto
qed

theorem second_announce_leaves_entry_witness:
  "\<exists>s out s' out'. signal_messages good_signal_env
       [(u256_zero, SigWs (WsNewConnection 7)), (u256_zero, SigWs (WsMessage 7 ''one''))]
       (signal_new good_signal_env toy_config) = Ok (s, out) \<and>
     signal_messages good_signal_env [(u256_zero, SigWs (WsMessage 7 ''two'')), (u256_zero, SigWs (WsDisconnection 7))] s = Ok (s', out') \<and>
     map_of (sg_info s') (U256 (replicate 32 1)) = Some (toy_node_info 1 32)"
proof -
  obtain s0 out0 where s0: "signal_msg_in good_signal_env (u256_zero, SigWs (WsNewConnection 7)) (signal_new good_signal_env toy_config) = Ok (s0, out0)"
    "signal_ok good_signal_env s0"
    using signal_msg_keeps [OF good_signal_env_ok signal_new_ok [OF good_signal_env_ok(1)]] by blast
  then have conn: "name_of good_signal_env s0 7 = Some u256_zero" "sg_info s0 = []"
    by (auto simp: signal_msg_in_def msg_wss_def msg_ws_connect_def send_msg_node_def expect_def good_signal_env_def
        toy_signal_env_def fun_bimap_def signal_new_def)
  obtain s out where s: "signal_msg_in good_signal_env (u256_zero, SigWs (WsMessage 7 ''one'')) s0 = Ok (s, out)"
    "signal_ok good_signal_env s"
    using signal_msg_keeps [OF good_signal_env_ok s0(2)] by blast
  have upd: "map_of (sg_info s) (U256 (replicate 32 1)) = Some (toy_node_info 1 32)"
    "name_of good_signal_env s 7 = Some (U256 (replicate 32 1))"
    using s(1) conn
    by (auto simp: signal_msg_in_def msg_wss_def msg_ws_process_def ws_announce_def ni_verify_def expect_def fun_bimap_def
        good_signal_env_def toy_signal_env_def toy_announce_def toy_node_info_def get_id_def Let_def bind_outcome_Ok split_beta split: if_splits)
  have two: "sv_read good_signal_env ''two'' = Some (Announce (toy_announce 2 32))"
    by (simp add: good_signal_env_def toy_signal_env_def)
  have "\<exists>s' out'. signal_messages good_signal_env ((u256_zero, SigWs (WsMessage 7 ''two'')) # [(u256_zero, SigWs (WsDisconnection 7))]) s = Ok (s', out') \<and>
      map_of (sg_info s') (U256 (replicate 32 1)) = Some (toy_node_info 1 32) \<and>
      index_of good_signal_env s' (U256 (replicate 32 1)) = None"
    by (rule second_announce_leaves_entry [OF good_signal_env_ok(1) s(2) upd(2,1) two])
      (simp_all add: toy_announce_def toy_node_info_def good_signal_env_def toy_signal_env_def quiet_def)
  moreover have "signal_messages good_signal_env
       [(u256_zero, SigWs (WsNewConnection 7)), (u256_zero, SigWs (WsMessage 7 ''one''))]
       (signal_new good_signal_env toy_config) = Ok (s, out0 @ out)" using s0(1) s(1) by simp
  ultimately show ?thesis by blast
qed

end
