(* ===== verification/NetworkBroker.thy ===== *)
theory NetworkBroker
  imports SignalServer
begin

text \<open>
  The network module of a node, \<open>flmodules/src/network/broker.rs\<close>: between the websocket to the
  signalling server, the WebRTC connections to other nodes, and the modules above. How it works
  together with the signalling server is the subject of \<open>Signalling\<close>.

  JSON and the private key of the node are parameters. A message of a version that is not ours
  panics, as it does in the code. Logging and counters are left out.
\<close>

subsection \<open>Messages and state\<close>

datatype ws_client_in = WscSend string | WscDisconnectIn | WscConnect

datatype ws_client_out = WscMessage string | WscDisconnect | WscConnected | WscError string

datatype web_rtc_conn_in = RtcMessage u256 nc_input | RtcConnect u256 direction | RtcConnDisconnect u256

datatype web_rtc_conn_out = RtcConnMessage u256 nc_output

record conn_stats =
  cs_type_local :: conn_type
  cs_type_remote :: conn_type
  cs_signaling :: signaling_state
  cs_rx_bytes :: u64
  cs_tx_bytes :: u64
  cs_delay_ms :: u32

record network_connection_state =
  ncs_id :: u256
  ncs_dir :: direction
  ncs_stats :: conn_stats

datatype network_in =
    NetMessageToNode u256 string | NetStatsToWS "node_stat list" | NetUpdateListRequest | NetConnect u256
  | NetDisconnect u256 | NetTick | NetWebSocket ws_client_out | NetWebRTC web_rtc_conn_out

datatype network_out =
    NetMessageFromNode u256 string | NetNodeListFromWS "node_info list"
  | NetConnectionState network_connection_state | NetConnected u256 | NetDisconnected u256
  | NetWebSocketOut ws_client_in | NetWebRTCOut web_rtc_conn_in | NetSystemConfig "u256 option"

record network_env =
  ne_write :: "ws_from_node \<Rightarrow> string option"
  ne_read :: "string \<Rightarrow> ws_to_node option"
  ne_sign :: "bytes \<Rightarrow> bytes"

record network =
  nw_info :: node_info
  get_update :: nat
  connections :: node_ids
  nw_published :: node_ids

definition update_interval :: nat where
  "update_interval = 10"

definition network_start :: "node_info \<Rightarrow> network" where
  "network_start ni = \<lparr>nw_info = ni, get_update = update_interval, connections = [], nw_published = []\<rparr>"

subsection \<open>Handlers\<close>

definition to_signal :: "network_env \<Rightarrow> ws_from_node \<Rightarrow> (unit, network_out) outcome" where
  "to_signal e m = bind_outcome (expect (ne_write e m)) (\<lambda>s. Ok (NetWebSocketOut (WscSend s)))"

definition send_connections :: "network \<Rightarrow> network" where
  "send_connections n = n\<lparr>nw_published := connections n\<rparr>"

definition assure_connection :: "u256 \<Rightarrow> direction \<Rightarrow> network \<Rightarrow> network \<times> network_out list" where
  "assure_connection dst dir n =
     (if dst \<in> set (connections n) then (n, [])
      else (send_connections (n\<lparr>connections := connections n @ [dst]\<rparr>), [NetWebRTCOut (RtcConnect dst dir)]))"

definition net_disconnect :: "u256 \<Rightarrow> network \<Rightarrow> network \<times> network_out list" where
  "net_disconnect dst n =
     (if dst \<notin> set (connections n) then (n, [NetDisconnected dst])
      else (send_connections (n\<lparr>connections := filter (\<lambda>i. i \<noteq> dst) (connections n)\<rparr>),
            [NetDisconnected dst, NetWebRTCOut (RtcMessage dst NcDisconnect)]))"

definition msg_ws :: "network_env \<Rightarrow> ws_client_out \<Rightarrow> network \<Rightarrow> (unit, network \<times> network_out list) outcome" where
  "msg_ws e m n =
     (case m of
        WscMessage s \<Rightarrow>
          (case ne_read e s of
             None \<Rightarrow> Ok (n, [])
           | Some (Challenge version challenge) \<Rightarrow>
               if version \<noteq> signal_version then Panic
               else bind_outcome (to_signal e (Announce \<lparr>ma_version = version, ma_challenge = challenge,
                      ma_node_info = nw_info n, ma_signature = ne_sign e (u256_bytes challenge)\<rparr>)) (\<lambda>ann.
                    bind_outcome (to_signal e ListIDsRequest) (\<lambda>req. Ok (n, [ann, req])))
           | Some (ListIDsReply infos) \<Rightarrow> Ok (n, [NetNodeListFromWS infos])
           | Some (PeerSetupTo p) \<Rightarrow>
               bind_outcome (get_id (nw_info n)) (\<lambda>own_id.
                 case get_remote own_id p of
                   None \<Rightarrow> Ok (n, [])
                 | Some remote_node \<Rightarrow>
                     (let (n1, out) = assure_connection remote_node Incoming n
                      in Ok (n1, out @ [NetWebRTCOut (RtcMessage remote_node
                           (NcSetup (get_direction own_id p) (pi_message p)))])))
           | Some (SystemConfigTo conf) \<Rightarrow> Ok (n, [NetSystemConfig conf]))
      | _ \<Rightarrow> Ok (n, []))"

definition msg_call :: "network_env \<Rightarrow> network_in \<Rightarrow> network \<Rightarrow> (unit, network \<times> network_out list) outcome" where
  "msg_call e m n =
     (case m of
        NetMessageToNode i s \<Rightarrow>
          (let (n1, out) = assure_connection i Outgoing n in Ok (n1, out @ [NetWebRTCOut (RtcMessage i (NcText s))]))
      | NetStatsToWS ss \<Rightarrow> bind_outcome (to_signal e (NodeStatsFrom ss)) (\<lambda>x. Ok (n, [x]))
      | NetUpdateListRequest \<Rightarrow> bind_outcome (to_signal e ListIDsRequest) (\<lambda>x. Ok (n, [x]))
      | NetConnect i \<Rightarrow> Ok (assure_connection i Outgoing n)
      | NetDisconnect i \<Rightarrow> Ok (net_disconnect i n)
      | NetTick \<Rightarrow>
          if get_update n = 0 then Panic
          else if get_update n - 1 = 0
          then bind_outcome (to_signal e ListIDsRequest) (\<lambda>x. Ok (n\<lparr>get_update := update_interval\<rparr>, [x]))
          else Ok (n\<lparr>get_update := get_update n - 1\<rparr>, [])
      | _ \<Rightarrow> Ok (n, []))"

definition msg_node :: "network_env \<Rightarrow> u256 \<Rightarrow> nc_output \<Rightarrow> network \<Rightarrow> (unit, network_out list) outcome" where
  "msg_node e i m n =
     (case m of
        NcConnected _ \<Rightarrow> Ok [NetConnected i]
      | NcDisconnected _ \<Rightarrow> Ok [NetDisconnected i]
      | NcTextOut s \<Rightarrow> Ok [NetMessageFromNode i s]
      | NcState dir st \<Rightarrow>
          Ok [NetConnectionState \<lparr>ncs_id = i, ncs_dir = dir, ncs_stats =
            \<lparr>cs_type_local = type_local st, cs_type_remote = type_remote st, cs_signaling = signaling st,
             cs_rx_bytes = rx_bytes st, cs_tx_bytes = tx_bytes st, cs_delay_ms = delay_ms st\<rparr>\<rparr>]
      | NcSetupOut dir pm \<Rightarrow>
          bind_outcome (get_id (nw_info n)) (\<lambda>own_id.
            let (initiator, follower) = (if dir = Incoming then (i, own_id) else (own_id, i))
            in bind_outcome (to_signal e (PeerSetupFrom \<lparr>id_init = initiator, id_follow = follower, pi_message = pm\<rparr>))
                 (\<lambda>x. Ok [x]))
      | _ \<Rightarrow> Ok [])"

definition network_message :: "network_env \<Rightarrow> network_in \<Rightarrow> network \<Rightarrow> (unit, network \<times> network_out list) outcome" where
  "network_message e m n =
     (case m of
        NetWebSocket ws \<Rightarrow> msg_ws e ws n
      | NetWebRTC (RtcConnMessage i nc) \<Rightarrow> bind_outcome (msg_node e i nc n) (\<lambda>out. Ok (n, out))
      | _ \<Rightarrow> msg_call e m n)"

fun network_messages :: "network_env \<Rightarrow> network_in list \<Rightarrow> network \<Rightarrow> (unit, network \<times> network_out list) outcome" where
  "network_messages e [] n = Ok (n, [])"
| "network_messages e (m # ms) n =
     bind_outcome (network_message e m n) (\<lambda>(n1, out1).
     bind_outcome (network_messages e ms n1) (\<lambda>(n2, out2). Ok (n2, out1 @ out2)))"

subsection \<open>The invariant\<close>

text \<open>
  The list of connections has no duplicates and is what the watchers of the module see, and the
  countdown to the next list request never reaches zero between two messages.
\<close>

definition network_ok :: "network \<Rightarrow> bool" where
  "network_ok n \<longleftrightarrow> distinct (connections n) \<and> nw_published n = connections n \<and>
     0 < get_update n \<and> get_update n \<le> update_interval \<and> (\<exists>i. get_id (nw_info n) = Ok i)"

definition network_env_ok :: "network_env \<Rightarrow> bool" where
  "network_env_ok e \<longleftrightarrow> (\<forall>m. ne_write e m \<noteq> None)"

text \<open>A message that does not come from a server of another version.\<close>

definition same_version :: "network_env \<Rightarrow> network_in \<Rightarrow> bool" where
  "same_version e m \<longleftrightarrow> (case m of
     NetWebSocket (WscMessage s) \<Rightarrow>
       (case ne_read e s of Some (Challenge v c) \<Rightarrow> v = signal_version | _ \<Rightarrow> True)
   | _ \<Rightarrow> True)"

lemma network_start_ok: "get_id ni = Ok i \<Longrightarrow> network_ok (network_start ni)"
  by (simp add: network_ok_def network_start_def update_interval_def)

lemma to_signal_ok: "network_env_ok e \<Longrightarrow> to_signal e m = Ok (NetWebSocketOut (WscSend (the (ne_write e m))))"
  by (auto simp: network_env_ok_def to_signal_def expect_def split: option.splits)

lemma assure_connection_frame [simp]:
  "nw_info (fst (assure_connection i d n)) = nw_info n"
  "get_update (fst (assure_connection i d n)) = get_update n"
  "set (connections (fst (assure_connection i d n))) = insert i (set (connections n))"
  by (auto simp: assure_connection_def send_connections_def)

lemma assure_connection_ok: "network_ok n \<Longrightarrow> network_ok (fst (assure_connection i d n))"
  by (simp add: assure_connection_def send_connections_def network_ok_def)

lemma net_disconnect_ok: "network_ok n \<Longrightarrow> network_ok (fst (net_disconnect i n))"
  by (simp add: net_disconnect_def send_connections_def network_ok_def)

lemma msg_ws_ok:
  assumes "network_env_ok e" and "network_ok n" and "same_version e (NetWebSocket ws)"
  shows "\<exists>n' out. msg_ws e ws n = Ok (n', out) \<and> network_ok n'"
proof (cases ws)
  case (WscMessage s)
  obtain own where own: "get_id (nw_info n) = Ok own" using assms(2) by (auto simp: network_ok_def)
  show ?thesis
  proof (cases "ne_read e s")
    case (Some m)
    show ?thesis
    proof (cases m)
      case (Challenge v c)
      with assms Some WscMessage show ?thesis
        by (simp add: msg_ws_def same_version_def to_signal_ok)
    next
      case (PeerSetupTo p)
      with Some WscMessage own show ?thesis
        using assms(2) assure_connection_ok [OF assms(2)]
        by (cases "get_remote own p") (simp_all add: msg_ws_def split_beta Let_def)
    qed (use Some WscMessage assms(2) in \<open>simp_all add: msg_ws_def\<close>)
  qed (use WscMessage assms(2) in \<open>simp add: msg_ws_def\<close>)
qed (use assms(2) in \<open>simp_all add: msg_ws_def\<close>)

lemma msg_call_ok:
  assumes "network_env_ok e" and "network_ok n"
  shows "\<exists>n' out. msg_call e m n = Ok (n', out) \<and> network_ok n'"
proof (cases m)
  case NetTick
  with assms show ?thesis
    by (auto simp: msg_call_def to_signal_ok network_ok_def update_interval_def)
next
  case (NetMessageToNode i s)
  with assure_connection_ok [OF assms(2)] show ?thesis by (simp add: msg_call_def split_beta Let_def)
next
  case (NetConnect i)
  with assure_connection_ok [OF assms(2)] show ?thesis
    by (simp add: msg_call_def) (metis prod.collapse)
next
  case (NetDisconnect i)
  with net_disconnect_ok [OF assms(2)] show ?thesis
    by (simp add: msg_call_def) (metis prod.collapse)
qed (use assms in \<open>simp_all add: msg_call_def to_signal_ok\<close>)

lemma msg_node_ok:
  assumes "network_env_ok e" and "network_ok n"
  shows "\<exists>out. msg_node e i m n = Ok out"
proof -
  obtain own where "get_id (nw_info n) = Ok own" using assms(2) by (auto simp: network_ok_def)
  with assms(1) show ?thesis
    by (cases m) (auto simp: msg_node_def to_signal_ok Let_def)
qed

lemma network_message_ok:
  assumes "network_env_ok e" and "network_ok n" and "same_version e m"
  shows "\<exists>n' out. network_message e m n = Ok (n', out) \<and> network_ok n'"
proof (cases m)
  case (NetWebSocket ws)
  with msg_ws_ok [OF assms(1,2)] assms(3) show ?thesis by (simp add: network_message_def)
next
  case (NetWebRTC w)
  obtain i nc where w: "w = RtcConnMessage i nc" by (cases w)
  obtain out where "msg_node e i nc n = Ok out" using msg_node_ok [OF assms(1,2)] by blast
  with NetWebRTC w assms(2) show ?thesis by (simp add: network_message_def)
qed (use msg_call_ok [OF assms(1,2), of m] in \<open>simp_all add: network_message_def\<close>)

lemma network_messages_all: "network_messages e ms n = handle_all (network_message e) ms n"
  by (induction ms arbitrary: n) simp_all

interpretation nb: subsystem "network_message e" "\<lambda>m. network_env_ok e \<and> same_version e m" network_ok "\<lambda>_. True" for e
  by unfold_locales (auto simp: list_all_iff dest: network_message_ok)

subsection \<open>Properties\<close>

text \<open>
  As long as the signalling server has the version of the node, every message is handled
  without a panic; the list of connections has no duplicates, is the one that is published, and
  the countdown to the next list request stays between one and ten.
\<close>

theorem network_messages_ok:
  assumes "network_env_ok e" and "network_ok n" and "\<forall>m \<in> set ms. same_version e m"
  shows "\<exists>n' out. network_messages e ms n = Ok (n', out) \<and> network_ok n'"
  using nb.all_kept [OF assms(2), of e ms] assms(1,3) by (auto simp: network_messages_all list_all_iff)

definition toy_network_env :: network_env where
  "toy_network_env = \<lparr>ne_write = (\<lambda>m. Some (case m of Announce _ \<Rightarrow> ''announce'' | _ \<Rightarrow> ''other'')),
     ne_read = (\<lambda>s. if s = ''challenge'' then Some (Challenge signal_version u256_zero)
                    else if s = ''old'' then Some (Challenge 2 u256_zero) else None),
     ne_sign = (\<lambda>b. b)\<rparr>"

lemma toy_network_env_ok: "network_env_ok toy_network_env"
  by (simp add: network_env_ok_def toy_network_env_def)

lemma toy_network_start_ok: "network_ok (network_start (toy_node_info 1 32))"
  by (rule network_start_ok) (simp add: get_id_def toy_node_info_def)

theorem network_messages_ok_witness:
  "\<exists>n out. network_messages toy_network_env [NetTick, NetWebSocket (WscMessage ''challenge''), NetConnect u256_zero]
     (network_start (toy_node_info 1 32)) = Ok (n, out) \<and> network_ok n"
  using network_messages_ok [OF toy_network_env_ok toy_network_start_ok,
      of "[NetTick, NetWebSocket (WscMessage ''challenge''), NetConnect u256_zero]"]
  by (simp add: same_version_def toy_network_env_def)

text \<open>
  A challenge of a signalling server with another version stops the network module of the node,
  whatever was handled before and is waiting behind it.
\<close>

theorem other_version_panics:
  assumes "network_env_ok e" and "network_ok n" and "\<forall>m \<in> set ms. same_version e m"
    and "ne_read e s = Some (Challenge v c)" and "v \<noteq> signal_version"
  shows "network_messages e (ms @ NetWebSocket (WscMessage s) # rest) n = Panic"
proof -
  obtain n1 out1 where "network_messages e ms n = Ok (n1, out1)"
    using network_messages_ok [OF assms(1-3)] by blast
  moreover have "network_message e (NetWebSocket (WscMessage s)) n1 = Panic"
    using assms(4,5) by (simp add: network_message_def msg_ws_def)
  ultimately show ?thesis unfolding network_messages_all handle_all_append by simp
qed

theorem other_version_panics_witness:
  "network_messages toy_network_env ([NetTick] @ NetWebSocket (WscMessage ''old'') # []) (network_start (toy_node_info 1 32)) = Panic"
  by (rule other_version_panics [OF toy_network_env_ok toy_network_start_ok, of _ _ 2 u256_zero])
    (simp_all add: same_version_def toy_network_env_def signal_version_def)

text \<open>The ticks of a node, and the list requests that go out with them.\<close>

lemma tick_step:
  assumes "network_env_ok e" and "network_ok n"
  shows "network_message e NetTick n =
    (if get_update n = 1
     then Ok (n\<lparr>get_update := update_interval\<rparr>, [NetWebSocketOut (WscSend (the (ne_write e ListIDsRequest)))])
     else Ok (n\<lparr>get_update := get_update n - 1\<rparr>, []))"
  using assms by (auto simp: network_message_def msg_call_def network_ok_def to_signal_ok)

text \<open>
  While nothing else happens, a node asks the signalling server for the list of the nodes exactly
  once in ten ticks: the first time when its countdown has run out, and then at every tenth tick.
\<close>

theorem list_requested_every_ten_ticks:
  assumes "network_env_ok e" and "network_ok n"
  shows "\<exists>n'. network_messages e (replicate k NetTick) n =
    Ok (n', replicate ((k + (update_interval - get_update n)) div update_interval)
              (NetWebSocketOut (WscSend (the (ne_write e ListIDsRequest))))) \<and>
    connections n' = connections n"
  using assms(2)
proof (induction k arbitrary: n)
  case 0
  then show ?case by (simp add: network_ok_def update_interval_def)
next
  case (Suc k)
  let ?x = "NetWebSocketOut (WscSend (the (ne_write e ListIDsRequest)))"
  from Suc.prems have bound: "0 < get_update n" "get_update n \<le> 10" by (simp_all add: network_ok_def update_interval_def)
  show ?case
  proof (cases "get_update n = 1")
    case True
    have "network_ok (n\<lparr>get_update := update_interval\<rparr>)" using Suc.prems by (simp add: network_ok_def update_interval_def)
    from Suc.IH [OF this] obtain n' where
      "network_messages e (replicate k NetTick) (n\<lparr>get_update := update_interval\<rparr>) = Ok (n', replicate (k div update_interval) ?x)"
      "connections n' = connections n" by auto
    moreover have "(Suc k + (update_interval - get_update n)) div update_interval = Suc (k div update_interval)"
      using True by (simp add: update_interval_def)
    ultimately show ?thesis using True by (simp add: tick_step [OF assms(1) Suc.prems])
  next
    case False
    have "network_ok (n\<lparr>get_update := get_update n - 1\<rparr>)" using Suc.prems False by (auto simp: network_ok_def)
    from Suc.IH [OF this] obtain n' where n':
      "network_messages e (replicate k NetTick) (n\<lparr>get_update := get_update n - 1\<rparr>) =
         Ok (n', replicate ((k + (update_interval - (get_update n - 1))) div update_interval) ?x)"
      "connections n' = connections n" by auto
    have "network_messages e (replicate (Suc k) NetTick) n =
        Ok (n', replicate ((k + (update_interval - (get_update n - 1))) div update_interval) ?x)"
      using n'(1) False by (simp add: tick_step [OF assms(1) Suc.prems])
    moreover have "k + (update_interval - (get_update n - 1)) = Suc k + (update_interval - get_update n)"
      using bound False by (simp add: update_interval_def)
    ultimately show ?thesis using n'(2) by metis
  qed
qed

theorem list_requested_every_ten_ticks_witness:
  "\<exists>n. network_messages toy_network_env (replicate 20 NetTick) (network_start (toy_node_info 1 32)) =
     Ok (n, replicate 2 (NetWebSocketOut (WscSend ''other'')))"
  using list_requested_every_ten_ticks [OF toy_network_env_ok toy_network_start_ok, of 20]
  by (simp only: network_start_def update_interval_def toy_network_env_def) auto

end
