(* ===== verification/RouterNet.thy ===== *)
theory RouterNet
  imports RandomConnections NetworkBroker
begin

text \<open>
  The router, \<open>flmodules/src/router/broker.rs\<close>, in its two forms: directly on the network, where
  it keeps the books of the available and the connected nodes, and on top of the random
  connections, where it translates messages. With the links of \<open>random_connections/broker.rs\<close> it is
  composed with the random connections, and a node is shown never to dial itself. Reading and
  writing YAML are parameters.
\<close>

subsection \<open>On the random connections\<close>

definition translate_rnd_rtr :: "random_out \<Rightarrow> router_out option" where
  "translate_rnd_rtr m = (case m of
     RcNodeIDsConnected ids \<Rightarrow> Some (NodeIDsConnected ids)
   | RcNodeInfosConnected infos \<Rightarrow> Some (NodeInfosConnected infos)
   | RcWrapperFromNetwork i w \<Rightarrow> Some (NetworkWrapperFromNetwork i w)
   | _ \<Rightarrow> None)"

definition translate_rtr_rnd :: "router_in \<Rightarrow> random_in option" where
  "translate_rtr_rnd m = (case m of NetworkWrapperToNetwork i w \<Rightarrow> Some (RcWrapperToNetwork i w) | _ \<Rightarrow> None)"

subsection \<open>On the network\<close>

record router_network =
  nodes_available :: "node_info list"
  nodes_connected :: node_ids

definition router_network_new :: router_network where
  "router_network_new = \<lparr>nodes_available = [], nodes_connected = []\<rparr>"

text \<open>\<open>find\<close> stops at the first description with the identifier.\<close>

fun find_info :: "u256 \<Rightarrow> node_info list \<Rightarrow> (unit, bool) outcome" where
  "find_info i [] = Ok False"
| "find_info i (ni # nis) = bind_outcome (get_id ni) (\<lambda>j. if j = i then Ok True else find_info i nis)"

definition available_connected :: "u256 \<Rightarrow> router_network \<Rightarrow> (unit, bool \<times> bool) outcome" where
  "available_connected i s =
     bind_outcome (find_info i (nodes_available s)) (\<lambda>found. Ok (found, i \<in> set (nodes_connected s)))"

text \<open>One message: the state, whether something changed, and what is passed on.\<close>

definition router_internal_step ::
  "(string \<Rightarrow> network_wrapper option) \<Rightarrow> router_internal \<Rightarrow> router_network \<Rightarrow>
     (unit, router_network \<times> bool \<times> router_out list) outcome" where
  "router_internal_step rd m s =
     (case m of
        InternalConnected i \<Rightarrow>
          bind_outcome (available_connected i s) (\<lambda>(a, c).
            Ok (if \<not> c then (s\<lparr>nodes_connected := nodes_connected s @ [i]\<rparr>, True, []) else (s, False, [])))
      | InternalDisconnected i \<Rightarrow>
          bind_outcome (available_connected i s) (\<lambda>(a, c).
            Ok (if c then (s\<lparr>nodes_connected := filter (\<lambda>other. other \<noteq> i) (nodes_connected s)\<rparr>, True, [])
                else (s, False, [])))
      | InternalAvailable infos \<Rightarrow> Ok (s\<lparr>nodes_available := infos\<rparr>, True, [])
      | InternalMessageFromNode i msg_str \<Rightarrow>
          Ok (s, False, case rd msg_str of Some w \<Rightarrow> [NetworkWrapperFromNetwork i w] | None \<Rightarrow> [])
      | InternalSystemConfig conf \<Rightarrow> Ok (s, False, [SystemConfig conf]))"

fun router_loop ::
  "(string \<Rightarrow> network_wrapper option) \<Rightarrow> router_in list \<Rightarrow> router_network \<Rightarrow> bool \<Rightarrow> router_out list \<Rightarrow>
     (unit, router_network \<times> bool \<times> router_out list) outcome" where
  "router_loop rd [] s ret out = Ok (s, ret, out)"
| "router_loop rd (m # ms) s ret out =
     (case m of
        Internal internal \<Rightarrow>
          bind_outcome (router_internal_step rd internal s) (\<lambda>(s1, changed, out1).
            router_loop rd ms s1 (ret \<or> changed) (out @ out1))
      | NetworkWrapperToNetwork _ _ \<Rightarrow> router_loop rd ms s ret out)"

fun infos_connected :: "node_ids \<Rightarrow> node_info list \<Rightarrow> (unit, node_info list) outcome" where
  "infos_connected ids [] = Ok []"
| "infos_connected ids (ni # nis) =
     bind_outcome (get_id ni) (\<lambda>i. bind_outcome (infos_connected ids nis) (\<lambda>rest.
       Ok (if i \<in> set ids then ni # rest else rest)))"

definition router_network_messages ::
  "(string \<Rightarrow> network_wrapper option) \<Rightarrow> router_in list \<Rightarrow> router_network \<Rightarrow>
     (unit, router_network \<times> router_out list) outcome" where
  "router_network_messages rd ms s =
     bind_outcome (router_loop rd ms s False []) (\<lambda>(s1, ret, out).
       if ret
       then bind_outcome (infos_connected (nodes_connected s1) (nodes_available s1)) (\<lambda>infos.
              Ok (s1, out @ [NodeInfoAvailable (nodes_available s1), NodeIDsConnected (nodes_connected s1),
                             NodeInfosConnected infos]))
       else Ok (s1, out))"

text \<open>The translations between the network and the router.\<close>

definition translate_net_rtr :: "network_out \<Rightarrow> router_in option" where
  "translate_net_rtr m = (case m of
     NetMessageFromNode i s \<Rightarrow> Some (Internal (InternalMessageFromNode i s))
   | NetNodeListFromWS infos \<Rightarrow> Some (Internal (InternalAvailable infos))
   | NetConnected i \<Rightarrow> Some (Internal (InternalConnected i))
   | NetDisconnected i \<Rightarrow> Some (Internal (InternalDisconnected i))
   | NetSystemConfig conf \<Rightarrow> Some (Internal (InternalSystemConfig conf))
   | _ \<Rightarrow> None)"

definition translate_rtr_net :: "(network_wrapper \<Rightarrow> string option) \<Rightarrow> router_in \<Rightarrow> network_in option" where
  "translate_rtr_net wr m = (case m of
     NetworkWrapperToNetwork i w \<Rightarrow> map_option (NetMessageToNode i) (wr w)
   | _ \<Rightarrow> None)"

subsection \<open>The random connections on the network\<close>

text \<open>
  \<open>random_connections/broker.rs\<close>: what the network reports becomes a message to the random
  connections, without the node itself in the list of nodes; what they ask for becomes a request
  to the network.
\<close>

fun other_infos :: "u256 \<Rightarrow> node_info list \<Rightarrow> (unit, node_info list) outcome" where
  "other_infos our_id [] = Ok []"
| "other_infos our_id (ni # nis) =
     bind_outcome (get_id ni) (\<lambda>i. bind_outcome (other_infos our_id nis) (\<lambda>rest.
       Ok (if i \<noteq> our_id then ni # rest else rest)))"

definition link_net_rnd :: "(string \<Rightarrow> rc_message option) \<Rightarrow> u256 \<Rightarrow> network_out \<Rightarrow> (unit, random_in option) outcome" where
  "link_net_rnd rd our_id m = (case m of
     NetMessageFromNode i msg_str \<Rightarrow> Ok (map_option (NodeCommFromNetwork i) (rd msg_str))
   | NetNodeListFromWS infos \<Rightarrow> bind_outcome (other_infos our_id infos) (\<lambda>others. Ok (Some (NodeListIn others)))
   | NetConnected i \<Rightarrow> Ok (Some (NodeConnected i))
   | NetDisconnected i \<Rightarrow> Ok (Some (NodeDisconnected i))
   | _ \<Rightarrow> Ok None)"

definition link_rnd_net :: "(rc_message \<Rightarrow> string option) \<Rightarrow> random_out \<Rightarrow> (unit, network_in option) outcome" where
  "link_rnd_net wr m = (case m of
     ConnectNode i \<Rightarrow> Ok (Some (NetConnect i))
   | DisconnectNode i \<Rightarrow> Ok (Some (NetDisconnect i))
   | NodeCommToNetwork i msg \<Rightarrow> bind_outcome (expect (wr msg)) (\<lambda>s. Ok (Some (NetMessageToNode i s)))
   | _ \<Rightarrow> Ok None)"

subsection \<open>The books of the router\<close>

text \<open>What the books should say: the last list, and the nodes whose last message was that they are connected.\<close>

fun connected_after :: "router_in list \<Rightarrow> u256 set \<Rightarrow> u256 set" where
  "connected_after [] S = S"
| "connected_after (Internal (InternalConnected i) # ms) S = connected_after ms (insert i S)"
| "connected_after (Internal (InternalDisconnected i) # ms) S = connected_after ms (S - {i})"
| "connected_after (_ # ms) S = connected_after ms S"

fun available_after :: "router_in list \<Rightarrow> node_info list \<Rightarrow> node_info list" where
  "available_after [] infos = infos"
| "available_after (Internal (InternalAvailable infos) # ms) _ = available_after ms infos"
| "available_after (_ # ms) infos = available_after ms infos"

fun something_new :: "router_in list \<Rightarrow> u256 set \<Rightarrow> bool" where
  "something_new [] S = False"
| "something_new (Internal (InternalConnected i) # ms) S = (i \<notin> S \<or> something_new ms (insert i S))"
| "something_new (Internal (InternalDisconnected i) # ms) S = (i \<in> S \<or> something_new ms (S - {i}))"
| "something_new (Internal (InternalAvailable infos) # ms) S = True"
| "something_new (_ # ms) S = something_new ms S"

fun passed_on :: "(string \<Rightarrow> network_wrapper option) \<Rightarrow> router_in list \<Rightarrow> router_out list" where
  "passed_on rd [] = []"
| "passed_on rd (Internal (InternalMessageFromNode i s) # ms) =
     (case rd s of Some w \<Rightarrow> [NetworkWrapperFromNetwork i w] | None \<Rightarrow> []) @ passed_on rd ms"
| "passed_on rd (Internal (InternalSystemConfig conf) # ms) = SystemConfig conf # passed_on rd ms"
| "passed_on rd (_ # ms) = passed_on rd ms"

definition lists_ok :: "router_in list \<Rightarrow> bool" where
  "lists_ok ms \<longleftrightarrow> (\<forall>infos. Internal (InternalAvailable infos) \<in> set ms \<longrightarrow> none_keyless infos)"

lemma find_info_cases: "find_info i infos = Panic \<and> \<not> none_keyless infos \<or> (\<exists>b. find_info i infos = Ok b)"
proof (induction infos)
  case (Cons ni infos)
  show ?case
  proof (cases "keyless ni")
    case False
    then obtain j where "get_id ni = Ok j" using get_id_keyless(2) by blast
    with Cons show ?thesis by (cases "j = i") (auto simp: none_keyless_def)
  qed (simp add: get_id_keyless none_keyless_def)
qed auto

lemma available_connected_cases:
  "available_connected i s = Panic \<and> \<not> none_keyless (nodes_available s) \<or>
   (\<exists>a. available_connected i s = Ok (a, i \<in> set (nodes_connected s)))"
  using find_info_cases [of i "nodes_available s"] by (auto simp: available_connected_def)

text \<open>The nodes of a list that are connected, in the order of the list.\<close>

definition info_in :: "u256 set \<Rightarrow> node_info \<Rightarrow> bool" where
  "info_in S ni \<longleftrightarrow> (\<exists>i \<in> S. get_id ni = Ok i)"

lemma infos_connected_cases:
  "infos_connected ids infos = Panic \<and> \<not> none_keyless infos \<or>
   infos_connected ids infos = Ok (filter (info_in (set ids)) infos)"
proof (induction infos)
  case (Cons ni infos)
  show ?case
  proof (cases "keyless ni")
    case False
    then obtain j where "get_id ni = Ok j" using get_id_keyless(2) by blast
    with Cons show ?thesis by (auto simp: none_keyless_def info_in_def)
  qed (simp add: get_id_keyless none_keyless_def)
qed simp

lemma lists_ok_Cons: "lists_ok (m # ms) \<longleftrightarrow>
    (\<forall>infos. m = Internal (InternalAvailable infos) \<longrightarrow> none_keyless infos) \<and> lists_ok ms"
  by (auto simp: lists_ok_def)

lemma available_keys: "none_keyless infos \<Longrightarrow> lists_ok ms \<Longrightarrow> none_keyless (available_after ms infos)"
  by (induction ms infos rule: available_after.induct) (auto simp: lists_ok_Cons)

lemma router_loop_books:
  assumes "distinct (nodes_connected s)"
  shows "(router_loop rd ms s ret out = Panic \<and> \<not> (none_keyless (nodes_available s) \<and> lists_ok ms)) \<or>
    (\<exists>s'. router_loop rd ms s ret out =
      Ok (s', ret \<or> something_new ms (set (nodes_connected s)), out @ passed_on rd ms) \<and>
    distinct (nodes_connected s') \<and> set (nodes_connected s') = connected_after ms (set (nodes_connected s)) \<and>
    nodes_available s' = available_after ms (nodes_available s))"
  using assms
proof (induction ms arbitrary: s ret out)
  case (Cons m ms)
  show ?case
  proof (cases m)
    case (Internal x)
    show ?thesis
    proof (cases x)
      case (InternalConnected i)
      let ?s = "if i \<in> set (nodes_connected s) then s else s\<lparr>nodes_connected := nodes_connected s @ [i]\<rparr>"
      have "distinct (nodes_connected ?s)" "set (nodes_connected ?s) = insert i (set (nodes_connected s))"
        "nodes_available ?s = nodes_available s" using Cons.prems by auto
      with Cons.IH [of ?s "ret \<or> i \<notin> set (nodes_connected s)" out] available_connected_cases [of i s]
        Internal InternalConnected show ?thesis
        by (cases "i \<in> set (nodes_connected s)") (auto simp: router_internal_step_def lists_ok_Cons)
    next
      case (InternalDisconnected i)
      let ?s = "if i \<in> set (nodes_connected s) then s\<lparr>nodes_connected := filter (\<lambda>other. other \<noteq> i) (nodes_connected s)\<rparr> else s"
      have "distinct (nodes_connected ?s)" "set (nodes_connected ?s) = set (nodes_connected s) - {i}"
        "nodes_available ?s = nodes_available s" using Cons.prems by auto
      with Cons.IH [of ?s "ret \<or> i \<in> set (nodes_connected s)" out] available_connected_cases [of i s]
        Internal InternalDisconnected show ?thesis
        by (cases "i \<in> set (nodes_connected s)") (auto simp: router_internal_step_def lists_ok_Cons)
    next
      case (InternalAvailable infos)
      from Cons.IH [of "s\<lparr>nodes_available := infos\<rparr>" True out] Cons.prems Internal InternalAvailable show ?thesis
        by (auto simp: router_internal_step_def lists_ok_Cons)
    next
      case (InternalMessageFromNode i t)
      with Internal Cons.IH [OF Cons.prems, of ret
          "out @ (case rd t of Some w \<Rightarrow> [NetworkWrapperFromNetwork i w] | None \<Rightarrow> [])"] show ?thesis
        by (auto simp: router_internal_step_def lists_ok_Cons)
    next
      case (InternalSystemConfig conf)
      with Internal Cons.IH [OF Cons.prems, of ret "out @ [SystemConfig conf]"] show ?thesis
        by (auto simp: router_internal_step_def lists_ok_Cons)
    qed
  next
    case (NetworkWrapperToNetwork i w)
    with Cons.IH [OF Cons.prems] show ?thesis by (auto simp: lists_ok_Cons)
  qed
qed simp

text \<open>
  C30. The router keeps exact books. Over any batch of messages its list of connected nodes, without
  duplicates, is the set of nodes whose last message was that they are connected, and its list of
  available nodes is the last one it was given. It passes on what it can read, and reports the two
  lists and the descriptions of the connected nodes, once and at the end, if and only if some message
  changed something on the way. Where it does not, it panics, and then its list of available nodes,
  or one of the lists in the batch, holds a description without an identifier whose key has not 32
  bytes.
\<close>

theorem router_keeps_books:
  assumes "distinct (nodes_connected s)"
  shows "(\<exists>s'. router_network_messages rd ms s =
      Ok (s', passed_on rd ms @ (if something_new ms (set (nodes_connected s))
        then [NodeInfoAvailable (nodes_available s'), NodeIDsConnected (nodes_connected s'),
              NodeInfosConnected (filter (info_in (set (nodes_connected s'))) (nodes_available s'))] else [])) \<and>
    distinct (nodes_connected s') \<and> set (nodes_connected s') = connected_after ms (set (nodes_connected s)) \<and>
    nodes_available s' = available_after ms (nodes_available s)) \<or>
    (router_network_messages rd ms s = Panic \<and>
      (\<exists>infos ni. (infos = nodes_available s \<or> Internal (InternalAvailable infos) \<in> set ms) \<and>
        ni \<in> set infos \<and> ni_id ni = None \<and> length (ni_pubkey ni) \<noteq> 32))"
proof -
  have bad: "\<exists>infos ni. (infos = nodes_available s \<or> Internal (InternalAvailable infos) \<in> set ms) \<and>
      ni \<in> set infos \<and> ni_id ni = None \<and> length (ni_pubkey ni) \<noteq> 32"
    if "\<not> (none_keyless (nodes_available s) \<and> lists_ok ms)"
    using that by (auto simp: none_keyless_def lists_ok_def keyless_def)
  from router_loop_books [OF assms, of rd ms False "[]"] show ?thesis
  proof
    assume "router_loop rd ms s False [] = Panic \<and> \<not> (none_keyless (nodes_available s) \<and> lists_ok ms)"
    with bad show ?thesis by (simp add: router_network_messages_def)
  next
    assume "\<exists>s'. router_loop rd ms s False [] = Ok (s', False \<or> something_new ms (set (nodes_connected s)), [] @ passed_on rd ms) \<and>
      distinct (nodes_connected s') \<and> set (nodes_connected s') = connected_after ms (set (nodes_connected s)) \<and>
      nodes_available s' = available_after ms (nodes_available s)"
    then obtain s' where s': "router_loop rd ms s False [] = Ok (s', something_new ms (set (nodes_connected s)), passed_on rd ms)"
      "distinct (nodes_connected s')" "set (nodes_connected s') = connected_after ms (set (nodes_connected s))"
      "nodes_available s' = available_after ms (nodes_available s)" by auto
    from infos_connected_cases [of "nodes_connected s'" "nodes_available s'"]
      available_keys [of "nodes_available s" ms] s' bad show ?thesis
      by (auto simp: router_network_messages_def)
  qed
qed

theorem router_keeps_books_witness:
  "\<exists>s. router_network_messages (\<lambda>_. None)
      [Internal (InternalAvailable [toy_node_info 1 32]), Internal (InternalConnected (U256 (replicate 32 1))),
       Internal (InternalConnected (U256 (replicate 32 1)))] router_network_new =
    Ok (s, [NodeInfoAvailable (nodes_available s), NodeIDsConnected (nodes_connected s),
       NodeInfosConnected (filter (info_in (set (nodes_connected s))) (nodes_available s))]) \<and>
    set (nodes_connected s) = {U256 (replicate 32 1)}"
  using router_keeps_books [of router_network_new "\<lambda>_. None"
      "[Internal (InternalAvailable [toy_node_info 1 32]), Internal (InternalConnected (U256 (replicate 32 1))),
       Internal (InternalConnected (U256 (replicate 32 1)))]"]
  by (auto simp: router_network_new_def toy_node_info_def)

text \<open>The panic does happen: a description with a key of 31 bytes, and then any node that connects.\<close>

lemma router_panics:
  "router_network_messages (\<lambda>_. None)
     [Internal (InternalAvailable [toy_node_info 1 31]), Internal (InternalConnected u256_zero)] router_network_new = Panic"
  by (simp add: router_network_messages_def router_internal_step_def available_connected_def get_id_def
      toy_node_info_def router_network_new_def)

subsection \<open>No connection to oneself\<close>

text \<open>
  The random connections of a node, driven by the network below it and by its clock. A number for
  the random choices comes with each message.
\<close>

definition on_network ::
  "(string \<Rightarrow> rc_message option) \<Rightarrow> pick \<Rightarrow> nat \<times> network_out option \<Rightarrow> random_module \<Rightarrow>
     (unit, random_module \<times> random_out list) outcome" where
  "on_network rd pick m r = (case snd m of
     None \<Rightarrow> random_message pick (fst m, RcTick) r
   | Some net \<Rightarrow> bind_outcome (link_net_rnd rd (rc_id r) net) (\<lambda>x.
       case x of None \<Rightarrow> Ok (r, []) | Some msg \<Rightarrow> random_message pick (fst m, msg) r))"

text \<open>Reports of the network that do not come from a connection of the node to itself.\<close>

definition from_others :: "u256 \<Rightarrow> network_out option \<Rightarrow> bool" where
  "from_others own m \<longleftrightarrow> (case m of
     Some (NetConnected i) \<Rightarrow> i \<noteq> own
   | Some (NetMessageFromNode i s) \<Rightarrow> i \<noteq> own
   | Some (NetNodeListFromWS infos) \<Rightarrow> \<exists>ids. get_ids infos = Ok ids \<and> distinct ids
   | _ \<Rightarrow> True)"

definition self_free :: "u256 \<Rightarrow> random_module \<Rightarrow> bool" where
  "self_free own r \<longleftrightarrow> storage_ok (rc_storage r) \<and> rc_id r = own \<and> own \<notin> known_to r"

lemma other_infos_ids:
  "get_ids infos = Ok ids \<Longrightarrow> \<exists>others. other_infos own infos = Ok others \<and>
     get_ids others = Ok (filter (\<lambda>i. i \<noteq> own) ids)"
  by (induction infos arbitrary: ids) (fastforce simp: bind_outcome_Ok)+

lemma get_ids_set: "get_ids infos = Ok ids \<Longrightarrow> {i. \<exists>ni \<in> set infos. get_id ni = Ok i} = set ids"
  by (induction infos arbitrary: ids) (fastforce simp: bind_outcome_Ok)+

lemma link_names:
  assumes "from_others own (Some net)"
  shows "\<exists>x. link_net_rnd rd own net = Ok x \<and> (\<forall>msg. x = Some msg \<longrightarrow> random_in_ok msg \<and> own \<notin> names_in msg)"
proof (cases net)
  case (NetNodeListFromWS infos)
  with assms obtain ids where "get_ids infos = Ok ids" "distinct ids" by (auto simp: from_others_def)
  moreover from other_infos_ids [OF this(1)] obtain others where
    "other_infos own infos = Ok others" "get_ids others = Ok (filter (\<lambda>i. i \<noteq> own) ids)" by blast
  ultimately show ?thesis using get_ids_set [of others "filter (\<lambda>i. i \<noteq> own) ids"] NetNodeListFromWS
    by (auto simp: link_net_rnd_def)
next
  case (NetMessageFromNode i s)
  then show ?thesis using assms by (cases "rd s"; cases "the (rd s)")
      (auto simp: link_net_rnd_def from_others_def)
qed (use assms in \<open>auto simp: link_net_rnd_def from_others_def\<close>)

lemma on_network_keeps:
  assumes "pick_ok pick" and "self_free own r" and "from_others own (snd m)"
  shows "\<exists>r' out. on_network rd pick m r = Ok (r', out) \<and> self_free own r' \<and> list_all (\<lambda>x. x \<noteq> ConnectNode own) out"
proof -
  have step: "\<exists>r' out. random_message pick (k, msg) r = Ok (r', out) \<and> self_free own r' \<and> list_all (\<lambda>x. x \<noteq> ConnectNode own) out"
    if "random_in_ok msg" "own \<notin> names_in msg" for k msg
  proof -
    have s: "storage_ok (rc_storage r)" using assms(2) by (simp add: self_free_def)
    from random_message_ok [OF assms(1) s, of "(k, msg)"] that obtain r' out where
      r': "random_message pick (k, msg) r = Ok (r', out)" "storage_ok (rc_storage r')" by auto
    have ok: "random_in_ok (snd (k, msg))" using that by simp
    from random_message_known [OF assms(1) s ok r'(1)] r' that(2) assms(2) show ?thesis
      by (auto simp: self_free_def list_all_iff)
  qed
  show ?thesis
  proof (cases "snd m")
    case None
    with step [of RcTick "fst m"] show ?thesis by (simp add: on_network_def)
  next
    case (Some net)
    from link_names [of own net rd] assms(3) Some obtain x where x: "link_net_rnd rd own net = Ok x"
      "\<forall>msg. x = Some msg \<longrightarrow> random_in_ok msg \<and> own \<notin> names_in msg" by auto
    with Some assms(2) step [of _ "fst m"] show ?thesis
      by (cases x) (auto simp: on_network_def self_free_def)
  qed
qed

interpretation own: subsystem "on_network rd pick" "\<lambda>m. pick_ok pick \<and> from_others own (snd m)" "self_free own"
    "\<lambda>x. x \<noteq> ConnectNode own" for rd pick own
proof
  fix r and m :: "nat \<times> network_out option"
  assume "self_free own r" and "pick_ok pick \<and> from_others own (snd m)"
  with on_network_keeps [of pick own r m rd]
  show "\<exists>s' out. on_network rd pick m r = Ok (s', out) \<and> self_free own s' \<and> list_all (\<lambda>x. x \<noteq> ConnectNode own) out"
    by blast
qed

text \<open>
  A node never asks for a connection to itself: whatever lists of nodes it gets from the
  signalling server, itself included, and however other nodes connect, disconnect and send
  messages, the random connections run without a panic and none of their requests is to connect
  to the node's own identifier.
\<close>

theorem never_connects_to_itself:
  assumes "pick_ok pick" and "\<forall>m \<in> set ms. from_others own (snd m)"
  shows "\<exists>r out. handle_all (on_network rd pick) ms (random_new own) = Ok (r, out) \<and> ConnectNode own \<notin> set out"
proof -
  have "self_free own (random_new own)"
    using random_new_ok by (simp add: self_free_def random_new_def random_storage_default_def)
  from own.all_kept [OF this, of pick ms rd] assms show ?thesis by (auto simp: list_all_iff)
qed

theorem never_connects_to_itself_witness:
  "\<exists>r out. handle_all (on_network (\<lambda>_. None) take_first)
      [(0, Some (NetNodeListFromWS [toy_node_info 1 32, toy_node_info 2 32])), (1, None)]
      (random_new (U256 (replicate 32 1))) = Ok (r, out) \<and> ConnectNode (U256 (replicate 32 1)) \<notin> set out"
proof (rule never_connects_to_itself [OF take_first_ok])
  have "get_ids [toy_node_info 1 32, toy_node_info 2 32] = Ok [U256 (replicate 32 1), U256 (replicate 32 2)]"
    by (simp add: get_id_def toy_node_info_def)
  moreover have "replicate 32 (1 :: u8) \<noteq> replicate 32 2" by (simp add: numeral_eq_Suc)
  ultimately show "\<forall>m \<in> set [(0 :: nat, Some (NetNodeListFromWS [toy_node_info 1 32, toy_node_info 2 32])), (1, None)].
      from_others (U256 (replicate 32 1)) (snd m)"
    unfolding from_others_def by auto
qed

end
