(* ===== verification/TextFormat.thy ===== *)
theory TextFormat
  imports NetworkBroker
begin

text \<open>
  A format for the messages between a node and the signalling server that can be written and read
  back: numbers in unary, texts and lists with their length in front, the alternatives of a message
  with a number. It is no part of the program, which uses JSON; it shows that the conditions on a
  format that the properties of \<open>Signalling\<close> state can be met.
\<close>

subsection \<open>Parts\<close>

definition put_str :: "string \<Rightarrow> string" where
  "put_str s = unary (length s) @ s"

definition get_str :: "string \<Rightarrow> string \<times> string" where
  "get_str s = (let (n, r) = read_unary s in (take n r, drop n r))"

definition put_bytes :: "bytes \<Rightarrow> string" where
  "put_bytes b = put_str (map (\<lambda>x. char_of (unat x)) b)"

definition get_bytes :: "string \<Rightarrow> bytes \<times> string" where
  "get_bytes s = (let (t, r) = get_str s in (map (\<lambda>c. word_of_nat (of_char c)) t, r))"

definition put_id :: "u256 \<Rightarrow> string" where
  "put_id i = put_bytes (u256_bytes i)"

definition get_u256 :: "string \<Rightarrow> u256 \<times> string" where
  "get_u256 s = (let (b, r) = get_bytes s in (U256 b, r))"

definition put_word :: "'a::len word \<Rightarrow> string" where
  "put_word w = unary (unat w)"

definition get_word :: "string \<Rightarrow> 'a::len word \<times> string" where
  "get_word s = (let (n, r) = read_unary s in (word_of_nat n, r))"

fun get_times :: "(string \<Rightarrow> 'a \<times> string) \<Rightarrow> nat \<Rightarrow> string \<Rightarrow> 'a list \<times> string" where
  "get_times g 0 s = ([], s)"
| "get_times g (Suc n) s = (let (x, r) = g s; (xs, r) = get_times g n r in (x # xs, r))"

definition put_list :: "('a \<Rightarrow> string) \<Rightarrow> 'a list \<Rightarrow> string" where
  "put_list p xs = unary (length xs) @ concat (map p xs)"

definition get_list :: "(string \<Rightarrow> 'a \<times> string) \<Rightarrow> string \<Rightarrow> 'a list \<times> string" where
  "get_list g s = (let (n, r) = read_unary s in get_times g n r)"

lemma parts_read [simp]:
  "get_str (put_str t @ s) = (t, s)"
  "get_bytes (put_bytes b @ s) = (b, s)"
  "get_u256 (put_id i @ s) = (i, s)"
  "get_word (put_word w @ s) = (w, s)"
proof -
  show str: "get_str (put_str t @ s) = (t, s)" for t by (simp add: get_str_def put_str_def)
  have "map (\<lambda>c. word_of_nat (of_char c)) (map (\<lambda>x. char_of (unat x) :: char) b) = b" for b :: bytes
    unfolding map_map comp_def byte_char by simp
  then show bs: "get_bytes (put_bytes b @ s) = (b, s)" for b
    by (simp add: get_bytes_def put_bytes_def str del: map_map)
  show "get_u256 (put_id i @ s) = (i, s)" by (simp add: get_u256_def put_id_def bs)
  show "get_word (put_word w @ s) = (w, s)" by (simp add: get_word_def put_word_def)
qed

lemma get_times_read:
  assumes "\<And>x r. x \<in> set xs \<Longrightarrow> g (p x @ r) = (x, r)"
  shows "get_times g (length xs) (concat (map p xs) @ s) = (xs, s)"
  using assms by (induction xs) simp_all

lemma get_list_read: "(\<And>x r. x \<in> set xs \<Longrightarrow> g (p x @ r) = (x, r)) \<Longrightarrow> get_list g (put_list p xs @ s) = (xs, s)"
  by (simp add: get_list_def put_list_def get_times_read)

subsection \<open>Messages\<close>

definition put_info :: "node_info \<Rightarrow> string" where
  "put_info ni = put_str (ni_name ni) @ put_str (ni_client ni) @ put_bytes (ni_pubkey ni) @ put_word (ni_modules ni)"

definition get_info :: "string \<Rightarrow> node_info \<times> string" where
  "get_info s = (let (a, s) = get_str s; (b, s) = get_str s; (c, s) = get_bytes s; (d, s) = get_word s in
     (\<lparr>ni_name = a, ni_client = b, ni_pubkey = c, ni_modules = d, ni_id = None\<rparr>, s))"

definition put_stat :: "node_stat \<Rightarrow> string" where
  "put_stat n = put_id (ns_id n) @ put_str (ns_version n) @ put_word (ns_ping_ms n) @ put_word (ns_ping_rx n)"

definition get_stat :: "string \<Rightarrow> node_stat \<times> string" where
  "get_stat s = (let (a, s) = get_u256 s; (b, s) = get_str s; (c, s) = get_word s; (d, s) = get_word s in
     (\<lparr>ns_id = a, ns_version = b, ns_ping_ms = c, ns_ping_rx = d\<rparr>, s))"

definition put_peer_message :: "peer_message \<Rightarrow> string" where
  "put_peer_message m = (case m of PeerInit \<Rightarrow> unary 0 | PeerOffer t \<Rightarrow> unary 1 @ put_str t
     | PeerAnswer t \<Rightarrow> unary 2 @ put_str t | PeerIceCandidate t \<Rightarrow> unary 3 @ put_str t)"

definition get_peer_message :: "string \<Rightarrow> peer_message \<times> string" where
  "get_peer_message s = (let (k, s) = read_unary s in
     if k = 0 then (PeerInit, s) else let (t, s) = get_str s in
     (if k = 1 then PeerOffer t else if k = 2 then PeerAnswer t else PeerIceCandidate t, s))"

definition put_peer_info :: "peer_info \<Rightarrow> string" where
  "put_peer_info p = put_id (id_init p) @ put_id (id_follow p) @ put_peer_message (pi_message p)"

definition get_peer_info :: "string \<Rightarrow> peer_info \<times> string" where
  "get_peer_info s = (let (a, s) = get_u256 s; (b, s) = get_u256 s; (m, s) = get_peer_message s in
     (\<lparr>id_init = a, id_follow = b, pi_message = m\<rparr>, s))"

lemma messages_read [simp]:
  "get_info (put_info ni @ s) = (ni\<lparr>ni_id := None\<rparr>, s)"
  "get_stat (put_stat n @ s) = (n, s)"
  "get_peer_message (put_peer_message m @ s) = (m, s)"
  "get_peer_info (put_peer_info p @ s) = (p, s)"
proof -
  show "get_info (put_info ni @ s) = (ni\<lparr>ni_id := None\<rparr>, s)" by (cases ni) (simp add: get_info_def put_info_def)
  show "get_stat (put_stat n @ s) = (n, s)" by (simp add: get_stat_def put_stat_def)
  show m: "get_peer_message (put_peer_message m @ s) = (m, s)" for m
    by (cases m) (simp_all only: get_peer_message_def put_peer_message_def append_assoc read_unary parts_read
        peer_message.simps Let_def prod.case, simp_all)
  show "get_peer_info (put_peer_info p @ s) = (p, s)" by (simp add: get_peer_info_def put_peer_info_def m)
qed

definition put_from :: "ws_from_node \<Rightarrow> string" where
  "put_from m = (case m of
     Announce a \<Rightarrow> unary 0 @ put_word (ma_version a) @ put_id (ma_challenge a) @ put_info (ma_node_info a) @ put_bytes (ma_signature a)
   | ListIDsRequest \<Rightarrow> unary 1
   | PeerSetupFrom p \<Rightarrow> unary 2 @ put_peer_info p
   | NodeStatsFrom ns \<Rightarrow> unary 3 @ put_list put_stat ns)"

definition get_from :: "string \<Rightarrow> ws_from_node" where
  "get_from s = (let (k, s) = read_unary s in
     if k = 0 then (let (v, s) = get_word s; (c, s) = get_u256 s; (ni, s) = get_info s; (g, s) = get_bytes s in
       Announce \<lparr>ma_version = v, ma_challenge = c, ma_node_info = ni, ma_signature = g\<rparr>)
     else if k = 1 then ListIDsRequest
     else if k = 2 then PeerSetupFrom (fst (get_peer_info s))
     else NodeStatsFrom (fst (get_list get_stat s)))"

definition put_to :: "ws_to_node \<Rightarrow> string" where
  "put_to m = (case m of
     Challenge v c \<Rightarrow> unary 0 @ put_word v @ put_id c
   | ListIDsReply infos \<Rightarrow> unary 1 @ put_list put_info infos
   | PeerSetupTo p \<Rightarrow> unary 2 @ put_peer_info p
   | SystemConfigTo None \<Rightarrow> unary 3
   | SystemConfigTo (Some r) \<Rightarrow> unary 4 @ put_id r)"

definition get_to :: "string \<Rightarrow> ws_to_node" where
  "get_to s = (let (k, s) = read_unary s in
     if k = 0 then (let (v, s) = get_word s; (c, s) = get_u256 s in Challenge v c)
     else if k = 1 then ListIDsReply (fst (get_list get_info s))
     else if k = 2 then PeerSetupTo (fst (get_peer_info s))
     else if k = 3 then SystemConfigTo None
     else SystemConfigTo (Some (fst (get_u256 s))))"

lemma get_info_plain: "ni_id (fst (get_info s)) = None"
  by (simp add: get_info_def split_beta Let_def)

lemma get_from_plain: "get_from s = Announce a \<Longrightarrow> ni_id (ma_node_info a) = None"
  using get_info_plain by (auto simp: get_from_def split_beta Let_def split: if_splits)

lemma info_unchanged: "ni_id ni = None \<Longrightarrow> ni\<lparr>ni_id := None\<rparr> = ni"
  by (cases ni) simp

text \<open>Reading leaves out the field \<open>id\<close> of a node description, so messages without it are read back unchanged.\<close>

definition plain_from :: "ws_from_node \<Rightarrow> bool" where
  "plain_from m \<longleftrightarrow> (case m of Announce a \<Rightarrow> ni_id (ma_node_info a) = None | _ \<Rightarrow> True)"

definition plain_to :: "ws_to_node \<Rightarrow> bool" where
  "plain_to m \<longleftrightarrow> (case m of ListIDsReply infos \<Rightarrow> \<forall>ni \<in> set infos. ni_id ni = None | _ \<Rightarrow> True)"

lemmas last_read [simp] = parts_read [where s = "[]", simplified] messages_read [where s = "[]", simplified]

lemma read_unary_end [simp]: "read_unary (unary n) = (n, [])"
  using read_unary [of n "[]"] by simp

lemma get_from_put: "plain_from m \<Longrightarrow> get_from (put_from m) = m"
  using get_list_read [of _ get_stat put_stat "[]"]
  by (cases m) (simp_all add: get_from_def put_from_def plain_from_def info_unchanged del: unary.simps)

lemma get_to_put: "plain_to m \<Longrightarrow> get_to (put_to m) = m"
  using get_list_read [of _ get_info put_info "[]"]
  by (cases m) (auto simp: get_to_def put_to_def plain_to_def info_unchanged simp del: unary.simps split: option.splits)

end
