(* ===== verification/Signalling.thy ===== *)
theory Signalling
  imports TextFormat
begin

text \<open>
  A node and the signalling server together: the network module of \<open>NetworkBroker\<close> at one end of
  a websocket, the server of \<open>SignalServer\<close> at the other. The websocket carries texts in the
  order they are sent; \<open>to_server\<close> and \<open>to_node\<close> are the translations at its two ends. The two
  sides use the same JSON format, which leaves out the field \<open>id\<close> of a node description.
\<close>

subsection \<open>The websocket\<close>

definition to_server :: "nat \<Rightarrow> network_out list \<Rightarrow> (u256 \<times> signal_in) list" where
  "to_server index outs = List.map_filter (\<lambda>m. case m of
     NetWebSocketOut (WscSend s) \<Rightarrow> Some (u256_zero, SigWs (WsMessage index s)) | _ \<Rightarrow> None) outs"

definition to_node :: "nat \<Rightarrow> signal_out list \<Rightarrow> network_in list" where
  "to_node index outs = List.map_filter (\<lambda>m. case m of
     OutWs (WsSend i s) \<Rightarrow> if i = index then Some (NetWebSocket (WscMessage s)) else None | _ \<Rightarrow> None) outs"

lemma to_server_simps [simp]:
  "to_server i [] = []"
  "to_server i (NetWebSocketOut (WscSend s) # outs) = (u256_zero, SigWs (WsMessage i s)) # to_server i outs"
  by (simp_all add: to_server_def List.map_filter_simps)

lemma to_node_simps [simp]:
  "to_node i [] = []"
  "to_node i (OutWs (WsSend j s) # outs) =
     (if j = i then NetWebSocket (WscMessage s) # to_node i outs else to_node i outs)"
  "to_node i (OutNewNode l # outs) = to_node i outs"
  by (simp_all add: to_node_def List.map_filter_simps)

subsection \<open>What the two sides share\<close>

definition same_format :: "network_env \<Rightarrow> ('b, 'pk, 'sig) signal_env \<Rightarrow> bool" where
  "same_format ne se \<longleftrightarrow> network_env_ok ne \<and> signal_env_ok se \<and>
     (\<forall>m s. plain_from m \<longrightarrow> ne_write ne m = Some s \<longrightarrow> sv_read se s = Some m) \<and>
     (\<forall>m s. plain_to m \<longrightarrow> sv_write se m = Some s \<longrightarrow> ne_read ne s = Some m)"

text \<open>The node holds the secret key for the public key in its description.\<close>

definition own_key :: "network_env \<Rightarrow> ('b, 'pk, 'sig) signal_env \<Rightarrow> node_info \<Rightarrow> bool" where
  "own_key ne se ni \<longleftrightarrow> ni_id ni = None \<and>
     (\<exists>pk. ed_public (sv_ed se) (ni_pubkey ni) = Some pk \<and>
       (\<forall>msg. \<exists>sg. ed_signature (sv_ed se) (ne_sign ne msg) = Some sg \<and> ed_verify (sv_ed se) pk msg sg))"

text \<open>\<open>choose_multiple\<close> picks as many elements as it is asked for, if there are so many.\<close>

definition list_pick_ok :: "('b, 'pk, 'sig) signal_env \<Rightarrow> bool" where
  "list_pick_ok se \<longleftrightarrow> (\<forall>k n xs. mset (sv_pick se k n xs) \<subseteq># mset xs \<and> length (sv_pick se k n xs) = min n (length xs))"

lemma own_key_id: "own_key ne se ni \<Longrightarrow> signal_env_ok se \<Longrightarrow> get_id ni = Ok (U256 (ni_pubkey ni))"
  by (auto simp: own_key_def signal_env_ok_def get_id_def)

lemma pick_all:
  assumes "list_pick_ok se" and "length xs \<le> n"
  shows "set (sv_pick se k n xs) = set xs"
proof -
  have sub: "mset (sv_pick se k n xs) \<subseteq># mset xs" and len: "size (mset (sv_pick se k n xs)) = size (mset xs)"
    using assms by (auto simp: list_pick_ok_def)
  from sub len have "mset (sv_pick se k n xs) = mset xs"
    by (metis mset_subset_size nless_le subset_mset.le_imp_less_or_eq)
  then show ?thesis by (metis set_mset_mset)
qed

lemma pick_sub: "list_pick_ok se \<Longrightarrow> set (sv_pick se k n xs) \<subseteq> set xs"
  unfolding list_pick_ok_def by (metis mset_subset_eqD set_mset_mset subsetI)

subsection \<open>Joining the network\<close>

text \<open>The challenge, its answer, and the registration.\<close>

lemma challenge_sent:
  assumes "signal_env_ok se"
  shows "\<exists>text. sv_write se (Challenge signal_version c) = Some text \<and>
    signal_messages se [(c, SigWs (WsNewConnection i))] s =
      Ok (s\<lparr>connection_ids := bm_insert (sv_bimap se) c i (connection_ids s),
             sg_ttl := AList.update i (ttl_minutes (sg_config s)) (sg_ttl s)\<rparr>, [OutWs (WsSend i text)])"
proof -
  obtain tx where "sv_write se (Challenge signal_version c) = Some tx"
    using assms unfolding signal_env_ok_def by blast
  then show ?thesis
    by (simp add: signal_msg_in_def msg_wss_def msg_ws_connect_def send_msg_node_def expect_def)
qed

lemma challenge_answered:
  assumes "network_env_ok ne" and "ne_read ne text = Some (Challenge signal_version c)"
  shows "\<exists>a r. ne_write ne (Announce \<lparr>ma_version = signal_version, ma_challenge = c, ma_node_info = nw_info n,
      ma_signature = ne_sign ne (u256_bytes c)\<rparr>) = Some a \<and> ne_write ne ListIDsRequest = Some r \<and>
    network_messages ne [NetWebSocket (WscMessage text)] n =
      Ok (n, [NetWebSocketOut (WscSend a), NetWebSocketOut (WscSend r)])"
proof -
  obtain a r where "ne_write ne (Announce \<lparr>ma_version = signal_version, ma_challenge = c, ma_node_info = nw_info n,
      ma_signature = ne_sign ne (u256_bytes c)\<rparr>) = Some a" "ne_write ne ListIDsRequest = Some r"
    using assms(1) unfolding network_env_ok_def by blast
  with assms show ?thesis
    by (simp add: network_message_def msg_ws_def to_signal_def expect_def)
qed

lemma node_registered:
  assumes "signal_env_ok se" and "own_key ne se (nw_info n)"
    and "name_of se s i = Some c" and "map_of (sg_ttl s) i \<noteq> None"
    and "sv_read se a = Some (Announce \<lparr>ma_version = v, ma_challenge = c, ma_node_info = nw_info n,
      ma_signature = ne_sign ne (u256_bytes c)\<rparr>)"
  shows "\<exists>text. sv_write se (SystemConfigTo (sc_system_realm (sg_config s))) = Some text \<and>
    signal_msg_in se (z, SigWs (WsMessage i a)) s =
      Ok (s\<lparr>sg_ttl := AList.update i (ttl_minutes (sg_config s)) (sg_ttl s),
             connection_ids := bm_insert (sv_bimap se) (U256 (ni_pubkey (nw_info n))) i (connection_ids s),
             sg_info := AList.update (U256 (ni_pubkey (nw_info n))) (nw_info n) (sg_info s)\<rparr>,
          [OutWs (WsSend i text), OutNewNode (U256 (ni_pubkey (nw_info n)))])"
proof -
  obtain tx where "sv_write se (SystemConfigTo (sc_system_realm (sg_config s))) = Some tx"
    using assms(1) unfolding signal_env_ok_def by blast
  moreover obtain pk sg where "ed_public (sv_ed se) (ni_pubkey (nw_info n)) = Some pk"
    "ed_signature (sv_ed se) (ne_sign ne (u256_bytes c)) = Some sg" "ed_verify (sv_ed se) pk (u256_bytes c) sg"
    using assms(2) unfolding own_key_def by blast
  moreover have "hm_contains (sg_ttl s) i" using assms(4) by (simp add: hm_contains_iff)
  ultimately show ?thesis using assms(3,5) own_key_id [OF assms(2,1)]
    by (simp add: signal_msg_in_def msg_wss_def msg_ws_process_def ws_announce_def ni_verify_def
        send_msg_node_def expect_def)
qed

lemma list_sent:
  assumes "signal_env_ok se" and "sv_read se r = Some ListIDsRequest"
  shows "\<exists>tx t. sv_write se (ListIDsReply (sv_pick se i (case max_list_len (sg_config s) of Some n \<Rightarrow> n | None \<Rightarrow> length (sg_info s))
      (map snd (sg_info s)))) = Some tx \<and>
    signal_msg_in se (z, SigWs (WsMessage i r)) s = Ok (s\<lparr>sg_ttl := t\<rparr>, [OutWs (WsSend i tx)]) \<and>
    (t = sg_ttl s \<or> t = AList.update i (ttl_minutes (sg_config s)) (sg_ttl s))"
proof -
  obtain tx where "sv_write se (ListIDsReply (sv_pick se i
      (case max_list_len (sg_config s) of Some n \<Rightarrow> n | None \<Rightarrow> length (sg_info s)) (map snd (sg_info s)))) = Some tx"
    using assms(1) unfolding signal_env_ok_def by blast
  with assms(2) show ?thesis
    by (cases "max_list_len (sg_config s)"; intro exI [of _ tx] exI [of _ "if hm_contains (sg_ttl s) i
          then AList.update i (ttl_minutes (sg_config s)) (sg_ttl s) else sg_ttl s"])
      (auto simp: signal_msg_in_def msg_wss_def msg_ws_process_def ws_list_ids_def send_msg_node_def expect_def Let_def)
qed

lemma answers_read:
  assumes "ne_read ne x = Some (SystemConfigTo conf)" and "ne_read ne y = Some (ListIDsReply infos)"
  shows "network_messages ne [NetWebSocket (WscMessage x), NetWebSocket (WscMessage y)] n =
    Ok (n, [NetSystemConfig conf, NetNodeListFromWS infos])"
  using assms by (simp add: network_message_def msg_ws_def)

text \<open>
  C34. A node that joins the network: the server greets the new connection with a challenge, the node
  signs it, and the server files the node under the identifier of its key on this connection,
  announces it, and sends back the configuration of the system and a list of nodes. Where the
  server does not limit the length of the list, the node finds every registered node on it,
  itself included.
\<close>

theorem handshake_registers:
  assumes "same_format ne se" and "own_key ne se (nw_info n)" and "list_pick_ok se"
    and "\<forall>ni \<in> snd ` set (sg_info s). ni_id ni = None"
  shows "\<exists>s1 hello n1 answer s2 reply n2 infos own.
    signal_messages se [(c, SigWs (WsNewConnection i))] s = Ok (s1, hello) \<and>
    network_messages ne (to_node i hello) n = Ok (n1, answer) \<and>
    signal_messages se (to_server i answer) s1 = Ok (s2, reply) \<and>
    network_messages ne (to_node i reply) n1 =
      Ok (n2, [NetSystemConfig (sc_system_realm (sg_config s)), NetNodeListFromWS infos]) \<and>
    get_id (nw_info n) = Ok own \<and> OutNewNode own \<in> set reply \<and>
    index_of se s2 own = Some i \<and> name_of se s2 i = Some own \<and> map_of (sg_info s2) own = Some (nw_info n) \<and>
    (max_list_len (sg_config s) = None \<longrightarrow> set infos = snd ` set (sg_info s2))"
proof -
  have env: "network_env_ok ne" "signal_env_ok se" using assms(1) by (simp_all add: same_format_def)
  have laws: "bm_by_right (sv_bimap se) i (bm_insert (sv_bimap se) l i b) = Some l"
    "bm_by_left (sv_bimap se) l (bm_insert (sv_bimap se) l i b) = Some i" for l b
    using env(2) by (simp_all add: signal_env_ok_def bimap_laws_def)
  let ?own = "U256 (ni_pubkey (nw_info n))"
  define s1 where "s1 = s\<lparr>connection_ids := bm_insert (sv_bimap se) c i (connection_ids s),
    sg_ttl := AList.update i (ttl_minutes (sg_config s)) (sg_ttl s)\<rparr>"
  obtain h where h: "sv_write se (Challenge signal_version c) = Some h"
    "signal_messages se [(c, SigWs (WsNewConnection i))] s = Ok (s1, [OutWs (WsSend i h)])"
    unfolding s1_def using challenge_sent [OF env(2)] by blast
  then have "ne_read ne h = Some (Challenge signal_version c)"
    using assms(1) by (simp add: same_format_def plain_to_def)
  from challenge_answered [OF env(1) this] obtain a r where a: "ne_write ne (Announce \<lparr>ma_version = signal_version,
      ma_challenge = c, ma_node_info = nw_info n, ma_signature = ne_sign ne (u256_bytes c)\<rparr>) = Some a"
    and r: "ne_write ne ListIDsRequest = Some r"
    and answer: "network_messages ne [NetWebSocket (WscMessage h)] n =
      Ok (n, [NetWebSocketOut (WscSend a), NetWebSocketOut (WscSend r)])" by blast
  have read_a: "sv_read se a = Some (Announce \<lparr>ma_version = signal_version, ma_challenge = c,
      ma_node_info = nw_info n, ma_signature = ne_sign ne (u256_bytes c)\<rparr>)"
    using assms(1,2) a by (simp add: same_format_def plain_from_def own_key_def)
  have read_r: "sv_read se r = Some ListIDsRequest"
    using assms(1) r by (simp add: same_format_def plain_from_def)
  have "name_of se s1 i = Some c" "map_of (sg_ttl s1) i \<noteq> None" by (simp_all add: s1_def laws)
  from node_registered [OF env(2) assms(2) this read_a, of u256_zero]
  obtain x where x: "sv_write se (SystemConfigTo (sc_system_realm (sg_config s1))) = Some x"
    and reg: "signal_msg_in se (u256_zero, SigWs (WsMessage i a)) s1 =
      Ok (s1\<lparr>sg_ttl := AList.update i (ttl_minutes (sg_config s1)) (sg_ttl s1),
             connection_ids := bm_insert (sv_bimap se) ?own i (connection_ids s1),
             sg_info := AList.update ?own (nw_info n) (sg_info s1)\<rparr>, [OutWs (WsSend i x), OutNewNode ?own])"
    (is "_ = Ok (?s2, _)") by blast
  from list_sent [OF env(2) read_r, where s = ?s2 and i = i and z = u256_zero]
  obtain y t where y: "sv_write se (ListIDsReply (sv_pick se i (case max_list_len (sg_config ?s2) of
        Some n \<Rightarrow> n | None \<Rightarrow> length (sg_info ?s2)) (map snd (sg_info ?s2)))) = Some y"
    and lst: "signal_msg_in se (u256_zero, SigWs (WsMessage i r)) ?s2 = Ok (?s2\<lparr>sg_ttl := t\<rparr>, [OutWs (WsSend i y)])"
    by blast
  define infos where "infos = sv_pick se i (case max_list_len (sg_config ?s2) of
        Some n \<Rightarrow> n | None \<Rightarrow> length (sg_info ?s2)) (map snd (sg_info ?s2))"
  have sub: "snd ` set (AList.update ?own (nw_info n) (sg_info s1)) \<subseteq> insert (nw_info n) (snd ` set (sg_info s))"
    using set_update [of ?own "nw_info n" "sg_info s1"] by (auto simp: s1_def)
  have "plain_to (ListIDsReply infos)"
    using pick_sub [OF assms(3)] sub assms(2,4) unfolding plain_to_def infos_def own_key_def by fastforce
  then have "ne_read ne y = Some (ListIDsReply infos)" "ne_read ne x = Some (SystemConfigTo (sc_system_realm (sg_config s)))"
    using assms(1) x y unfolding infos_def by (simp_all add: same_format_def plain_to_def s1_def)
  from answers_read [OF this(2,1), of n] have last: "network_messages ne
      (to_node i [OutWs (WsSend i x), OutNewNode ?own, OutWs (WsSend i y)]) n =
    Ok (n, [NetSystemConfig (sc_system_realm (sg_config s)), NetNodeListFromWS infos])" by simp
  have served: "signal_messages se (to_server i [NetWebSocketOut (WscSend a), NetWebSocketOut (WscSend r)]) s1 =
    Ok (?s2\<lparr>sg_ttl := t\<rparr>, [OutWs (WsSend i x), OutNewNode ?own, OutWs (WsSend i y)])"
    using reg lst by simp
  have all: "max_list_len (sg_config s) = None \<longrightarrow> set infos = snd ` set (sg_info (?s2\<lparr>sg_ttl := t\<rparr>))"
    using pick_all [OF assms(3)] by (simp add: infos_def s1_def)
  have "network_messages ne (to_node i [OutWs (WsSend i h)]) n =
      Ok (n, [NetWebSocketOut (WscSend a), NetWebSocketOut (WscSend r)])" using answer by simp
  moreover have "index_of se (?s2\<lparr>sg_ttl := t\<rparr>) ?own = Some i" "name_of se (?s2\<lparr>sg_ttl := t\<rparr>) i = Some ?own"
    "map_of (sg_info (?s2\<lparr>sg_ttl := t\<rparr>)) ?own = Some (nw_info n)" by (simp_all add: laws)
  ultimately show ?thesis using h(2) served last own_key_id [OF assms(2) env(2)] all
    by (intro exI conjI) (assumption | simp)+
qed

definition demo_server_env :: "(fun_map, bytes, bytes) signal_env" where
  "demo_server_env = \<lparr>sv_bimap = fun_bimap,
     sv_ed = \<lparr>ed_public = (\<lambda>k. if length k = 32 then Some k else None), ed_signature = Some,
              ed_verify = (\<lambda>pk msg sg. sg = pk @ msg)\<rparr>,
     sv_write = (\<lambda>m. Some (put_to m)), sv_read = (\<lambda>s. Some (get_from s)), sv_pick = (\<lambda>_ n xs. take n xs)\<rparr>"

definition demo_node_env :: "bytes \<Rightarrow> network_env" where
  "demo_node_env key = \<lparr>ne_write = (\<lambda>m. Some (put_from m)), ne_read = (\<lambda>s. Some (get_to s)), ne_sign = (\<lambda>msg. key @ msg)\<rparr>"

lemma demo_env:
  "same_format (demo_node_env key) demo_server_env"
  "list_pick_ok demo_server_env"
  "own_key (demo_node_env (replicate 32 b)) demo_server_env (toy_node_info b 32)"
proof -
  have "bimap_laws fun_bimap" using toy_signal_env_ok by (simp add: signal_env_ok_def toy_signal_env_def)
  then show "same_format (demo_node_env key) demo_server_env"
    using get_from_plain by (auto simp: same_format_def network_env_ok_def signal_env_ok_def demo_node_env_def
        demo_server_env_def get_from_put get_to_put split: if_splits)
  have "mset (take n xs) \<subseteq># mset xs" for n and xs :: "node_info list"
    by (metis append_take_drop_id mset_append mset_subset_eq_add_left)
  then show "list_pick_ok demo_server_env" by (simp add: list_pick_ok_def demo_server_env_def min.commute)
  show "own_key (demo_node_env (replicate 32 b)) demo_server_env (toy_node_info b 32)"
    by (simp add: own_key_def demo_node_env_def demo_server_env_def toy_node_info_def)
qed

theorem handshake_registers_witness:
  "\<exists>s1 hello n1 answer s2 reply own.
    signal_messages demo_server_env [(u256_zero, SigWs (WsNewConnection 7))] (signal_new demo_server_env toy_config) = Ok (s1, hello) \<and>
    network_messages (demo_node_env (replicate 32 1)) (to_node 7 hello) (network_start (toy_node_info 1 32)) = Ok (n1, answer) \<and>
    signal_messages demo_server_env (to_server 7 answer) s1 = Ok (s2, reply) \<and>
    get_id (toy_node_info 1 32) = Ok own \<and> index_of demo_server_env s2 own = Some 7"
  using handshake_registers [OF demo_env(1) _ demo_env(2), of "replicate 32 1" "network_start (toy_node_info 1 32)"
      "signal_new demo_server_env toy_config" u256_zero 7] demo_env(3) [of 1]
  by (simp add: network_start_def signal_new_def) blast

subsection \<open>Setting up a connection through the server\<close>

definition opposite :: "direction \<Rightarrow> direction" where
  "opposite d = (case d of Incoming \<Rightarrow> Outgoing | Outgoing \<Rightarrow> Incoming)"

lemma setup_sent:
  assumes "network_env_ok ne" and "get_id (nw_info n) = Ok a"
  shows "\<exists>tx. ne_write ne (PeerSetupFrom (if dir = Incoming then \<lparr>id_init = b, id_follow = a, pi_message = pm\<rparr>
        else \<lparr>id_init = a, id_follow = b, pi_message = pm\<rparr>)) = Some tx \<and>
    network_messages ne [NetWebRTC (RtcConnMessage b (NcSetupOut dir pm))] n = Ok (n, [NetWebSocketOut (WscSend tx)])"
proof -
  obtain tx where "ne_write ne (PeerSetupFrom (if dir = Incoming then \<lparr>id_init = b, id_follow = a, pi_message = pm\<rparr>
        else \<lparr>id_init = a, id_follow = b, pi_message = pm\<rparr>)) = Some tx"
    using assms(1) unfolding network_env_ok_def by blast
  with assms(2) show ?thesis
    by (auto simp: network_message_def msg_node_def to_signal_def expect_def)
qed

lemma setup_forwarded:
  assumes "signal_env_ok se" and "sv_read se tx = Some (PeerSetupFrom p)"
    and "name_of se s i = Some a" and "get_remote a p = Some b" and "index_of se s b = Some j"
  shows "\<exists>ty t. sv_write se (PeerSetupTo p) = Some ty \<and>
    signal_messages se [(z, SigWs (WsMessage i tx))] s = Ok (s\<lparr>sg_ttl := t\<rparr>, [OutWs (WsSend j ty)])"
proof -
  obtain ty where "sv_write se (PeerSetupTo p) = Some ty" using assms(1) unfolding signal_env_ok_def by blast
  with assms(2-5) show ?thesis
    by (intro exI [of _ ty] exI [of _ "if hm_contains (sg_ttl s) i
          then AList.update i (ttl_minutes (sg_config s)) (sg_ttl s) else sg_ttl s"])
      (auto simp: signal_msg_in_def msg_wss_def msg_ws_process_def ws_peer_setup_def send_msg_node_def expect_def Let_def)
qed

lemma setup_received:
  assumes "ne_read ne ty = Some (PeerSetupTo p)" and "get_id (nw_info n) = Ok b" and "get_remote b p = Some a"
  shows "network_messages ne [NetWebSocket (WscMessage ty)] n =
    Ok (fst (assure_connection a Incoming n),
        snd (assure_connection a Incoming n) @ [NetWebRTCOut (RtcMessage a (NcSetup (get_direction b p) (pi_message p)))])"
  using assms by (simp add: network_message_def msg_ws_def split_beta Let_def)

text \<open>
  C12. A message to set up a connection reaches the other node, and no other one: what the WebRTC layer
  of one registered node wants to tell another registered node goes through the server to the
  connection of that node alone, names the sender and the right direction, and finds there a
  connection that is opened for it if there was none.
\<close>

theorem peer_setup_reaches_peer:
  assumes "same_format na se" and "same_format nb se"
    and "get_id (nw_info m) = Ok a" and "get_id (nw_info n) = Ok b" and "a \<noteq> b"
    and "name_of se s i = Some a" and "index_of se s b = Some j"
  shows "\<exists>asked s' sent n' out.
    network_messages na [NetWebRTC (RtcConnMessage b (NcSetupOut dir pm))] m = Ok (m, asked) \<and>
    signal_messages se (to_server i asked) s = Ok (s', sent) \<and> connection_ids s' = connection_ids s \<and>
    (\<forall>k. k \<noteq> j \<longrightarrow> to_node k sent = []) \<and>
    network_messages nb (to_node j sent) n =
      Ok (n', out @ [NetWebRTCOut (RtcMessage a (NcSetup (opposite dir) pm))]) \<and>
    out = (if a \<in> set (connections n) then [] else [NetWebRTCOut (RtcConnect a Incoming)]) \<and>
    set (connections n') = insert a (set (connections n))"
proof -
  have env: "network_env_ok na" "signal_env_ok se" using assms(1) by (simp_all add: same_format_def)
  define p where "p = (if dir = Incoming then \<lparr>id_init = b, id_follow = a, pi_message = pm\<rparr>
    else \<lparr>id_init = a, id_follow = b, pi_message = pm\<rparr>)"
  have p: "get_remote a p = Some b" "get_remote b p = Some a" "get_direction b p = opposite dir" "pi_message p = pm"
    using assms(5) by (cases dir; simp add: p_def get_remote_def get_direction_def opposite_def)+
  obtain tx where tx: "ne_write na (PeerSetupFrom p) = Some tx"
    "network_messages na [NetWebRTC (RtcConnMessage b (NcSetupOut dir pm))] m = Ok (m, [NetWebSocketOut (WscSend tx)])"
    using setup_sent [OF env(1) assms(3)] unfolding p_def by blast
  then have "sv_read se tx = Some (PeerSetupFrom p)" using assms(1) by (simp add: same_format_def plain_from_def)
  from setup_forwarded [OF env(2) this assms(6) p(1) assms(7)] obtain ty t where ty: "sv_write se (PeerSetupTo p) = Some ty"
    "signal_messages se [(u256_zero, SigWs (WsMessage i tx))] s = Ok (s\<lparr>sg_ttl := t\<rparr>, [OutWs (WsSend j ty)])" by blast
  then have "ne_read nb ty = Some (PeerSetupTo p)" using assms(2) by (simp add: same_format_def plain_to_def)
  from setup_received [OF this assms(4) p(2)] have got: "network_messages nb [NetWebSocket (WscMessage ty)] n =
    Ok (fst (assure_connection a Incoming n),
        snd (assure_connection a Incoming n) @ [NetWebRTCOut (RtcMessage a (NcSetup (opposite dir) pm))])"
    by (simp add: p)
  have "snd (assure_connection a Incoming n) = (if a \<in> set (connections n) then [] else [NetWebRTCOut (RtcConnect a Incoming)])"
    by (simp add: assure_connection_def)
  with tx(2) ty(2) got show ?thesis
    by (intro exI [of _ "[NetWebSocketOut (WscSend tx)]"] exI [of _ "s\<lparr>sg_ttl := t\<rparr>"] exI [of _ "[OutWs (WsSend j ty)]"]
        exI [of _ "fst (assure_connection a Incoming n)"] exI [of _ "snd (assure_connection a Incoming n)"]) simp
qed

definition two_registered :: "fun_map signal_server" where
  "two_registered = (signal_new demo_server_env toy_config)\<lparr>connection_ids :=
     bm_insert fun_bimap (U256 (replicate 32 2)) 2 (bm_insert fun_bimap (U256 (replicate 32 1)) 1 (bm_new fun_bimap))\<rparr>"

theorem peer_setup_reaches_peer_witness:
  "\<exists>asked s' sent n' out.
    network_messages (demo_node_env (replicate 32 1)) [NetWebRTC (RtcConnMessage (U256 (replicate 32 2)) (NcSetupOut Outgoing (PeerOffer ''o'')))]
      (network_start (toy_node_info 1 32)) = Ok (network_start (toy_node_info 1 32), asked) \<and>
    signal_messages demo_server_env (to_server 1 asked) two_registered = Ok (s', sent) \<and>
    network_messages (demo_node_env (replicate 32 2)) (to_node 2 sent) (network_start (toy_node_info 2 32)) =
      Ok (n', out @ [NetWebRTCOut (RtcMessage (U256 (replicate 32 1)) (NcSetup Incoming (PeerOffer ''o'')))])"
proof -
  have ids: "get_id (nw_info (network_start (toy_node_info b 32))) = Ok (U256 (replicate 32 b))" for b
    by (simp add: network_start_def toy_node_info_def get_id_def)
  have two: "U256 (replicate 32 (1 :: u8)) \<noteq> U256 (replicate 32 2)" by (simp add: numeral_eq_Suc)
  then have "name_of demo_server_env two_registered 1 = Some (U256 (replicate 32 1))"
    "index_of demo_server_env two_registered (U256 (replicate 32 2)) = Some 2"
    by (simp_all add: two_registered_def demo_server_env_def fun_bimap_def)
  from peer_setup_reaches_peer [OF demo_env(1) [of "replicate 32 1"] demo_env(1) [of "replicate 32 2"] ids ids two this,
      of Outgoing "PeerOffer ''o''"] show ?thesis unfolding opposite_def direction.case by blast
qed

text \<open>
  What the server passes on names the sender: a message that it sends on behalf of a connection
  goes to the node at the other end of the pair, and the sender is one of the two by the name it
  has on the server.
\<close>

lemma setup_names_sender:
  assumes "ws_peer_setup se i p s = Ok out" and "out \<noteq> []"
  shows "\<exists>a b j tx. name_of se s i = Some a \<and> {id_init p, id_follow p} = {a, b} \<and> index_of se s b = Some j \<and>
    out = [OutWs (WsSend j tx)]"
  using assms by (auto simp: ws_peer_setup_def get_remote_def send_msg_node_def bind_outcome_Ok split: option.splits if_splits)

end
