(* ===== verification/WebRtcConn.thy ===== *)
theory WebRtcConn
  imports NetworkBroker
begin

text \<open>
  The table of the WebRTC connections of a node, \<open>WebRTCConn\<close> of \<open>flarch/src/web_rtc/mod.rs\<close>,
  between the network module and the single connections of \<open>WebRtc\<close>. Every connection is a broker
  of its own; its handle in the table is the identifier of the node. Starting one can fail in the
  WebRTC library, so a message comes with the outcome of a start that it may need; giving a
  message to a running broker does not fail.
\<close>

subsection \<open>The table\<close>

record web_rtc_conn =
  wc_connections :: node_ids

datatype wc_out = ConnNew u256 | ConnIn u256 nc_input

definition web_rtc_conn_new :: web_rtc_conn where
  "web_rtc_conn_new = \<lparr>wc_connections = []\<rparr>"

definition wc_try_send :: "u256 \<Rightarrow> nc_input \<Rightarrow> web_rtc_conn \<Rightarrow> wc_out list" where
  "wc_try_send dst m c = (if dst \<in> set (wc_connections c) then [ConnIn dst m] else [])"

definition ensure_connection :: "bool \<Rightarrow> u256 \<Rightarrow> direction \<Rightarrow> web_rtc_conn \<Rightarrow> web_rtc_conn \<times> wc_out list" where
  "ensure_connection started i dir c =
     (if i \<in> set (wc_connections c) \<or> \<not> started then (c, [])
      else let c1 = c\<lparr>wc_connections := wc_connections c @ [i]\<rparr>
           in (c1, ConnNew i # (if dir = Outgoing then wc_try_send i (NcSetup Outgoing PeerInit) c1 else [])))"

definition wc_message :: "bool \<times> web_rtc_conn_in \<Rightarrow> web_rtc_conn \<Rightarrow> web_rtc_conn \<times> wc_out list" where
  "wc_message m c = (case snd m of
     RtcMessage dst msg_in \<Rightarrow> (c, wc_try_send dst msg_in c)
   | RtcConnDisconnect dst \<Rightarrow> (c, wc_try_send dst NcDisconnect c)
   | RtcConnect dst dir \<Rightarrow> ensure_connection (fst m) dst dir c)"

fun wc_messages :: "(bool \<times> web_rtc_conn_in) list \<Rightarrow> web_rtc_conn \<Rightarrow> web_rtc_conn \<times> wc_out list" where
  "wc_messages [] c = (c, [])"
| "wc_messages (m # ms) c =
     (let (c1, out1) = wc_message m c; (c2, out2) = wc_messages ms c1 in (c2, out1 @ out2))"

text \<open>The translation from the network module to the table, and what one connection gets.\<close>

definition to_web_rtc :: "network_out list \<Rightarrow> web_rtc_conn_in list" where
  "to_web_rtc outs = List.map_filter (\<lambda>m. case m of NetWebRTCOut w \<Rightarrow> Some w | _ \<Rightarrow> None) outs"

definition conn_inputs :: "u256 \<Rightarrow> wc_out list \<Rightarrow> nc_input list" where
  "conn_inputs i outs = List.map_filter (\<lambda>m. case m of ConnIn j x \<Rightarrow> if j = i then Some x else None | _ \<Rightarrow> None) outs"

lemma conn_inputs_simps [simp]:
  "conn_inputs i [] = []"
  "conn_inputs i (ConnNew j # outs) = conn_inputs i outs"
  "conn_inputs i (ConnIn j x # outs) = (if j = i then x # conn_inputs i outs else conn_inputs i outs)"
  "conn_inputs i (xs @ ys) = conn_inputs i xs @ conn_inputs i ys"
  by (simp_all add: conn_inputs_def List.map_filter_simps List.map_filter_def)

lemma to_web_rtc_simps [simp]:
  "to_web_rtc [] = []"
  "to_web_rtc (xs @ ys) = to_web_rtc xs @ to_web_rtc ys"
  "to_web_rtc (m # outs) = (case m of NetWebRTCOut w \<Rightarrow> w # to_web_rtc outs | _ \<Rightarrow> to_web_rtc outs)"
  by (simp_all add: to_web_rtc_def List.map_filter_def split: network_out.splits)

lemma in_conn_inputs: "x \<in> set (conn_inputs i outs) \<longleftrightarrow> ConnIn i x \<in> set outs"
  by (induction outs) (auto split: wc_out.splits simp: conn_inputs_def List.map_filter_def)

subsection \<open>What the table lets through\<close>

lemma wc_message_table:
  "wc_message m c = (c', out) \<Longrightarrow> distinct (wc_connections c) \<Longrightarrow>
     distinct (wc_connections c') \<and> set (wc_connections c) \<subseteq> set (wc_connections c')"
  by (auto simp: wc_message_def ensure_connection_def Let_def split: web_rtc_conn_in.splits if_splits)

text \<open>A message to a node in the table is passed on, in order, and nothing else is sent to it.\<close>

definition addressed :: "u256 \<Rightarrow> web_rtc_conn_in \<Rightarrow> nc_input option" where
  "addressed i m = (case m of RtcMessage j x \<Rightarrow> if j = i then Some x else None
     | RtcConnDisconnect j \<Rightarrow> if j = i then Some NcDisconnect else None | RtcConnect j d \<Rightarrow> None)"

lemma known_message:
  assumes "i \<in> set (wc_connections c)" and "wc_message m c = (c', out)"
  shows "i \<in> set (wc_connections c')" and "conn_inputs i out = List.map_filter (addressed i) [snd m]"
  using assms by (auto simp: wc_message_def wc_try_send_def ensure_connection_def addressed_def Let_def
      List.map_filter_def split: web_rtc_conn_in.splits if_splits)

lemma known_messages:
  assumes "i \<in> set (wc_connections c)" and "wc_messages ms c = (c', out)"
  shows "i \<in> set (wc_connections c') \<and> conn_inputs i out = List.map_filter (addressed i) (map snd ms)"
  using assms
proof (induction ms arbitrary: c out)
  case (Cons m ms)
  obtain c1 o1 where 1: "wc_message m c = (c1, o1)" by fastforce
  obtain o2 where 2: "wc_messages ms c1 = (c', o2)" using Cons.prems(2) 1 by (auto split: prod.splits)
  with Cons.prems(2) 1 have r: "out = o1 @ o2" by auto
  note k = known_message [OF Cons.prems(1) 1]
  from Cons.IH [OF k(1) 2] k(2) r show ?case by (simp add: List.map_filter_def)
qed (simp add: List.map_filter_def)

text \<open>
  A node is dialled at most once. Whatever the network module asks of the table, a connection gets
  the message that starts an outgoing connection once at the very most, namely when it is put
  into the table, beyond what other nodes themselves ask for; and a node that is in the table
  already is never dialled again, also when its connection was closed or lost meanwhile.
\<close>

theorem dialled_at_most_once:
  "count_list (conn_inputs i (snd (wc_messages ms c))) (NcSetup Outgoing PeerInit) \<le>
     count_list (map snd ms) (RtcMessage i (NcSetup Outgoing PeerInit)) + (if i \<in> set (wc_connections c) then 0 else 1)"
proof (induction ms arbitrary: c)
  case (Cons m ms)
  obtain c1 o1 where 1: "wc_message m c = (c1, o1)" by fastforce
  have "count_list (conn_inputs i o1) (NcSetup Outgoing PeerInit) + (if i \<in> set (wc_connections c1) then 0 else 1) \<le>
      (if snd m = RtcMessage i (NcSetup Outgoing PeerInit) then 1 else 0) + (if i \<in> set (wc_connections c) then 0 else 1)"
    using 1 by (auto simp: wc_message_def wc_try_send_def ensure_connection_def Let_def
        split: web_rtc_conn_in.splits if_splits)
  with Cons.IH [of c1] 1 show ?case by (simp add: split_beta Let_def split: if_splits)
qed simp

subsection \<open>A connection that was lost\<close>

text \<open>The requests of the modules above, not the messages of the signalling server or the WebRTC layer.\<close>

definition from_user :: "network_in \<Rightarrow> bool" where
  "from_user m \<longleftrightarrow> (case m of NetWebSocket w \<Rightarrow> False | NetWebRTC w \<Rightarrow> False | _ \<Rightarrow> True)"

definition text_or_close :: "nc_input \<Rightarrow> bool" where
  "text_or_close x \<longleftrightarrow> (case x of NcText s \<Rightarrow> True | NcDisconnect \<Rightarrow> True | _ \<Rightarrow> False)"

definition plain_order :: "network_out \<Rightarrow> bool" where
  "plain_order o1 \<longleftrightarrow> (case o1 of NetWebRTCOut (RtcMessage i x) \<Rightarrow> text_or_close x | _ \<Rightarrow> True)"

lemma assure_plain: "list_all plain_order (snd (assure_connection i d n))"
  by (simp add: assure_connection_def plain_order_def)

lemma user_orders:
  assumes "network_env_ok e" and "network_ok n" and "from_user m"
  shows "\<exists>n' out. network_message e m n = Ok (n', out) \<and> network_ok n' \<and> list_all plain_order out"
proof -
  have "same_version e m" using assms(3) by (auto simp: from_user_def same_version_def split: network_in.splits)
  from network_message_ok [OF assms(1,2) this] obtain n' out where
    run: "network_message e m n = Ok (n', out)" "network_ok n'" by blast
  have "list_all plain_order out"
  proof (cases m)
    case (NetConnect i)
    with run(1) assure_plain [of i Outgoing n] show ?thesis by (simp add: network_message_def msg_call_def)
  next
    case (NetMessageToNode i s)
    with run(1) assure_plain [of i Outgoing n] show ?thesis
      by (auto simp: network_message_def msg_call_def split_beta Let_def plain_order_def text_or_close_def)
  qed (use run(1) assms in \<open>auto simp: network_message_def msg_call_def to_signal_ok net_disconnect_def from_user_def
        plain_order_def text_or_close_def split: if_splits\<close>)
  with run show ?thesis by blast
qed

interpretation user: subsystem "network_message e" "\<lambda>m. network_env_ok e \<and> from_user m" network_ok plain_order for e
proof
  fix n m
  assume "network_ok n" and "network_env_ok e \<and> from_user m"
  with user_orders [of e n m] show "\<exists>s' out. network_message e m n = Ok (s', out) \<and> network_ok s' \<and> list_all plain_order out"
    by blast
qed

lemma plain_inputs:
  "list_all plain_order out \<Longrightarrow> list_all text_or_close (List.map_filter (addressed i) (to_web_rtc out))"
proof (induction out)
  case (Cons x out)
  then show ?case
    by (auto simp: plain_order_def addressed_def List.map_filter_def text_or_close_def
        split: network_out.splits web_rtc_conn_in.splits nc_input.splits)
qed (simp add: List.map_filter_def)

lemma closed_step:
  assumes "packets_written pt" and "\<not> channel_open (state_outgoing nc)" and "\<not> channel_open (state_incoming nc)"
    and "text_or_close (snd x)"
  shows "\<exists>out. nc_message pt x nc = Ok (nc\<lparr>msg_queue := msg_queue nc @ enqueued pt [x]\<rparr>, out) \<and>
    set out \<subseteq> {NcIncomingOut RtcDisconnect, NcOutgoingOut RtcDisconnect}"
proof (cases "snd x")
  case (NcText t)
  obtain ps where ps: "split_msg pt (fst x) t = Ok ps" using split_msg_ok [OF assms(1)] by blast
  have "nc_send d st nc' = (nc', [])" if "\<not> channel_open st" for d st nc'
    using that by (auto simp: nc_send_def channel_open_def split: option.splits)
  with assms(2,3) have "send_queue (nc\<lparr>msg_queue := msg_queue nc @ ps\<rparr>) = (nc\<lparr>msg_queue := msg_queue nc @ ps\<rparr>, [])"
    by (simp add: send_queue_def)
  with NcText ps show ?thesis by (simp add: nc_message_def nc_msg_in_def)
qed (use assms(4) in \<open>simp_all add: nc_message_def nc_msg_in_def text_or_close_def\<close>)

lemma closed_run:
  assumes "packets_written pt" and "\<not> channel_open (state_outgoing nc)" and "\<not> channel_open (state_incoming nc)"
    and "list_all text_or_close (map snd xs)"
  shows "\<exists>out. nc_messages pt xs nc = Ok (nc\<lparr>msg_queue := msg_queue nc @ enqueued pt xs\<rparr>, out) \<and>
    set out \<subseteq> {NcIncomingOut RtcDisconnect, NcOutgoingOut RtcDisconnect}"
  using assms(2-4)
proof (induction xs arbitrary: nc)
  case (Cons x xs)
  let ?nc = "nc\<lparr>msg_queue := msg_queue nc @ enqueued pt [x]\<rparr>"
  have "text_or_close (snd x)" using Cons.prems(3) by simp
  from closed_step [OF assms(1) Cons.prems(1,2) this] obtain out1 where 1:
    "nc_message pt x nc = Ok (?nc, out1)" "set out1 \<subseteq> {NcIncomingOut RtcDisconnect, NcOutgoingOut RtcDisconnect}" by blast
  have "\<not> channel_open (state_outgoing ?nc)" "\<not> channel_open (state_incoming ?nc)" using Cons.prems by simp_all
  from Cons.IH [OF this] Cons.prems(3) obtain out2 where 2:
    "nc_messages pt xs ?nc = Ok (?nc\<lparr>msg_queue := msg_queue ?nc @ enqueued pt xs\<rparr>, out2)"
    "set out2 \<subseteq> {NcIncomingOut RtcDisconnect, NcOutgoingOut RtcDisconnect}" by auto
  from 1 2 show ?case by simp
qed simp

text \<open>A channel opens only when the WebRTC layer says so.\<close>

definition reports_open :: "nc_input \<Rightarrow> bool" where
  "reports_open x \<longleftrightarrow> (\<exists>w. (x = NcIncoming w \<or> x = NcOutgoing w) \<and>
     (w = OnConnected \<or> (\<exists>st. w = OnState st \<and> channel_open (Some st))))"

lemma send_queue_states:
  "send_queue nc = (nc', out) \<Longrightarrow> state_outgoing nc' = state_outgoing nc \<and> state_incoming nc' = state_incoming nc"
  by (auto simp: send_queue_def nc_send_def Let_def split: option.splits if_splits)

lemma set_state_states:
  "state_outgoing (set_state d st nc) = (if d = Outgoing then st else state_outgoing nc)"
  "state_incoming (set_state d st nc) = (if d = Incoming then st else state_incoming nc)"
  by (simp_all add: set_state_def split: direction.splits)

lemma msg_conn_opens:
  assumes "msg_conn pt d w nc = (nc', out)" and "\<not> channel_open (state_outgoing nc)" "\<not> channel_open (state_incoming nc)"
    and "channel_open (state_outgoing nc') \<or> channel_open (state_incoming nc')"
  shows "w = OnConnected \<or> (\<exists>st. w = OnState st \<and> channel_open (Some st))"
proof (cases w)
  case (OnState st)
  with assms show ?thesis by (auto simp: msg_conn_def set_state_states split: if_splits)
qed (use assms in \<open>auto simp: msg_conn_def set_state_states channel_open_def split: if_splits prod.splits\<close>)

lemma nc_message_opens:
  assumes "nc_message pt x nc = Ok (nc', out)" and "\<not> channel_open (state_outgoing nc)" "\<not> channel_open (state_incoming nc)"
    and "channel_open (state_outgoing nc') \<or> channel_open (state_incoming nc')"
  shows "reports_open (snd x)"
proof (cases "snd x")
  case (NcIncoming w)
  with assms msg_conn_opens [of pt Incoming w nc nc' out] show ?thesis by (auto simp: nc_message_def reports_open_def)
next
  case (NcOutgoing w)
  with assms msg_conn_opens [of pt Outgoing w nc nc' out] show ?thesis by (auto simp: nc_message_def reports_open_def)
next
  case (NcText t)
  with assms(1) obtain ps where "send_queue (nc\<lparr>msg_queue := msg_queue nc @ ps\<rparr>) = (nc', out)"
    by (auto simp: nc_message_def nc_msg_in_def bind_outcome_Ok)
  from send_queue_states [OF this] assms show ?thesis by simp
qed (use assms in \<open>auto simp: nc_message_def nc_msg_in_def channel_open_def connection_state_default_def
      split: direction.splits if_splits\<close>)

text \<open>
  C35. A connection that was lost stays lost as far as this node goes. Take a node that is in the table
  and whose channels are closed: whatever the modules above ask for, connecting, disconnecting
  or sending messages in any order, the WebRTC layer of the connection is told nothing except to
  close it; the texts pile up in the queue of the connection, and no channel opens. The next input
  that opens a channel is a report of the WebRTC layer itself, that the channel is connected or
  that its state is open; no request of this node is one.
\<close>

theorem lost_connection_stays_lost:
  assumes "packets_written pt" and "network_env_ok e" and "network_ok n" and "\<forall>m \<in> set ms. from_user m"
    and "network_messages e ms n = Ok (n', out)"
    and "i \<in> set (wc_connections c)" and "map snd ws = to_web_rtc out"
    and "\<not> channel_open (state_outgoing nc)" and "\<not> channel_open (state_incoming nc)"
    and "map snd xs = conn_inputs i (snd (wc_messages ws c))"
  shows "\<exists>res. nc_messages pt xs nc = Ok (nc\<lparr>msg_queue := msg_queue nc @ enqueued pt xs\<rparr>, res) \<and>
    set res \<subseteq> {NcIncomingOut RtcDisconnect, NcOutgoingOut RtcDisconnect} \<and>
    (\<forall>y nc' res'. nc_message pt y (nc\<lparr>msg_queue := msg_queue nc @ enqueued pt xs\<rparr>) = Ok (nc', res') \<and>
       (channel_open (state_outgoing nc') \<or> channel_open (state_incoming nc')) \<longrightarrow> reports_open (snd y))"
proof -
  have "list_all plain_order out"
    using user.outputs [of n e ms n' out] assms(2-5) by (simp add: network_messages_all list_all_iff)
  moreover obtain c' co where co: "wc_messages ws c = (c', co)" by fastforce
  ultimately have "list_all text_or_close (map snd xs)"
    using known_messages [OF assms(6) co] plain_inputs [of out i] assms(7,10) by simp
  from closed_run [OF assms(1,8,9) this] obtain res where
    "nc_messages pt xs nc = Ok (nc\<lparr>msg_queue := msg_queue nc @ enqueued pt xs\<rparr>, res)"
    "set res \<subseteq> {NcIncomingOut RtcDisconnect, NcOutgoingOut RtcDisconnect}" by blast
  moreover have "reports_open (snd y)"
    if "nc_message pt y (nc\<lparr>msg_queue := msg_queue nc @ enqueued pt xs\<rparr>) = Ok (nc', res')"
      "channel_open (state_outgoing nc') \<or> channel_open (state_incoming nc')" for y nc' res'
    using nc_message_opens [OF that(1) _ _ that(2)] assms(8,9) by simp
  ultimately show ?thesis by blast
qed

definition lonely :: network where
  "lonely = (network_start (toy_node_info 1 32))\<lparr>connections := [u256_zero], nw_published := [u256_zero]\<rparr>"

theorem lost_connection_stays_lost_witness:
  "\<exists>n out xs res. network_messages toy_network_env [NetDisconnect u256_zero, NetConnect u256_zero, NetMessageToNode u256_zero ''hello''] lonely = Ok (n, out) \<and>
    to_web_rtc out = [RtcMessage u256_zero NcDisconnect, RtcConnect u256_zero Outgoing, RtcMessage u256_zero (NcText ''hello'')] \<and>
    map snd xs = [NcDisconnect, NcText ''hello''] \<and>
    (\<exists>nc. nc_messages simple_packets xs node_connection_new = Ok (nc, res) \<and> msg_queue nc \<noteq> []) \<and>
    set res \<subseteq> {NcIncomingOut RtcDisconnect, NcOutgoingOut RtcDisconnect}"
proof -
  let ?ms = "[NetDisconnect u256_zero, NetConnect u256_zero, NetMessageToNode u256_zero ''hello'']"
  let ?c = "\<lparr>wc_connections = [u256_zero]\<rparr>"
  let ?ws = "[(True, RtcMessage u256_zero NcDisconnect), (True, RtcConnect u256_zero Outgoing),
      (True, RtcMessage u256_zero (NcText ''hello''))]"
  let ?xs = "[(u256_zero, NcDisconnect), (u256_zero, NcText ''hello'')]"
  have n: "network_ok lonely"
    using toy_network_start_ok by (simp add: lonely_def network_ok_def)
  obtain n' out where out: "network_messages toy_network_env ?ms lonely = Ok (n', out)"
    "to_web_rtc out = map snd ?ws"
    by (simp add: network_message_def msg_call_def net_disconnect_def assure_connection_def send_connections_def lonely_def)
  have "map snd ?xs = conn_inputs u256_zero (snd (wc_messages ?ws ?c))"
    by (simp add: wc_message_def wc_try_send_def ensure_connection_def)
  from lost_connection_stays_lost [OF simple_packets_ok(1) toy_network_env_ok n _ out(1) _ out(2) [symmetric] _ _ this, of node_connection_new]
  obtain res where "nc_messages simple_packets ?xs node_connection_new =
      Ok (node_connection_new\<lparr>msg_queue := msg_queue node_connection_new @ enqueued simple_packets ?xs\<rparr>, res)"
    "set res \<subseteq> {NcIncomingOut RtcDisconnect, NcOutgoingOut RtcDisconnect}"
    by (auto simp: from_user_def node_connection_new_def channel_open_def)
  moreover have "enqueued simple_packets ?xs \<noteq> []"
    by (simp add: split_msg_def utf8_len_def webrtc_max_size_def simple_packets_def expect_def)
  ultimately show ?thesis using out by (intro exI [of _ n'] exI [of _ out] exI [of _ ?xs]) auto
qed

end
