(* ===== verification/Broker.thy ===== *)
theory Broker
  imports Subsystem NodeIds
begin

text \<open>
  The broker, \<open>flarch/src/broker.rs\<close>: the actor that every module of a node is plugged into. A
  broker owns taps, handlers and translators; it takes one message after the other from its
  channel, shows it to the taps, gives it to the handlers, and sends its translations to other
  brokers. The second half is a system of brokers that are linked by translators.

  All brokers of a system have the same types of messages here, which stand for the union of
  the types in the program. What a handler does is the parameter \<open>messages\<close>. The order of the
  subsystems in their hash map is arbitrary. \<open>settle\<close>, which waits for other brokers, and logging are
  left out.
\<close>

subsection \<open>Subsystems\<close>

datatype destination = ToAll | NoTap | Forwarded "u256 list" | Handled nat

record ('i, 'o) translator =
  tr_broker :: u256
  tr_i_ti :: "('i \<Rightarrow> 'i option) option"
  tr_i_to :: "('i \<Rightarrow> 'o option) option"
  tr_o_ti :: "('o \<Rightarrow> 'i option) option"
  tr_o_to :: "('o \<Rightarrow> 'o option) option"

text \<open>A tap is what its channel holds, and whether somebody still listens at the other end.\<close>

datatype ('s, 'i, 'o) subsys =
    TapIn "'i list" bool | TapOut "'o list" bool | TapSyncIn "'i list" bool | TapSyncOut "'o list" bool
  | Handler 's | Translator "('i, 'o) translator"

datatype ('s, 'i, 'o) subsystem_action = AddSubsystem nat "('s, 'i, 'o) subsys" | RemoveSubsystem nat

datatype ('s, 'i, 'o) intern_message =
    SubsystemMsg "('s, 'i, 'o) subsystem_action" | MessageIn destination 'i | MessageOut destination 'o
  | Cloned | Dropped

record ('s, 'i, 'o) intern =
  subsystems :: "(nat, ('s, 'i, 'o) subsys) hashmap"
  msg_queue_in :: "(destination \<times> 'i) list"
  msg_queue_out :: "(destination \<times> 'o) list"
  br_id :: u256
  copies :: nat

definition intern_new :: "u256 \<Rightarrow> ('s, 'i, 'o) intern" where
  "intern_new i = \<lparr>subsystems = [], msg_queue_in = [], msg_queue_out = [], br_id = i, copies = 1\<rparr>"

type_synonym ('s, 'i, 'o) emitted = "(u256 \<times> ('s, 'i, 'o) intern_message) list"

subsection \<open>One round\<close>

definition apply_opt :: "('a \<Rightarrow> 'b option) option \<Rightarrow> 'a \<Rightarrow> 'b option" where
  "apply_opt f x = Option.bind f (\<lambda>g. g x)"

definition emit_ti_to :: "('i, 'o) translator \<Rightarrow> u256 list \<Rightarrow> 'i option \<Rightarrow> 'o option \<Rightarrow> ('s, 'i, 'o) emitted" where
  "emit_ti_to tr trail msg_ti msg_to =
     (case msg_ti of Some m \<Rightarrow> [(tr_broker tr, MessageIn (Forwarded trail) m)] | None \<Rightarrow> []) @
     (case msg_to of Some m \<Rightarrow> [(tr_broker tr, MessageOut (Forwarded trail) m)] | None \<Rightarrow> [])"

definition translate_input :: "u256 list \<Rightarrow> 'i \<Rightarrow> ('i, 'o) translator \<Rightarrow> ('s, 'i, 'o) emitted" where
  "translate_input trail m tr = emit_ti_to tr trail (apply_opt (tr_i_ti tr) m) (apply_opt (tr_i_to tr) m)"

definition translate_output :: "u256 list \<Rightarrow> 'o \<Rightarrow> ('i, 'o) translator \<Rightarrow> ('s, 'i, 'o) emitted" where
  "translate_output trail m tr = emit_ti_to tr trail (apply_opt (tr_o_ti tr) m) (apply_opt (tr_o_to tr) m)"

definition trail_of :: "destination \<Rightarrow> u256 list" where
  "trail_of dst = (case dst of Forwarded t \<Rightarrow> t | _ \<Rightarrow> [])"

definition translators :: "('s, 'i, 'o) intern \<Rightarrow> ('i, 'o) translator list" where
  "translators b = List.map_filter (\<lambda>(_, ss). case ss of Translator tr \<Rightarrow> Some tr | _ \<Rightarrow> None) (subsystems b)"

definition process_translate_out :: "('s, 'i, 'o) intern \<Rightarrow> ('s, 'i, 'o) emitted" where
  "process_translate_out b = concat (map (\<lambda>(dst, m).
     if br_id b \<in> set (trail_of dst) then []
     else concat (map (translate_output (trail_of dst @ [br_id b]) m) (translators b))) (msg_queue_out b))"

definition process_translate_in :: "('s, 'i, 'o) intern \<Rightarrow> ('s, 'i, 'o) emitted" where
  "process_translate_in b = concat (map (\<lambda>(dst, m).
     if br_id b \<in> set (trail_of dst) then []
     else concat (map (translate_input (trail_of dst @ [br_id b]) m) (translators b))) (msg_queue_in b))"

text \<open>Giving messages to a tap fails if there are some and nobody listens.\<close>

definition ss_tap_out :: "'o list \<Rightarrow> ('s, 'i, 'o) subsys \<Rightarrow> ('s, 'i, 'o) subsys \<times> bool" where
  "ss_tap_out ms ss = (case ss of
     TapSyncOut q open \<Rightarrow> if open \<or> ms = [] then (TapSyncOut (q @ ms) open, True) else (ss, False)
   | TapOut q open \<Rightarrow> if open \<or> ms = [] then (TapOut (q @ ms) open, True) else (ss, False)
   | _ \<Rightarrow> (ss, True))"

definition ss_tap_in :: "'i list \<Rightarrow> ('s, 'i, 'o) subsys \<Rightarrow> ('s, 'i, 'o) subsys \<times> bool" where
  "ss_tap_in ms ss = (case ss of
     TapSyncIn q open \<Rightarrow> if open \<or> ms = [] then (TapSyncIn (q @ ms) open, True) else (ss, False)
   | TapIn q open \<Rightarrow> if open \<or> ms = [] then (TapIn (q @ ms) open, True) else (ss, False)
   | _ \<Rightarrow> (ss, True))"

definition not_taboo :: "(destination \<times> 'm) list \<Rightarrow> 'm list" where
  "not_taboo q = map snd (filter (\<lambda>(dst, _). dst \<noteq> NoTap) q)"

definition send_tap_out :: "('s, 'i, 'o) intern \<Rightarrow> ('s, 'i, 'o) intern \<times> nat list" where
  "send_tap_out b =
     (let ms = not_taboo (msg_queue_out b)
      in (b\<lparr>subsystems := map (\<lambda>(k, ss). (k, fst (ss_tap_out ms ss))) (subsystems b)\<rparr>,
          map fst (filter (\<lambda>(k, ss). \<not> snd (ss_tap_out ms ss)) (subsystems b))))"

definition send_tap_in :: "('s, 'i, 'o) intern \<Rightarrow> ('s, 'i, 'o) intern \<times> nat list" where
  "send_tap_in b =
     (let ms = not_taboo (msg_queue_in b)
      in (b\<lparr>subsystems := map (\<lambda>(k, ss). (k, fst (ss_tap_in ms ss))) (subsystems b)\<rparr>,
          map fst (filter (\<lambda>(k, ss). \<not> snd (ss_tap_in ms ss)) (subsystems b))))"

text \<open>A handler gets the messages that are not marked as its own, and its answers are marked as such.\<close>

definition not_own :: "nat \<Rightarrow> (destination \<times> 'i) list \<Rightarrow> 'i list" where
  "not_own k q = map snd (filter (\<lambda>(dst, _). dst \<noteq> Handled k) q)"

definition ss_handle ::
  "('s \<Rightarrow> 'i list \<Rightarrow> 's \<times> 'o list) \<Rightarrow> (destination \<times> 'i) list \<Rightarrow> nat \<times> ('s, 'i, 'o) subsys \<Rightarrow>
     (nat \<times> ('s, 'i, 'o) subsys) \<times> (destination \<times> 'o) list" where
  "ss_handle messages q x = (case x of
     (k, Handler s) \<Rightarrow> (let (s', out) = messages s (not_own k q) in ((k, Handler s'), map (\<lambda>m. (Handled k, m)) out))
   | _ \<Rightarrow> (x, []))"

definition process_handle_messages ::
  "('s \<Rightarrow> 'i list \<Rightarrow> 's \<times> 'o list) \<Rightarrow> ('s, 'i, 'o) intern \<Rightarrow> ('s, 'i, 'o) intern" where
  "process_handle_messages messages b =
     (if msg_queue_in b = [] then b
      else b\<lparr>subsystems := map (\<lambda>x. fst (ss_handle messages (msg_queue_in b) x)) (subsystems b),
             msg_queue_out := msg_queue_out b @ concat (map (\<lambda>x. snd (ss_handle messages (msg_queue_in b) x)) (subsystems b))\<rparr>)"

fun do_subsystem_action :: "('s, 'i, 'o) subsystem_action \<Rightarrow> ('s, 'i, 'o) intern \<Rightarrow> ('s, 'i, 'o) intern" where
  "do_subsystem_action (AddSubsystem k ss) b = b\<lparr>subsystems := AList.update k ss (subsystems b)\<rparr>"
| "do_subsystem_action (RemoveSubsystem k) b = b\<lparr>subsystems := AList.delete k (subsystems b)\<rparr>"

definition process_once ::
  "('s \<Rightarrow> 'i list \<Rightarrow> 's \<times> 'o list) \<Rightarrow> ('s, 'i, 'o) intern \<Rightarrow> ('s, 'i, 'o) intern \<times> ('s, 'i, 'o) emitted" where
  "process_once messages b =
     (let emitted = process_translate_out b @ process_translate_in b;
          (b1, e1) = send_tap_out b;
          (b2, e2) = send_tap_in b1;
          b3 = process_handle_messages messages (b2\<lparr>msg_queue_out := []\<rparr>);
          b4 = b3\<lparr>msg_queue_in := []\<rparr>
      in (fold (\<lambda>k. do_subsystem_action (RemoveSubsystem k)) (rev (e1 @ e2)) b4, emitted))"

lemma remove_frame:
  "msg_queue_in (fold (\<lambda>k. do_subsystem_action (RemoveSubsystem k)) ks b) = msg_queue_in b"
  "msg_queue_out (fold (\<lambda>k. do_subsystem_action (RemoveSubsystem k)) ks b) = msg_queue_out b"
  "br_id (fold (\<lambda>k. do_subsystem_action (RemoveSubsystem k)) ks b) = br_id b"
  "copies (fold (\<lambda>k. do_subsystem_action (RemoveSubsystem k)) ks b) = copies b"
  by (induction ks arbitrary: b) simp_all

lemma process_once_queues:
  "msg_queue_in (fst (process_once messages b)) = []"
  "msg_queue_in b = [] \<Longrightarrow> msg_queue_out (fst (process_once messages b)) = []"
  "br_id (fst (process_once messages b)) = br_id b"
  "copies (fst (process_once messages b)) = copies b"
  by (simp_all add: process_once_def send_tap_out_def send_tap_in_def process_handle_messages_def Let_def remove_frame)

lemma process_once_emitted: "snd (process_once messages b) = process_translate_out b @ process_translate_in b"
  by (simp add: process_once_def split_beta Let_def)

subsection \<open>The loop\<close>

text \<open>
  Rounds are done until both queues are empty. Handlers only answer with output messages, so the
  second round has no more input and is the last one.
\<close>

function process ::
  "('s \<Rightarrow> 'i list \<Rightarrow> 's \<times> 'o list) \<Rightarrow> ('s, 'i, 'o) intern \<Rightarrow> ('s, 'i, 'o) intern \<times> ('s, 'i, 'o) emitted \<times> nat" where
  "process messages b =
     (let count = length (msg_queue_in b) + length (msg_queue_out b);
          (b1, e1) = process_once messages b
      in if msg_queue_in b1 = [] \<and> msg_queue_out b1 = [] then (b1, e1, count)
         else let (b2, e2, n) = process messages b1 in (b2, e1 @ e2, count + n))"
  by pat_completeness auto
termination
proof (relation "measure (\<lambda>(_, b). (if msg_queue_in b \<noteq> [] then 2 else 0) + (if msg_queue_out b \<noteq> [] then 1 else (0 :: nat)))")
  fix messages :: "'s \<Rightarrow> 'i list \<Rightarrow> 's \<times> 'o list" and b count x b1 e1
  assume "x = process_once messages b" "(b1, e1) = x" "\<not> (msg_queue_in b1 = [] \<and> msg_queue_out b1 = [])"
  then have b1: "b1 = fst (process_once messages b)" "msg_queue_out b1 \<noteq> []"
    using process_once_queues(1) [of messages b] by (metis fst_conv)+
  then have "msg_queue_in b \<noteq> []" using process_once_queues(2) [of b messages] by auto
  with b1 process_once_queues(1) [of messages b]
  show "((messages, b1), (messages, b)) \<in> measure (\<lambda>(_, b). (if msg_queue_in b \<noteq> [] then 2 else 0) + (if msg_queue_out b \<noteq> [] then 1 else (0 :: nat)))"
    by simp
qed simp

declare process.simps [simp del]

text \<open>
  One turn of the main loop: a message is taken from the channel, and what it left in the queues
  is processed. The result says whether the broker goes on.
\<close>

definition get_msg :: "('s, 'i, 'o) intern_message \<Rightarrow> ('s, 'i, 'o) intern \<Rightarrow> ('s, 'i, 'o) intern \<times> bool" where
  "get_msg m b = (case m of
     SubsystemMsg a \<Rightarrow> (do_subsystem_action a b, True)
   | MessageIn dst x \<Rightarrow> (b\<lparr>msg_queue_in := msg_queue_in b @ [(dst, x)]\<rparr>, True)
   | MessageOut dst x \<Rightarrow> (b\<lparr>msg_queue_out := msg_queue_out b @ [(dst, x)]\<rparr>, True)
   | Dropped \<Rightarrow> if copies b - 1 = 0 then (b\<lparr>copies := copies b - 1, subsystems := []\<rparr>, False)
                else (b\<lparr>copies := copies b - 1\<rparr>, True)
   | Cloned \<Rightarrow> (b\<lparr>copies := copies b + 1\<rparr>, True))"

definition broker_turn ::
  "('s \<Rightarrow> 'i list \<Rightarrow> 's \<times> 'o list) \<Rightarrow> ('s, 'i, 'o) intern_message \<Rightarrow> ('s, 'i, 'o) intern \<Rightarrow>
     ('s, 'i, 'o) intern \<times> ('s, 'i, 'o) emitted \<times> bool" where
  "broker_turn messages m b =
     (case get_msg m b of (b1, goes_on) \<Rightarrow>
        if \<not> goes_on then (b1, [], False)
        else if msg_queue_in b1 = [] \<and> msg_queue_out b1 = [] then (b1, [], True)
        else (case process messages b1 of (b2, emitted, _) \<Rightarrow> (b2, emitted, True)))"

subsection \<open>A round, entry by entry\<close>

text \<open>What a round makes of one subsystem; nothing, if it is a tap that is found closed.\<close>

definition ss_round ::
  "('s \<Rightarrow> 'i list \<Rightarrow> 's \<times> 'o list) \<Rightarrow> (destination \<times> 'i) list \<Rightarrow> (destination \<times> 'o) list \<Rightarrow> nat \<Rightarrow>
     ('s, 'i, 'o) subsys \<Rightarrow> ('s, 'i, 'o) subsys option" where
  "ss_round messages qi qo k ss = (case ss of
     TapIn q open \<Rightarrow> if open \<or> not_taboo qi = [] then Some (TapIn (q @ not_taboo qi) open) else None
   | TapSyncIn q open \<Rightarrow> if open \<or> not_taboo qi = [] then Some (TapSyncIn (q @ not_taboo qi) open) else None
   | TapOut q open \<Rightarrow> if open \<or> not_taboo qo = [] then Some (TapOut (q @ not_taboo qo) open) else None
   | TapSyncOut q open \<Rightarrow> if open \<or> not_taboo qo = [] then Some (TapSyncOut (q @ not_taboo qo) open) else None
   | Handler s \<Rightarrow> Some (Handler (if qi = [] then s else fst (messages s (not_own k qi))))
   | Translator tr \<Rightarrow> Some (Translator tr))"

definition entries :: "(nat \<Rightarrow> 'a \<Rightarrow> 'a option) \<Rightarrow> (nat, 'a) hashmap \<Rightarrow> (nat, 'a) hashmap" where
  "entries f m = List.map_filter (\<lambda>(k, v). map_option (Pair k) (f k v)) m"

lemma entries_simps [simp]:
  "entries f [] = []"
  "entries f ((k, v) # m) = (case f k v of Some w \<Rightarrow> (k, w) # entries f m | None \<Rightarrow> entries f m)"
  by (simp_all add: entries_def List.map_filter_def split: option.splits)

lemma keys_entries: "k \<in> fst ` set (entries f m) \<Longrightarrow> k \<in> fst ` set m"
proof (induction m)
  case (Cons p m)
  then show ?case by (cases p; cases "f (fst p) (snd p)") (simp_all, blast+)
qed simp

lemma entries_ok [simp]: "hm_ok m \<Longrightarrow> hm_ok (entries f m)"
proof (induction m)
  case (Cons p m)
  obtain k v where p: "p = (k, v)" by (cases p)
  then have "k \<notin> fst ` set (entries f m)" using Cons.prems keys_entries [of k f m] by auto
  with p Cons show ?case by (auto split: option.splits)
qed simp

lemma map_of_entries: "hm_ok m \<Longrightarrow> map_of (entries f m) k = Option.bind (map_of m k) (f k)"
proof (induction m)
  case (Cons p m)
  obtain j v where p: "p = (j, v)" by (cases p)
  then have "map_of m j = None" using Cons.prems by (simp add: map_of_eq_None_iff)
  with p Cons show ?case by (auto split: option.splits)
qed simp

lemma entries_cong: "(\<And>k v. (k, v) \<in> set m \<Longrightarrow> f k v = g k v) \<Longrightarrow> entries f m = entries g m"
proof (induction m)
  case (Cons p m)
  obtain k v where p: "p = (k, v)" by (cases p)
  then have "f k v = g k v" "entries f m = entries g m" using Cons by simp_all
  with p show ?case by (simp split: option.split)
qed simp

lemma entries_entries: "entries g (entries f m) = entries (\<lambda>k v. Option.bind (f k v) (g k)) m"
  by (induction m) (auto split: option.splits)

lemma filter_map_entries: "filter (\<lambda>p. fst p \<notin> K) (map (\<lambda>(k, v). (k, f k v)) m) =
    entries (\<lambda>k v. if k \<in> K then None else Some (f k v)) m"
  by (induction m) auto

lemma removed: "subsystems (fold (\<lambda>k. do_subsystem_action (RemoveSubsystem k)) ks b) = filter (\<lambda>p. fst p \<notin> set ks) (subsystems b)"
proof (induction ks arbitrary: b)
  case (Cons k ks)
  show ?case unfolding fold_Cons comp_def Cons.IH
    by (auto simp: AList.delete_eq intro!: filter_cong)
qed simp

lemma key_of_entry:
  assumes "hm_ok m" and "(k, v) \<in> set m"
  shows "k \<in> fst ` set (filter (\<lambda>(j, w). P w) m) \<longleftrightarrow> P v"
proof
  assume "k \<in> fst ` set (filter (\<lambda>(j, w). P w) m)"
  then obtain w where "(k, w) \<in> set m" "P w" by auto
  with eq_key_imp_eq_value [OF assms this(1)] show "P v" by simp
next
  assume "P v"
  with assms(2) have "(k, v) \<in> set (filter (\<lambda>(j, w). P w) m)" by simp
  from imageI [OF this, of fst] show "k \<in> fst ` set (filter (\<lambda>(j, w). P w) m)" by simp
qed

lemma process_once_entries:
  assumes "hm_ok (subsystems b)"
  shows "subsystems (fst (process_once messages b)) =
    entries (ss_round messages (msg_queue_in b) (msg_queue_out b)) (subsystems b)"
proof -
  let ?qi = "msg_queue_in b" and ?qo = "msg_queue_out b" and ?m = "subsystems b"
  let ?o = "\<lambda>ss. ss_tap_out (not_taboo ?qo) ss" and ?i = "\<lambda>ss. ss_tap_in (not_taboo ?qi) ss"
  let ?F = "\<lambda>k ss. if ?qi = [] then fst (?i (fst (?o ss))) else snd (fst (ss_handle messages ?qi (k, fst (?i (fst (?o ss))))))"
  define K where "K = fst ` set (filter (\<lambda>(k, ss). \<not> snd (?o ss)) ?m) \<union> fst ` set (filter (\<lambda>(k, ss). \<not> snd (?i (fst (?o ss)))) ?m)"
  have key: "fst (fst (ss_handle messages ?qi x)) = fst x" for x
    by (cases x) (simp add: ss_handle_def split_beta split: subsys.splits)
  obtain b1 e1 where t1: "send_tap_out b = (b1, e1)" by fastforce
  then have b1: "subsystems b1 = map (\<lambda>(k, ss). (k, fst (?o ss))) ?m" "msg_queue_in b1 = ?qi"
    "e1 = map fst (filter (\<lambda>(k, ss). \<not> snd (?o ss)) ?m)"
    by (auto simp: send_tap_out_def Let_def)
  obtain b2 e2 where t2: "send_tap_in b1 = (b2, e2)" by fastforce
  then have b2: "subsystems b2 = map (\<lambda>(k, ss). (k, fst (?i ss))) (subsystems b1)" "msg_queue_in b2 = ?qi"
    "e2 = map fst (filter (\<lambda>(k, ss). \<not> snd (?i ss)) (subsystems b1))"
    using b1(2) by (auto simp: send_tap_in_def Let_def)
  have e2: "set e2 = fst ` set (filter (\<lambda>(k, ss). \<not> snd (?i (fst (?o ss)))) ?m)"
    unfolding b2(3) b1(1) by (simp add: filter_map comp_def split_beta image_image)
  have "map (\<lambda>x. fst (ss_handle messages ?qi x)) (map (\<lambda>(k, ss). (k, fst (?i ss))) (map (\<lambda>(k, ss). (k, fst (?o ss))) ?m)) =
      map (\<lambda>(k, ss). (k, snd (fst (ss_handle messages ?qi (k, fst (?i (fst (?o ss)))))))) ?m"
    unfolding map_map by (intro map_cong refl) (auto intro: prod_eqI simp: key)
  then have "subsystems (process_handle_messages messages (b2\<lparr>msg_queue_out := []\<rparr>)) = map (\<lambda>(k, ss). (k, ?F k ss)) ?m"
    by (simp add: process_handle_messages_def b2(1,2) b1(1) split_beta comp_def)
  then have "subsystems (fst (process_once messages b)) = filter (\<lambda>p. fst p \<notin> K) (map (\<lambda>(k, ss). (k, ?F k ss)) ?m)"
    unfolding process_once_def t1 Let_def prod.case t2 fst_conv removed K_def set_rev set_append b1(3) set_map e2 by simp
  also have "\<dots> = entries (\<lambda>k ss. if k \<in> K then None else Some (?F k ss)) ?m" by (rule filter_map_entries)
  also have "\<dots> = entries (ss_round messages ?qi ?qo) ?m"
  proof (rule entries_cong)
    fix k ss
    assume m: "(k, ss) \<in> set ?m"
    have "k \<in> K \<longleftrightarrow> \<not> snd (?o ss) \<or> \<not> snd (?i (fst (?o ss)))"
      unfolding K_def using key_of_entry [OF assms m] by (simp add: image_Un)
    then show "(if k \<in> K then None else Some (?F k ss)) = ss_round messages ?qi ?qo k ss"
      by (cases ss) (simp_all add: ss_round_def ss_tap_out_def ss_tap_in_def ss_handle_def split_beta)
  qed
  finally show ?thesis .
qed

subsection \<open>A turn\<close>

definition answers ::
  "('s \<Rightarrow> 'i list \<Rightarrow> 's \<times> 'o list) \<Rightarrow> (destination \<times> 'i) list \<Rightarrow> (nat, ('s, 'i, 'o) subsys) hashmap \<Rightarrow> (destination \<times> 'o) list" where
  "answers messages qi m = concat (map (\<lambda>(k, ss). case ss of
     Handler s \<Rightarrow> map (Pair (Handled k)) (snd (messages s (not_own k qi))) | _ \<Rightarrow> []) m)"

definition idle :: "('s, 'i, 'o) intern \<Rightarrow> bool" where
  "idle b \<longleftrightarrow> msg_queue_in b = [] \<and> msg_queue_out b = []"

lemma round_nothing [simp]: "ss_round messages [] [] k ss = Some ss"
  by (cases ss) (simp_all add: ss_round_def not_taboo_def)

lemma entries_Some [simp]: "entries (\<lambda>k. Some) m = m"
  by (induction m) auto

lemma process_once_out:
  assumes "msg_queue_in b \<noteq> []"
  shows "msg_queue_out (fst (process_once messages b)) = answers messages (msg_queue_in b) (subsystems b)"
proof -
  have tap: "snd (ss_handle messages q (k, fst (ss_tap_in ms' (fst (ss_tap_out ms ss))))) =
      (case ss of Handler s \<Rightarrow> map (Pair (Handled k)) (snd (messages s (not_own k q))) | _ \<Rightarrow> [])" for q k ms ms' ss
    by (cases ss) (simp_all add: ss_handle_def ss_tap_in_def ss_tap_out_def split_beta)
  show ?thesis using assms
    by (simp add: process_once_def send_tap_out_def send_tap_in_def process_handle_messages_def Let_def remove_frame
        answers_def comp_def case_prod_unfold tap)
qed

lemma translators_round:
  assumes "\<And>k tr. f k (Translator tr) = Some (Translator tr)"
    and "\<And>k ss tr. f k ss = Some (Translator tr) \<Longrightarrow> ss = Translator tr"
    and "subsystems b' = entries f (subsystems b)"
  shows "translators b' = translators b"
proof -
  have "List.map_filter (\<lambda>(_, ss). case ss of Translator tr \<Rightarrow> Some tr | _ \<Rightarrow> None) (entries f m) =
      List.map_filter (\<lambda>(_, ss). case ss of Translator tr \<Rightarrow> Some tr | _ \<Rightarrow> None) m" for m
  proof (induction m)
    case (Cons p m)
    obtain k ss where p: "p = (k, ss)" by (cases p)
    show ?case
    proof (cases "f k ss")
      case None
      then have "\<forall>tr. ss \<noteq> Translator tr" using assms(1) by force
      with None p Cons show ?thesis by (cases ss) (simp_all add: List.map_filter_def)
    next
      case (Some w)
      with assms(1,2) [of k] have "w = Translator tr \<longleftrightarrow> ss = Translator tr" for tr by auto
      with Some p Cons show ?thesis by (cases ss; cases w) (simp_all add: List.map_filter_def)
    qed
  qed (simp add: List.map_filter_def)
  then show ?thesis by (simp add: translators_def assms(3))
qed

lemma round_translator: "ss_round messages qi qo k (Translator tr) = Some (Translator tr)"
  "ss_round messages qi qo k ss = Some (Translator tr) \<Longrightarrow> ss = Translator tr"
  by (auto simp: ss_round_def split: subsys.splits if_splits)

text \<open>What a message that comes in makes of one subsystem, and what leaves the broker.\<close>

definition after_in ::
  "('s \<Rightarrow> 'i list \<Rightarrow> 's \<times> 'o list) \<Rightarrow> destination \<Rightarrow> 'i \<Rightarrow> 'o list \<Rightarrow> nat \<Rightarrow> ('s, 'i, 'o) subsys \<Rightarrow> ('s, 'i, 'o) subsys option" where
  "after_in messages dst x ans k ss = (case ss of
     TapIn q open \<Rightarrow> if dst = NoTap then Some ss else if open then Some (TapIn (q @ [x]) open) else None
   | TapSyncIn q open \<Rightarrow> if dst = NoTap then Some ss else if open then Some (TapSyncIn (q @ [x]) open) else None
   | TapOut q open \<Rightarrow> if ans = [] then Some ss else if open then Some (TapOut (q @ ans) open) else None
   | TapSyncOut q open \<Rightarrow> if ans = [] then Some ss else if open then Some (TapSyncOut (q @ ans) open) else None
   | Handler s \<Rightarrow> Some (Handler (fst (messages s (if dst = Handled k then [] else [x]))))
   | Translator tr \<Rightarrow> Some ss)"

definition translations_in :: "('s, 'i, 'o) intern \<Rightarrow> destination \<Rightarrow> 'i \<Rightarrow> ('s, 'i, 'o) emitted" where
  "translations_in b dst x = (if br_id b \<in> set (trail_of dst) then []
     else concat (map (translate_input (trail_of dst @ [br_id b]) x) (translators b)))"

definition translations_out :: "('s, 'i, 'o) intern \<Rightarrow> destination \<Rightarrow> 'o \<Rightarrow> ('s, 'i, 'o) emitted" where
  "translations_out b dst y = (if br_id b \<in> set (trail_of dst) then []
     else concat (map (translate_output (trail_of dst @ [br_id b]) y) (translators b)))"

lemma not_own_single: "not_own k [(dst, x)] = (if dst = Handled k then [] else [x])"
  by (simp add: not_own_def)

lemma handled_answers: "p \<in> set (answers messages qi m) \<Longrightarrow> \<exists>k. fst p = Handled k"
  by (auto simp: answers_def split: subsys.splits)

lemma taboo_answers: "not_taboo (answers messages qi m) = map snd (answers messages qi m)"
proof -
  have "filter (\<lambda>(dst, _). dst \<noteq> NoTap) (answers messages qi m) = answers messages qi m"
    using handled_answers by (fastforce simp: filter_id_conv)
  then show ?thesis by (simp add: not_taboo_def)
qed

lemma translate_answers:
  "(\<And>p. p \<in> set q \<Longrightarrow> \<exists>k. fst p = Handled k) \<Longrightarrow>
   concat (map (\<lambda>(dst, m). if br_id b \<in> set (trail_of dst) then []
     else concat (map (translate_output (trail_of dst @ [br_id b]) m) (translators b))) q) =
   concat (map (translations_out b ToAll) (map snd q))"
proof (induction q)
  case (Cons p q)
  obtain k y where "p = (Handled k, y)" using Cons.prems [of p] by (cases p) auto
  moreover from Cons have "concat (map (\<lambda>(dst, m). if br_id b \<in> set (trail_of dst) then []
     else concat (map (translate_output (trail_of dst @ [br_id b]) m) (translators b))) q) =
     concat (map (translations_out b ToAll) (map snd q))" by simp
  moreover have "translations_out b ToAll y = concat (map (translate_output [br_id b] y) (translators b))"
    by (simp add: translations_out_def trail_of_def)
  moreover have "trail_of (Handled k) = []" by (simp add: trail_of_def)
  ultimately show ?case by simp
qed simp

lemma process_one_in:
  fixes messages :: "'s \<Rightarrow> 'i list \<Rightarrow> 's \<times> 'o list"
  assumes "hm_ok (subsystems b)" and "msg_queue_in b = [(dst, x)]" and "msg_queue_out b = []"
  defines "ans \<equiv> answers messages [(dst, x)] (subsystems b)"
  shows "\<exists>b' n. process messages b =
      (b', translations_in b dst x @ concat (map (translations_out b ToAll) (map snd ans)), n) \<and>
    subsystems b' = entries (after_in messages dst x (map snd ans)) (subsystems b) \<and>
    idle b' \<and> br_id b' = br_id b \<and> copies b' = copies b"
proof -
  obtain b1 e1 where 1: "process_once messages b = (b1, e1)" by fastforce
  have q1: "msg_queue_in b1 = []" "msg_queue_out b1 = ans" "br_id b1 = br_id b" "copies b1 = copies b"
    and s1: "subsystems b1 = entries (ss_round messages [(dst, x)] []) (subsystems b)"
    using process_once_queues [where messages = messages and b = b] process_once_out [of b messages] process_once_entries [OF assms(1), of messages]
    by (simp_all add: 1 assms)
  have t1: "translators b1 = translators b" by (rule translators_round [OF round_translator s1])
  have e1: "e1 = translations_in b dst x"
    using arg_cong [OF 1, of snd] assms(2,3)
    by (cases "br_id b \<in> set (trail_of dst)")
      (simp_all add: process_once_emitted process_translate_out_def process_translate_in_def translations_in_def)
  have turn: "Option.bind (ss_round messages [(dst, x)] [] k ss) (ss_round messages [] ans k) =
      after_in messages dst x (map snd ans) k ss" for k ss
    unfolding ss_round_def after_in_def ans_def taboo_answers not_own_single
    by (cases ss) (auto simp: not_taboo_def)
  show ?thesis
  proof (cases "ans = []")
    case True
    then have "ss_round messages [] ans k = Some" for k by (intro ext) simp
    then have "ss_round messages [(dst, x)] [] k ss = after_in messages dst x (map snd ans) k ss" for k ss
      using turn [of k ss] by (cases "ss_round messages [(dst, x)] [] k ss") simp_all
    then have "subsystems b1 = entries (after_in messages dst x (map snd ans)) (subsystems b)"
      unfolding s1 by (rule entries_cong)
    moreover have "process messages b = (b1, e1, 1)"
      using 1 q1 True assms(2,3) by (simp add: process.simps [of messages b])
    ultimately show ?thesis using True q1 e1 by (intro exI [of _ b1] exI [of _ 1]) (simp add: idle_def)
  next
    case False
    obtain b2 e2 where 2: "process_once messages b1 = (b2, e2)" by fastforce
    have q2: "msg_queue_in b2 = []" "msg_queue_out b2 = []" "br_id b2 = br_id b" "copies b2 = copies b"
      and s2: "subsystems b2 = entries (ss_round messages [] ans) (subsystems b1)"
      using process_once_queues [where messages = messages and b = b1] process_once_entries [of b1 messages] q1 s1 assms(1)
      by (simp_all add: 2)
    have "process_translate_out b1 = concat (map (translations_out b1 ToAll) (map snd ans))"
      unfolding process_translate_out_def q1(2) by (rule translate_answers) (simp add: ans_def handled_answers)
    moreover have "translations_out b1 ToAll = translations_out b ToAll"
      by (intro ext) (simp add: translations_out_def q1 t1)
    moreover have "process_translate_in b1 = []" by (simp add: process_translate_in_def q1)
    ultimately have "e2 = concat (map (translations_out b ToAll) (map snd ans))"
      using arg_cong [OF 2, of snd] by (simp add: process_once_emitted)
    moreover have "subsystems b2 = entries (after_in messages dst x (map snd ans)) (subsystems b)"
      unfolding s2 s1 entries_entries turn by (rule refl)
    moreover have "process messages b1 = (b2, e2, length (msg_queue_in b1) + length (msg_queue_out b1))"
      using 2 q2 by (simp add: process.simps [of messages b1])
    then have "process messages b = (b2, e1 @ e2, 1 + length ans)"
      using 1 q1 False assms(2,3) by (simp add: process.simps [of messages b])
    ultimately show ?thesis using q2 e1 by (intro exI [of _ b2] exI [of _ "1 + length ans"]) (simp add: idle_def)
  qed
qed

definition after_out :: "destination \<Rightarrow> 'o \<Rightarrow> nat \<Rightarrow> ('s, 'i, 'o) subsys \<Rightarrow> ('s, 'i, 'o) subsys option" where
  "after_out dst y k ss = (case ss of
     TapOut q open \<Rightarrow> if dst = NoTap then Some ss else if open then Some (TapOut (q @ [y]) open) else None
   | TapSyncOut q open \<Rightarrow> if dst = NoTap then Some ss else if open then Some (TapSyncOut (q @ [y]) open) else None
   | _ \<Rightarrow> Some ss)"

lemma process_one_out:
  fixes messages :: "'s \<Rightarrow> 'i list \<Rightarrow> 's \<times> 'o list"
  assumes "hm_ok (subsystems b)" and "msg_queue_in b = []" and "msg_queue_out b = [(dst, y)]"
  shows "\<exists>b'. process messages b = (b', translations_out b dst y, 1) \<and>
    subsystems b' = entries (after_out dst y) (subsystems b) \<and> idle b' \<and> br_id b' = br_id b \<and> copies b' = copies b"
proof -
  obtain b1 e1 where 1: "process_once messages b = (b1, e1)" by fastforce
  have q1: "msg_queue_in b1 = []" "msg_queue_out b1 = []" "br_id b1 = br_id b" "copies b1 = copies b"
    and s1: "subsystems b1 = entries (ss_round messages [] [(dst, y)]) (subsystems b)"
    using process_once_queues [where messages = messages and b = b] process_once_entries [OF assms(1), of messages] assms(2,3)
    by (simp_all add: 1)
  have "e1 = translations_out b dst y"
    using arg_cong [OF 1, of snd] assms(2,3)
    by (cases "br_id b \<in> set (trail_of dst)")
      (simp_all add: process_once_emitted process_translate_out_def process_translate_in_def translations_out_def)
  moreover have "ss_round messages [] [(dst, y)] k ss = after_out dst y k ss" for k ss
    by (cases ss) (auto simp: ss_round_def after_out_def not_taboo_def)
  then have "subsystems b1 = entries (after_out dst y) (subsystems b)"
    unfolding s1 by (rule entries_cong)
  moreover have "process messages b = (b1, e1, 1)"
    using 1 q1 assms(2,3) by (simp add: process.simps [of messages b])
  ultimately show ?thesis using q1 by (intro exI [of _ b1]) (simp add: idle_def)
qed

subsection \<open>Properties\<close>

text \<open>
  What a message to a broker does, in one turn of its loop. Taps on the input get it, unless it is marked not
  to; every handler gets it as a batch of one message, except the handler that it is marked to come
  from; the answers of the handlers go to the taps on the output; a tap that nobody listens to any
  more is dropped when it should get something. The message is passed on to the translators, unless this
  broker is on its trail already, with the broker added to the trail; the answers are passed on with
  the broker as their trail. Then the queues are empty again.
\<close>

theorem message_in_turn:
  assumes "hm_ok (subsystems b)" and "idle b"
  shows "\<exists>b'. broker_turn messages (MessageIn dst x) b =
      (b', translations_in b dst x @
           concat (map (translations_out b ToAll) (map snd (answers messages [(dst, x)] (subsystems b)))), True) \<and>
    subsystems b' = entries (after_in messages dst x (map snd (answers messages [(dst, x)] (subsystems b)))) (subsystems b) \<and>
    idle b' \<and> br_id b' = br_id b \<and> copies b' = copies b"
proof -
  let ?b = "b\<lparr>msg_queue_in := [(dst, x)]\<rparr>"
  have q: "hm_ok (subsystems ?b)" "msg_queue_in ?b = [(dst, x)]" "msg_queue_out ?b = []"
    using assms by (simp_all add: idle_def)
  have same: "translators ?b = translators b" by (simp add: translators_def)
  then have "translations_in ?b dst x = translations_in b dst x" "translations_out ?b ToAll = translations_out b ToAll"
    by (auto simp: translations_in_def translations_out_def fun_eq_iff)
  with process_one_in [OF q, of messages] assms(2) show ?thesis
    by (auto simp: broker_turn_def get_msg_def idle_def)
qed

lemma message_out_turn:
  assumes "hm_ok (subsystems b)" and "idle b"
  shows "\<exists>b'. broker_turn messages (MessageOut dst y) b = (b', translations_out b dst y, True) \<and>
    subsystems b' = entries (after_out dst y) (subsystems b) \<and> idle b' \<and> br_id b' = br_id b \<and> copies b' = copies b"
proof -
  let ?b = "b\<lparr>msg_queue_out := [(dst, y)]\<rparr>"
  have q: "hm_ok (subsystems ?b)" "msg_queue_in ?b = []" "msg_queue_out ?b = [(dst, y)]"
    using assms by (simp_all add: idle_def)
  have "translators ?b = translators b" by (simp add: translators_def)
  then have "translations_out ?b dst y = translations_out b dst y" by (auto simp: translations_out_def)
  with process_one_out [OF q, of messages] assms(2) show ?thesis
    by (auto simp: broker_turn_def get_msg_def idle_def)
qed

fun broker_run ::
  "('s \<Rightarrow> 'i list \<Rightarrow> 's \<times> 'o list) \<Rightarrow> ('s, 'i, 'o) intern_message list \<Rightarrow> ('s, 'i, 'o) intern \<Rightarrow>
     ('s, 'i, 'o) intern \<times> ('s, 'i, 'o) emitted \<times> bool" where
  "broker_run messages [] b = (b, [], True)"
| "broker_run messages (m # ms) b =
     (case broker_turn messages m b of (b1, e1, goes_on) \<Rightarrow>
        if goes_on then (case broker_run messages ms b1 of (b2, e2, g) \<Rightarrow> (b2, e1 @ e2, g)) else (b1, e1, False))"

text \<open>The batches that the handler with a certain number gets.\<close>

fun handed :: "nat \<Rightarrow> ('s, 'i, 'o) intern_message list \<Rightarrow> 'i list list" where
  "handed k [] = []"
| "handed k (MessageIn dst x # ms) = (if dst = Handled k then [] else [x]) # handed k ms"
| "handed k (_ # ms) = handed k ms"

fun leaves_alone :: "nat \<Rightarrow> ('s, 'i, 'o) intern_message \<Rightarrow> bool" where
  "leaves_alone k (SubsystemMsg (AddSubsystem j ss)) = (j \<noteq> k)"
| "leaves_alone k (SubsystemMsg (RemoveSubsystem j)) = (j \<noteq> k)"
| "leaves_alone k _ = True"

lemma turn_handler:
  assumes "hm_ok (subsystems b)" and "idle b" and "map_of (subsystems b) k = Some (Handler s)" and "leaves_alone k m"
    and "broker_turn messages m b = (b', em, True)"
  shows "hm_ok (subsystems b') \<and> idle b' \<and>
    map_of (subsystems b') k = Some (Handler (fold (\<lambda>xs s. fst (messages s xs)) (handed k [m]) s))"
proof (cases m)
  case (SubsystemMsg a)
  with assms show ?thesis by (cases a) (auto simp: broker_turn_def get_msg_def idle_def)
next
  case (MessageIn dst x)
  with message_in_turn [OF assms(1,2), of messages dst x] assms(1,3,5) show ?thesis
    by (auto simp: map_of_entries after_in_def)
next
  case (MessageOut dst y)
  with message_out_turn [OF assms(1,2), of messages dst y] assms(1,3,5) show ?thesis
    by (auto simp: map_of_entries after_out_def)
next
  case Cloned
  with assms show ?thesis by (auto simp: broker_turn_def get_msg_def idle_def)
next
  case Dropped
  with assms show ?thesis by (auto simp: broker_turn_def get_msg_def idle_def split: if_splits)
qed

text \<open>
  C10. A handler sees every message once and in order. Over any run of a broker that leaves its handler
  in place, whatever taps, translators and other handlers come and go and however often the
  broker is cloned, the state of the handler is what it makes of the incoming messages one
  after the other, each in a batch of its own, without those it is marked as the source of.
\<close>

theorem handler_sees_every_message:
  assumes "hm_ok (subsystems b)" and "idle b" and "map_of (subsystems b) k = Some (Handler s)"
    and "\<forall>m \<in> set ms. leaves_alone k m" and "broker_run messages ms b = (b', em, True)"
  shows "map_of (subsystems b') k = Some (Handler (fold (\<lambda>xs s. fst (messages s xs)) (handed k ms) s)) \<and> idle b'"
  using assms
proof (induction ms arbitrary: b s em)
  case (Cons m ms)
  obtain b1 e1 g where 1: "broker_turn messages m b = (b1, e1, g)" by (metis prod_cases3)
  obtain e2 where 2: "g = True" "broker_run messages ms b1 = (b', e2, True)"
    using Cons.prems(5) 1 by (auto split: if_splits prod.splits)
  have "leaves_alone k m" using Cons.prems(4) by simp
  note t = turn_handler [OF Cons.prems(1-3) this 1 [unfolded 2(1)]]
  have "fold (\<lambda>xs s. fst (messages s xs)) (handed k (m # ms)) s =
      fold (\<lambda>xs s. fst (messages s xs)) (handed k ms) (fold (\<lambda>xs s. fst (messages s xs)) (handed k [m]) s)"
    by (cases m) simp_all
  with Cons.IH [OF _ _ _ _ 2(2)] t Cons.prems(4) show ?case by simp
qed simp

definition echo :: "nat list \<Rightarrow> nat list \<Rightarrow> nat list \<times> nat list" where
  "echo s xs = (s @ xs, xs)"

definition demo_broker :: "(nat list, nat, nat) intern" where
  "demo_broker = (intern_new u256_zero)\<lparr>subsystems := [(1, Handler []), (2, TapOut [] True), (3, TapIn [] False)]\<rparr>"

theorem message_in_turn_witness:
  "\<exists>b. broker_turn echo (MessageIn ToAll 5) demo_broker = (b, [], True) \<and>
     subsystems b = [(1, Handler [5]), (2, TapOut [5] True)]"
  using message_in_turn [of demo_broker echo ToAll 5]
  by (auto simp: demo_broker_def intern_new_def idle_def translations_in_def translations_out_def trail_of_def
      translators_def List.map_filter_def answers_def echo_def not_own_def after_in_def)

theorem handler_sees_every_message_witness:
  "map_of (subsystems (fst (broker_run echo [MessageIn ToAll 5, Cloned, MessageIn NoTap 7, Dropped] demo_broker))) 1 =
     Some (Handler [5, 7])"
proof -
  have ok: "hm_ok (subsystems demo_broker)" "idle demo_broker" "map_of (subsystems demo_broker) 1 = Some (Handler [])"
    by (simp_all add: demo_broker_def intern_new_def idle_def)
  have one: "copies demo_broker = 1" by (simp add: demo_broker_def intern_new_def)
  have goes_on: "snd (snd (broker_run echo [MessageIn ToAll 5, Cloned, MessageIn NoTap 7, Dropped] demo_broker))"
  proof -
    obtain b1 e1 where 1: "broker_turn echo (MessageIn ToAll 5) demo_broker = (b1, e1, True)" "hm_ok (subsystems b1)" "idle b1" "copies b1 = 1"
      using message_in_turn [OF ok(1,2), of echo ToAll 5] ok(1) one by auto
    let ?b2 = "b1\<lparr>copies := copies b1 + 1\<rparr>"
    have 2: "broker_turn echo Cloned b1 = (?b2, [], True)" "hm_ok (subsystems ?b2)" "idle ?b2"
      using 1 by (simp_all add: broker_turn_def get_msg_def idle_def)
    obtain b3 e3 where 3: "broker_turn echo (MessageIn NoTap 7) ?b2 = (b3, e3, True)" "idle b3" "copies b3 = 2"
      using message_in_turn [OF 2(2,3), of echo NoTap 7] 1(4) by auto
    then have "broker_turn echo Dropped b3 = (b3\<lparr>copies := 1\<rparr>, [], True)"
      by (simp add: broker_turn_def get_msg_def idle_def)
    with 1(1) 2(1) 3(1) show ?thesis by simp
  qed
  obtain b em where "broker_run echo [MessageIn ToAll 5, Cloned, MessageIn NoTap 7, Dropped] demo_broker = (b, em, True)"
    using goes_on by (metis prod.collapse)
  from handler_sees_every_message [OF ok _ this] this show ?thesis by (simp add: echo_def)
qed

subsection \<open>A system of brokers\<close>

text \<open>
  Every broker has a channel; a turn takes the first message off the channel of some broker and adds
  what it emits to the channels of the others. A broker that stops takes its channel with it.
\<close>

type_synonym ('s, 'i, 'o) broker_system = "(u256 \<times> ('s, 'i, 'o) intern \<times> ('s, 'i, 'o) intern_message list) list"

definition deliver :: "('s, 'i, 'o) emitted \<Rightarrow> ('s, 'i, 'o) broker_system \<Rightarrow> ('s, 'i, 'o) broker_system" where
  "deliver em sys = map (\<lambda>(j, b, ch). (j, b, ch @ map snd (filter (\<lambda>(t, _). t = j) em))) sys"

inductive system_step ::
  "(u256 \<Rightarrow> 's \<Rightarrow> 'i list \<Rightarrow> 's \<times> 'o list) \<Rightarrow> ('s, 'i, 'o) broker_system \<Rightarrow> ('s, 'i, 'o) broker_system \<Rightarrow> bool"
  for messages where
  turn: "broker_turn (messages i) m b = (b', em, True) \<Longrightarrow>
    system_step messages (xs @ (i, b, m # ch) # ys) (deliver em (xs @ (i, b', ch) # ys))"
| stop: "broker_turn (messages i) m b = (b', em, False) \<Longrightarrow>
    system_step messages (xs @ (i, b, m # ch) # ys) (deliver em (xs @ ys))"

inductive_cases system_stepE [consumes 1, case_names turn stop]: "system_step messages sys sys'"

inductive_simps empty_system_step [simp]: "system_step messages [] sys'"

fun entry_ok :: "u256 set \<Rightarrow> u256 \<times> ('s, 'i, 'o) intern \<times> ('s, 'i, 'o) intern_message list \<Rightarrow> bool" where
  "entry_ok ids (i, b, ch) \<longleftrightarrow> br_id b = i \<and> i \<in> ids \<and> hm_ok (subsystems b) \<and> idle b"

definition system_ok :: "u256 set \<Rightarrow> ('s, 'i, 'o) broker_system \<Rightarrow> bool" where
  "system_ok ids sys \<longleftrightarrow> finite ids \<and> list_all (entry_ok ids) sys"

lemma deliver_ok [simp]: "list_all (entry_ok ids) (deliver em sys) \<longleftrightarrow> list_all (entry_ok ids) sys"
  by (induction sys) (auto simp: deliver_def)

text \<open>
  How far a message can still be forwarded: the number of brokers that are not on its trail. The
  measure of a system is the multiset of these numbers over all its channels.
\<close>

definition rank :: "u256 set \<Rightarrow> ('s, 'i, 'o) intern_message \<Rightarrow> nat" where
  "rank ids m = (case m of
     MessageIn dst _ \<Rightarrow> Suc (card (ids - set (trail_of dst)))
   | MessageOut dst _ \<Rightarrow> Suc (card (ids - set (trail_of dst)))
   | _ \<Rightarrow> 0)"

definition pending :: "u256 set \<Rightarrow> ('s, 'i, 'o) broker_system \<Rightarrow> nat multiset" where
  "pending ids sys = (\<Sum>(i, b, ch) \<leftarrow> sys. mset (map (rank ids) ch))"

lemma pending_append [simp]: "pending ids (xs @ ys) = pending ids xs + pending ids ys"
  "pending ids ((i, b, ch) # ys) = mset (map (rank ids) ch) + pending ids ys"
  by (simp_all add: pending_def)

lemma pending_deliver:
  "\<exists>K. pending ids (deliver em sys) = pending ids sys + K \<and> (\<forall>k \<in># K. \<exists>(t, m) \<in> set em. k = rank ids m)"
proof (induction sys)
  case (Cons p sys)
  obtain i b ch where p: "p = (i, b, ch)" by (cases p)
  from Cons obtain K where K: "pending ids (deliver em sys) = pending ids sys + K"
    "\<forall>k \<in># K. \<exists>(t, m) \<in> set em. k = rank ids m" by blast
  let ?new = "mset (map (rank ids) (map snd (filter (\<lambda>(t, _). t = i) em)))"
  have "pending ids (deliver em (p # sys)) = pending ids (p # sys) + (?new + K)"
    using K(1) p by (simp add: deliver_def)
  moreover have "\<forall>k \<in># ?new. \<exists>(t, m) \<in> set em. k = rank ids m" by auto
  ultimately show ?case using K(2) by (intro exI [of _ "?new + K"]) auto
qed (auto simp: deliver_def pending_def)

lemma emitted_trail:
  "p \<in> set (translate_input trail x tr) \<Longrightarrow> rank ids (snd p) = Suc (card (ids - set trail))"
  "p \<in> set (translate_output trail y tr) \<Longrightarrow> rank ids (snd p) = Suc (card (ids - set trail))"
  by (auto simp: translate_input_def translate_output_def emit_ti_to_def rank_def trail_of_def split: option.splits)

lemma rank_forwarded:
  assumes "finite ids" and "i \<in> ids" and "i \<notin> set trail"
  shows "card (ids - set (trail @ [i])) < card (ids - set trail)"
proof -
  have "ids - set (trail @ [i]) = (ids - set trail) - {i}" by auto
  moreover have "card ((ids - set trail) - {i}) < card (ids - set trail)"
    by (rule card_Diff1_less) (use assms in simp_all)
  ultimately show ?thesis by simp
qed

lemma turn_ok:
  assumes "hm_ok (subsystems b)" and "idle b" and "broker_turn messages m b = (b', em, goes_on)"
  shows "br_id b' = br_id b" and "goes_on \<Longrightarrow> hm_ok (subsystems b') \<and> idle b'"
proof -
  have "br_id b' = br_id b \<and> (goes_on \<longrightarrow> hm_ok (subsystems b') \<and> idle b')"
  proof (cases m)
    case (SubsystemMsg a)
    with assms show ?thesis by (cases a) (auto simp: broker_turn_def get_msg_def idle_def)
  next
    case (MessageIn dst x)
    with message_in_turn [OF assms(1,2), of messages dst x] assms(1,3) show ?thesis by auto
  next
    case (MessageOut dst y)
    with message_out_turn [OF assms(1,2), of messages dst y] assms(1,3) show ?thesis by auto
  qed (use assms in \<open>auto simp: broker_turn_def get_msg_def idle_def split: if_splits\<close>)
  then show "br_id b' = br_id b" "goes_on \<Longrightarrow> hm_ok (subsystems b') \<and> idle b'" by auto
qed

lemma turn_rank:
  assumes "\<forall>s xs. snd (messages s xs) = []" and "hm_ok (subsystems b)" and "idle b" and "finite ids" and "br_id b \<in> ids"
    and "broker_turn messages m b = (b', em, goes_on)" and "p \<in> set em"
  shows "rank ids (snd p) < rank ids m"
proof (cases m)
  case (MessageIn dst x)
  have "answers messages [(dst, x)] (subsystems b) = []"
    using assms(1) by (auto simp: answers_def split: subsys.splits)
  with message_in_turn [OF assms(2,3), of messages dst x] assms(6,7) MessageIn
  have "p \<in> set (translations_in b dst x)" by auto
  then have "br_id b \<notin> set (trail_of dst)" "rank ids (snd p) = Suc (card (ids - set (trail_of dst @ [br_id b])))"
    by (auto simp: translations_in_def emitted_trail split: if_splits)
  with rank_forwarded [OF assms(4,5) this(1)] MessageIn show ?thesis by (simp add: rank_def)
next
  case (MessageOut dst y)
  with message_out_turn [OF assms(2,3), of messages dst y] assms(6,7)
  have "p \<in> set (translations_out b dst y)" by auto
  then have "br_id b \<notin> set (trail_of dst)" "rank ids (snd p) = Suc (card (ids - set (trail_of dst @ [br_id b])))"
    by (auto simp: translations_out_def emitted_trail split: if_splits)
  with rank_forwarded [OF assms(4,5) this(1)] MessageOut show ?thesis by (simp add: rank_def)
next
  case (SubsystemMsg a)
  with assms(3,6,7) show ?thesis by (cases a) (auto simp: broker_turn_def get_msg_def idle_def)
qed (use assms(3,6,7) in \<open>auto simp: broker_turn_def get_msg_def idle_def split: if_splits\<close>)

lemma step_ok:
  assumes "system_ok ids sys" and "system_step messages sys sys'"
  shows "system_ok ids sys'"
  using assms(2,1)
proof (cases rule: system_stepE)
  case (turn i m b b' em xs ch ys)
  then have "hm_ok (subsystems b)" "idle b" "br_id b = i" using assms(1) by (simp_all add: system_ok_def)
  with turn_ok [OF this(1,2) turn(3)] assms(1) turn(1,2) show ?thesis by (simp add: system_ok_def)
next
  case (stop i m b b' em xs ch ys)
  with assms(1) show ?thesis by (simp add: system_ok_def)
qed

lemma step_less:
  assumes "\<forall>i s xs. snd (messages i s xs) = []" and "system_ok ids sys" and "system_step messages sys sys'"
  shows "(pending ids sys', pending ids sys) \<in> mult less_than"
  using assms(3,2)
proof (cases rule: system_stepE)
  case (turn i m b b' em xs ch ys)
  then have b: "hm_ok (subsystems b)" "idle b" "finite ids" "br_id b \<in> ids" using assms(2) by (auto simp: system_ok_def)
  obtain K where K: "pending ids sys' = pending ids (xs @ (i, b', ch) # ys) + K" "\<forall>k \<in># K. \<exists>(t, m) \<in> set em. k = rank ids m"
    using pending_deliver turn(2) by blast
  have "\<forall>k \<in># K. k < rank ids m" using K(2) turn_rank [OF _ b turn(3)] assms(1) by fastforce
  then have "(pending ids (xs @ (i, b', ch) # ys) + K, pending ids (xs @ (i, b', ch) # ys) + {#rank ids m#}) \<in> mult less_than"
    by (intro one_step_implies_mult) auto
  moreover have "pending ids sys = pending ids (xs @ (i, b', ch) # ys) + {#rank ids m#}" using turn(1) by simp
  ultimately show ?thesis using K(1) by simp
next
  case (stop i m b b' em xs ch ys)
  have "em = []" using stop(3) by (auto simp: broker_turn_def split: prod.splits if_splits)
  then have "sys' = xs @ ys" using stop(2) by (auto simp: deliver_def intro!: map_idI)
  moreover have "pending ids sys = pending ids (xs @ ys) + mset (map (rank ids) (m # ch))" using stop(1) by simp
  moreover have "(pending ids (xs @ ys) + {#}, pending ids (xs @ ys) + mset (map (rank ids) (m # ch))) \<in> mult less_than"
    by (intro one_step_implies_mult) auto
  ultimately show ?thesis by simp
qed

text \<open>
  C11. Forwarding ends. However the brokers of a system are linked with one another, in circles or not, and
  whatever their channels hold at the start: as long as their handlers do not answer, only finitely many
  turns can follow one another. The trail that a message carries stops it at the latest when it
  has passed every broker once.
\<close>

theorem forwarding_terminates:
  assumes "\<forall>i s xs. snd (messages i s xs) = []" and "system_ok ids sys"
  shows "\<not> (\<exists>f. f 0 = sys \<and> (\<forall>n. system_step messages (f n) (f (Suc n))))"
proof
  assume "\<exists>f. f 0 = sys \<and> (\<forall>n. system_step messages (f n) (f (Suc n)))"
  then obtain f where f: "f 0 = sys" "\<And>n. system_step messages (f n) (f (Suc n))" by blast
  have ok: "system_ok ids (f n)" for n
  proof (induction n)
    case 0
    with assms(2) f(1) show ?case by simp
  next
    case (Suc n)
    then show ?case by (rule step_ok [OF _ f(2)])
  qed
  have "(pending ids (f (Suc n)), pending ids (f n)) \<in> mult less_than" for n
    by (rule step_less [OF assms(1) ok f(2)])
  then show False
    using wf_no_infinite_down_chainE [OF wf_mult [OF wf_less_than], of "\<lambda>n. pending ids (f n)"] by blast
qed

text \<open>Two brokers that are linked in a circle.\<close>

definition link_to :: "u256 \<Rightarrow> (nat, nat) translator" where
  "link_to i = \<lparr>tr_broker = i, tr_i_ti = None, tr_i_to = None, tr_o_ti = Some Some, tr_o_to = None\<rparr>"

definition other_end :: u256 where
  "other_end = U256 []"

definition linked_broker :: "u256 \<Rightarrow> u256 \<Rightarrow> (unit, nat, nat) intern" where
  "linked_broker own other = (intern_new own)\<lparr>subsystems := [(1, Handler ()), (2, Translator (link_to other))]\<rparr>"

definition circle :: "(unit, nat, nat) intern_message list \<Rightarrow> (unit, nat, nat) intern_message list \<Rightarrow> (unit, nat, nat) broker_system" where
  "circle here there = [(u256_zero, linked_broker u256_zero other_end, here), (other_end, linked_broker other_end u256_zero, there)]"

theorem forwarding_terminates_witness:
  "\<not> (\<exists>f. f 0 = circle [MessageOut ToAll 1, MessageIn ToAll 2] [MessageOut ToAll 3] \<and>
     (\<forall>n. system_step (\<lambda>_ s _. (s, [])) (f n) (f (Suc n))))"
  by (rule forwarding_terminates [where ids = "{u256_zero, other_end}"])
    (simp_all add: system_ok_def circle_def linked_broker_def intern_new_def idle_def)

lemma circle_turn:
  assumes "own \<noteq> other"
  shows "broker_turn (\<lambda>s xs. (s, xs)) (MessageIn (Forwarded [other]) x) (linked_broker own other) =
    (linked_broker own other, [(other, MessageIn (Forwarded [own]) x)], True)"
proof -
  let ?b = "linked_broker own other" and ?h = "\<lambda>s xs. (s, xs)"
  have b: "hm_ok (subsystems ?b)" "idle ?b" by (simp_all add: linked_broker_def intern_new_def idle_def)
  have tr: "translators ?b = [link_to other]"
    by (simp add: translators_def linked_broker_def List.map_filter_def)
  have ans: "answers ?h [(Forwarded [other], x)] (subsystems ?b) = [(Handled 1, x)]"
    by (simp add: answers_def linked_broker_def not_own_def)
  have em: "translations_in ?b (Forwarded [other]) x @ concat [translations_out ?b ToAll x] =
      [(other, MessageIn (Forwarded [own]) x)]"
    using assms tr by (simp add: translations_in_def translations_out_def trail_of_def translate_input_def
        translate_output_def emit_ti_to_def apply_opt_def link_to_def linked_broker_def intern_new_def)
  have same: "entries (after_in ?h (Forwarded [other]) x [x]) (subsystems ?b) = subsystems ?b"
    by (simp add: linked_broker_def after_in_def)
  obtain b' where b': "broker_turn ?h (MessageIn (Forwarded [other]) x) ?b = (b', [(other, MessageIn (Forwarded [own]) x)], True)"
    "subsystems b' = subsystems ?b" "idle b'" "br_id b' = br_id ?b" "copies b' = copies ?b"
    using message_in_turn [OF b, of ?h "Forwarded [other]" x] unfolding ans list.map snd_conv em same by blast
  then have "b' = ?b" using b(2) by (simp add: idle_def)
  with b'(1) show ?thesis by simp
qed

text \<open>
  C33. An answer escapes the detection of loops. When handlers do answer, the trail of a message is lost: the
  answer starts a new one. So two brokers that are linked with each other and whose handlers
  answer every message keep one single message going for ever.
\<close>

theorem answers_escape_the_trail:
  "\<exists>f. f 0 = circle [MessageIn (Forwarded [other_end]) 1] [] \<and>
     (\<forall>n. system_step (\<lambda>_ s xs. (s, xs)) (f n) (f (Suc n)))"
proof -
  let ?x = "circle [MessageIn (Forwarded [other_end]) 1] []" and ?y = "circle [] [MessageIn (Forwarded [u256_zero]) 1]"
  have ne: "u256_zero \<noteq> other_end" by (simp add: u256_zero_def other_end_def)
  have "system_step (\<lambda>_ s xs. (s, xs)) ([] @ (u256_zero, linked_broker u256_zero other_end, MessageIn (Forwarded [other_end]) 1 # []) #
      [(other_end, linked_broker other_end u256_zero, [])]) (deliver [(other_end, MessageIn (Forwarded [u256_zero]) 1)]
      ([] @ (u256_zero, linked_broker u256_zero other_end, []) # [(other_end, linked_broker other_end u256_zero, [])]))"
    by (rule system_step.turn) (rule circle_turn [OF ne])
  then have xy: "system_step (\<lambda>_ s xs. (s, xs)) ?x ?y" using ne by (simp add: circle_def deliver_def)
  have "system_step (\<lambda>_ s xs. (s, xs)) ([(u256_zero, linked_broker u256_zero other_end, [])] @
      (other_end, linked_broker other_end u256_zero, MessageIn (Forwarded [u256_zero]) 1 # []) # [])
      (deliver [(u256_zero, MessageIn (Forwarded [other_end]) 1)]
      ([(u256_zero, linked_broker u256_zero other_end, [])] @ (other_end, linked_broker other_end u256_zero, []) # []))"
    by (rule system_step.turn) (rule circle_turn [OF ne [symmetric]])
  then have yx: "system_step (\<lambda>_ s xs. (s, xs)) ?y ?x" using ne by (simp add: circle_def deliver_def)
  let ?f = "\<lambda>n. if even n then ?x else ?y"
  have "system_step (\<lambda>_ s xs. (s, xs)) (?f n) (?f (Suc n))" for n
    by (cases "even n") (use xy yx in simp_all)
  moreover have "?f 0 = ?x" by simp
  ultimately show ?thesis by (intro exI [of _ ?f]) blast
qed

subsection \<open>Modules as handlers\<close>

text \<open>
  A module that keeps the contract of \<open>Subsystem\<close> is a handler: over the batches of a run its state is the
  one that \<open>handle_all\<close> gives for all messages together, and it keeps its invariant.
\<close>

context subsystem begin

lemma plugged_in:
  assumes "\<And>s xs. invar s \<Longrightarrow> list_all accepts xs \<Longrightarrow> handle_all handle xs s = Ok (messages s xs)"
    and "invar s" and "list_all (list_all accepts) xss"
  shows "\<exists>out. handle_all handle (concat xss) s = Ok (fold (\<lambda>xs s. fst (messages s xs)) xss s, out) \<and>
    invar (fold (\<lambda>xs s. fst (messages s xs)) xss s) \<and> list_all promised out"
  using assms(2,3)
proof (induction xss arbitrary: s)
  case (Cons xs xss)
  then obtain s1 out1 where 1: "handle_all handle xs s = Ok (s1, out1)" "invar s1" "list_all promised out1"
    using all_kept by fastforce
  then have s1: "s1 = fst (messages s xs)" using assms(1) [OF Cons.prems(1)] Cons.prems(2) by simp
  from Cons.IH [OF 1(2)] Cons.prems(2) obtain out2 where
    "handle_all handle (concat xss) s1 = Ok (fold (\<lambda>xs s. fst (messages s xs)) xss s1, out2)"
    "invar (fold (\<lambda>xs s. fst (messages s xs)) xss s1)" "list_all promised out2" by auto
  with 1 s1 show ?case by (simp add: handle_all_append)
qed simp

end

end
