(* ===== verification/Ping.thy ===== *)
theory Ping
  imports Subsystem NodeIds
begin

text \<open>
  The ping module, \<open>flmodules/src/ping/core.rs\<close> and \<open>messages.rs\<close>: it pings the nodes it knows at
  intervals, and reports those that have not answered for too long. The counters are 32-bit numbers that
  wrap around, as in a release build.
\<close>

subsection \<open>The storage\<close>

record ping_stat =
  lastping :: u32
  ps_rx :: u32
  ps_tx :: u32

record ping_config =
  interval :: u32
  timeout :: u32

record ping_storage =
  pg_stats :: "(u256, ping_stat) hashmap"
  pg_ping :: node_ids
  pg_failed :: node_ids
  pg_config :: ping_config

definition ping_config_default :: ping_config where
  "ping_config_default = \<lparr>interval = 5, timeout = 10\<rparr>"

definition ping_storage_new :: "ping_config \<Rightarrow> ping_storage" where
  "ping_storage_new config = \<lparr>pg_stats = [], pg_ping = [], pg_failed = [], pg_config = config\<rparr>"

definition ping_add_node :: "u256 \<Rightarrow> ping_storage \<Rightarrow> ping_storage" where
  "ping_add_node i s =
     (if hm_contains (pg_stats s) i then s
      else s\<lparr>pg_stats := AList.update i \<lparr>lastping = 0, ps_rx = 0, ps_tx = 1\<rparr> (pg_stats s), pg_ping := pg_ping s @ [i]\<rparr>)"

definition ping_remove_node :: "u256 \<Rightarrow> ping_storage \<Rightarrow> ping_storage" where
  "ping_remove_node i s = s\<lparr>pg_stats := AList.delete i (pg_stats s), pg_failed := pg_failed s @ [i]\<rparr>"

definition ping_set_nodes :: "node_ids \<Rightarrow> ping_storage \<Rightarrow> ping_storage" where
  "ping_set_nodes ids s =
     (let failed = filter (\<lambda>i. i \<notin> set ids) (map fst (pg_stats s));
          s1 = fold ping_remove_node failed s;
          new_nodes = filter (\<lambda>i. \<not> hm_contains (pg_stats s1) i) ids
      in fold ping_add_node new_nodes s1)"

definition pong :: "u256 \<Rightarrow> ping_storage \<Rightarrow> ping_storage" where
  "pong i s = (case map_of (pg_stats s) i of
     Some stat \<Rightarrow> s\<lparr>pg_stats := AList.update i (stat\<lparr>lastping := 0, ps_rx := ps_rx stat + 1\<rparr>) (AList.delete i (pg_stats s))\<rparr>
   | None \<Rightarrow> ping_add_node i s)"

definition count_tick :: "ping_config \<Rightarrow> ping_stat \<Rightarrow> ping_stat" where
  "count_tick c stat =
     (let stat = stat\<lparr>lastping := lastping stat + 1\<rparr>
      in if lastping stat \<ge> timeout c + interval c then stat
         else if lastping stat \<ge> interval c then stat\<lparr>ps_tx := ps_tx stat + 1\<rparr> else stat)"

definition has_failed :: "ping_config \<Rightarrow> ping_stat \<Rightarrow> bool" where
  "has_failed c stat \<longleftrightarrow> lastping stat + 1 \<ge> timeout c + interval c"

definition is_due :: "ping_config \<Rightarrow> ping_stat \<Rightarrow> bool" where
  "is_due c stat \<longleftrightarrow> \<not> has_failed c stat \<and> lastping stat + 1 \<ge> interval c"

definition tick_countdown :: "ping_storage \<Rightarrow> ping_storage" where
  "tick_countdown s =
     (let c = pg_config s;
          failed = map fst (filter (\<lambda>(i, stat). has_failed c stat) (pg_stats s));
          s1 = s\<lparr>pg_stats := map (\<lambda>(i, stat). (i, count_tick c stat)) (pg_stats s),
                 pg_ping := pg_ping s @ map fst (filter (\<lambda>(i, stat). is_due c stat) (pg_stats s))\<rparr>
      in fold ping_remove_node failed s1)"

definition ping_tick :: "ping_storage \<Rightarrow> ping_storage" where
  "ping_tick s = tick_countdown (s\<lparr>pg_ping := [], pg_failed := []\<rparr>)"

subsection \<open>Messages\<close>

datatype ping_message = PingMsg | PongMsg

datatype ping_in =
    PingTick | PingFromNetwork u256 ping_message | UpdateNodeList node_ids | PingDisconnectNode u256

datatype ping_out = PingToNetwork u256 ping_message | PingFailed u256

record ping_module =
  pm_storage :: ping_storage
  pm_published :: ping_storage

definition ping_new :: "ping_config \<Rightarrow> ping_module" where
  "ping_new config = \<lparr>pm_storage = ping_storage_new config, pm_published = ping_storage_new config\<rparr>"

definition ping_create_messages :: "ping_module \<Rightarrow> ping_module \<times> ping_out list" where
  "ping_create_messages p =
     (p\<lparr>pm_storage := (pm_storage p)\<lparr>pg_ping := [], pg_failed := []\<rparr>\<rparr>,
      map (\<lambda>i. PingToNetwork i PingMsg) (pg_ping (pm_storage p)) @ map PingFailed (pg_failed (pm_storage p)))"

definition ping_msg_tick :: "ping_module \<Rightarrow> ping_module \<times> ping_out list" where
  "ping_msg_tick p =
     (let s = ping_tick (pm_storage p) in ping_create_messages (p\<lparr>pm_storage := s, pm_published := s\<rparr>))"

definition ping_msg_network :: "u256 \<Rightarrow> ping_message \<Rightarrow> ping_module \<Rightarrow> ping_module \<times> ping_out list" where
  "ping_msg_network i m p = (case m of
     PingMsg \<Rightarrow> (p, if hm_contains (pg_stats (pm_storage p)) i then [PingToNetwork i PongMsg] else [])
   | PongMsg \<Rightarrow> (p\<lparr>pm_storage := pong i (pm_storage p)\<rparr>, []))"

definition ping_process :: "ping_in \<Rightarrow> ping_module \<Rightarrow> ping_module \<times> ping_out list" where
  "ping_process m p = (case m of
     PingTick \<Rightarrow> ping_msg_tick p
   | PingFromNetwork i msg \<Rightarrow> ping_msg_network i msg p
   | UpdateNodeList ids \<Rightarrow> (p\<lparr>pm_storage := ping_set_nodes ids (pm_storage p)\<rparr>, [])
   | PingDisconnectNode i \<Rightarrow> (p\<lparr>pm_storage := ping_remove_node i (pm_storage p)\<rparr>, []))"

fun ping_messages :: "ping_in list \<Rightarrow> ping_module \<Rightarrow> ping_module \<times> ping_out list" where
  "ping_messages [] p = (p, [])"
| "ping_messages (m # ms) p =
     (let (p1, out1) = ping_process m p; (p2, out2) = ping_messages ms p1 in (p2, out1 @ out2))"

subsection \<open>Lookups\<close>

lemma fold_remove:
  "pg_stats (fold ping_remove_node ids s) = fold AList.delete ids (pg_stats s)"
  "pg_ping (fold ping_remove_node ids s) = pg_ping s"
  "pg_failed (fold ping_remove_node ids s) = pg_failed s @ ids"
  "pg_config (fold ping_remove_node ids s) = pg_config s"
  by (induction ids arbitrary: s) (simp_all add: ping_remove_node_def)

lemma delete_all:
  "map_of (fold AList.delete ids m) i = (if i \<in> set ids then None else map_of m i)"
  "hm_ok m \<Longrightarrow> hm_ok (fold AList.delete ids m)"
  by (induction ids arbitrary: m) simp_all

lemma add_node_stats:
  "map_of (pg_stats (ping_add_node j s)) i =
     (if i = j \<and> map_of (pg_stats s) j = None then Some \<lparr>lastping = 0, ps_rx = 0, ps_tx = 1\<rparr> else map_of (pg_stats s) i)"
  "hm_ok (pg_stats s) \<Longrightarrow> hm_ok (pg_stats (ping_add_node j s))"
  "pg_config (ping_add_node j s) = pg_config s"
  by (simp_all add: ping_add_node_def hm_contains_iff)

lemma fold_add:
  "map_of (pg_stats (fold ping_add_node ids s)) i =
     (if i \<in> set ids \<and> map_of (pg_stats s) i = None then Some \<lparr>lastping = 0, ps_rx = 0, ps_tx = 1\<rparr> else map_of (pg_stats s) i)"
  "hm_ok (pg_stats s) \<Longrightarrow> hm_ok (pg_stats (fold ping_add_node ids s))"
  "pg_config (fold ping_add_node ids s) = pg_config s"
  by (induction ids arbitrary: s) (auto simp: add_node_stats)

lemma set_nodes_stats:
  "map_of (pg_stats (ping_set_nodes ids s)) i =
     (if i \<in> set ids then Some (case map_of (pg_stats s) i of Some stat \<Rightarrow> stat | None \<Rightarrow> \<lparr>lastping = 0, ps_rx = 0, ps_tx = 1\<rparr>)
      else None)"
  "hm_ok (pg_stats s) \<Longrightarrow> hm_ok (pg_stats (ping_set_nodes ids s))"
  "pg_config (ping_set_nodes ids s) = pg_config s"
proof -
  have known: "i \<in> set (map fst (pg_stats s)) \<longleftrightarrow> map_of (pg_stats s) i \<noteq> None"
    by (simp add: map_of_eq_None_iff)
  show "map_of (pg_stats (ping_set_nodes ids s)) i =
     (if i \<in> set ids then Some (case map_of (pg_stats s) i of Some stat \<Rightarrow> stat | None \<Rightarrow> \<lparr>lastping = 0, ps_rx = 0, ps_tx = 1\<rparr>)
      else None)"
    unfolding ping_set_nodes_def Let_def fold_add fold_remove delete_all set_filter mem_Collect_eq hm_contains_iff known
    by (auto split: option.splits)
  show "hm_ok (pg_stats s) \<Longrightarrow> hm_ok (pg_stats (ping_set_nodes ids s))"
    unfolding ping_set_nodes_def Let_def by (intro fold_add(2)) (simp only: fold_remove delete_all(2))
  show "pg_config (ping_set_nodes ids s) = pg_config s"
    unfolding ping_set_nodes_def Let_def fold_add fold_remove by (rule refl)
qed

lemma pong_stats:
  "i \<noteq> j \<Longrightarrow> map_of (pg_stats (pong j s)) i = map_of (pg_stats s) i"
  "hm_ok (pg_stats s) \<Longrightarrow> hm_ok (pg_stats (pong j s))"
  "pg_config (pong j s) = pg_config s"
  by (auto simp: pong_def add_node_stats split: option.splits)

lemma tick_stats:
  assumes "hm_ok (pg_stats s)"
  shows tick_lookup: "map_of (pg_stats (ping_tick s)) i = (case map_of (pg_stats s) i of
     Some stat \<Rightarrow> if has_failed (pg_config s) stat then None else Some (count_tick (pg_config s) stat) | None \<Rightarrow> None)"
  and tick_ping: "pg_ping (ping_tick s) = map fst (filter (\<lambda>(i, stat). is_due (pg_config s) stat) (pg_stats s))"
  and tick_failed: "pg_failed (ping_tick s) = map fst (filter (\<lambda>(i, stat). has_failed (pg_config s) stat) (pg_stats s))"
  and tick_config: "pg_config (ping_tick s) = pg_config s"
  and tick_hm: "hm_ok (pg_stats (ping_tick s))"
proof -
  have counted: "map_of (map (\<lambda>(i, stat). (i, count_tick c stat)) m) i = map_option (count_tick c) (map_of m i)" for c m i
    by (induction m) auto
  have removed: "pg_stats (ping_tick s) = fold AList.delete (map fst (filter (\<lambda>(i, stat). has_failed (pg_config s) stat) (pg_stats s)))
      (map (\<lambda>(i, stat). (i, count_tick (pg_config s) stat)) (pg_stats s))"
    unfolding ping_tick_def tick_countdown_def Let_def fold_remove by simp
  have mem: "i \<in> set (map fst (filter (\<lambda>(i, stat). P stat) (pg_stats s))) \<longleftrightarrow> (\<exists>stat. map_of (pg_stats s) i = Some stat \<and> P stat)" for P
    using map_of_set_iff [OF assms] by force
  show "map_of (pg_stats (ping_tick s)) i = (case map_of (pg_stats s) i of
     Some stat \<Rightarrow> if has_failed (pg_config s) stat then None else Some (count_tick (pg_config s) stat) | None \<Rightarrow> None)"
    unfolding removed delete_all mem counted by (cases "map_of (pg_stats s) i") simp_all
  show "pg_ping (ping_tick s) = map fst (filter (\<lambda>(i, stat). is_due (pg_config s) stat) (pg_stats s))"
    "pg_failed (ping_tick s) = map fst (filter (\<lambda>(i, stat). has_failed (pg_config s) stat) (pg_stats s))"
    "pg_config (ping_tick s) = pg_config s"
    unfolding ping_tick_def tick_countdown_def Let_def fold_remove by simp_all
  show "hm_ok (pg_stats (ping_tick s))"
    unfolding removed by (intro delete_all(2)) (use assms in \<open>simp add: comp_def split_beta\<close>)
qed

subsection \<open>The contract of the module\<close>

text \<open>
  Every node is listed once and has been silent for less than the time after which it fails, and this time
  fits into 32 bits.
\<close>

definition fails_after :: "ping_config \<Rightarrow> nat" where
  "fails_after c = unat (timeout c) + unat (interval c)"

definition ping_ok :: "ping_module \<Rightarrow> bool" where
  "ping_ok p \<longleftrightarrow> hm_ok (pg_stats (pm_storage p)) \<and>
     0 < fails_after (pg_config (pm_storage p)) \<and> fails_after (pg_config (pm_storage p)) < 2 ^ 32 \<and>
     (\<forall>i stat. map_of (pg_stats (pm_storage p)) i = Some stat \<longrightarrow>
        unat (lastping stat) < fails_after (pg_config (pm_storage p)))"

lemma ping_okD:
  assumes "ping_ok p" and "map_of (pg_stats (pm_storage p)) i = Some stat"
  shows "hm_ok (pg_stats (pm_storage p))" and "fails_after (pg_config (pm_storage p)) < 2 ^ 32"
    and "unat (lastping stat) < fails_after (pg_config (pm_storage p))"
  using assms unfolding ping_ok_def by blast+

lemma count_ticks:
  assumes "fails_after c < 2 ^ 32" and "unat (lastping stat) < fails_after c"
  shows failed_nat: "has_failed c stat \<longleftrightarrow> fails_after c \<le> Suc (unat (lastping stat))"
    and due_nat: "is_due c stat \<longleftrightarrow> Suc (unat (lastping stat)) < fails_after c \<and> unat (interval c) \<le> Suc (unat (lastping stat))"
    and counted_nat: "unat (lastping (count_tick c stat)) = Suc (unat (lastping stat))"
proof -
  have sum: "unat (timeout c + interval c) = fails_after c"
    using assms(1) unfolding fails_after_def by (simp add: unat_word_ariths)
  have suc: "unat (lastping stat + 1) = Suc (unat (lastping stat))"
    using assms by (simp add: unat_word_ariths)
  show failed: "has_failed c stat \<longleftrightarrow> fails_after c \<le> Suc (unat (lastping stat))"
    unfolding has_failed_def word_le_nat_alt sum suc ..
  then show "is_due c stat \<longleftrightarrow> Suc (unat (lastping stat)) < fails_after c \<and> unat (interval c) \<le> Suc (unat (lastping stat))"
    unfolding is_due_def word_le_nat_alt suc by auto
  show "unat (lastping (count_tick c stat)) = Suc (unat (lastping stat))"
    unfolding count_tick_def Let_def using suc by simp
qed

lemma create_messages_out:
  "ping_create_messages p = (p', out) \<Longrightarrow> pg_stats (pm_storage p') = pg_stats (pm_storage p) \<and>
     pg_config (pm_storage p') = pg_config (pm_storage p) \<and>
     out = map (\<lambda>i. PingToNetwork i PingMsg) (pg_ping (pm_storage p)) @ map PingFailed (pg_failed (pm_storage p))"
  by (auto simp: ping_create_messages_def)

lemma ping_config_kept: "pg_config (pm_storage (fst (ping_process m p))) = pg_config (pm_storage p)"
  by (auto simp: ping_process_def ping_msg_tick_def ping_msg_network_def ping_create_messages_def Let_def pong_stats
      set_nodes_stats ping_remove_node_def ping_tick_def tick_countdown_def fold_remove split: ping_in.splits ping_message.splits)

lemma ping_stats_after:
  assumes "hm_ok (pg_stats (pm_storage p))"
  shows "hm_ok (pg_stats (pm_storage (fst (ping_process m p))))"
    and "map_of (pg_stats (pm_storage (fst (ping_process PingTick p)))) i =
      (case map_of (pg_stats (pm_storage p)) i of
         Some stat \<Rightarrow> if has_failed (pg_config (pm_storage p)) stat then None else Some (count_tick (pg_config (pm_storage p)) stat)
       | None \<Rightarrow> None)"
  using assms tick_hm [OF assms] tick_lookup [OF assms, of i]
  by (auto simp: ping_process_def ping_msg_tick_def ping_msg_network_def ping_create_messages_def Let_def pong_stats
      set_nodes_stats ping_remove_node_def split: ping_in.splits ping_message.splits)

lemma pong_lookup:
  "map_of (pg_stats (pong j s)) i =
     (if i = j then Some (case map_of (pg_stats s) j of Some stat \<Rightarrow> stat\<lparr>lastping := 0, ps_rx := ps_rx stat + 1\<rparr>
        | None \<Rightarrow> \<lparr>lastping = 0, ps_rx = 0, ps_tx = 1\<rparr>)
      else map_of (pg_stats s) i)"
  by (auto simp: pong_def add_node_stats split: option.splits)

lemma ping_ok_kept:
  assumes "ping_ok p"
  shows "ping_ok (fst (ping_process m p))"
proof -
  let ?c = "pg_config (pm_storage p)"
  have ok: "hm_ok (pg_stats (pm_storage p))" and pos: "0 < fails_after ?c" and small: "fails_after ?c < 2 ^ 32"
    and below: "\<And>i stat. map_of (pg_stats (pm_storage p)) i = Some stat \<Longrightarrow> unat (lastping stat) < fails_after ?c"
    using assms by (auto simp: ping_ok_def)
  have "unat (lastping stat) < fails_after ?c"
    if s: "map_of (pg_stats (pm_storage (fst (ping_process m p)))) i = Some stat" for i stat
  proof (cases "m = PingTick")
    case True
    then obtain old where old: "map_of (pg_stats (pm_storage p)) i = Some old" "\<not> has_failed ?c old" "stat = count_tick ?c old"
      using s ping_stats_after(2) [OF ok] by (auto split: option.splits if_splits)
    then show ?thesis
      using failed_nat [OF small below [OF old(1)]] counted_nat [OF small below [OF old(1)]] by simp
  next
    case False
    then have "lastping stat = 0 \<or> map_of (pg_stats (pm_storage p)) i = Some stat"
      using s by (auto simp: ping_process_def ping_msg_network_def set_nodes_stats pong_lookup ping_remove_node_def delete_conv
          split: ping_in.splits ping_message.splits if_splits option.splits)
    then show ?thesis using below pos by auto
  qed
  then show ?thesis
    unfolding ping_ok_def ping_config_kept using ping_stats_after(1) [OF ok] pos small by blast
qed

lemma ping_messages_handle_all:
  "handle_all (\<lambda>m s. Ok (ping_process m s)) ms p = Ok (ping_messages ms p)"
  by (induction ms arbitrary: p) (simp_all add: case_prod_unfold Let_def)

interpretation pg: subsystem "\<lambda>m s. Ok (ping_process m s)" "\<lambda>_. True" ping_ok "\<lambda>_. True"
proof (unfold_locales, goal_cases)
  case (1 s m)
  then show ?case using ping_ok_kept [of s m] by (cases "ping_process m s") (simp add: list_all_iff)
qed

lemma ping_messages_ok: "ping_ok p \<Longrightarrow> ping_ok (fst (ping_messages ms p))"
  using pg.all_kept [of p ms] by (auto simp: ping_messages_handle_all list_all_iff)

subsection \<open>A node that stays silent\<close>

text \<open>A message that is no sign of life from a node, and does not take it off the list.\<close>

definition quiet :: "u256 \<Rightarrow> ping_in \<Rightarrow> bool" where
  "quiet i m \<longleftrightarrow> (case m of
     PingTick \<Rightarrow> True
   | PingFromNetwork j msg \<Rightarrow> msg = PongMsg \<longrightarrow> j \<noteq> i
   | UpdateNodeList ids \<Rightarrow> i \<in> set ids
   | PingDisconnectNode j \<Rightarrow> j \<noteq> i)"

definition ping_ticks :: "ping_in list \<Rightarrow> nat" where
  "ping_ticks ms = count_list ms PingTick"

definition pings_to :: "u256 \<Rightarrow> ping_out list \<Rightarrow> nat" where
  "pings_to i out = count_list out (PingToNetwork i PingMsg)"

lemma ping_ticks_simps [simp]:
  "ping_ticks [] = 0" "ping_ticks (m # ms) = (if m = PingTick then Suc (ping_ticks ms) else ping_ticks ms)"
  by (simp_all add: ping_ticks_def)

lemma pings_to_simps [simp]: "pings_to i [] = 0" "pings_to i (xs @ ys) = pings_to i xs + pings_to i ys"
  by (simp_all add: pings_to_def)

lemma count_distinct: "distinct xs \<Longrightarrow> count_list xs x = (if x \<in> set xs then 1 else 0)"
  by (induction xs) auto

lemma pings_of_list: "pings_to i (map (\<lambda>j. PingToNetwork j PingMsg) js @ map PingFailed ks) = count_list js i"
proof -
  have "count_list (map PingFailed ks) (PingToNetwork i PingMsg) = 0" by (rule count_notin) auto
  moreover have "count_list (map (\<lambda>j. PingToNetwork j PingMsg) js) (PingToNetwork i PingMsg) = count_list js i"
    by (induction js) auto
  ultimately show ?thesis by (simp add: pings_to_def)
qed

lemma tick_out:
  assumes "hm_ok (pg_stats (pm_storage p))"
  shows "snd (ping_process PingTick p) =
     map (\<lambda>i. PingToNetwork i PingMsg) (map fst (filter (\<lambda>(i, stat). is_due (pg_config (pm_storage p)) stat) (pg_stats (pm_storage p)))) @
     map PingFailed (map fst (filter (\<lambda>(i, stat). has_failed (pg_config (pm_storage p)) stat) (pg_stats (pm_storage p))))"
  by (simp add: ping_process_def ping_msg_tick_def ping_create_messages_def Let_def tick_ping [OF assms] tick_failed [OF assms])

lemma tick_reports:
  assumes "hm_ok (pg_stats (pm_storage p))"
  shows "PingFailed i \<in> set (snd (ping_process PingTick p)) \<longleftrightarrow>
      (\<exists>stat. map_of (pg_stats (pm_storage p)) i = Some stat \<and> has_failed (pg_config (pm_storage p)) stat)"
    and "pings_to i (snd (ping_process PingTick p)) =
      (case map_of (pg_stats (pm_storage p)) i of
         Some stat \<Rightarrow> if is_due (pg_config (pm_storage p)) stat then 1 else 0 | None \<Rightarrow> 0)"
proof -
  have mem: "i \<in> set (map fst (filter (\<lambda>(i, stat). P stat) (pg_stats (pm_storage p)))) \<longleftrightarrow>
      (\<exists>stat. map_of (pg_stats (pm_storage p)) i = Some stat \<and> P stat)" for P
    using map_of_set_iff [OF assms] by force
  have fl: "PingFailed i \<in> set (map (\<lambda>j. PingToNetwork j PingMsg) js @ map PingFailed ks) \<longleftrightarrow> i \<in> set ks" for js ks
    by auto
  show "PingFailed i \<in> set (snd (ping_process PingTick p)) \<longleftrightarrow>
      (\<exists>stat. map_of (pg_stats (pm_storage p)) i = Some stat \<and> has_failed (pg_config (pm_storage p)) stat)"
    unfolding tick_out [OF assms] fl mem ..
  have "distinct (map fst (filter (\<lambda>(i, stat). is_due (pg_config (pm_storage p)) stat) (pg_stats (pm_storage p))))"
    using assms by (rule distinct_map_filter)
  from count_distinct [OF this, of i] show "pings_to i (snd (ping_process PingTick p)) =
      (case map_of (pg_stats (pm_storage p)) i of
         Some stat \<Rightarrow> if is_due (pg_config (pm_storage p)) stat then 1 else 0 | None \<Rightarrow> 0)"
    unfolding tick_out [OF assms] pings_of_list mem by (auto split: option.splits)
qed

lemma quiet_step:
  assumes "quiet i m" and "m \<noteq> PingTick"
  shows "map_of (pg_stats (pm_storage p)) i = Some stat \<Longrightarrow> map_of (pg_stats (pm_storage (fst (ping_process m p)))) i = Some stat"
    and "pings_to i (snd (ping_process m p)) = 0" and "PingFailed i \<notin> set (snd (ping_process m p))"
  using assms by (auto simp: quiet_def ping_process_def ping_msg_network_def set_nodes_stats pong_lookup ping_remove_node_def
      delete_conv pings_to_def split: ping_in.splits ping_message.splits)

text \<open>
  C19. The node \<open>i\<close> is failed by the tick that makes its silence as long as the timeout and the interval
  together: before that tick it is not reported, and with it the report is sent. Messages in between that
  are no answer of this node (pings, answers of others, lists it is on) make no difference.
\<close>
theorem silent_node_reported:
  assumes "ping_ok p" and "map_of (pg_stats (pm_storage p)) i = Some stat" and "list_all (quiet i) ms"
  shows "PingFailed i \<in> set (snd (ping_messages ms p)) \<longleftrightarrow>
    fails_after (pg_config (pm_storage p)) \<le> unat (lastping stat) + ping_ticks ms"
  using assms
proof (induction ms arbitrary: p stat)
  case Nil
  then show ?case using ping_okD(3) [OF Nil(1,2)] by simp
next
  case (Cons m ms)
  let ?c = "pg_config (pm_storage p)" and ?p1 = "fst (ping_process m p)"
  note hm = ping_okD(1) [OF Cons.prems(1,2)] and small = ping_okD(2) [OF Cons.prems(1,2)]
    and below = ping_okD(3) [OF Cons.prems(1,2)]
  have out: "PingFailed i \<in> set (snd (ping_messages (m # ms) p)) \<longleftrightarrow>
      PingFailed i \<in> set (snd (ping_process m p)) \<or> PingFailed i \<in> set (snd (ping_messages ms ?p1))"
    by (simp add: case_prod_unfold Let_def)
  note IH = Cons.IH [OF ping_ok_kept [OF Cons.prems(1)], of m, unfolded ping_config_kept]
  have quiet: "quiet i m" "list_all (quiet i) ms" using Cons.prems(3) by simp_all
  consider (other) "m \<noteq> PingTick" | (fails) "m = PingTick" "has_failed ?c stat" | (waits) "m = PingTick" "\<not> has_failed ?c stat"
    by blast
  then show ?case
  proof cases
    case other
    then show ?thesis
      unfolding out using quiet_step [OF quiet(1) other] IH [OF _ quiet(2)] Cons.prems(2) by simp
  next
    case fails
    then show ?thesis
      unfolding out using tick_reports(1) [OF hm] failed_nat [OF small below] Cons.prems(2) by auto
  next
    case waits
    then have "map_of (pg_stats (pm_storage ?p1)) i = Some (count_tick ?c stat)"
      using ping_stats_after(2) [OF hm] Cons.prems(2) by simp
    from IH [OF this quiet(2)] show ?thesis
      unfolding out using waits tick_reports(1) [OF hm] counted_nat [OF small below] Cons.prems(2) by simp
  qed
qed

theorem silent_node_reported_witness:
  "PingFailed u256_zero \<in> set (snd (ping_messages [PingTick, PingFromNetwork u256_zero PingMsg, PingTick, PingTick]
     (fst (ping_process (UpdateNodeList [u256_zero]) (ping_new \<lparr>interval = 1, timeout = 2\<rparr>))))) \<and>
   PingFailed u256_zero \<notin> set (snd (ping_messages [PingTick, PingTick]
     (fst (ping_process (UpdateNodeList [u256_zero]) (ping_new \<lparr>interval = 1, timeout = 2\<rparr>)))))"
proof -
  let ?p = "fst (ping_process (UpdateNodeList [u256_zero]) (ping_new \<lparr>interval = 1, timeout = 2\<rparr>))"
  let ?stat = "\<lparr>lastping = 0, ps_rx = 0, ps_tx = 1\<rparr> :: ping_stat"
  have "ping_ok (ping_new \<lparr>interval = 1, timeout = 2\<rparr>)"
    by (simp add: ping_ok_def ping_new_def ping_storage_new_def fails_after_def)
  then have ok: "ping_ok ?p" by (rule ping_ok_kept)
  have stat: "map_of (pg_stats (pm_storage ?p)) u256_zero = Some ?stat"
    by (simp add: ping_process_def ping_new_def ping_storage_new_def set_nodes_stats)
  have after: "fails_after (pg_config (pm_storage ?p)) = 3"
    by (simp add: ping_config_kept ping_new_def ping_storage_new_def fails_after_def)
  show ?thesis
    using silent_node_reported [OF ok stat, of "[PingTick, PingFromNetwork u256_zero PingMsg, PingTick, PingTick]"]
      silent_node_reported [OF ok stat, of "[PingTick, PingTick]"] after by (simp add: quiet_def)
qed

text \<open>
  The pings a silent node gets: none before its silence has lasted an interval, and one with every tick
  from there on. A node that is new on the list starts as if it had just answered, with one ping counted
  as sent: this ping is queued but the next tick clears the queue before it sends anything.
\<close>
theorem pings_of_silence:
  assumes "ping_ok p" and "map_of (pg_stats (pm_storage p)) i = Some stat" and "list_all (quiet i) ms"
    and "unat (lastping stat) + ping_ticks ms < fails_after (pg_config (pm_storage p))"
  shows "pings_to i (snd (ping_messages ms p)) =
    length (filter (\<lambda>k. unat (interval (pg_config (pm_storage p))) \<le> k)
      [Suc (unat (lastping stat)) ..< Suc (unat (lastping stat) + ping_ticks ms)])"
  using assms
proof (induction ms arbitrary: p stat)
  case Nil
  then show ?case by simp
next
  case (Cons m ms)
  let ?c = "pg_config (pm_storage p)" and ?p1 = "fst (ping_process m p)"
  note hm = ping_okD(1) [OF Cons.prems(1,2)] and small = ping_okD(2) [OF Cons.prems(1,2)]
    and below = ping_okD(3) [OF Cons.prems(1,2)]
  have out: "pings_to i (snd (ping_messages (m # ms) p)) =
      pings_to i (snd (ping_process m p)) + pings_to i (snd (ping_messages ms ?p1))"
    by (simp add: case_prod_unfold Let_def)
  note IH = Cons.IH [OF ping_ok_kept [OF Cons.prems(1)], of m, unfolded ping_config_kept]
  have quiet: "quiet i m" "list_all (quiet i) ms" using Cons.prems(3) by simp_all
  show ?case
  proof (cases "m = PingTick")
    case False
    then show ?thesis
      unfolding out using quiet_step [OF quiet(1) False] IH [OF _ quiet(2)] Cons.prems(2,4) by simp
  next
    case True
    with Cons.prems(4) have more: "Suc (unat (lastping stat)) + ping_ticks ms < fails_after ?c" by simp
    with True have "\<not> has_failed ?c stat" using failed_nat [OF small below] by simp
    with True have now: "map_of (pg_stats (pm_storage ?p1)) i = Some (count_tick ?c stat)"
      using ping_stats_after(2) [OF hm] Cons.prems(2) by simp
    from IH [OF now quiet(2)] more show ?thesis
      unfolding out using True tick_reports(2) [OF hm, of i] counted_nat [OF small below] due_nat [OF small below] Cons.prems(2)
      by (simp add: upt_conv_Cons del: upt_Suc)
  qed
qed

theorem pings_of_silence_witness:
  "pings_to u256_zero (snd (ping_messages (replicate 7 PingTick)
     (fst (ping_process (UpdateNodeList [u256_zero]) (ping_new ping_config_default))))) = 3"
proof -
  let ?p = "fst (ping_process (UpdateNodeList [u256_zero]) (ping_new ping_config_default))"
  let ?stat = "\<lparr>lastping = 0, ps_rx = 0, ps_tx = 1\<rparr> :: ping_stat"
  have "ping_ok (ping_new ping_config_default)"
    by (simp add: ping_ok_def ping_new_def ping_storage_new_def fails_after_def ping_config_default_def)
  then have ok: "ping_ok ?p" by (rule ping_ok_kept)
  have stat: "map_of (pg_stats (pm_storage ?p)) u256_zero = Some ?stat"
    by (simp add: ping_process_def ping_new_def ping_storage_new_def set_nodes_stats)
  have config: "pg_config (pm_storage ?p) = ping_config_default"
    by (simp add: ping_config_kept ping_new_def ping_storage_new_def)
  have ticks: "ping_ticks (replicate 7 PingTick) = 7" by (simp add: numeral_eq_Suc)
  show ?thesis
    using pings_of_silence [OF ok stat, of "replicate 7 PingTick"] config ticks
    by (simp add: quiet_def list_all_iff fails_after_def ping_config_default_def upt_rec)
qed

end
