(* ===== verification/WebProxy.thy ===== *)
theory WebProxy
  imports RouterMsg
begin

text \<open>
  The web proxy, \<open>flmodules/src/web_proxy\<close>: \<open>core.rs\<close>, \<open>messages.rs\<close>, \<open>response.rs\<close> and the links of
  \<open>broker.rs\<close>. A node asks another one to fetch a web page; the answer comes back as a header and
  the parts of the body. The channel on which the caller reads the body is a number, and what a handler
  starts with \<open>spawn_local\<close> is a task: the tasks of a node run in any order, as they do on the
  multi-threaded scheduler of a native node. The HTTP client \<open>reqwest\<close> is a parameter.
\<close>

subsection \<open>Messages\<close>

record response_status =
  rst_code :: "16 word"
  rst_msg :: string

record response_header =
  rh_status :: response_status
  rh_headers :: "(string, string list) hashmap"

datatype response_message = RespHeader response_header | RespBody bytes | RespError string | RespDone

datatype wp_message = Request u256 string | Response u256 response_message

datatype wp_in = WpFromNetwork u256 wp_message | NodeInfoConnected "node_info list" | RequestGet u256 string nat

datatype wp_out = WpToNetwork u256 wp_message | ResponseGet u256 u256 response_header

text \<open>
  An answer of \<open>reqwest\<close>: the status, the header lines (the value as a text, if it is one) and the parts of
  the body as they arrive, \<open>None\<close> for a part that fails.
\<close>

record http_response =
  hr_status :: "16 word"
  hr_headers :: "(string \<times> string option) list"
  hr_chunks :: "bytes option list"

type_synonym http = "string \<Rightarrow> string + http_response"

fun header_lines :: "(string \<times> string option) list \<Rightarrow> (string, string list) hashmap \<Rightarrow> (unit, (string, string list) hashmap) outcome" where
  "header_lines [] headers = Ok headers"
| "header_lines ((k, v) # lines) headers =
     bind_outcome (expect v) (\<lambda>v. header_lines lines
       (AList.update k ((case map_of headers k of Some values \<Rightarrow> values | None \<Rightarrow> []) @ [v]) headers))"

definition response_header_from :: "http_response \<Rightarrow> (unit, response_header) outcome" where
  "response_header_from r = bind_outcome (header_lines (hr_headers r) []) (\<lambda>headers.
     Ok \<lparr>rh_status = \<lparr>rst_code = hr_status r, rst_msg = ''''\<rparr>, rh_headers = headers\<rparr>)"

subsection \<open>The core\<close>

record wp_counters =
  rx_requests :: u32
  tx_requests :: u32
  rx_packets :: u32
  tx_packets :: u32

record web_proxy_core =
  wp_counters :: wp_counters
  wp_nodes :: node_ids
  wp_our_id :: u256
  wp_node_index :: nat
  wp_requests :: "(u256, u256 \<times> nat) hashmap"
  wp_published :: wp_counters

text \<open>\<open>wp_published\<close> is what the watch channel \<open>tx\<close> of \<open>Messages\<close> shows.\<close>

definition counters_default :: wp_counters where
  "counters_default = \<lparr>rx_requests = 0, tx_requests = 0, rx_packets = 0, tx_packets = 0\<rparr>"

definition web_proxy_new :: "wp_counters \<Rightarrow> u256 \<Rightarrow> web_proxy_core" where
  "web_proxy_new counters our_id =
     \<lparr>wp_counters = counters, wp_nodes = [], wp_our_id = our_id, wp_node_index = 0, wp_requests = [], wp_published = counters\<rparr>"

text \<open>What a handler starts: the task that puts a part of the body into the caller's channel, and the one that fetches a page for another node.\<close>

datatype wp_task = SendBody nat bytes | Fetch u256 u256 string | Emitting "wp_out list"

datatype wp_effect = Emit wp_out | Spawn wp_task

definition core_node_list :: "node_ids \<Rightarrow> web_proxy_core \<Rightarrow> web_proxy_core" where
  "core_node_list nodes c = c\<lparr>wp_nodes := snd (ids_remove_missing nodes [wp_our_id c])\<rparr>"

definition get_node :: "web_proxy_core \<Rightarrow> web_proxy_core \<times> u256 option" where
  "get_node c =
     (if wp_nodes c = [] then (c, None)
      else let i = wp_node_index c mod length (wp_nodes c)
           in (c\<lparr>wp_node_index := i + 1\<rparr>, Some (wp_nodes c ! i)))"

definition core_request_get :: "u256 \<Rightarrow> nat \<Rightarrow> web_proxy_core \<Rightarrow> web_proxy_core \<times> u256 option" where
  "core_request_get rnd tx c =
     (let (c, node) = get_node c
      in case node of
           Some n \<Rightarrow> (c\<lparr>wp_requests := AList.update rnd (n, tx) (wp_requests c)\<rparr>, Some n)
         | None \<Rightarrow> (c, None))"

definition count_rx :: "web_proxy_core \<Rightarrow> web_proxy_core" where
  "count_rx c = c\<lparr>wp_counters := (wp_counters c)\<lparr>rx_packets := rx_packets (wp_counters c) + 1\<rparr>\<rparr>"

definition core_handle_response ::
  "u256 \<Rightarrow> response_message \<Rightarrow> web_proxy_core \<Rightarrow> web_proxy_core \<times> response_header option \<times> wp_task list" where
  "core_handle_response nonce msg c =
     (case map_of (wp_requests c) nonce of
        None \<Rightarrow> (c, None, [])
      | Some (node, tx) \<Rightarrow> (case msg of
          RespHeader header \<Rightarrow> (count_rx c, Some header, [])
        | RespBody body \<Rightarrow> (count_rx c, None, [SendBody tx body])
        | RespDone \<Rightarrow> (c\<lparr>wp_requests := AList.delete nonce (wp_requests c)\<rparr>, None, [])
        | RespError err \<Rightarrow> (c, None, [])))"

subsection \<open>The message handlers\<close>

definition wp_handle_response :: "u256 \<Rightarrow> u256 \<Rightarrow> response_message \<Rightarrow> web_proxy_core \<Rightarrow> web_proxy_core \<times> wp_effect list" where
  "wp_handle_response src nonce msg c =
     (let (c, header, tasks) = core_handle_response nonce msg c
      in (c, map Spawn tasks @ (case header of Some h \<Rightarrow> [Emit (ResponseGet src nonce h)] | None \<Rightarrow> [])))"

definition wp_start_request :: "u256 \<Rightarrow> u256 \<Rightarrow> string \<Rightarrow> web_proxy_core \<Rightarrow> web_proxy_core \<times> wp_effect list" where
  "wp_start_request src nonce request c = (c, [Spawn (Fetch src nonce request)])"

definition wp_request_get :: "u256 \<Rightarrow> string \<Rightarrow> nat \<Rightarrow> web_proxy_core \<Rightarrow> web_proxy_core \<times> wp_effect list" where
  "wp_request_get rnd url tx c =
     (let (c, node) = core_request_get rnd tx c
      in (c, case node of Some n \<Rightarrow> [Emit (WpToNetwork n (Request rnd url))] | None \<Rightarrow> []))"

definition wp_node_list :: "node_info list \<Rightarrow> web_proxy_core \<Rightarrow> (unit, web_proxy_core \<times> wp_effect list) outcome" where
  "wp_node_list nodes c =
     bind_outcome (get_ids (filter (\<lambda>ni. ni_modules ni AND webproxy_requests = webproxy_requests) nodes)) (\<lambda>ids.
       Ok (core_node_list ids c, []))"

definition wp_node_message :: "u256 \<Rightarrow> wp_message \<Rightarrow> web_proxy_core \<Rightarrow> web_proxy_core \<times> wp_effect list" where
  "wp_node_message src msg c =
     (let (c, out) = (case msg of
        Request nonce request \<Rightarrow> wp_start_request src nonce request c
      | Response nonce response \<Rightarrow> wp_handle_response src nonce response c)
      in (c\<lparr>wp_published := wp_counters c\<rparr>, out))"

definition wp_process :: "wp_in \<Rightarrow> web_proxy_core \<Rightarrow> (unit, web_proxy_core \<times> wp_effect list) outcome" where
  "wp_process msg c = (case msg of
     WpFromNetwork src node_msg \<Rightarrow> Ok (wp_node_message src node_msg c)
   | NodeInfoConnected ids \<Rightarrow> wp_node_list ids c
   | RequestGet rnd url tx \<Rightarrow> Ok (wp_request_get rnd url tx c))"

definition wp_process_messages :: "wp_in list \<Rightarrow> web_proxy_core \<Rightarrow> (unit, web_proxy_core \<times> wp_effect list) outcome" where
  "wp_process_messages = handle_all wp_process"

text \<open>
  What the task of \<open>start_request\<close> sends, in this order. It stops with a panic at a header line that is not a
  text, and at the first part of the body that fails; after the whole body it says twice that it is done.
\<close>

fun chunk_msgs :: "bytes option list \<Rightarrow> response_message list" where
  "chunk_msgs [] = [RespDone, RespDone]"
| "chunk_msgs (Some b # chunks) = RespBody b # chunk_msgs chunks"
| "chunk_msgs (None # chunks) = []"

definition fetch_msgs :: "http \<Rightarrow> string \<Rightarrow> response_message list" where
  "fetch_msgs http url = (case http url of
     Inl e \<Rightarrow> [RespError e]
   | Inr resp \<Rightarrow> (case response_header_from resp of
       Ok header \<Rightarrow> RespHeader header # chunk_msgs (hr_chunks resp)
     | _ \<Rightarrow> []))"

definition fetch :: "http \<Rightarrow> u256 \<Rightarrow> u256 \<Rightarrow> string \<Rightarrow> wp_out list" where
  "fetch http src nonce url = map (\<lambda>m. WpToNetwork src (Response nonce m)) (fetch_msgs http url)"

subsection \<open>The links to the router\<close>

definition proxy_module :: string where
  "proxy_module = ''WebProxy''"

definition link_router_proxy :: "wp_message codec \<Rightarrow> router_out \<Rightarrow> wp_in option" where
  "link_router_proxy yaml msg = (case msg of
     NodeInfosConnected list \<Rightarrow> Some (NodeInfoConnected list)
   | NetworkWrapperFromNetwork i w \<Rightarrow> map_option (WpFromNetwork i) (unwrap_yaml yaml proxy_module w)
   | _ \<Rightarrow> None)"

definition link_proxy_router :: "wp_message codec \<Rightarrow> wp_out \<Rightarrow> (unit, router_in option) outcome" where
  "link_proxy_router yaml msg = (case msg of
     WpToNetwork i msg_node \<Rightarrow>
       bind_outcome (expect (wrap_yaml yaml proxy_module msg_node)) (\<lambda>w. Ok (Some (NetworkWrapperToNetwork i w)))
   | ResponseGet _ _ _ \<Rightarrow> Ok None)"

subsection \<open>A node with its tasks and channels\<close>

text \<open>
  A channel as \<open>get\<close> opens it: 128 places, the side of the reader, and what \<open>Response::bytes\<close> has read so far.
\<close>

record wp_channel =
  ch_queue :: "bytes list"
  ch_open :: bool
  ch_read :: "bytes list"

definition channel_new :: wp_channel where
  "channel_new = \<lparr>ch_queue = [], ch_open = True, ch_read = []\<rparr>"

record wp_node =
  wn_core :: web_proxy_core
  wn_tasks :: "wp_task list"
  wn_chans :: "nat \<Rightarrow> wp_channel"

definition wp_node_new :: "web_proxy_core \<Rightarrow> wp_node" where
  "wp_node_new core = \<lparr>wn_core = core, wn_tasks = [], wn_chans = (\<lambda>_. channel_new)\<rparr>"

datatype wp_event = Handle "wp_in list" | RunTask nat | TakeChunk nat | DropReader nat

definition emitted :: "wp_effect list \<Rightarrow> wp_out list" where
  "emitted es = List.map_filter (\<lambda>e. case e of Emit out \<Rightarrow> Some out | Spawn _ \<Rightarrow> None) es"

definition spawned :: "wp_effect list \<Rightarrow> wp_task list" where
  "spawned es = List.map_filter (\<lambda>e. case e of Spawn t \<Rightarrow> Some t | Emit _ \<Rightarrow> None) es"

text \<open>
  One turn of a task: what is left of it, the channels and what it emits. Sending waits while the channel is
  full (\<open>None\<close>), and panics when the reader is gone, which ends the task.
\<close>

definition task_turn :: "http \<Rightarrow> wp_task \<Rightarrow> (nat \<Rightarrow> wp_channel) \<Rightarrow> (wp_task list \<times> (nat \<Rightarrow> wp_channel) \<times> wp_out list) option" where
  "task_turn http t chans = (case t of
     SendBody tx body \<Rightarrow>
       (if \<not> ch_open (chans tx) then Some ([], chans, [])
        else if length (ch_queue (chans tx)) < 128
        then Some ([], chans(tx := (chans tx)\<lparr>ch_queue := ch_queue (chans tx) @ [body]\<rparr>), [])
        else None)
   | Fetch src nonce url \<Rightarrow> Some ([Emitting (fetch http src nonce url)], chans, [])
   | Emitting outs \<Rightarrow> (case outs of [] \<Rightarrow> Some ([], chans, []) | out # rest \<Rightarrow> Some ([Emitting rest], chans, [out])))"

definition run_task :: "http \<Rightarrow> nat \<Rightarrow> wp_node \<Rightarrow> (wp_node \<times> wp_out list) option" where
  "run_task http k n =
     (if k < length (wn_tasks n)
      then map_option (\<lambda>(ts, chans, out).
             (n\<lparr>wn_tasks := take k (wn_tasks n) @ ts @ drop (Suc k) (wn_tasks n), wn_chans := chans\<rparr>, out))
           (task_turn http (wn_tasks n ! k) (wn_chans n))
      else None)"

definition wp_handle :: "wp_in list \<Rightarrow> wp_node \<Rightarrow> (wp_node \<times> wp_out list) option" where
  "wp_handle msgs n = (case wp_process_messages msgs (wn_core n) of
     Ok (c, es) \<Rightarrow> Some (n\<lparr>wn_core := c, wn_tasks := wn_tasks n @ spawned es\<rparr>, emitted es)
   | _ \<Rightarrow> None)"

text \<open>\<open>Response::chunk\<close>, as \<open>Response::bytes\<close> calls it.\<close>

definition take_chunk :: "nat \<Rightarrow> wp_node \<Rightarrow> (wp_node \<times> wp_out list) option" where
  "take_chunk tx n = (let ch = wn_chans n tx in
     if ch_open ch \<and> ch_queue ch \<noteq> []
     then Some (n\<lparr>wn_chans := (wn_chans n)(tx := ch\<lparr>ch_queue := tl (ch_queue ch), ch_read := ch_read ch @ [hd (ch_queue ch)]\<rparr>)\<rparr>, [])
     else None)"

definition drop_reader :: "nat \<Rightarrow> wp_node \<Rightarrow> wp_node" where
  "drop_reader tx n = n\<lparr>wn_chans := (wn_chans n)(tx := (wn_chans n tx)\<lparr>ch_open := False, ch_queue := []\<rparr>)\<rparr>"

definition wp_event_step :: "http \<Rightarrow> wp_event \<Rightarrow> wp_node \<Rightarrow> (wp_node \<times> wp_out list) option" where
  "wp_event_step http ev n = (case ev of
     Handle msgs \<Rightarrow> wp_handle msgs n
   | RunTask k \<Rightarrow> run_task http k n
   | TakeChunk tx \<Rightarrow> take_chunk tx n
   | DropReader tx \<Rightarrow> Some (drop_reader tx n, []))"

text \<open>A run, \<open>None\<close> if one of its events is not possible when its turn comes.\<close>

fun wp_run :: "http \<Rightarrow> wp_event list \<Rightarrow> wp_node \<Rightarrow> (wp_node \<times> wp_out list) option" where
  "wp_run http [] n = Some (n, [])"
| "wp_run http (ev # evs) n = Option.bind (wp_event_step http ev n) (\<lambda>(n1, out1).
     Option.bind (wp_run http evs n1) (\<lambda>(n2, out2). Some (n2, out1 @ out2)))"

text \<open>The reader sees the end of the body when nobody can send on its channel any more.\<close>

definition at_end :: "nat \<Rightarrow> wp_node \<Rightarrow> bool" where
  "at_end tx n \<longleftrightarrow> ch_queue (wn_chans n tx) = [] \<and> tx \<notin> (snd \<circ> snd) ` set (wp_requests (wn_core n)) \<and>
     (\<forall>b. SendBody tx b \<notin> set (wn_tasks n))"

subsection \<open>Choosing a proxy\<close>

text \<open>
  Requests go to the known proxies in turn: with the nodes of the list fixed, the \<open>k\<close>-th request goes to the
  node \<open>k\<close> places after the one whose turn it is, round and round, so that any run of as many requests as
  there are proxies asks every one of them.
\<close>
theorem requests_go_round:
  assumes "wp_nodes c \<noteq> []"
  shows "\<exists>c' out. wp_process_messages (map (\<lambda>(rnd, url, tx). RequestGet rnd url tx) reqs) c = Ok (c', out) \<and>
    wp_nodes c' = wp_nodes c \<and> length out = length reqs \<and>
    (\<forall>k < length reqs. out ! k = Emit (WpToNetwork (wp_nodes c ! ((wp_node_index c + k) mod length (wp_nodes c)))
       (Request (fst (reqs ! k)) (fst (snd (reqs ! k))))))"
  using assms unfolding wp_process_messages_def
proof (induction reqs arbitrary: c)
  case Nil
  then show ?case by simp
next
  case (Cons r reqs)
  obtain rnd url tx where r: "r = (rnd, url, tx)" by (cases r)
  let ?i = "wp_node_index c mod length (wp_nodes c)"
  let ?c1 = "c\<lparr>wp_node_index := ?i + 1, wp_requests := AList.update rnd (wp_nodes c ! ?i, tx) (wp_requests c)\<rparr>"
  have one: "wp_process (RequestGet rnd url tx) c = Ok (?c1, [Emit (WpToNetwork (wp_nodes c ! ?i) (Request rnd url))])"
    using Cons.prems by (simp add: wp_process_def wp_request_get_def core_request_get_def get_node_def Let_def)
  have "wp_nodes ?c1 \<noteq> []" using Cons.prems by simp
  from Cons.IH [OF this] obtain c' out where rest:
    "handle_all wp_process (map (\<lambda>(rnd, url, tx). RequestGet rnd url tx) reqs) ?c1 = Ok (c', out)"
    "wp_nodes c' = wp_nodes ?c1" "length out = length reqs"
    and nth: "\<And>k. k < length reqs \<Longrightarrow> out ! k = Emit (WpToNetwork (wp_nodes ?c1 ! ((wp_node_index ?c1 + k) mod length (wp_nodes ?c1)))
       (Request (fst (reqs ! k)) (fst (snd (reqs ! k)))))"
    by blast
  have turn: "(?i + 1 + k) mod length (wp_nodes c) = (wp_node_index c + Suc k) mod length (wp_nodes c)" for k
    using mod_add_left_eq [of "wp_node_index c" "length (wp_nodes c)" "Suc k"] by simp
  have "(Emit (WpToNetwork (wp_nodes c ! ?i) (Request rnd url)) # out) ! k =
      Emit (WpToNetwork (wp_nodes c ! ((wp_node_index c + k) mod length (wp_nodes c)))
       (Request (fst ((r # reqs) ! k)) (fst (snd ((r # reqs) ! k)))))" if "k < length (r # reqs)" for k
  proof (cases k)
    case (Suc j)
    then show ?thesis using that nth [of j] turn [of j] by simp
  qed (simp add: r)
  then show ?case using rest by (simp add: r one)
qed

theorem requests_go_round_witness:
  "\<exists>c out. wp_process_messages [RequestGet (U256 [1]) ''a'' 1, RequestGet (U256 [2]) ''b'' 2, RequestGet (U256 [3]) ''c'' 3]
     (core_node_list [U256 [7], U256 [0], U256 [8]] (web_proxy_new counters_default (U256 [0]))) =
     Ok (c, out) \<and> out ! 2 = Emit (WpToNetwork (U256 [7]) (Request (U256 [3]) ''c''))"
proof -
  let ?c = "core_node_list [U256 [7], U256 [0], U256 [8]] (web_proxy_new counters_default (U256 [0]))"
  have nodes: "wp_nodes ?c = [U256 [7], U256 [8]]" "wp_node_index ?c = 0"
    by (simp_all add: core_node_list_def web_proxy_new_def ids_remove_missing_filter)
  then have "wp_nodes ?c \<noteq> []" by simp
  from requests_go_round [OF this, of "[(U256 [1], ''a'', 1), (U256 [2], ''b'', 2), (U256 [3], ''c'', 3)]"] obtain c out where
    "wp_process_messages [RequestGet (U256 [1]) ''a'' 1, RequestGet (U256 [2]) ''b'' 2, RequestGet (U256 [3]) ''c'' 3] ?c = Ok (c, out)"
    and nth: "\<forall>k < 3. out ! k = Emit (WpToNetwork (wp_nodes ?c ! ((wp_node_index ?c + k) mod length (wp_nodes ?c)))
       (Request (fst ([(U256 [1], ''a'', 1::nat), (U256 [2], ''b'', 2), (U256 [3], ''c'', 3)] ! k)) (fst (snd ([(U256 [1], ''a'', 1::nat), (U256 [2], ''b'', 2), (U256 [3], ''c'', 3)] ! k)))))"
    by (auto simp: numeral_3_eq_3)
  with nth [rule_format, of 2] show ?thesis by (simp add: nodes numeral_2_eq_2)
qed

subsection \<open>The body on its way to the reader\<close>

fun sending :: "nat \<Rightarrow> wp_task list \<Rightarrow> bytes list" where
  "sending tx [] = []"
| "sending tx (SendBody t b # ts) = (if t = tx then b # sending tx ts else sending tx ts)"
| "sending tx (_ # ts) = sending tx ts"

lemma sending_append [simp]: "sending tx (a @ b) = sending tx a @ sending tx b"
  by (induction tx a rule: sending.induct) auto

lemma sending_empty: "sending tx ts = [] \<longleftrightarrow> (\<forall>b. SendBody tx b \<notin> set ts)"
  by (induction tx ts rule: sending.induct) auto

lemma sending_one: "sending tx [t] = (case t of SendBody t' b \<Rightarrow> if t' = tx then [b] else [] | _ \<Rightarrow> [])"
  by (cases t) auto

definition in_flight :: "nat \<Rightarrow> wp_node \<Rightarrow> bytes list" where
  "in_flight tx n = ch_read (wn_chans n tx) @ ch_queue (wn_chans n tx) @ sending tx (wn_tasks n)"

lemma effects_simps [simp]:
  "spawned [] = []" "spawned (Spawn t # es) = t # spawned es" "spawned (Emit out # es) = spawned es"
  "spawned (xs @ ys) = spawned xs @ spawned ys"
  "emitted [] = []" "emitted (Spawn t # es) = emitted es" "emitted (Emit out # es) = out # emitted es"
  "emitted (xs @ ys) = emitted xs @ emitted ys"
  by (simp_all add: spawned_def emitted_def List.map_filter_def)

text \<open>What arrives in answer to a request, up to the message that ends it.\<close>

fun bodies :: "u256 \<Rightarrow> wp_in list \<Rightarrow> bytes list" where
  "bodies nonce [] = []"
| "bodies nonce (WpFromNetwork src (Response r (RespBody b)) # ms) = (if r = nonce then b # bodies nonce ms else bodies nonce ms)"
| "bodies nonce (WpFromNetwork src (Response r RespDone) # ms) = (if r = nonce then [] else bodies nonce ms)"
| "bodies nonce (_ # ms) = bodies nonce ms"

definition ends :: "u256 \<Rightarrow> wp_in \<Rightarrow> bool" where
  "ends nonce m \<longleftrightarrow> (\<exists>src. m = WpFromNetwork src (Response nonce RespDone))"

lemma bodies_append: "bodies nonce (a @ b) = bodies nonce a @ (if list_ex (ends nonce) a then [] else bodies nonce b)"
  by (induction nonce a rule: bodies.induct) (auto simp: ends_def)

text \<open>A message does not open another request under the same number or with the same channel.\<close>

definition apart :: "u256 \<Rightarrow> nat \<Rightarrow> wp_in \<Rightarrow> bool" where
  "apart nonce tx m \<longleftrightarrow> (case m of RequestGet rnd url t \<Rightarrow> rnd \<noteq> nonce \<and> t \<noteq> tx | _ \<Rightarrow> True)"

text \<open>The request is the only one that sends to the channel.\<close>

definition only_user :: "u256 \<Rightarrow> nat \<Rightarrow> web_proxy_core \<Rightarrow> bool" where
  "only_user nonce tx c \<longleftrightarrow> hm_ok (wp_requests c) \<and>
     (\<forall>k x t. map_of (wp_requests c) k = Some (x, t) \<longrightarrow> (k = nonce \<longleftrightarrow> t = tx))"

definition waiting :: "u256 \<Rightarrow> web_proxy_core \<Rightarrow> bool" where
  "waiting nonce c \<longleftrightarrow> map_of (wp_requests c) nonce \<noteq> None"

lemma only_user_same: "wp_requests c' = wp_requests c \<Longrightarrow> only_user nonce tx c' = only_user nonce tx c"
  by (simp add: only_user_def)

lemma only_user_update [simp]:
  "only_user nonce tx (wp_published_update f c) = only_user nonce tx c"
  "only_user nonce tx (wp_counters_update f c) = only_user nonce tx c"
  "only_user nonce tx (wp_nodes_update g c) = only_user nonce tx c"
  by (rule only_user_same, simp)+

lemma only_userD: "only_user nonce tx c \<Longrightarrow> map_of (wp_requests c) nonce = Some (x, t) \<Longrightarrow> t = tx"
  unfolding only_user_def by blast

lemma message_effect:
  assumes "wp_process m c = Ok (c', es)" and "only_user nonce tx c" and "apart nonce tx m"
  shows "only_user nonce tx c'"
    and "waiting nonce c' \<longleftrightarrow> waiting nonce c \<and> \<not> ends nonce m"
    and "sending tx (spawned es) = (if waiting nonce c then bodies nonce [m] else [])"
proof -
  have "only_user nonce tx c' \<and> (waiting nonce c' \<longleftrightarrow> waiting nonce c \<and> \<not> ends nonce m) \<and>
      sending tx (spawned es) = (if waiting nonce c then bodies nonce [m] else [])"
  proof (cases m)
    case (WpFromNetwork src msg)
    show ?thesis
    proof (cases msg)
      case (Request r url)
      with assms WpFromNetwork show ?thesis
        by (auto simp: wp_process_def wp_node_message_def wp_start_request_def ends_def waiting_def)
    next
      case (Response r resp)
      show ?thesis
      proof (cases "map_of (wp_requests c) r")
        case None
        with assms(1) WpFromNetwork Response have "wp_requests c' = wp_requests c" "es = []"
          by (auto simp: wp_process_def wp_node_message_def wp_handle_response_def core_handle_response_def)
        with None show ?thesis
          using assms(2) by (cases resp) (auto simp: WpFromNetwork Response ends_def waiting_def only_user_same [of c' c])
      next
        case (Some q)
        obtain x t where q: "q = (x, t)" by (cases q)
        have chan: "r = nonce \<longleftrightarrow> t = tx" using assms(2) Some q unfolding only_user_def by blast
        have is_waiting: "waiting nonce c" if "r = nonce" using that Some by (simp add: waiting_def)
        show ?thesis
        proof (cases resp)
          case RespDone
          with assms(1) WpFromNetwork Response Some q have c': "wp_requests c' = AList.delete r (wp_requests c)" and es: "es = []"
            by (auto simp: wp_process_def wp_node_message_def wp_handle_response_def core_handle_response_def)
          have "only_user nonce tx c'"
            using assms(2) unfolding only_user_def c' map_of_delete by auto
          moreover have "waiting nonce c' \<longleftrightarrow> waiting nonce c \<and> r \<noteq> nonce" unfolding waiting_def c' by auto
          ultimately show ?thesis using RespDone by (simp add: WpFromNetwork Response ends_def es)
        qed (use assms(1,2) WpFromNetwork Response Some q chan is_waiting in
          \<open>auto simp: wp_process_def wp_node_message_def wp_handle_response_def core_handle_response_def count_rx_def
             ends_def waiting_def\<close>)
      qed
    qed
  next
    case (NodeInfoConnected nis)
    with assms show ?thesis
      by (auto simp: wp_process_def wp_node_list_def bind_outcome_Ok core_node_list_def ends_def waiting_def)
  next
    case (RequestGet rnd url t)
    then have other: "rnd \<noteq> nonce" "t \<noteq> tx" using assms(3) by (simp_all add: apart_def)
    have "spawned es = []" and "wp_requests c' = wp_requests c \<or> (\<exists>n. wp_requests c' = AList.update rnd (n, t) (wp_requests c))"
      using assms(1) RequestGet by (auto simp: wp_process_def wp_request_get_def core_request_get_def get_node_def Let_def
          split: if_splits)
    moreover have "only_user nonce tx c'" if "wp_requests c' = AList.update rnd (n, t) (wp_requests c)" for n
      using assms(2) other unfolding only_user_def that map_of_update by (auto simp del: map_of_eq_Some_iff)
    ultimately show ?thesis
      using assms(2) other RequestGet by (auto simp: ends_def waiting_def only_user_same [of c' c])
  qed
  then show "only_user nonce tx c'"
    and "waiting nonce c' \<longleftrightarrow> waiting nonce c \<and> \<not> ends nonce m"
    and "sending tx (spawned es) = (if waiting nonce c then bodies nonce [m] else [])" by auto
qed

lemma messages_effect:
  assumes "wp_process_messages ms c = Ok (c', es)" and "only_user nonce tx c" and "list_all (apart nonce tx) ms"
  shows "only_user nonce tx c'"
    and "waiting nonce c' \<longleftrightarrow> waiting nonce c \<and> \<not> list_ex (ends nonce) ms"
    and "sending tx (spawned es) = (if waiting nonce c then bodies nonce ms else [])"
proof -
  have "only_user nonce tx c' \<and> (waiting nonce c' \<longleftrightarrow> waiting nonce c \<and> \<not> list_ex (ends nonce) ms) \<and>
      sending tx (spawned es) = (if waiting nonce c then bodies nonce ms else [])"
    using assms unfolding wp_process_messages_def
  proof (induction ms arbitrary: c es)
    case Nil
    then show ?case by simp
  next
    case (Cons m ms)
    then obtain c1 es1 es2 where one: "wp_process m c = Ok (c1, es1)" and rest: "handle_all wp_process ms c1 = Ok (c', es2)"
      and es: "es = es1 @ es2"
      by (fastforce simp: bind_outcome_Ok)
    from Cons.prems(3) have m: "apart nonce tx m" and ms: "list_all (apart nonce tx) ms" by simp_all
    note first = message_effect [OF one Cons.prems(2) m]
    from Cons.IH [OF rest first(1) ms] show ?case
      unfolding es using first bodies_append [of nonce "[m]" ms] by auto
  qed
  then show "only_user nonce tx c'"
    and "waiting nonce c' \<longleftrightarrow> waiting nonce c \<and> \<not> list_ex (ends nonce) ms"
    and "sending tx (spawned es) = (if waiting nonce c then bodies nonce ms else [])" by auto
qed

fun handled :: "wp_event list \<Rightarrow> wp_in list" where
  "handled [] = []"
| "handled (Handle ms # evs) = ms @ handled evs"
| "handled (_ # evs) = handled evs"

text \<open>
  The turns of the tasks move parts of the body forward but lose none; when the oldest task always runs
  first they also keep the order.
\<close>

lemma sending_split:
  assumes "k < length ts"
  shows "sending tx ts = sending tx (take k ts) @ sending tx [ts ! k] @ sending tx (drop (Suc k) ts)"
  using arg_cong [OF id_take_nth_drop [OF assms], of "sending tx"] sending_append [of tx "[ts ! k]" "drop (Suc k) ts"] by simp

lemma run_task_flight:
  assumes "run_task http k n = Some (n', out)" and "ch_open (wn_chans n tx)"
  shows "mset (in_flight tx n') = mset (in_flight tx n)" and "k = 0 \<Longrightarrow> in_flight tx n' = in_flight tx n"
    and "wn_core n' = wn_core n" and "ch_open (wn_chans n' tx)"
proof -
  from assms(1) obtain ts chans where k: "k < length (wn_tasks n)"
    and turn: "task_turn http (wn_tasks n ! k) (wn_chans n) = Some (ts, chans, out)"
    and n': "n' = n\<lparr>wn_tasks := take k (wn_tasks n) @ ts @ drop (Suc k) (wn_tasks n), wn_chans := chans\<rparr>"
    by (auto simp: run_task_def split: if_splits)
  have moved: "ch_read (chans tx) = ch_read (wn_chans n tx) \<and> ch_open (chans tx) \<and>
      ch_queue (chans tx) = ch_queue (wn_chans n tx) @ sending tx [wn_tasks n ! k] \<and> sending tx ts = []"
    using turn assms(2) by (auto simp: task_turn_def sending_one split: wp_task.splits if_splits list.splits)
  then show "mset (in_flight tx n') = mset (in_flight tx n)"
    using moved unfolding in_flight_def n' by (simp add: sending_split [OF k])
  show "k = 0 \<Longrightarrow> in_flight tx n' = in_flight tx n"
    using moved k unfolding in_flight_def n' by (simp add: sending_split [OF k])
  show "wn_core n' = wn_core n" "ch_open (wn_chans n' tx)" using moved unfolding n' by simp_all
qed

lemma run_effect:
  assumes "wp_run http evs n = Some (n', out)" and "only_user nonce tx (wn_core n)"
    and "list_all (apart nonce tx) (handled evs)" and "ch_open (wn_chans n tx)" and "DropReader tx \<notin> set evs"
  shows "mset (in_flight tx n') = mset (in_flight tx n @ (if waiting nonce (wn_core n) then bodies nonce (handled evs) else [])) \<and>
    ((\<forall>k. RunTask k \<in> set evs \<longrightarrow> k = 0) \<longrightarrow>
      in_flight tx n' = in_flight tx n @ (if waiting nonce (wn_core n) then bodies nonce (handled evs) else [])) \<and>
    (waiting nonce (wn_core n') \<longleftrightarrow> waiting nonce (wn_core n) \<and> \<not> list_ex (ends nonce) (handled evs)) \<and>
    only_user nonce tx (wn_core n')"
  using assms
proof (induction evs arbitrary: n out)
  case Nil
  then show ?case by simp
next
  case (Cons ev evs)
  then obtain n1 out1 out2 where step: "wp_event_step http ev n = Some (n1, out1)" and rest: "wp_run http evs n1 = Some (n', out2)"
    by (auto simp: bind_eq_Some_conv)
  have drops: "DropReader tx \<notin> set evs" "ev \<noteq> DropReader tx" using Cons.prems(5) by auto
  show ?case
  proof (cases ev)
    case (Handle ms)
    then obtain c es where ok: "wp_process_messages ms (wn_core n) = Ok (c, es)"
      and n1: "n1 = n\<lparr>wn_core := c, wn_tasks := wn_tasks n @ spawned es\<rparr>"
      using step by (auto simp: wp_event_step_def wp_handle_def split: outcome.splits)
    from Cons.prems(3) Handle have parts: "list_all (apart nonce tx) ms" "list_all (apart nonce tx) (handled evs)" by simp_all
    note eff = messages_effect [OF ok Cons.prems(2) parts(1)]
    have flight: "in_flight tx n1 = in_flight tx n @ (if waiting nonce (wn_core n) then bodies nonce ms else [])"
      using eff(3) by (simp add: in_flight_def n1)
    have "only_user nonce tx (wn_core n1)" "ch_open (wn_chans n1 tx)" using eff(1) Cons.prems(4) by (simp_all add: n1)
    from Cons.IH [OF rest this(1) parts(2) this(2) drops(1)] show ?thesis
      using flight eff(2) bodies_append [of nonce ms "handled evs"] by (auto simp: Handle n1)
  next
    case (RunTask k)
    with step have run: "run_task http k n = Some (n1, out1)" by (simp add: wp_event_step_def)
    note moved = run_task_flight [OF run Cons.prems(4)]
    from Cons.prems(2,3) RunTask have "only_user nonce tx (wn_core n1)" "list_all (apart nonce tx) (handled evs)"
      by (simp_all add: moved(3))
    from Cons.IH [OF rest this moved(4) drops(1)] show ?thesis
      using moved by (auto simp: RunTask)
  next
    case (TakeChunk t)
    with step have same: "in_flight tx n1 = in_flight tx n" "wn_core n1 = wn_core n" "ch_open (wn_chans n1 tx)"
      using Cons.prems(4) by (auto simp: wp_event_step_def take_chunk_def Let_def in_flight_def split: if_splits)
    from Cons.prems(2,3) TakeChunk have "only_user nonce tx (wn_core n1)" "list_all (apart nonce tx) (handled evs)"
      by (simp_all add: same)
    from Cons.IH [OF rest this same(3) drops(1)] show ?thesis by (simp add: TakeChunk same)
  next
    case (DropReader t)
    with step drops(2) have same: "in_flight tx n1 = in_flight tx n" "wn_core n1 = wn_core n" "ch_open (wn_chans n1 tx)"
      using Cons.prems(4) by (auto simp: wp_event_step_def drop_reader_def in_flight_def)
    from Cons.prems(2,3) DropReader have "only_user nonce tx (wn_core n1)" "list_all (apart nonce tx) (handled evs)"
      by (simp_all add: same)
    from Cons.IH [OF rest this same(3) drops(1)] show ?thesis by (simp add: DropReader same)
  qed
qed

text \<open>
  No part of an answer is lost or made up: as long as the caller keeps its reader, the parts it has read,
  those in its channel and those the tasks still hold are together the ones that were there before and
  those that arrived in answer to its request up to the message that ends it. And if the tasks of the
  node run one after the other in the order in which they were started, they are also in the order in
  which they arrived.
\<close>
theorem body_kept:
  assumes "wp_run http evs n = Some (n', out)" and "only_user nonce tx (wn_core n)"
    and "list_all (apart nonce tx) (handled evs)" and "ch_open (wn_chans n tx)" and "DropReader tx \<notin> set evs"
  shows "mset (in_flight tx n') = mset (in_flight tx n @ (if waiting nonce (wn_core n) then bodies nonce (handled evs) else [])) \<and>
    ((\<forall>k. RunTask k \<in> set evs \<longrightarrow> k = 0) \<longrightarrow>
      in_flight tx n' = in_flight tx n @ (if waiting nonce (wn_core n) then bodies nonce (handled evs) else []))"
  using run_effect [OF assms] by blast

theorem body_kept_witness:
  "\<exists>n' out. wp_run (\<lambda>_. Inl '''')
     [Handle [WpFromNetwork (U256 [7]) (Response (U256 [1]) (RespBody [10])), WpFromNetwork (U256 [7]) (Response (U256 [1]) (RespBody [20]))],
      RunTask 0, TakeChunk 5, RunTask 0]
     (wp_node_new ((web_proxy_new counters_default (U256 [0]))\<lparr>wp_requests := [(U256 [1], (U256 [7], 5))]\<rparr>)) = Some (n', out) \<and>
   in_flight 5 n' = [[10], [20]]"
proof -
  let ?n = "wp_node_new ((web_proxy_new counters_default (U256 [0]))\<lparr>wp_requests := [(U256 [1], (U256 [7], 5))]\<rparr>)"
  let ?evs = "[Handle [WpFromNetwork (U256 [7]) (Response (U256 [1]) (RespBody [10])), WpFromNetwork (U256 [7]) (Response (U256 [1]) (RespBody [20]))],
      RunTask 0, TakeChunk 5, RunTask 0]"
  have "wp_run (\<lambda>_. Inl '''') ?evs ?n \<noteq> None"
    by (simp add: wp_event_step_def wp_handle_def wp_process_messages_def wp_process_def wp_node_message_def wp_handle_response_def
        core_handle_response_def count_rx_def wp_node_new_def web_proxy_new_def run_task_def task_turn_def channel_new_def take_chunk_def Let_def)
  then obtain n' out where run: "wp_run (\<lambda>_. Inl '''') ?evs ?n = Some (n', out)" by auto
  have "only_user (U256 [1]) 5 (wn_core ?n)" "list_all (apart (U256 [1]) 5) (handled ?evs)" "ch_open (wn_chans ?n 5)" "DropReader 5 \<notin> set ?evs"
    by (auto simp: only_user_def wp_node_new_def channel_new_def apart_def)
  from body_kept [OF run this] have "in_flight 5 n' = [[10], [20]]"
    by (simp add: waiting_def wp_node_new_def in_flight_def channel_new_def)
  with run show ?thesis by blast
qed

subsection \<open>A page fetched through another node\<close>

lemma bodies_handled:
  assumes "map_of (wp_requests c) nonce = Some (x, tx)"
  shows "\<exists>c'. wp_process_messages (map (\<lambda>b. WpFromNetwork src (Response nonce (RespBody b))) bs) c =
      Ok (c', map (\<lambda>b. Spawn (SendBody tx b)) bs) \<and> wp_requests c' = wp_requests c"
  using assms unfolding wp_process_messages_def
proof (induction bs arbitrary: c)
  case Nil
  then show ?case by simp
next
  case (Cons b bs)
  obtain c1 where one: "wp_process (WpFromNetwork src (Response nonce (RespBody b))) c = Ok (c1, [Spawn (SendBody tx b)])"
    and same: "wp_requests c1 = wp_requests c"
    using Cons.prems by (simp add: wp_process_def wp_node_message_def wp_handle_response_def core_handle_response_def count_rx_def)
  from Cons.IH [of c1] Cons.prems same show ?case by (auto simp: one)
qed

lemma spawned_bodies [simp]:
  "spawned (map (\<lambda>b. Spawn (SendBody tx b)) bs) = map (SendBody tx) bs" "emitted (map (\<lambda>b. Spawn (SendBody tx b)) bs) = []"
  by (induction bs) simp_all

lemma send_and_take:
  assumes "wn_tasks n = ts @ SendBody tx b # us" and "ch_open (wn_chans n tx)" and "ch_queue (wn_chans n tx) = []"
  shows "wp_run http [RunTask (length ts), TakeChunk tx] n =
    Some (n\<lparr>wn_tasks := ts @ us, wn_chans := (wn_chans n)(tx := (wn_chans n tx)\<lparr>ch_read := ch_read (wn_chans n tx) @ [b]\<rparr>)\<rparr>, [])"
  using assms by (cases "wn_chans n tx") (simp add: wp_event_step_def run_task_def task_turn_def take_chunk_def Let_def)

lemma wp_run_append:
  "wp_run http (xs @ ys) n = Option.bind (wp_run http xs n) (\<lambda>(n1, out1).
     Option.bind (wp_run http ys n1) (\<lambda>(n2, out2). Some (n2, out1 @ out2)))"
proof (induction xs arbitrary: n)
  case Nil
  then show ?case by (cases "wp_run http ys n") auto
next
  case (Cons x xs)
  show ?case
  proof (cases "wp_event_step http x n")
    case (Some p)
    obtain n1 out1 where p: "p = (n1, out1)" by (cases p)
    show ?thesis
      by (cases "wp_run http xs n1") (auto simp: Some p Cons.IH bind_eq_Some_conv split: bind_splits)
  qed simp
qed

lemma drained:
  assumes "wn_tasks n = map (SendBody tx) bs" and "ch_open (wn_chans n tx)" and "ch_queue (wn_chans n tx) = []"
    and "mset bs' = mset bs"
  shows "\<exists>evs n'. wp_run http evs n = Some (n', []) \<and> wn_tasks n' = [] \<and> wn_core n' = wn_core n \<and> handled evs = [] \<and>
    wn_chans n' tx = (wn_chans n tx)\<lparr>ch_read := ch_read (wn_chans n tx) @ bs'\<rparr> \<and>
    (bs' = bs \<longrightarrow> (\<forall>k. RunTask k \<in> set evs \<longrightarrow> k = 0)) \<and> (\<forall>t. DropReader t \<notin> set evs)"
  using assms
proof (induction bs' arbitrary: n bs)
  case Nil
  then show ?case by (intro exI [of _ "[]"] exI [of _ n]) simp
next
  case (Cons b bs')
  have "b \<in> set bs" using Cons.prems(4) by (metis list.set_intros(1) mset_eq_setD)
  then obtain ts us where bs: "bs = ts @ b # us" "b # bs' = bs \<longrightarrow> ts = []"
    by (metis append_Nil split_list)
  let ?n1 = "n\<lparr>wn_tasks := map (SendBody tx) ts @ map (SendBody tx) us,
      wn_chans := (wn_chans n)(tx := (wn_chans n tx)\<lparr>ch_read := ch_read (wn_chans n tx) @ [b]\<rparr>)\<rparr>"
  have first: "wp_run http [RunTask (length ts), TakeChunk tx] n = Some (?n1, [])"
    using send_and_take [of n "map (SendBody tx) ts" tx b "map (SendBody tx) us"] Cons.prems(1-3) by (simp add: bs(1))
  have "wn_tasks ?n1 = map (SendBody tx) (ts @ us)" "ch_open (wn_chans ?n1 tx)" "ch_queue (wn_chans ?n1 tx) = []"
    "mset bs' = mset (ts @ us)" using Cons.prems by (simp_all add: bs(1))
  from Cons.IH [OF this] obtain evs n' where rest: "wp_run http evs ?n1 = Some (n', [])" "wn_tasks n' = []" "wn_core n' = wn_core n"
    "handled evs = []" "wn_chans n' tx = (wn_chans n tx)\<lparr>ch_read := ch_read (wn_chans n tx) @ b # bs'\<rparr>"
    "bs' = ts @ us \<longrightarrow> (\<forall>k. RunTask k \<in> set evs \<longrightarrow> k = 0)" "\<forall>t. DropReader t \<notin> set evs"
    by auto
  show ?case
  proof (intro exI conjI)
    show "wp_run http ([RunTask (length ts), TakeChunk tx] @ evs) n = Some (n', [])"
      unfolding wp_run_append first by (simp add: rest(1))
    show "b # bs' = bs \<longrightarrow> (\<forall>k. RunTask k \<in> set ([RunTask (length ts), TakeChunk tx] @ evs) \<longrightarrow> k = 0)"
      using bs rest(6) by auto
  qed (use rest in auto)
qed

text \<open>
  But the order of the parts is not kept: each part is put into the caller's channel by a task of its own, so
  for every rearrangement of the parts that have arrived there is an order of the tasks with which the caller
  reads just that.
\<close>
theorem body_in_any_order:
  assumes "map_of (wp_requests (wn_core n)) nonce = Some (x, tx)" and "wn_tasks n = []"
    and "ch_open (wn_chans n tx)" and "ch_queue (wn_chans n tx) = []" and "mset bs' = mset bs"
  shows "\<exists>evs n'. wp_run http (Handle (map (\<lambda>b. WpFromNetwork src (Response nonce (RespBody b))) bs) # evs) n = Some (n', []) \<and>
    wn_tasks n' = [] \<and> ch_read (wn_chans n' tx) = ch_read (wn_chans n tx) @ bs'"
proof -
  from bodies_handled [OF assms(1)] obtain c where
    c: "wp_process_messages (map (\<lambda>b. WpFromNetwork src (Response nonce (RespBody b))) bs) (wn_core n) = Ok (c, map (\<lambda>b. Spawn (SendBody tx b)) bs)"
    by blast
  let ?n1 = "n\<lparr>wn_core := c, wn_tasks := map (SendBody tx) bs\<rparr>"
  have "wp_event_step http (Handle (map (\<lambda>b. WpFromNetwork src (Response nonce (RespBody b))) bs)) n = Some (?n1, [])"
    using assms(2) by (simp add: wp_event_step_def wp_handle_def c)
  moreover have "wn_tasks ?n1 = map (SendBody tx) bs" "ch_open (wn_chans ?n1 tx)" "ch_queue (wn_chans ?n1 tx) = []"
    using assms by simp_all
  from drained [where http = http, OF this assms(5)] obtain evs n' where "wp_run http evs ?n1 = Some (n', [])" "wn_tasks n' = []"
    "ch_read (wn_chans n' tx) = ch_read (wn_chans n tx) @ bs'"
    by auto
  ultimately show ?thesis by fastforce
qed

theorem body_in_any_order_witness:
  "\<exists>evs n'. wp_run (\<lambda>_. Inl '''') (Handle (map (\<lambda>b. WpFromNetwork (U256 [7]) (Response (U256 [1]) (RespBody b))) [[1], [2], [3]]) # evs)
     (wp_node_new ((web_proxy_new counters_default (U256 [0]))\<lparr>wp_requests := [(U256 [1], (U256 [7], 5))]\<rparr>)) = Some (n', []) \<and>
     concat (ch_read (wn_chans n' 5)) = [3, 1, 2]"
proof -
  let ?n = "wp_node_new ((web_proxy_new counters_default (U256 [0]))\<lparr>wp_requests := [(U256 [1], (U256 [7], 5))]\<rparr>)"
  have "map_of (wp_requests (wn_core ?n)) (U256 [1]) = Some (U256 [7], 5)" "wn_tasks ?n = []" "ch_open (wn_chans ?n 5)"
    "ch_queue (wn_chans ?n 5) = []" "mset [[3], [1], [2]] = mset [[1], [2], [3 :: u8]]"
    by (simp_all add: wp_node_new_def channel_new_def)
  from body_in_any_order [OF this, where src = "U256 [7]" and http = "\<lambda>_. Inl ''''"] obtain evs n' where
    run: "wp_run (\<lambda>_. Inl '''') (Handle (map (\<lambda>b. WpFromNetwork (U256 [7]) (Response (U256 [1]) (RespBody b))) [[1], [2], [3]]) # evs) ?n = Some (n', [])"
    and "ch_read (wn_chans n' 5) = ch_read (wn_chans ?n 5) @ [[3], [1], [2]]"
    by blast
  then have "concat (ch_read (wn_chans n' 5)) = [3, 1, 2]" by (simp add: wp_node_new_def channel_new_def)
  with run show ?thesis by blast
qed

text \<open>The messages of one node as the other one gets them.\<close>

definition relay :: "u256 \<Rightarrow> wp_out list \<Rightarrow> wp_in list" where
  "relay src outs = List.map_filter (\<lambda>out. case out of WpToNetwork _ m \<Rightarrow> Some (WpFromNetwork src m) | ResponseGet _ _ _ \<Rightarrow> None) outs"

lemma relay_fetch: "relay b (fetch http a nonce url) = map (\<lambda>m. WpFromNetwork b (Response nonce m)) (fetch_msgs http url)"
  by (simp add: relay_def fetch_def List.map_filter_def comp_def)

lemma emit_all:
  assumes "wn_tasks n = [Emitting outs]"
  shows "wp_run http (replicate (Suc (length outs)) (RunTask 0)) n = Some (n\<lparr>wn_tasks := []\<rparr>, outs)"
  using assms
proof (induction outs arbitrary: n)
  case Nil
  then show ?case by (simp add: wp_event_step_def run_task_def task_turn_def)
next
  case (Cons out outs)
  have "wp_event_step http (RunTask 0) n = Some (n\<lparr>wn_tasks := [Emitting outs]\<rparr>, [out])"
    using Cons.prems by (simp add: wp_event_step_def run_task_def task_turn_def)
  with Cons.IH [of "n\<lparr>wn_tasks := [Emitting outs]\<rparr>"]
  have "wp_run http (RunTask 0 # replicate (Suc (length outs)) (RunTask 0)) n = Some (n\<lparr>wn_tasks := []\<rparr>, out # outs)"
    by (simp del: replicate_Suc)
  then show ?case by (simp only: length_Cons replicate_Suc)
qed

text \<open>The turns a node needs to answer a request: to send it off, one for each message, and to end.\<close>

definition server_turns :: "http \<Rightarrow> u256 \<Rightarrow> u256 \<Rightarrow> string \<Rightarrow> wp_event list" where
  "server_turns http a nonce url =
     Handle [WpFromNetwork a (Request nonce url)] # replicate (length (fetch http a nonce url) + 2) (RunTask 0)"

lemma server_answers:
  assumes "wn_tasks srv = []"
  shows "\<exists>srv'. wp_run http (server_turns http a nonce url) srv = Some (srv', fetch http a nonce url)"
proof -
  let ?core = "(wn_core srv)\<lparr>wp_published := wp_counters (wn_core srv)\<rparr>"
  let ?s1 = "srv\<lparr>wn_core := ?core, wn_tasks := [Fetch a nonce url]\<rparr>"
  have "wp_event_step http (Handle [WpFromNetwork a (Request nonce url)]) srv = Some (?s1, [])"
    using assms by (simp add: wp_event_step_def wp_handle_def wp_process_messages_def wp_process_def wp_node_message_def wp_start_request_def)
  moreover have "wp_event_step http (RunTask 0) ?s1 = Some (?s1\<lparr>wn_tasks := [Emitting (fetch http a nonce url)]\<rparr>, [])"
    by (simp add: wp_event_step_def run_task_def task_turn_def)
  ultimately show ?thesis
    using emit_all [of "?s1\<lparr>wn_tasks := [Emitting (fetch http a nonce url)]\<rparr>" "fetch http a nonce url" http]
    by (simp add: server_turns_def)
qed

lemma bodies_of_chunks:
  "bodies nonce (map (\<lambda>m. WpFromNetwork b (Response nonce m)) (chunk_msgs (map Some bs))) = bs"
  "list_ex (ends nonce) (map (\<lambda>m. WpFromNetwork b (Response nonce m)) (chunk_msgs (map Some bs)))"
  by (induction bs) (simp_all add: ends_def)

lemma chunk_msgs_parts: "chunk_msgs (map Some bs) = map RespBody bs @ [RespDone, RespDone]"
  by (induction bs) simp_all

lemma answer_handled:
  assumes "map_of (wp_requests c) nonce = Some (x, tx)" and "hm_ok (wp_requests c)"
  shows "\<exists>c'. wp_process_messages (map (\<lambda>m. WpFromNetwork b (Response nonce m)) (RespHeader header # chunk_msgs (map Some bs))) c =
      Ok (c', Emit (ResponseGet b nonce header) # map (\<lambda>b. Spawn (SendBody tx b)) bs) \<and>
    wp_requests c' = AList.delete nonce (wp_requests c)"
proof -
  let ?c1 = "(count_rx c)\<lparr>wp_published := wp_counters (count_rx c)\<rparr>"
  have head: "wp_process (WpFromNetwork b (Response nonce (RespHeader header))) c = Ok (?c1, [Emit (ResponseGet b nonce header)])"
    using assms(1) by (simp add: wp_process_def wp_node_message_def wp_handle_response_def core_handle_response_def)
  have reqs: "wp_requests ?c1 = wp_requests c" by (simp add: count_rx_def)
  obtain c2 where body: "handle_all wp_process (map (\<lambda>b'. WpFromNetwork b (Response nonce (RespBody b'))) bs) ?c1 =
      Ok (c2, map (\<lambda>b. Spawn (SendBody tx b)) bs)" "wp_requests c2 = wp_requests c"
    using bodies_handled [of ?c1 nonce x tx b bs] assms(1) reqs unfolding wp_process_messages_def by auto
  let ?c3 = "(c2\<lparr>wp_requests := AList.delete nonce (wp_requests c2)\<rparr>)\<lparr>wp_published := wp_counters c2\<rparr>"
  have done1: "wp_process (WpFromNetwork b (Response nonce RespDone)) c2 = Ok (?c3, [])"
    using assms(1) body(2) by (simp add: wp_process_def wp_node_message_def wp_handle_response_def core_handle_response_def)
  have done2: "wp_process (WpFromNetwork b (Response nonce RespDone)) ?c3 = Ok (?c3, [])"
    by (simp add: wp_process_def wp_node_message_def wp_handle_response_def core_handle_response_def)
  show ?thesis
    unfolding wp_process_messages_def chunk_msgs_parts
    using head body done1 done2 by (simp add: handle_all_append comp_def)
qed

text \<open>
  C7. A page fetched through another node. The node that is asked answers with the header, the parts of the body and
  (twice) the end. However the other node cuts these messages into batches and interleaves them with its tasks and
  its reader, if the tasks run in the order in which they were started then what the reader has read when
  it sees the end of the body is the whole page; and there is such a run, which also hands out the header.
\<close>
theorem page_delivered:
  assumes "http url = Inr resp" and "response_header_from resp = Ok header" and "hr_chunks resp = map Some bs"
    and "wn_tasks srv = []" and "wn_tasks cl = []" and "wn_chans cl tx = channel_new"
    and "map_of (wp_requests (wn_core cl)) nonce = Some (x, tx)" and "only_user nonce tx (wn_core cl)"
  shows "\<exists>srv' outs. wp_run http (server_turns http a nonce url) srv = Some (srv', outs) \<and>
    (\<forall>evs cl' out. wp_run http2 evs cl = Some (cl', out) \<and> handled evs = relay b outs \<and> DropReader tx \<notin> set evs \<and>
       (\<forall>k. RunTask k \<in> set evs \<longrightarrow> k = 0) \<and> at_end tx cl' \<longrightarrow> ch_read (wn_chans cl' tx) = bs) \<and>
    (\<exists>evs cl'. wp_run http2 evs cl = Some (cl', [ResponseGet b nonce header]) \<and> handled evs = relay b outs \<and>
       DropReader tx \<notin> set evs \<and> (\<forall>k. RunTask k \<in> set evs \<longrightarrow> k = 0) \<and> at_end tx cl')"
proof -
  let ?ms = "map (\<lambda>m. WpFromNetwork b (Response nonce m)) (RespHeader header # chunk_msgs (map Some bs))"
  obtain srv' where server: "wp_run http (server_turns http a nonce url) srv = Some (srv', fetch http a nonce url)"
    using server_answers [OF assms(4)] by blast
  have msgs: "relay b (fetch http a nonce url) = ?ms"
    using assms(1-3) by (simp add: relay_fetch fetch_msgs_def)
  have apart: "list_all (apart nonce tx) ?ms" by (simp add: list_all_iff apart_def)
  have open_chan: "ch_open (wn_chans cl tx)" by (simp add: assms(6) channel_new_def)
  have all: "ch_read (wn_chans cl' tx) = bs"
    if run: "wp_run http2 evs cl = Some (cl', out)" and h: "handled evs = ?ms" and d: "DropReader tx \<notin> set evs"
      and fifo: "\<forall>k. RunTask k \<in> set evs \<longrightarrow> k = 0" and stop: "at_end tx cl'" for evs cl' out
  proof -
    have "in_flight tx cl' = in_flight tx cl @ bodies nonce ?ms"
      using run_effect [OF run assms(8) _ open_chan d, unfolded h, OF apart] fifo assms(7) by (simp add: waiting_def)
    moreover have "in_flight tx cl' = ch_read (wn_chans cl' tx)"
      using stop by (simp add: at_end_def in_flight_def sending_empty)
    moreover have "in_flight tx cl = []" using assms(5,6) by (simp add: in_flight_def channel_new_def)
    ultimately show ?thesis by (simp add: bodies_of_chunks(1))
  qed
  have hm: "hm_ok (wp_requests (wn_core cl))" using assms(8) by (simp add: only_user_def)
  obtain c where c: "wp_process_messages ?ms (wn_core cl) = Ok (c, Emit (ResponseGet b nonce header) # map (\<lambda>b. Spawn (SendBody tx b)) bs)"
    and reqs: "wp_requests c = AList.delete nonce (wp_requests (wn_core cl))"
    using answer_handled [OF assms(7) hm] by blast
  let ?n1 = "cl\<lparr>wn_core := c, wn_tasks := map (SendBody tx) bs\<rparr>"
  have first: "wp_event_step http2 (Handle ?ms) cl = Some (?n1, [ResponseGet b nonce header])"
    unfolding wp_event_step_def wp_event.case wp_handle_def c using assms(5) by simp
  have "wn_tasks ?n1 = map (SendBody tx) bs" "ch_open (wn_chans ?n1 tx)" "ch_queue (wn_chans ?n1 tx) = []" "mset bs = mset bs"
    by (simp_all add: assms(6) channel_new_def)
  from drained [where http = http2, OF this] obtain evs cl' where rest: "wp_run http2 evs ?n1 = Some (cl', [])" "wn_tasks cl' = []"
    "wn_core cl' = c" "handled evs = []" "ch_queue (wn_chans cl' tx) = []" "\<forall>k. RunTask k \<in> set evs \<longrightarrow> k = 0"
    "\<forall>t. DropReader t \<notin> set evs"
    by (auto simp: assms(6) channel_new_def)
  have gone: "tx \<notin> (snd \<circ> snd) ` set (wp_requests c)"
  proof
    assume "tx \<in> (snd \<circ> snd) ` set (wp_requests c)"
    then obtain k y where mem: "(k, y, tx) \<in> set (wp_requests (wn_core cl))" and "k \<noteq> nonce"
      by (auto simp: reqs set_delete)
    then have "map_of (wp_requests (wn_core cl)) k = Some (y, tx)" using map_of_set_iff [OF hm] by blast
    with assms(8) \<open>k \<noteq> nonce\<close> show False unfolding only_user_def by blast
  qed
  have "wp_run http2 (Handle ?ms # evs) cl = Some (cl', [ResponseGet b nonce header])"
    using rest(1) by (simp only: wp_run.simps first) simp
  moreover have "handled (Handle ?ms # evs) = ?ms" "DropReader tx \<notin> set (Handle ?ms # evs)"
    "\<forall>k. RunTask k \<in> set (Handle ?ms # evs) \<longrightarrow> k = 0" "at_end tx cl'"
    using rest gone by (simp_all add: at_end_def)
  ultimately show ?thesis using server all msgs by (metis (no_types, lifting))
qed

definition page_at :: "bytes list \<Rightarrow> http" where
  "page_at bs = (\<lambda>url. Inr \<lparr>hr_status = 200, hr_headers = [(''server'', Some ''x'')], hr_chunks = map Some bs\<rparr>)"

theorem page_delivered_witness:
  "\<exists>evs cl'. wp_run (page_at [[1], [2]]) evs
     (wp_node_new ((web_proxy_new counters_default (U256 [0]))\<lparr>wp_requests := [(U256 [1], (U256 [7], 5))]\<rparr>)) =
       Some (cl', [ResponseGet (U256 [7]) (U256 [1]) \<lparr>rh_status = \<lparr>rst_code = 200, rst_msg = ''''\<rparr>, rh_headers = [(''server'', [''x''])]\<rparr>]) \<and>
     at_end 5 cl' \<and> concat (ch_read (wn_chans cl' 5)) = [1, 2]"
proof -
  let ?cl = "wp_node_new ((web_proxy_new counters_default (U256 [0]))\<lparr>wp_requests := [(U256 [1], (U256 [7], 5))]\<rparr>)"
  let ?resp = "\<lparr>hr_status = 200, hr_headers = [(''server'', Some ''x'')], hr_chunks = map Some [[1], [2]]\<rparr> :: http_response"
  let ?header = "\<lparr>rh_status = \<lparr>rst_code = 200, rst_msg = ''''\<rparr>, rh_headers = [(''server'', [''x''])]\<rparr>"
  have resp: "page_at [[1], [2]] ''u'' = Inr ?resp" "response_header_from ?resp = Ok ?header" "hr_chunks ?resp = map Some [[1], [2]]"
    by (simp_all add: page_at_def response_header_from_def expect_def)
  have nodes: "wn_tasks ?cl = []" "wn_chans ?cl 5 = channel_new" "map_of (wp_requests (wn_core ?cl)) (U256 [1]) = Some (U256 [7], 5)"
    "only_user (U256 [1]) 5 (wn_core ?cl)"
    by (auto simp: wp_node_new_def only_user_def)
  note page = page_delivered [where http = "page_at [[1], [2]]" and a = "U256 [0]" and b = "U256 [7]" and ?http2.0 = "page_at [[1], [2]]",
      OF resp nodes(1) nodes]
  then obtain outs where all: "\<forall>evs cl' out. wp_run (page_at [[1], [2]]) evs ?cl = Some (cl', out) \<and> handled evs = relay (U256 [7]) outs \<and>
       DropReader 5 \<notin> set evs \<and> (\<forall>k. RunTask k \<in> set evs \<longrightarrow> k = 0) \<and> at_end 5 cl' \<longrightarrow> ch_read (wn_chans cl' 5) = [[1], [2]]"
    and one: "\<exists>evs cl'. wp_run (page_at [[1], [2]]) evs ?cl = Some (cl', [ResponseGet (U256 [7]) (U256 [1]) ?header]) \<and>
       handled evs = relay (U256 [7]) outs \<and> DropReader 5 \<notin> set evs \<and> (\<forall>k. RunTask k \<in> set evs \<longrightarrow> k = 0) \<and> at_end 5 cl'"
    by blast
  from one obtain evs cl' where run: "wp_run (page_at [[1], [2]]) evs ?cl = Some (cl', [ResponseGet (U256 [7]) (U256 [1]) ?header])"
    "handled evs = relay (U256 [7]) outs" "DropReader 5 \<notin> set evs" "\<forall>k. RunTask k \<in> set evs \<longrightarrow> k = 0" "at_end 5 cl'"
    by blast
  with all have "ch_read (wn_chans cl' 5) = [[1], [2]]" by blast
  then have "concat (ch_read (wn_chans cl' 5)) = [1, 2]" by simp
  with run show ?thesis by blast
qed

text \<open>
  A page that cannot be fetched. The caller is told so with one message, which is only logged: it gets no header, the
  request stays open for ever, and a reader of the body waits without end.
\<close>
theorem failed_page_never_ends:
  assumes "http url = Inl e" and "wn_tasks srv = []" and "map_of (wp_requests (wn_core cl)) nonce = Some (x, tx)"
    and "only_user nonce tx (wn_core cl)" and "ch_open (wn_chans cl tx)"
    and "wp_run http2 evs cl = Some (cl', out)" and "DropReader tx \<notin> set evs"
    and "handled evs = relay b (fetch http a nonce url)"
  shows "(\<exists>srv'. wp_run http (server_turns http a nonce url) srv = Some (srv', fetch http a nonce url)) \<and>
    waiting nonce (wn_core cl') \<and> \<not> at_end tx cl'"
proof -
  have msgs: "handled evs = [WpFromNetwork b (Response nonce (RespError e))]"
    by (simp add: assms(1,8) relay_fetch fetch_msgs_def)
  then have "list_all (apart nonce tx) (handled evs)" by (simp add: apart_def)
  from run_effect [OF assms(6,4) this assms(5,7)] have wait: "waiting nonce (wn_core cl')" and only: "only_user nonce tx (wn_core cl')"
    using assms(3) by (auto simp: msgs waiting_def ends_def)
  from wait obtain y t where entry: "map_of (wp_requests (wn_core cl')) nonce = Some (y, t)" unfolding waiting_def by auto
  with only_userD [OF only entry] have "(nonce, y, tx) \<in> set (wp_requests (wn_core cl'))" by (simp add: map_of_SomeD)
  then have "\<not> at_end tx cl'" unfolding at_end_def by force
  with wait server_answers [OF assms(2)] show ?thesis by blast
qed

theorem failed_page_never_ends_witness:
  "\<exists>cl' out. wp_run (\<lambda>_. Inl ''no route'') [Handle (relay (U256 [7]) (fetch (\<lambda>_. Inl ''no route'') (U256 [0]) (U256 [1]) ''u''))]
     (wp_node_new ((web_proxy_new counters_default (U256 [0]))\<lparr>wp_requests := [(U256 [1], (U256 [7], 5))]\<rparr>)) = Some (cl', out) \<and>
     \<not> at_end 5 cl'"
proof -
  let ?http = "\<lambda>_::string. Inl ''no route'' :: string + http_response"
  let ?cl = "wp_node_new ((web_proxy_new counters_default (U256 [0]))\<lparr>wp_requests := [(U256 [1], (U256 [7], 5))]\<rparr>)"
  let ?evs = "[Handle (relay (U256 [7]) (fetch ?http (U256 [0]) (U256 [1]) ''u''))]"
  have "wp_run ?http ?evs ?cl \<noteq> None"
    by (simp add: relay_fetch fetch_msgs_def wp_event_step_def wp_handle_def wp_process_messages_def wp_process_def wp_node_message_def
        wp_handle_response_def core_handle_response_def wp_node_new_def)
  then obtain cl' out where run: "wp_run ?http ?evs ?cl = Some (cl', out)" by auto
  have nodes: "wn_tasks ?cl = []" "map_of (wp_requests (wn_core ?cl)) (U256 [1]) = Some (U256 [7], 5)"
    "only_user (U256 [1]) 5 (wn_core ?cl)" "ch_open (wn_chans ?cl 5)"
    by (auto simp: wp_node_new_def only_user_def channel_new_def)
  have "\<not> at_end 5 cl'"
    using failed_page_never_ends [where http = ?http and e = "''no route''" and url = "''u''" and b = "U256 [7]" and a = "U256 [0]",
        OF refl nodes(1) nodes(2-4) run] by simp
  with run show ?thesis by blast
qed

subsection \<open>The contract of the module\<close>

definition proxy_accepts :: "wp_in \<Rightarrow> bool" where
  "proxy_accepts m \<longleftrightarrow> (case m of
     NodeInfoConnected nis \<Rightarrow> list_all (\<lambda>ni. ni_id ni \<noteq> None \<or> length (ni_pubkey ni) = 32) nis
   | _ \<Rightarrow> True)"

definition proxy_ok :: "u256 \<Rightarrow> web_proxy_core \<Rightarrow> bool" where
  "proxy_ok me c \<longleftrightarrow> wp_our_id c = me \<and> me \<notin> set (wp_nodes c) \<and> hm_ok (wp_requests c) \<and>
     (\<forall>k x t. map_of (wp_requests c) k = Some (x, t) \<longrightarrow> x \<noteq> me)"

text \<open>A handler itself sends nothing but requests, and never to its own node.\<close>

definition asks_others :: "u256 \<Rightarrow> wp_effect \<Rightarrow> bool" where
  "asks_others me e \<longleftrightarrow> (case e of Emit (WpToNetwork n m) \<Rightarrow> n \<noteq> me \<and> (\<exists>r url. m = Request r url) | _ \<Rightarrow> True)"

lemma get_ids_some: "list_all (\<lambda>ni. ni_id ni \<noteq> None \<or> length (ni_pubkey ni) = 32) nis \<Longrightarrow> \<exists>ids. get_ids nis = Ok ids"
proof (induction nis)
  case (Cons ni nis)
  then obtain ids where "get_ids nis = Ok ids" by auto
  moreover from Cons.prems obtain i where "get_id ni = Ok i" by (cases "ni_id ni") (auto simp: get_id_def)
  ultimately show ?case by simp
qed simp

lemma proxy_step:
  assumes "proxy_ok me c" and "proxy_accepts m"
  shows "\<exists>c' es. wp_process m c = Ok (c', es) \<and> proxy_ok me c' \<and> list_all (asks_others me) es"
proof (cases m)
  case (WpFromNetwork src msg)
  show ?thesis
  proof (cases msg)
    case (Request r url)
    with WpFromNetwork assms(1) show ?thesis
      by (simp add: wp_process_def wp_node_message_def wp_start_request_def proxy_ok_def asks_others_def)
  next
    case (Response r resp)
    show ?thesis
    proof (cases "map_of (wp_requests c) r")
      case None
      with WpFromNetwork Response assms(1) show ?thesis
        by (simp add: wp_process_def wp_node_message_def wp_handle_response_def core_handle_response_def proxy_ok_def)
    next
      case (Some q)
      with WpFromNetwork Response assms(1) show ?thesis
        by (cases q; cases resp) (simp_all add: wp_process_def wp_node_message_def wp_handle_response_def core_handle_response_def
            count_rx_def proxy_ok_def asks_others_def)
    qed
  qed
next
  case (NodeInfoConnected nis)
  with assms(2) have "list_all (\<lambda>ni. ni_id ni \<noteq> None \<or> length (ni_pubkey ni) = 32)
      (filter (\<lambda>ni. ni_modules ni AND webproxy_requests = webproxy_requests) nis)"
    by (simp add: proxy_accepts_def list_all_iff)
  with get_ids_some obtain ids where
    "get_ids (filter (\<lambda>ni. ni_modules ni AND webproxy_requests = webproxy_requests) nis) = Ok ids" by blast
  with NodeInfoConnected assms(1) show ?thesis
    by (simp add: wp_process_def wp_node_list_def core_node_list_def ids_remove_missing_filter proxy_ok_def)
next
  case (RequestGet rnd url t)
  show ?thesis
  proof (cases "wp_nodes c = []")
    case False
    then have "wp_nodes c ! (wp_node_index c mod length (wp_nodes c)) \<in> set (wp_nodes c)" by simp
    with assms(1) have "wp_nodes c ! (wp_node_index c mod length (wp_nodes c)) \<noteq> me" by (auto simp: proxy_ok_def)
    with False RequestGet assms(1) show ?thesis
      by (simp add: wp_process_def wp_request_get_def core_request_get_def get_node_def Let_def proxy_ok_def asks_others_def
          del: map_of_eq_Some_iff)
  qed (use RequestGet assms(1) in \<open>simp add: wp_process_def wp_request_get_def core_request_get_def get_node_def\<close>)
qed

interpretation wp: subsystem wp_process proxy_accepts "proxy_ok me" "asks_others me" for me
  by unfold_locales (rule proxy_step)

text \<open>
  The proxy module never panics on messages whose node descriptions have an identifier or a key of full
  length; it never asks its own node for a page, and its handlers send nothing but requests.
\<close>
theorem proxy_messages_ok:
  assumes "proxy_ok me c" and "list_all proxy_accepts ms"
  shows "\<exists>c' es. wp_process_messages ms c = Ok (c', es) \<and> proxy_ok me c' \<and> list_all (asks_others me) es"
  unfolding wp_process_messages_def using wp.all_kept [OF assms] .

theorem proxy_messages_ok_witness:
  "\<exists>c es. wp_process_messages [NodeInfoConnected [], RequestGet (U256 [1]) ''u'' 1, WpFromNetwork (U256 [7]) (Response (U256 [1]) RespDone)]
     (web_proxy_new counters_default (U256 [0])) = Ok (c, es) \<and> U256 [0] \<notin> set (wp_nodes c)"
proof -
  have "proxy_ok (U256 [0]) (web_proxy_new counters_default (U256 [0]))" by (simp add: proxy_ok_def web_proxy_new_def)
  from proxy_messages_ok [OF this,
      of "[NodeInfoConnected [], RequestGet (U256 [1]) ''u'' 1, WpFromNetwork (U256 [7]) (Response (U256 [1]) RespDone)]"]
  show ?thesis by (auto simp: proxy_accepts_def proxy_ok_def)
qed

end
