(* ===== verification/DhtClient.thy ===== *)
theory DhtClient
  imports DhtMessages
begin

text \<open>
  The client side of the DHT storage, \<open>struct DHTStorage\<close> of \<open>flmodules/src/dht_storage/broker.rs\<close>, and the typed
  views of a Flo: \<open>FloWrapper\<close> of \<open>flmodules/src/flo/flo.rs\<close>, the keys and badges of \<open>flo/crypto.rs\<close> and the realms
  of \<open>flo/realm.rs\<close>. A call sends a message to the handlers of \<open>DhtMessages\<close>
  and waits on a tap for an answer until a time-out.

  What a tap delivers from the request to the time-out is the parameter \<open>tap\<close> of a call: a list of messages for
  each request, in which the answer of the node itself and those of others are among whatever else passes.
  Serialisation (\<open>rmp_serde\<close>) of an object and the name of its type are the fields of a \<open>flo_codec\<close>.
\<close>

subsection \<open>Typed Flos\<close>

record 'a flo_codec =
  fc_type :: string
  fc_bytes :: "'a \<Rightarrow> bytes"
  fc_parse :: "bytes \<Rightarrow> 'a option"

record 'a flo_wrapper =
  fw_flo :: flo
  fw_object :: 'a

definition fw_try_from :: "'a flo_codec \<Rightarrow> flo \<Rightarrow> 'a flo_wrapper option" where
  "fw_try_from c f =
     (if flo_type f \<noteq> fc_type c then None
      else map_option (\<lambda>x. \<lparr>fw_flo = f, fw_object = x\<rparr>) (fc_parse c (data f)))"

definition fw_from_type_config ::
  "flo_env \<Rightarrow> 'a flo_codec \<Rightarrow> u256 \<Rightarrow> condition \<Rightarrow> flo_config \<Rightarrow> u256 \<Rightarrow> 'a \<Rightarrow> signer list \<Rightarrow> (signer_error, 'a flo_wrapper) outcome" where
  "fw_from_type_config e c rid co cfg rnd x signers =
     bind_outcome (new_signer e rid co (fc_type c) (fc_bytes c x) cfg rnd signers) (\<lambda>f.
       Ok \<lparr>fw_flo = f, fw_object = x\<rparr>)"

definition fw_from_type_cuckoo ::
  "flo_env \<Rightarrow> 'a flo_codec \<Rightarrow> u256 \<Rightarrow> condition \<Rightarrow> cuckoo \<Rightarrow> u256 \<Rightarrow> 'a \<Rightarrow> signer list \<Rightarrow> (signer_error, 'a flo_wrapper) outcome" where
  "fw_from_type_cuckoo e c rid co cu rnd x signers =
     fw_from_type_config e c rid co \<lparr>cuckoo = cu, force_id = None\<rparr> rnd x signers"

definition edit_data_signers ::
  "flo_env \<Rightarrow> 'a flo_codec \<Rightarrow> condition \<Rightarrow> ('a \<Rightarrow> 'a) \<Rightarrow> signer list \<Rightarrow> 'a flo_wrapper \<Rightarrow> (signer_error, 'a flo_wrapper) outcome" where
  "edit_data_signers e c co edit signers fw =
     bind_outcome (update_data_signers e co (fc_bytes c (edit (fw_object fw))) signers (fw_flo fw)) (\<lambda>f.
       Ok \<lparr>fw_flo = f, fw_object = edit (fw_object fw)\<rparr>)"

definition fw_from_type ::
  "flo_env \<Rightarrow> 'a flo_codec \<Rightarrow> u256 \<Rightarrow> condition \<Rightarrow> u256 \<Rightarrow> 'a \<Rightarrow> signer list \<Rightarrow> (signer_error, 'a flo_wrapper) outcome" where
  "fw_from_type e c rid co rnd x signers = fw_from_type_config e c rid co flo_config_default rnd x signers"

definition fw_from_force_id ::
  "flo_env \<Rightarrow> 'a flo_codec \<Rightarrow> u256 \<Rightarrow> 'a \<Rightarrow> u256 \<Rightarrow> u256 \<Rightarrow> (signer_error, 'a flo_wrapper) outcome" where
  "fw_from_force_id e c rid x forced rnd =
     bind_outcome (from_force_id e rid (fc_type c) (fc_bytes c x) forced rnd) (\<lambda>f. Ok \<lparr>fw_flo = f, fw_object = x\<rparr>)"

definition fw_fits_version :: "flo_env \<Rightarrow> 'a flo_wrapper \<Rightarrow> version_spec \<Rightarrow> bool" where
  "fw_fits_version e fw ver \<longleftrightarrow> spec_id ver = flo_id e (fw_flo fw) \<and> accepts ver (data_version (fw_flo fw))"

text \<open>Keys and badges. \<open>FloVerifier::new\<close> unwraps its result.\<close>

definition verifier_flo ::
  "flo_env \<Rightarrow> verifier flo_codec \<Rightarrow> u256 \<Rightarrow> verifier \<Rightarrow> u256 \<Rightarrow> (signer_error, verifier flo_wrapper) outcome" where
  "verifier_flo e c rid v rnd =
     (case fw_from_force_id e c rid v (verifier_id (fe_crypto e) v) rnd of Ok fw \<Rightarrow> Ok fw | _ \<Rightarrow> Panic)"

definition badge_link :: "flo_env \<Rightarrow> cond_link flo_wrapper \<Rightarrow> badge_link" where
  "badge_link e b = \<lparr>bl_id = flo_id e (fw_flo b), bl_version = data_version (fw_flo b), bl_condition = fw_object b\<rparr>"

lemma badge_link_simps [simp]:
  "bl_id (badge_link e b) = flo_id e (fw_flo b)" "bl_version (badge_link e b) = data_version (fw_flo b)"
  "bl_condition (badge_link e b) = fw_object b"
  by (simp_all add: badge_link_def)

text \<open>Realms.\<close>

datatype realm_error = RealmSigner signer_error | RealmContent

definition realm_new :: "string \<Rightarrow> realm_config \<Rightarrow> realm_object" where
  "realm_new name cfg = \<lparr>ro_name = name, ro_config = cfg, ro_services = []\<rparr>"

definition set_service :: "string \<Rightarrow> u256 \<Rightarrow> realm_object \<Rightarrow> realm_object" where
  "set_service name i r = r\<lparr>ro_services := AList.update name i (ro_services r)\<rparr>"

definition flo_realm_new ::
  "flo_env \<Rightarrow> realm_object flo_codec \<Rightarrow> string \<Rightarrow> condition \<Rightarrow> realm_config \<Rightarrow> u256 \<Rightarrow> signer list \<Rightarrow>
     (realm_error, realm_object flo_wrapper) outcome" where
  "flo_realm_new e c name co cfg rnd signers =
     (case new_realm e co (fc_type c) (fc_bytes c (realm_new name cfg)) rnd signers of
        Ok f \<Rightarrow> (case fw_try_from c f of Some fw \<Rightarrow> Ok fw | None \<Rightarrow> Err RealmContent)
      | Err x \<Rightarrow> Err (RealmSigner x)
      | Panic \<Rightarrow> Panic)"

subsection \<open>Waiting for an answer\<close>

type_synonym tap = "dht_storage_in \<Rightarrow> intern_out list"

fun wait_tap :: "(dht_storage_out \<Rightarrow> 'a option) \<Rightarrow> intern_out list \<Rightarrow> 'a option" where
  "wait_tap check [] = None"
| "wait_tap check (m # ms) = (case m of
     OutStorage msg_out \<Rightarrow> (case check msg_out of Some res \<Rightarrow> Some res | None \<Rightarrow> wait_tap check ms)
   | OutRouting _ \<Rightarrow> wait_tap check ms)"

text \<open>\<open>None\<close> is the error of the time-out.\<close>

definition send_wait :: "tap \<Rightarrow> dht_storage_in \<Rightarrow> (dht_storage_out \<Rightarrow> 'a option) \<Rightarrow> 'a option" where
  "send_wait tap msg_in check = wait_tap check (tap msg_in)"

definition client_realm_ids :: "tap \<Rightarrow> u256 list option" where
  "client_realm_ids tap = send_wait tap GetRealms (\<lambda>msg. case msg of OutRealmIDs rs \<Rightarrow> Some rs | _ \<Rightarrow> None)"

definition client_flo :: "flo_env \<Rightarrow> 'a flo_codec \<Rightarrow> tap \<Rightarrow> global_id \<Rightarrow> 'a flo_wrapper option" where
  "client_flo e c tap i =
     Option.bind (send_wait tap (InReadFlo i) (\<lambda>msg. case msg of
         OutFloValue fc \<Rightarrow> if flo_global_id e (fst fc) = i then Some (fst fc) else None
       | _ \<Rightarrow> None))
       (fw_try_from c)"

definition client_flos :: "tap \<Rightarrow> flo list option" where
  "client_flos tap = send_wait tap GetFlos (\<lambda>msg. case msg of OutFloValues fs \<Rightarrow> Some (map fst fs) | _ \<Rightarrow> None)"

definition client_cuckoos :: "tap \<Rightarrow> global_id \<Rightarrow> u256 list option" where
  "client_cuckoos tap i =
     send_wait tap (InReadCuckooIDs i) (\<lambda>msg. case msg of OutCuckooIDs rid ids \<Rightarrow> if rid = i then Some ids else None | _ \<Rightarrow> None)"

subsection \<open>Resolving a condition\<close>

text \<open>
  \<open>convert\<close> looks up the verifiers and badges of a condition. It follows badges without keeping track of them, so
  the recursion is given fuel, and \<open>None\<close> stands for running out of it.
\<close>

record client_env =
  ce_flo :: flo_env
  ce_verifier :: "verifier flo_codec"
  ce_badge :: "cond_link flo_codec"

fun convert :: "client_env \<Rightarrow> tap \<Rightarrow> u256 \<Rightarrow> nat \<Rightarrow> cond_link \<Rightarrow> condition option" where
  "convert e tap rid 0 cl = None"
| "convert e tap rid (Suc n) cl = (case cl of
     LVerifier ver \<Rightarrow> Some (case client_flo (ce_flo e) (ce_verifier e) tap (rid, calc_flo_id (ce_flo e) ver) of
       Some v \<Rightarrow> CVerifier (fw_object v) | None \<Rightarrow> CNotAvailable)
   | LBadge version \<Rightarrow> (case client_flo (ce_flo e) (ce_badge e) tap (rid, spec_id version) of
       Some b \<Rightarrow> (let bl = badge_link (ce_flo e) b
         in map_option (CBadge version (bl_id bl) (bl_version bl)) (convert e tap rid n (bl_condition bl)))
     | None \<Rightarrow> Some CNotAvailable)
   | LNofT thr ls \<Rightarrow> map_option (CNofT thr) (those (map (convert e tap rid n) ls))
   | LPass \<Rightarrow> Some CPass
   | LFail \<Rightarrow> Some CFail)"

definition client_start_sign_cond ::
  "client_env \<Rightarrow> tap \<Rightarrow> nat \<Rightarrow> 'a flo_wrapper \<Rightarrow> cond_link \<Rightarrow> (signer_error, update_cond_sign) outcome option" where
  "client_start_sign_cond e tap n fw cl =
     Option.bind (convert e tap (realm (fw_flo fw)) n (cond (fw_flo fw))) (\<lambda>cond_old.
     Option.bind (convert e tap (realm (fw_flo fw)) n cl) (\<lambda>cond_new.
       Some (start_sign_cond (ce_flo e) cond_old cond_new (fw_flo fw))))"

subsection \<open>Properties\<close>

text \<open>What a call returns is in an answer that passed the tap.\<close>

lemma wait_tap_Some: "wait_tap check ms = Some r \<Longrightarrow> \<exists>out. OutStorage out \<in> set ms \<and> check out = Some r"
  by (induction ms) (auto split: intern_out.splits option.splits)

lemma wait_tap_None: "wait_tap check ms = None \<longleftrightarrow> (\<forall>out. OutStorage out \<in> set ms \<longrightarrow> check out = None)"
  by (induction ms) (auto split: intern_out.splits option.splits)

lemma wait_tap_append:
  "wait_tap check (xs @ ys) = (case wait_tap check xs of Some r \<Rightarrow> Some r | None \<Rightarrow> wait_tap check ys)"
  by (induction xs) (auto split: intern_out.splits option.splits)

lemma client_flo_id: "client_flo e c tap i = Some fw \<Longrightarrow> flo_global_id e (fw_flo fw) = i \<and> fc_parse c (data (fw_flo fw)) = Some (fw_object fw)"
  unfolding client_flo_def send_wait_def
  by (auto simp: bind_eq_Some_conv fw_try_from_def split: if_splits dest!: wait_tap_Some split: dht_storage_out.splits)

text \<open>What a condition needs so that it can be resolved again: its verifiers and badges arrive on the tap.\<close>

fun resolvable :: "client_env \<Rightarrow> tap \<Rightarrow> u256 \<Rightarrow> condition \<Rightarrow> bool" where
  "resolvable e tap rid (CVerifier v) \<longleftrightarrow>
     (\<exists>fw. client_flo (ce_flo e) (ce_verifier e) tap
        (rid, calc_flo_id (ce_flo e) (verifier_id (fe_crypto (ce_flo e)) v)) = Some fw \<and> fw_object fw = v)"
| "resolvable e tap rid (CBadge version i n c) \<longleftrightarrow> resolvable e tap rid c \<and>
     (\<exists>b. client_flo (ce_flo e) (ce_badge e) tap (rid, spec_id version) = Some b \<and>
        flo_id (ce_flo e) (fw_flo b) = i \<and> data_version (fw_flo b) = n \<and> to_link (fe_crypto (ce_flo e)) c = Ok (fw_object b))"
| "resolvable e tap rid (CNofT thr cs) \<longleftrightarrow> (\<forall>c \<in> set cs. resolvable e tap rid c)"
| "resolvable e tap rid CNotAvailable \<longleftrightarrow> False"
| "resolvable e tap rid CPass \<longleftrightarrow> True"
| "resolvable e tap rid CFail \<longleftrightarrow> True"

fun cond_depth :: "condition \<Rightarrow> nat" where
  "cond_depth (CBadge version i n c) = Suc (cond_depth c)"
| "cond_depth (CNofT thr cs) = Suc (Max (insert 0 (cond_depth ` set cs)))"
| "cond_depth _ = 1"

lemma collect_ok_map:
  "collect_ok (map f xs) = Ok ys \<longleftrightarrow> length ys = length xs \<and> (\<forall>k < length xs. f (xs ! k) = Ok (ys ! k))"
proof (induction xs arbitrary: ys)
  case Nil
  then show ?case by auto
next
  case (Cons x xs)
  show ?case
    by (cases ys) (auto simp: bind_outcome_Ok Cons.IH nth_Cons' less_Suc_eq_0_disj all_conj_distrib)
qed

lemma those_map: "(\<And>k. k < length xs \<Longrightarrow> f (xs ! k) = Some (ys ! k)) \<Longrightarrow> length xs = length ys \<Longrightarrow> those (map f xs) = Some ys"
proof (induction xs arbitrary: ys)
  case (Cons x xs)
  then obtain y ys' where ys: "ys = y # ys'" by (cases ys) auto
  have "f x = Some y" using Cons.prems(1) [of 0] ys by simp
  moreover have "those (map f xs) = Some ys'"
    using Cons.prems ys by (intro Cons.IH) force+
  ultimately show ?case using ys by simp
qed simp

text \<open>
  C26. A condition whose verifiers and badges can be fetched is the one that its link is resolved to, from which it can
  be seen that resolving takes no more steps than the condition is deep.
\<close>
theorem condition_resolved:
  assumes "resolvable e tap rid c" and "to_link (fe_crypto (ce_flo e)) c = Ok l" and "cond_depth c \<le> n"
  shows "convert e tap rid n l = Some c"
  using assms
proof (induction c arbitrary: l n)
  case (CVerifier v)
  then show ?case by (cases n) auto
next
  case (CBadge version i k c)
  from CBadge.prems(3) obtain m where n: "n = Suc m" "cond_depth c \<le> m" by (cases n) auto
  from CBadge.prems(1) obtain b where b: "client_flo (ce_flo e) (ce_badge e) tap (rid, spec_id version) = Some b"
    "flo_id (ce_flo e) (fw_flo b) = i" "data_version (fw_flo b) = k" "to_link (fe_crypto (ce_flo e)) c = Ok (fw_object b)"
    by auto
  from CBadge.IH [OF _ b(4) n(2)] CBadge.prems(1) have "convert e tap rid m (fw_object b) = Some c" by simp
  with b CBadge.prems(2) n(1) show ?case by auto
next
  case (CNofT thr cs)
  from CNofT.prems(3) obtain m where n: "n = Suc m" and depth: "Max (insert 0 (cond_depth ` set cs)) \<le> m" by (cases n) auto
  from CNofT.prems(2) obtain ls where ls: "l = LNofT thr ls" "collect_ok (map (to_link (fe_crypto (ce_flo e))) cs) = Ok ls"
    by (auto simp: bind_outcome_Ok)
  have "convert e tap rid m (ls ! k) = Some (cs ! k)" if "k < length ls" for k
  proof (rule CNofT.IH)
    show mem: "cs ! k \<in> set cs" using that ls(2) by (simp add: collect_ok_map)
    show "resolvable e tap rid (cs ! k)" using mem CNofT.prems(1) by simp
    show "to_link (fe_crypto (ce_flo e)) (cs ! k) = Ok (ls ! k)" using that ls(2) by (simp add: collect_ok_map)
    show "cond_depth (cs ! k) \<le> m" using depth mem by simp
  qed
  then have "those (map (convert e tap rid m) ls) = Some cs"
    using ls(2) by (intro those_map) (simp_all add: collect_ok_map)
  then show ?case by (simp add: n ls(1))
next
  case CNotAvailable
  then show ?case by simp
next
  case CFail
  then show ?case by (cases n) auto
next
  case CPass
  then show ?case by (cases n) auto
qed

text \<open>
  Two badges of which each is the condition of the other are followed round and round: resolving a condition that
  names one of them never returns, however long it is given. (A badge is a Flo that anyone can publish.)
\<close>
theorem badge_circle_diverges:
  assumes "client_flo (ce_flo e) (ce_badge e) tap (rid, spec_id v) = Some b" and "fw_object b = LBadge w"
    and "client_flo (ce_flo e) (ce_badge e) tap (rid, spec_id w) = Some b'" and "fw_object b' = LBadge v"
  shows "convert e tap rid n (LBadge v) = None"
proof -
  have "convert e tap rid n (LBadge v) = None \<and> convert e tap rid n (LBadge w) = None"
    using assms by (induction n) auto
  then show ?thesis ..
qed

text \<open>The types of objects in the examples: the name of the type is empty and every Flo is read as the same object.\<close>

definition constant_codec :: "'a \<Rightarrow> 'a flo_codec" where
  "constant_codec x = \<lparr>fc_type = [], fc_bytes = (\<lambda>_. []), fc_parse = (\<lambda>_. Some x)\<rparr>"

definition forced_flo :: "u256 \<Rightarrow> flo" where
  "forced_flo i = flo_new u256_zero LFail [] [] \<lparr>cuckoo = CuckooNone, force_id = Some i\<rparr> u256_zero sig_empty sig_empty"

lemma forced_flo_read:
  "client_flo e (constant_codec x) (\<lambda>_. [OutStorage (OutFloValue (forced_flo i, []))]) (u256_zero, calc_flo_id e i) =
     Some \<lparr>fw_flo = forced_flo i, fw_object = x\<rparr>"
  by (simp add: client_flo_def send_wait_def flo_global_id_def forced_flo_def flo_new_def flo_id_def fw_try_from_def constant_codec_def)

theorem condition_resolved_witness:
  "convert \<lparr>ce_flo = toy_env, ce_verifier = constant_codec (VerifierEd25519 [1]), ce_badge = constant_codec LFail\<rparr>
     (\<lambda>_. [OutStorage (OutFloValue (forced_flo (verifier_id toy_crypto (VerifierEd25519 [1])), []))]) u256_zero 2
     (LNofT 1 [LVerifier (verifier_id toy_crypto (VerifierEd25519 [1])), LPass]) = Some (CNofT 1 [CVerifier (VerifierEd25519 [1]), CPass])"
  by (rule condition_resolved) (simp_all add: toy_env_def forced_flo_read)

theorem badge_circle_diverges_witness:
  "convert \<lparr>ce_flo = toy_env, ce_verifier = constant_codec (VerifierEd25519 [1]),
       ce_badge = constant_codec (LBadge (Minimal (calc_flo_id toy_env u256_zero) 0))\<rparr>
     (\<lambda>_. [OutStorage (OutFloValue (forced_flo u256_zero, []))]) u256_zero 1000 (LBadge (Minimal (calc_flo_id toy_env u256_zero) 0)) = None"
  by (rule badge_circle_diverges [where w = "Minimal (calc_flo_id toy_env u256_zero) 0"], simp_all add: forced_flo_read, simp_all)

text \<open>
  A Flo that the node holds is returned: when the node's handler answers the read before a matching answer of someone
  else passes the tap, the call gives the Flo of the node's own store, if it is of the type that is asked for.
\<close>
lemma own_flo_returned:
  assumes "msg_dht_storage de rnd (InReadFlo i) d = Some (Ok (d', out))" and "read_flo i d = Some (f, ids)"
    and "flo_global_id e f = i" and "flo_type f = fc_type c" and "fc_parse c (data f) = Some x"
    and "tap (InReadFlo i) = before @ out @ after" and "\<forall>m \<in> set before. \<forall>fc. m \<noteq> OutStorage (OutFloValue fc)"
  shows "client_flo e c tap i = Some \<lparr>fw_flo = f, fw_object = x\<rparr>"
proof -
  let ?check = "\<lambda>msg. case msg of OutFloValue fc \<Rightarrow> if flo_global_id e (fst fc) = i then Some (fst fc) else None | _ \<Rightarrow> None"
  have "wait_tap ?check before = None"
    unfolding wait_tap_None using assms(7) by (auto split: dht_storage_out.split)
  moreover have "out = [OutStorage (OutFloValue (f, ids))]"
    using assms(1,2) by (auto simp: msg_dht_storage_def)
  ultimately have "wait_tap ?check (tap (InReadFlo i)) = Some f"
    using assms(3) by (simp add: assms(6) wait_tap_append)
  then show ?thesis
    using assms(4,5) by (simp add: client_flo_def send_wait_def fw_try_from_def)
qed

subsection \<open>Editing one's own Flo\<close>

text \<open>\<open>node_tap\<close> is the tap of a node that answers from its own store.\<close>

definition node_tap :: "dht_env \<Rightarrow> u256 \<Rightarrow> dht \<Rightarrow> tap" where
  "node_tap de rnd d msg = (case msg_dht_storage de rnd msg d of Some (Ok (d', out)) \<Rightarrow> out | _ \<Rightarrow> [])"

lemma verifier_flo_published:
  "\<exists>fw. verifier_flo e c rid v rnd = Ok fw \<and> fw_object fw = v \<and> realm (fw_flo fw) = rid \<and>
     flo_id e (fw_flo fw) = calc_flo_id e (verifier_id (fe_crypto e) v) \<and> flo_type (fw_flo fw) = fc_type c \<and>
     data (fw_flo fw) = fc_bytes c v \<and> cuckoo_parent (fl_config (fw_flo fw)) = None"
  by (simp add: verifier_flo_def fw_from_force_id_def from_force_id_def new_signer_def Let_def sign_data_def
      flo_new_def flo_id_def cuckoo_parent_def)

lemma client_reads_own:
  assumes "read_flo i d = Some (f, ids)" and "flo_global_id e f = i" and "flo_type f = fc_type c" and "fc_parse c (data f) = Some x"
  shows "client_flo e c (node_tap de rnd d) i = Some \<lparr>fw_flo = f, fw_object = x\<rparr>"
proof (rule own_flo_returned [where before = "[]" and after = "[]", OF _ assms])
  show "msg_dht_storage de rnd (InReadFlo i) d = Some (Ok (d, [OutStorage (OutFloValue (f, ids))]))"
    by (simp add: msg_dht_storage_def assms(1))
qed (simp_all add: node_tap_def msg_dht_storage_def assms(1))


text \<open>
  C24. The owner of a Flo can edit it: when the node holds the published key of the owner, the link of the condition is
  resolved to that key, and what the owner signs is the next version of the same Flo, with the edited object, and
  verifies.
\<close>
theorem owner_edit_accepted:
  assumes "crypto_ok (fe_crypto (ce_flo e))" and "flo_verify (ce_flo e) (fw_flo fw) = Ok True"
    and "cond (fw_flo fw) = LVerifier (verifier_id (fe_crypto (ce_flo e)) v)" and "signer_verifier (fe_crypto (ce_flo e)) s = v"
    and "verifier_flo (ce_flo e) (ce_verifier e) (realm (fw_flo fw)) v rnd = Ok vf"
    and "fc_parse (ce_verifier e) (fc_bytes (ce_verifier e) v) = Some v"
    and "read_flo (flo_global_id (ce_flo e) (fw_flo vf)) d = Some (fw_flo vf, ids)"
  shows "\<exists>c fw'. convert e (node_tap de rnd' d) (realm (fw_flo fw)) 1 (cond (fw_flo fw)) = Some c \<and>
    edit_data_signers (ce_flo e) cd c edit [s] fw = Ok fw' \<and> flo_verify (ce_flo e) (fw_flo fw') = Ok True \<and>
    fw_object fw' = edit (fw_object fw) \<and> data (fw_flo fw') = fc_bytes cd (edit (fw_object fw)) \<and>
    data_version (fw_flo fw') = data_version (fw_flo fw) + 1 \<and>
    flo_global_id (ce_flo e) (fw_flo fw') = flo_global_id (ce_flo e) (fw_flo fw)"
proof -
  let ?E = "ce_flo e"
  have vf: "fw_object vf = v" "realm (fw_flo vf) = realm (fw_flo fw)" "flo_id ?E (fw_flo vf) = calc_flo_id ?E (verifier_id (fe_crypto ?E) v)"
    "flo_type (fw_flo vf) = fc_type (ce_verifier e)" "data (fw_flo vf) = fc_bytes (ce_verifier e) v"
    using verifier_flo_published [of ?E "ce_verifier e" "realm (fw_flo fw)" v rnd] assms(5) by auto
  have "client_flo ?E (ce_verifier e) (node_tap de rnd' d) (flo_global_id ?E (fw_flo vf)) = Some \<lparr>fw_flo = fw_flo vf, fw_object = v\<rparr>"
    by (rule client_reads_own [OF assms(7)]) (simp_all add: vf assms(6))
  then have conv: "convert e (node_tap de rnd' d) (realm (fw_flo fw)) 1 (cond (fw_flo fw)) = Some (CVerifier v)"
    by (simp add: assms(3) flo_global_id_def vf(2,3))
  have may: "may_sign ?E (CVerifier v) [s]"
    using may_sign_own [of ?E s] by (simp add: assms(4))
  have link: "equal_link (fe_crypto ?E) (CVerifier v) (cond (fw_flo fw)) = Ok True"
    by (simp add: assms(3))
  obtain f' where "update_data_signers ?E (CVerifier v) (fc_bytes cd (edit (fw_object fw))) [s] (fw_flo fw) = Ok f'"
    "flo_verify ?E f' = Ok True" "data f' = fc_bytes cd (edit (fw_object fw))" "data_version f' = data_version (fw_flo fw) + 1"
    "flo_id ?E f' = flo_id ?E (fw_flo fw)" "realm f' = realm (fw_flo fw)"
    using update_data_verifies [OF assms(1) may assms(2) link] by blast
  with conv show ?thesis
    by (intro exI [of _ "CVerifier v"] exI [of _ "\<lparr>fw_flo = f', fw_object = edit (fw_object fw)\<rparr>"])
      (simp add: edit_data_signers_def flo_global_id_def)
qed

lemma signers_digest_cond: "signers_digest cr cs ss digest = Ok cs' \<Longrightarrow> cs_condition cs' = cs_condition cs"
  by (induction ss arbitrary: cs) (fastforce simp: bind_outcome_Ok sign_digest_Ok)+

lemma update_data_signers_keeps:
  assumes "update_data_signers e c bs ss f = Ok f'"
  shows "flo_id e f' = flo_id e f" and "realm f' = realm f" and "cond f' = cond f" and "cs_condition (data_signature f') = c"
  using assms by (auto simp: update_data_signers_def update_data_def start_sign_data_def Let_def bind_outcome_Ok flo_id_def
      digest_cond_genesis_def cond_def latest_cond_version_def split: if_splits option.split
      dest: signers_digest_cond)

text \<open>
  Whoever resolves a condition to something else, for example because somebody published another key under the
  identifier of the owner's, gets a Flo that does not verify, whatever it is signed with.
\<close>
theorem foreign_edit_rejected:
  assumes "edit_data_signers e cd c edit ss fw = Ok fw'" and "equal_link (fe_crypto e) c (cond (fw_flo fw)) \<noteq> Ok True"
  shows "flo_verify e (fw_flo fw') \<noteq> Ok True"
proof
  assume "flo_verify e (fw_flo fw') = Ok True"
  moreover obtain f where f: "update_data_signers e c (fc_bytes cd (edit (fw_object fw))) ss (fw_flo fw) = Ok f" "fw_flo fw' = f"
    using assms(1) by (auto simp: edit_data_signers_def bind_outcome_Ok)
  then have "cs_condition (data_signature f) = c" "cond f = cond (fw_flo fw)"
    by (auto dest: update_data_signers_keeps)
  ultimately show False
    using assms(2) f(2) by (simp add: flo_verify_Ok signed_under_def)
qed

theorem foreign_edit_rejected_witness:
  "\<exists>fw'. edit_data_signers toy_env (constant_codec ()) CPass id [] \<lparr>fw_flo = forced_flo u256_zero, fw_object = ()\<rparr> = Ok fw' \<and>
     flo_verify toy_env (fw_flo fw') \<noteq> Ok True"
proof -
  have "\<exists>fw'. edit_data_signers toy_env (constant_codec ()) CPass id [] \<lparr>fw_flo = forced_flo u256_zero, fw_object = ()\<rparr> = Ok fw'"
    by (simp add: edit_data_signers_def update_data_signers_def start_sign_data_def update_data_def Let_def digest_data_def
        verify_digest_def sig_new_def)
  then show ?thesis
    using foreign_edit_rejected [of toy_env "constant_codec ()" CPass id "[]" "\<lparr>fw_flo = forced_flo u256_zero, fw_object = ()\<rparr>"]
    by (auto simp: forced_flo_def flo_new_def cond_def latest_cond_version_def)
qed


text \<open>An example: the owner's key is the only Flo of the node, in a realm of its own.\<close>

definition key_store :: "flo \<Rightarrow> dht" where
  "key_store f = dht_new toy_dht_env (Some [(u256_zero,
     toy_empty_store\<lparr>flos := [(flo_id toy_env f, flo_storage_from toy_store_env f)]\<rparr>)]) dht_config_default u256_zero"

theorem owner_edit_accepted_witness:
  "\<exists>fw d c fw'. convert \<lparr>ce_flo = toy_env, ce_verifier = constant_codec (VerifierEd25519 [1]), ce_badge = constant_codec LFail\<rparr>
       (node_tap toy_dht_env u256_zero d) (realm (fw_flo fw)) 1 (cond (fw_flo fw)) = Some c \<and>
     edit_data_signers toy_env (constant_codec ()) c id [SignerEd25519 [1]] fw = Ok fw' \<and> flo_verify toy_env (fw_flo fw') = Ok True"
proof -
  let ?v = "VerifierEd25519 [1]" and ?c = "constant_codec (VerifierEd25519 [1])"
  have may: "may_sign toy_env (CVerifier ?v) [SignerEd25519 [1]]"
    using may_sign_own [of toy_env "SignerEd25519 [1]"] by (simp add: toy_env_def toy_crypto_def)
  obtain f where f: "flo_verify toy_env f = Ok True" "to_link (fe_crypto toy_env) (CVerifier ?v) = Ok (cond f)" "realm f = u256_zero"
    using new_signer_spec [OF toy_env_ok may self_linked_simple(1)] by blast
  obtain vf where vf: "verifier_flo toy_env ?c u256_zero ?v u256_zero = Ok vf" "realm (fw_flo vf) = u256_zero"
    using verifier_flo_published by blast
  have held: "read_flo (flo_global_id toy_env (fw_flo vf)) (key_store (fw_flo vf)) = Some (fw_flo vf, [])"
    by (simp add: read_flo_def key_store_def flo_global_id_def vf(2) get_flo_cuckoo_def flo_storage_from_def toy_empty_store_def)
  let ?e = "\<lparr>ce_flo = toy_env, ce_verifier = ?c, ce_badge = constant_codec LFail\<rparr>" and ?fw = "\<lparr>fw_flo = f, fw_object = ()\<rparr>"
  have "crypto_ok (fe_crypto (ce_flo ?e))" "flo_verify (ce_flo ?e) (fw_flo ?fw) = Ok True"
    and "cond (fw_flo ?fw) = LVerifier (verifier_id (fe_crypto (ce_flo ?e)) ?v)" "signer_verifier (fe_crypto (ce_flo ?e)) (SignerEd25519 [1]) = ?v"
    and "verifier_flo (ce_flo ?e) (ce_verifier ?e) (realm (fw_flo ?fw)) ?v u256_zero = Ok vf"
    and "fc_parse (ce_verifier ?e) (fc_bytes (ce_verifier ?e) ?v) = Some ?v"
    and "read_flo (flo_global_id (ce_flo ?e) (fw_flo vf)) (key_store (fw_flo vf)) = Some (fw_flo vf, [])"
    using f vf held by (simp_all add: toy_env_ok constant_codec_def) (simp_all add: toy_env_def toy_crypto_def)
  from owner_edit_accepted [OF this, where de = toy_dht_env and rnd' = u256_zero and cd = "constant_codec ()" and edit = id]
  obtain c fw' where "convert ?e (node_tap toy_dht_env u256_zero (key_store (fw_flo vf))) (realm f) 1 (cond f) = Some c"
    "edit_data_signers toy_env (constant_codec ()) c id [SignerEd25519 [1]] ?fw = Ok fw'" "flo_verify toy_env (fw_flo fw') = Ok True"
    by auto
  then show ?thesis by (intro exI [of _ ?fw] exI [of _ "key_store (fw_flo vf)"]) auto
qed


subsection \<open>Publishing and fetching\<close>



end
