(* ===== verification/RealmView.thy ===== *)
theory RealmView
  imports DhtClient
begin

text \<open>
  Pages and tags of a realm: the blobs of \<open>flmodules/src/flo/blob.rs\<close> and the view of a realm with its paths,
  \<open>flmodules/src/dht_storage/realm_view.rs\<close>. A page is a Flo that names its parents and children; a path leads from
  the root page of the realm down the names of the pages.

  What the calls to the DHT storage find is the parameter \<open>tap\<close> of \<open>DhtClient\<close>; the Flos an operation stores are
  the list it returns. \<open>BlobPage\<close> and \<open>BlobTag\<close> are both a \<open>blob\<close>, told apart by their codecs. The length of a path
  that is built from the parents of a page has no bound, so \<open>full_path_blob\<close> is a partial function. A \<open>HashSet\<close> of
  parents is gone through in the order of the list that it comes from. Storing a Flo fails only when the broker has
  been shut down, which is left out.
\<close>

subsection \<open>Blobs\<close>

record blob =
  blob_type :: string
  links :: "(string, u256 list) hashmap"
  vals :: "(string, string) hashmap"
  datas :: "(string, bytes) hashmap"

definition link_list :: "string \<Rightarrow> blob \<Rightarrow> u256 list" where
  "link_list k b = (case map_of (links b) k of Some is \<Rightarrow> is | None \<Rightarrow> [])"

definition link_push :: "string \<Rightarrow> u256 \<Rightarrow> blob \<Rightarrow> blob" where
  "link_push k i b = b\<lparr>links := AList.update k (link_list k b @ [i]) (links b)\<rparr>"

definition link_retain :: "string \<Rightarrow> u256 \<Rightarrow> blob \<Rightarrow> blob" where
  "link_retain k i b = (case map_of (links b) k of
     Some is \<Rightarrow> b\<lparr>links := AList.update k (filter (\<lambda>j. j \<noteq> i) is) (links b)\<rparr> | None \<Rightarrow> b)"

definition set_parents :: "u256 list \<Rightarrow> blob \<Rightarrow> blob" where
  "set_parents ps b = b\<lparr>links := AList.update ''parents'' ps (links b)\<rparr>"

definition add_parent :: "u256 \<Rightarrow> blob \<Rightarrow> blob" where "add_parent = link_push ''parents''"
definition rm_parent :: "u256 \<Rightarrow> blob \<Rightarrow> blob" where "rm_parent = link_retain ''parents''"
definition get_parents :: "blob \<Rightarrow> u256 list" where "get_parents = link_list ''parents''"

definition set_children :: "u256 list \<Rightarrow> blob \<Rightarrow> blob" where
  "set_children cs b = b\<lparr>links := AList.update ''children'' cs (links b)\<rparr>"

definition add_child :: "u256 \<Rightarrow> blob \<Rightarrow> blob" where "add_child = link_push ''children''"
definition rm_child :: "u256 \<Rightarrow> blob \<Rightarrow> blob" where "rm_child = link_retain ''children''"
definition get_children :: "blob \<Rightarrow> u256 list" where "get_children = link_list ''children''"

definition set_path :: "string \<Rightarrow> blob \<Rightarrow> blob" where
  "set_path p b = b\<lparr>vals := AList.update ''path'' p (vals b)\<rparr>"

definition get_path :: "blob \<Rightarrow> string option" where
  "get_path b = map_of (vals b) ''path''"

type_synonym page = "blob flo_wrapper"

definition page_blob :: "string \<Rightarrow> bytes \<Rightarrow> u256 option \<Rightarrow> blob" where
  "page_blob path index parent =
     \<lparr>blob_type = ''re.fledg.page'', links = (case parent of Some p \<Rightarrow> [(''parents'', [p])] | None \<Rightarrow> []),
      vals = [(''path'', path)], datas = [(''index.html'', index)]\<rparr>"

definition tag_blob :: "string \<Rightarrow> u256 option \<Rightarrow> blob" where
  "tag_blob name parent =
     \<lparr>blob_type = ''re.fledg.tag'', links = (case parent of Some p \<Rightarrow> [(''parents'', [p])] | None \<Rightarrow> []),
      vals = [(''name'', name)], datas = []\<rparr>"

subsection \<open>The view\<close>

record realm_blobs =
  rb_realm :: u256
  rb_root :: u256
  rb_storage :: "(u256, page) hashmap"
  rb_cuckoos :: "(u256, u256 list) hashmap"

record realm_view =
  rv_realm :: "realm_object flo_wrapper"
  rv_pages :: realm_blobs
  rv_tags :: realm_blobs

record view_env =
  ve_client :: client_env
  ve_realm :: "realm_object flo_codec"
  ve_page :: "blob flo_codec"
  ve_tag :: "blob flo_codec"

definition blob_id :: "view_env \<Rightarrow> page \<Rightarrow> u256" where
  "blob_id e p = flo_id (ce_flo (ve_client e)) (fw_flo p)"

subsection \<open>Fetching\<close>

definition note_cuckoo :: "u256 \<Rightarrow> u256 \<Rightarrow> (u256, u256 list) hashmap \<Rightarrow> (u256, u256 list) hashmap" where
  "note_cuckoo bid i cs =
     (let old = (case map_of cs bid of Some is \<Rightarrow> is | None \<Rightarrow> [])
      in AList.update bid (if i \<in> set old then old else old @ [i]) cs)"

definition fetch_one :: "view_env \<Rightarrow> blob flo_codec \<Rightarrow> tap \<Rightarrow> u256 \<Rightarrow> u256 \<Rightarrow> realm_blobs \<Rightarrow> realm_blobs" where
  "fetch_one e c tap bid i rb =
     (case client_flo (ce_flo (ve_client e)) c tap (rb_realm rb, i) of
        None \<Rightarrow> rb
      | Some f \<Rightarrow>
          (let rb1 = rb\<lparr>rb_storage := AList.update (blob_id e f) f (rb_storage rb)\<rparr>
           in if bid \<noteq> blob_id e f then rb1\<lparr>rb_cuckoos := note_cuckoo bid (blob_id e f) (rb_cuckoos rb1)\<rparr> else rb1))"

definition update_cuckoos :: "view_env \<Rightarrow> blob flo_codec \<Rightarrow> tap \<Rightarrow> u256 \<Rightarrow> realm_blobs \<Rightarrow> realm_blobs" where
  "update_cuckoos e c tap bid rb =
     fold (fetch_one e c tap bid)
       ((case client_cuckoos tap (rb_realm rb, bid) of Some ids \<Rightarrow> ids | None \<Rightarrow> []) @ [bid]) rb"

definition update_blobs :: "view_env \<Rightarrow> blob flo_codec \<Rightarrow> tap \<Rightarrow> realm_blobs \<Rightarrow> realm_blobs" where
  "update_blobs e c tap rb = fold (update_cuckoos e c tap) (map fst (rb_storage rb)) rb"

definition get_blob_cuckoos :: "view_env \<Rightarrow> blob flo_codec \<Rightarrow> tap \<Rightarrow> u256 \<Rightarrow> realm_blobs \<Rightarrow> realm_blobs \<times> page list" where
  "get_blob_cuckoos e c tap bid rb =
     (let rb1 = update_cuckoos e c tap bid rb
      in (rb1, List.map_filter (map_of (rb_storage rb1))
           (bid # (case map_of (rb_cuckoos rb1) bid of Some is \<Rightarrow> is | None \<Rightarrow> []))))"

definition from_root :: "view_env \<Rightarrow> blob flo_codec \<Rightarrow> tap \<Rightarrow> global_id \<Rightarrow> realm_blobs" where
  "from_root e c tap root =
     update_cuckoos e c tap (snd root) \<lparr>rb_realm = fst root, rb_root = snd root, rb_storage = [], rb_cuckoos = []\<rparr>"

definition from_service :: "view_env \<Rightarrow> blob flo_codec \<Rightarrow> tap \<Rightarrow> realm_object flo_wrapper \<Rightarrow> string \<Rightarrow> realm_blobs option" where
  "from_service e c tap fr service =
     map_option (\<lambda>i. from_root e c tap (realm (fw_flo fr), i)) (map_of (ro_services (fw_object fr)) service)"

definition new_from_realm :: "view_env \<Rightarrow> tap \<Rightarrow> realm_object flo_wrapper \<Rightarrow> realm_view option" where
  "new_from_realm e tap fr =
     Option.bind (from_service e (ve_page e) tap fr ''http'') (\<lambda>pages.
     Option.bind (from_service e (ve_tag e) tap fr ''tag'') (\<lambda>tags.
       Some \<lparr>rv_realm = fr, rv_pages = pages, rv_tags = tags\<rparr>))"

definition new_from_id :: "view_env \<Rightarrow> tap \<Rightarrow> u256 \<Rightarrow> realm_view option" where
  "new_from_id e tap i =
     Option.bind (client_flo (ce_flo (ve_client e)) (ve_realm e) tap (i, i)) (new_from_realm e tap)"

fun first_view :: "view_env \<Rightarrow> tap \<Rightarrow> u256 list \<Rightarrow> realm_view option" where
  "first_view e tap [] = None"
| "first_view e tap (i # is) = (case new_from_id e tap i of Some rv \<Rightarrow> Some rv | None \<Rightarrow> first_view e tap is)"

definition new_first :: "view_env \<Rightarrow> tap \<Rightarrow> realm_view option" where
  "new_first e tap = Option.bind (client_realm_ids tap) (first_view e tap)"

definition update_pages :: "view_env \<Rightarrow> tap \<Rightarrow> realm_view \<Rightarrow> realm_view" where
  "update_pages e tap rv = rv\<lparr>rv_pages := update_blobs e (ve_page e) tap (rv_pages rv)\<rparr>"

definition update_tags :: "view_env \<Rightarrow> tap \<Rightarrow> realm_view \<Rightarrow> realm_view" where
  "update_tags e tap rv = rv\<lparr>rv_tags := update_blobs e (ve_tag e) tap (rv_tags rv)\<rparr>"

text \<open>The second part of the result says whether the realm was found.\<close>

definition update_realm :: "view_env \<Rightarrow> tap \<Rightarrow> realm_view \<Rightarrow> realm_view \<times> bool" where
  "update_realm e tap rv =
     (case client_flo (ce_flo (ve_client e)) (ve_realm e) tap
             (flo_global_id (ce_flo (ve_client e)) (fw_flo (rv_realm rv))) of
        Some fr \<Rightarrow> (rv\<lparr>rv_realm := fr\<rparr>, True) | None \<Rightarrow> (rv, False))"

definition update_all :: "view_env \<Rightarrow> tap \<Rightarrow> realm_view \<Rightarrow> realm_view \<times> bool" where
  "update_all e tap rv = update_realm e tap (update_tags e tap (update_pages e tap rv))"

subsection \<open>Paths\<close>

fun split_slash :: "string \<Rightarrow> string list" where
  "split_slash [] = [[]]"
| "split_slash (c # cs) = (if c = CHR ''/'' then [] # split_slash cs
     else case split_slash cs of p # ps \<Rightarrow> (c # p) # ps | [] \<Rightarrow> [[c]])"

definition cuckoos_of :: "realm_blobs \<Rightarrow> u256 \<Rightarrow> u256 list" where
  "cuckoos_of rb i = (case map_of (rb_cuckoos rb) i of Some is \<Rightarrow> is | None \<Rightarrow> [])"

text \<open>The first of the pages \<open>ids\<close> and their cuckoos that has a certain name.\<close>

definition find_part :: "realm_blobs \<Rightarrow> string \<Rightarrow> u256 list \<Rightarrow> page option" where
  "find_part rb part ids =
     find (\<lambda>f. get_path (fw_object f) = Some part)
       (List.map_filter (map_of (rb_storage rb)) (concat (map (\<lambda>i. i # cuckoos_of rb i) ids)))"

fun get_path_internal :: "realm_blobs \<Rightarrow> string list \<Rightarrow> u256 list \<Rightarrow> page option" where
  "get_path_internal rb [] ids = None"
| "get_path_internal rb (part # rest) ids = (case find_part rb part ids of
     None \<Rightarrow> None
   | Some f \<Rightarrow>
       if rest = [] then Some f
       else if get_children (fw_object f) \<noteq> [] then get_path_internal rb rest (get_children (fw_object f)) else None)"

definition blobs_get_path :: "string \<Rightarrow> realm_blobs \<Rightarrow> page option" where
  "blobs_get_path path rb = get_path_internal rb (split_slash (dropWhile (\<lambda>c. c = CHR ''/'') path)) [rb_root rb]"

definition get_page_from_path :: "string \<Rightarrow> realm_view \<Rightarrow> page option" where
  "get_page_from_path path rv = blobs_get_path path (rv_pages rv)"

text \<open>The regular expression \<open>^/(.*)/([^/]+)$\<close>, whose dot does not match a new line.\<close>

definition split_last :: "string \<Rightarrow> (string \<times> string) option" where
  "split_last path =
     (let page = rev (takeWhile (\<lambda>c. c \<noteq> CHR ''/'') (rev path));
          front = rev (dropWhile (\<lambda>c. c \<noteq> CHR ''/'') (rev path))
      in if page \<noteq> [] \<and> length front \<ge> 2 \<and> hd front = CHR ''/'' \<and> CHR 0x0A \<notin> set (tl (butlast front))
         then Some (tl (butlast front), page) else None)"

definition get_page_parent_remaining :: "string \<Rightarrow> realm_view \<Rightarrow> (page \<times> string) option" where
  "get_page_parent_remaining path rv =
     Option.bind (split_last path) (\<lambda>(root, page). map_option (\<lambda>f. (f, page)) (get_page_from_path root rv))"

definition page_or_tag :: "realm_view \<Rightarrow> u256 \<Rightarrow> page option" where
  "page_or_tag rv i = (case map_of (rb_storage (rv_pages rv)) i of
     Some p \<Rightarrow> Some p | None \<Rightarrow> map_of (rb_storage (rv_tags rv)) i)"

text \<open>\<open>None\<close> is not returning, \<open>Some None\<close> the error.\<close>

partial_function (option) full_path_blob :: "realm_view \<Rightarrow> blob \<Rightarrow> string option option" where
  "full_path_blob rv b = (case get_path b of
     None \<Rightarrow> Some None
   | Some path \<Rightarrow> (case get_parents b of
       [] \<Rightarrow> Some (Some (CHR ''/'' # path))
     | p # _ \<Rightarrow> (case page_or_tag rv p of
         None \<Rightarrow> Some None
       | Some pb \<Rightarrow> Option.bind (full_path_blob rv (fw_object pb)) (\<lambda>r.
           Some (map_option (\<lambda>s. s @ CHR ''/'' # path) r)))))"

definition full_path_id :: "realm_view \<Rightarrow> u256 \<Rightarrow> string option option" where
  "full_path_id rv i = (case page_or_tag rv i of Some p \<Rightarrow> full_path_blob rv (fw_object p) | None \<Rightarrow> Some None)"

subsection \<open>Creating and moving pages\<close>

text \<open>
  An operation changes the view and stores Flos, also when it ends with an error; \<open>None\<close> is not returning, which
  resolving a condition can do.
\<close>

type_synonym 'a view_run = "(realm_view \<times> flo list \<times> (signer_error, 'a) outcome) option"

definition store_page :: "view_env \<Rightarrow> page \<Rightarrow> realm_view \<Rightarrow> realm_view" where
  "store_page e p rv =
     rv\<lparr>rv_pages := (rv_pages rv)\<lparr>rb_storage := AList.update (blob_id e p) p (rb_storage (rv_pages rv))\<rparr>\<rparr>"

definition store_tag :: "view_env \<Rightarrow> page \<Rightarrow> realm_view \<Rightarrow> realm_view" where
  "store_tag e p rv =
     rv\<lparr>rv_tags := (rv_tags rv)\<lparr>rb_storage := AList.update (blob_id e p) p (rb_storage (rv_tags rv))\<rparr>\<rparr>"

definition new_page ::
  "view_env \<Rightarrow> u256 \<Rightarrow> condition \<Rightarrow> string \<Rightarrow> bytes \<Rightarrow> u256 option \<Rightarrow> cuckoo \<Rightarrow> u256 \<Rightarrow> signer list \<Rightarrow> (signer_error, page) outcome" where
  "new_page e rid co path index parent cu rnd signers =
     fw_from_type_cuckoo (ce_flo (ve_client e)) (ve_page e) rid co cu rnd (page_blob path index parent) signers"

definition new_tag ::
  "view_env \<Rightarrow> u256 \<Rightarrow> condition \<Rightarrow> string \<Rightarrow> u256 option \<Rightarrow> cuckoo \<Rightarrow> u256 \<Rightarrow> signer list \<Rightarrow> (signer_error, page) outcome" where
  "new_tag e rid co name parent cu rnd signers =
     fw_from_type_cuckoo (ce_flo (ve_client e)) (ve_tag e) rid co cu rnd (tag_blob name parent) signers"

definition new_page_plain ::
  "view_env \<Rightarrow> u256 \<Rightarrow> condition \<Rightarrow> string \<Rightarrow> bytes \<Rightarrow> u256 option \<Rightarrow> u256 \<Rightarrow> signer list \<Rightarrow> (signer_error, page) outcome" where
  "new_page_plain e rid co path index parent rnd signers = new_page e rid co path index parent CuckooNone rnd signers"

definition new_tag_plain ::
  "view_env \<Rightarrow> u256 \<Rightarrow> condition \<Rightarrow> string \<Rightarrow> u256 option \<Rightarrow> u256 \<Rightarrow> signer list \<Rightarrow> (signer_error, page) outcome" where
  "new_tag_plain e rid co name parent rnd signers = new_tag e rid co name parent CuckooNone rnd signers"

definition convert_cond :: "view_env \<Rightarrow> tap \<Rightarrow> nat \<Rightarrow> 'a flo_wrapper \<Rightarrow> u256 \<Rightarrow> condition option" where
  "convert_cond e tap n fw rid = convert (ve_client e) tap rid n (cond (fw_flo fw))"

definition create_http_cuckoo ::
  "view_env \<Rightarrow> tap \<Rightarrow> nat \<Rightarrow> string \<Rightarrow> bytes \<Rightarrow> u256 option \<Rightarrow> condition \<Rightarrow> cuckoo \<Rightarrow> u256 \<Rightarrow> signer list \<Rightarrow>
     realm_view \<Rightarrow> page view_run" where
  "create_http_cuckoo e tap n path content parent co cu rnd signers rv =
     (let rid = realm (fw_flo (rv_realm rv));
          cr = fe_crypto (ce_flo (ve_client e))
      in case new_page e rid co path content parent cu rnd signers of
        Err x \<Rightarrow> Some (rv, [], Err x)
      | Panic \<Rightarrow> Some (rv, [], Panic)
      | Ok fp \<Rightarrow>
          (let rv1 = store_page e fp rv
           in case Option.bind parent (map_of (rb_storage (rv_pages rv1))) of
             None \<Rightarrow> Some (rv1, [fw_flo fp], Ok fp)
           | Some pp \<Rightarrow> Option.bind (convert_cond e tap n pp rid) (\<lambda>c.
               case can_sign cr c (map (\<lambda>s. verifier_id cr (signer_verifier cr s)) signers) of
                 Ok can \<Rightarrow>
                   if \<not> can then Some (rv1, [fw_flo fp], Ok fp)
                   else (case edit_data_signers (ce_flo (ve_client e)) (ve_page e) c (add_child (blob_id e fp)) signers pp of
                       Ok pu \<Rightarrow> Some (store_page e pu rv1, [fw_flo fp, fw_flo pu], Ok fp)
                     | Err x \<Rightarrow> Some (rv1, [fw_flo fp], Err x)
                     | Panic \<Rightarrow> Some (rv1, [fw_flo fp], Panic))
               | _ \<Rightarrow> Some (rv1, [fw_flo fp], Panic))))"

definition create_http ::
  "view_env \<Rightarrow> tap \<Rightarrow> nat \<Rightarrow> string \<Rightarrow> bytes \<Rightarrow> u256 option \<Rightarrow> condition \<Rightarrow> u256 \<Rightarrow> signer list \<Rightarrow> realm_view \<Rightarrow> page view_run" where
  "create_http e tap n path content parent co rnd signers rv =
     create_http_cuckoo e tap n path content parent co CuckooNone rnd signers rv"

definition create_tag_cuckoo ::
  "view_env \<Rightarrow> string \<Rightarrow> u256 option \<Rightarrow> condition \<Rightarrow> cuckoo \<Rightarrow> u256 \<Rightarrow> signer list \<Rightarrow> realm_view \<Rightarrow> page view_run" where
  "create_tag_cuckoo e name parent co cu rnd signers rv =
     (case new_tag e (realm (fw_flo (rv_realm rv))) co name parent cu rnd signers of
        Ok ft \<Rightarrow> Some (store_tag e ft rv, [fw_flo ft], Ok ft)
      | Err x \<Rightarrow> Some (rv, [], Err x)
      | Panic \<Rightarrow> Some (rv, [], Panic))"

definition create_tag ::
  "view_env \<Rightarrow> string \<Rightarrow> u256 option \<Rightarrow> condition \<Rightarrow> u256 \<Rightarrow> signer list \<Rightarrow> realm_view \<Rightarrow> page view_run" where
  "create_tag e name parent co rnd signers rv = create_tag_cuckoo e name parent co CuckooNone rnd signers rv"

definition set_realm_service ::
  "view_env \<Rightarrow> tap \<Rightarrow> nat \<Rightarrow> string \<Rightarrow> u256 \<Rightarrow> signer list \<Rightarrow> realm_view \<Rightarrow> unit view_run" where
  "set_realm_service e tap n name i signers rv =
     Option.bind (convert_cond e tap n (rv_realm rv) (realm (fw_flo (rv_realm rv)))) (\<lambda>c.
       case edit_data_signers (ce_flo (ve_client e)) (ve_realm e) c
              (set_service name i) signers (rv_realm rv) of
         Ok r \<Rightarrow> Some (rv\<lparr>rv_realm := r\<rparr>, [fw_flo r], Ok ())
       | Err x \<Rightarrow> Some (rv, [], Err x)
       | Panic \<Rightarrow> Some (rv, [], Panic))"

definition set_realm_http :: "view_env \<Rightarrow> tap \<Rightarrow> nat \<Rightarrow> u256 \<Rightarrow> signer list \<Rightarrow> realm_view \<Rightarrow> unit view_run" where
  "set_realm_http e tap n i signers rv = set_realm_service e tap n ''http'' i signers rv"

definition set_realm_tag :: "view_env \<Rightarrow> tap \<Rightarrow> nat \<Rightarrow> u256 \<Rightarrow> signer list \<Rightarrow> realm_view \<Rightarrow> unit view_run" where
  "set_realm_tag e tap n i signers rv = set_realm_service e tap n ''tag'' i signers rv"

definition fetch_page :: "view_env \<Rightarrow> tap \<Rightarrow> u256 \<Rightarrow> realm_view \<Rightarrow> realm_view" where
  "fetch_page e tap i rv = rv\<lparr>rv_pages := update_cuckoos e (ve_page e) tap i (rv_pages rv)\<rparr>"

definition fetch_tag :: "view_env \<Rightarrow> tap \<Rightarrow> u256 \<Rightarrow> realm_view \<Rightarrow> realm_view" where
  "fetch_tag e tap i rv = rv\<lparr>rv_tags := update_cuckoos e (ve_tag e) tap i (rv_tags rv)\<rparr>"

text \<open>
  \<open>update_child_links\<close> goes through the parents that are in \<open>before\<close> and not in \<open>after\<close>. An error of one parent is only
  logged; a panic ends the operation.
\<close>

definition update_child_link ::
  "view_env \<Rightarrow> tap \<Rightarrow> nat \<Rightarrow> (blob \<Rightarrow> blob) \<Rightarrow> signer list \<Rightarrow> u256 \<Rightarrow> realm_view \<Rightarrow> unit view_run" where
  "update_child_link e tap n edit signers pid rv =
     (case map_of (rb_storage (rv_pages rv)) pid of
        None \<Rightarrow> Some (rv, [], Ok ())
      | Some parent \<Rightarrow> Option.bind (convert_cond e tap n parent (realm (fw_flo parent))) (\<lambda>c.
          case can_signers (fe_crypto (ce_flo (ve_client e))) c signers of
            Ok can \<Rightarrow>
              if \<not> can then Some (rv, [], Ok ())
              else (case edit_data_signers (ce_flo (ve_client e)) (ve_page e) c edit signers parent of
                  Ok new_parent \<Rightarrow> Some (store_page e new_parent rv, [fw_flo new_parent], Ok ())
                | Err x \<Rightarrow> Some (rv, [], Ok ())
                | Panic \<Rightarrow> Some (rv, [], Panic))
          | _ \<Rightarrow> Some (rv, [], Panic)))"

definition run_then :: "'a view_run \<Rightarrow> ('a \<Rightarrow> realm_view \<Rightarrow> 'b view_run) \<Rightarrow> 'b view_run" where
  "run_then m f = Option.bind m (\<lambda>(rv, out, r). case r of
     Ok x \<Rightarrow> map_option (\<lambda>(rv2, out2, r2). (rv2, out @ out2, r2)) (f x rv)
   | Err x \<Rightarrow> Some (rv, out, Err x)
   | Panic \<Rightarrow> Some (rv, out, Panic))"

fun each_parent :: "(u256 \<Rightarrow> realm_view \<Rightarrow> unit view_run) \<Rightarrow> u256 list \<Rightarrow> realm_view \<Rightarrow> unit view_run" where
  "each_parent f [] rv = Some (rv, [], Ok ())"
| "each_parent f (p # ps) rv = run_then (f p rv) (\<lambda>_. each_parent f ps)"

definition update_child_links ::
  "view_env \<Rightarrow> tap \<Rightarrow> nat \<Rightarrow> u256 list \<Rightarrow> u256 list \<Rightarrow> (blob \<Rightarrow> blob) \<Rightarrow> signer list \<Rightarrow> realm_view \<Rightarrow> unit view_run" where
  "update_child_links e tap n before after edit signers rv =
     each_parent (update_child_link e tap n edit signers) (filter (\<lambda>p. p \<notin> set after) (remdups before)) rv"

text \<open>The error of a page that is not there is the result \<open>None\<close>; nothing has been stored then.\<close>

definition update_page ::
  "view_env \<Rightarrow> tap \<Rightarrow> nat \<Rightarrow> u256 \<Rightarrow> (blob \<Rightarrow> blob) \<Rightarrow> signer list \<Rightarrow> realm_view \<Rightarrow> page option view_run" where
  "update_page e tap n i edit signers rv =
     (case map_of (rb_storage (rv_pages rv)) i of
        None \<Rightarrow> Some (rv, [], Ok None)
      | Some page \<Rightarrow> Option.bind (convert_cond e tap n page (realm (fw_flo page))) (\<lambda>c.
          case edit_data_signers (ce_flo (ve_client e)) (ve_page e) c edit signers page of
            Err x \<Rightarrow> Some (rv, [], Err x)
          | Panic \<Rightarrow> Some (rv, [], Panic)
          | Ok newp \<Rightarrow>
              (let before = get_parents (fw_object page); after = get_parents (fw_object newp)
               in run_then (Some (store_page e newp rv, [fw_flo newp], Ok ())) (\<lambda>_ rv1.
                  run_then (update_child_links e tap n before after (rm_child i) signers rv1) (\<lambda>_ rv2.
                  run_then (update_child_links e tap n after before (\<lambda>b. add_child i (rm_child i b)) signers rv2) (\<lambda>_ rv3.
                    Some (rv3, [], Ok (Some newp))))))))"

subsection \<open>Building a realm\<close>

record blob_plan =
  bp_path :: string
  bp_content :: "bytes option"
  bp_parent :: "u256 option"
  bp_cond :: condition
  bp_cuckoo :: cuckoo
  bp_signers :: "signer list"

record view_builder =
  vb_name :: string
  vb_cond :: condition
  vb_signers :: "signer list"
  vb_config :: realm_config
  vb_page :: "blob_plan option"
  vb_tag :: "blob_plan option"

definition builder_new :: "string \<Rightarrow> condition \<Rightarrow> signer list \<Rightarrow> view_builder" where
  "builder_new name co signers = \<lparr>vb_name = name, vb_cond = co, vb_signers = signers,
     vb_config = \<lparr>max_space = 1000000, max_flo_size = 10000\<rparr>, vb_page = None, vb_tag = None\<rparr>"

definition builder_config :: "realm_config \<Rightarrow> view_builder \<Rightarrow> view_builder" where
  "builder_config cfg b = b\<lparr>vb_config := cfg\<rparr>"

definition root_http_cuckoo ::
  "string \<Rightarrow> bytes \<Rightarrow> u256 option \<Rightarrow> condition \<Rightarrow> cuckoo \<Rightarrow> signer list \<Rightarrow> view_builder \<Rightarrow> view_builder" where
  "root_http_cuckoo path content parent co cu signers b = b\<lparr>vb_page := Some \<lparr>bp_path = path, bp_content = Some content,
     bp_parent = parent, bp_cond = co, bp_cuckoo = cu, bp_signers = signers\<rparr>\<rparr>"

definition root_http :: "string \<Rightarrow> bytes \<Rightarrow> u256 option \<Rightarrow> condition \<Rightarrow> signer list \<Rightarrow> view_builder \<Rightarrow> view_builder" where
  "root_http path content parent co signers b = root_http_cuckoo path content parent co CuckooNone signers b"

definition root_tag_cuckoo :: "string \<Rightarrow> u256 option \<Rightarrow> condition \<Rightarrow> cuckoo \<Rightarrow> signer list \<Rightarrow> view_builder \<Rightarrow> view_builder" where
  "root_tag_cuckoo name parent co cu signers b = b\<lparr>vb_tag := Some \<lparr>bp_path = name, bp_content = None,
     bp_parent = parent, bp_cond = co, bp_cuckoo = cu, bp_signers = signers\<rparr>\<rparr>"

definition root_tag :: "string \<Rightarrow> u256 option \<Rightarrow> condition \<Rightarrow> signer list \<Rightarrow> view_builder \<Rightarrow> view_builder" where
  "root_tag name parent co signers b = root_tag_cuckoo name parent co CuckooNone signers b"

datatype build_error = NeedPage | NeedTag | BuildRealm realm_error | BuildSigner signer_error | NoService

fun map_err :: "('e \<Rightarrow> 'f) \<Rightarrow> ('e, 'a) outcome \<Rightarrow> ('f, 'a) outcome" where
  "map_err g (Ok a) = Ok a"
| "map_err g (Err x) = Err (g x)"
| "map_err g Panic = Panic"

text \<open>What has been stored before an error stays stored. The three random numbers are the nonces of the new Flos.\<close>

fun build_then :: "flo list \<times> ('e, 'a) outcome \<Rightarrow> ('a \<Rightarrow> flo list \<times> ('e, 'b) outcome) \<Rightarrow> flo list \<times> ('e, 'b) outcome" where
  "build_then (out, Ok x) k = (out @ fst (k x), snd (k x))"
| "build_then (out, Err x) k = (out, Err x)"
| "build_then (out, Panic) k = (out, Panic)"

definition build ::
  "view_env \<Rightarrow> tap \<Rightarrow> u256 \<times> u256 \<times> u256 \<Rightarrow> view_builder \<Rightarrow> flo list \<times> (build_error, realm_view) outcome" where
  "build e tap rnds b =
     (let fe = ce_flo (ve_client e); (rnd1, rnd2, rnd3) = rnds
      in case vb_page b of None \<Rightarrow> ([], Err NeedPage)
       | Some p \<Rightarrow> (case vb_tag b of None \<Rightarrow> ([], Err NeedTag)
       | Some t \<Rightarrow>
         build_then ([], map_err BuildRealm (flo_realm_new fe (ve_realm e) (vb_name b) (vb_cond b) (vb_config b) rnd1 (vb_signers b))) (\<lambda>fr.
         build_then ([fw_flo fr], map_err BuildSigner
           (new_tag e (realm (fw_flo fr)) (bp_cond t) (bp_path t) (bp_parent t) (bp_cuckoo t) rnd2 (bp_signers t))) (\<lambda>ft.
         build_then ([fw_flo ft], case bp_content p of None \<Rightarrow> Panic | Some content \<Rightarrow> map_err BuildSigner
           (new_page e (realm (fw_flo fr)) (bp_cond p) (bp_path p) content (bp_parent p) (bp_cuckoo p) rnd3 (bp_signers p))) (\<lambda>fp.
         build_then ([fw_flo fp], map_err BuildSigner (edit_data_signers fe (ve_realm e) (vb_cond b)
           (\<lambda>r. set_service ''tag'' (blob_id e ft) (set_service ''http'' (blob_id e fp) r)) (vb_signers b) fr)) (\<lambda>fr'.
         ([fw_flo fr'], case new_from_realm e tap fr' of Some rv \<Rightarrow> Ok rv | None \<Rightarrow> Err NoService)))))))"

subsection \<open>Links\<close>

lemma link_list_push: "link_list k (link_push j i b) = (if k = j then link_list k b @ [i] else link_list k b)"
  by (simp add: link_push_def link_list_def)

lemma link_list_retain: "link_list k (link_retain j i b) = (if k = j then filter (\<lambda>x. x \<noteq> i) (link_list k b) else link_list k b)"
  by (simp add: link_retain_def link_list_def split: option.splits)

lemma links_simps [simp]:
  "get_parents (add_child i b) = get_parents b" "get_children (add_child i b) = get_children b @ [i]"
  "get_parents (rm_child i b) = get_parents b" "get_children (rm_child i b) = filter (\<lambda>x. x \<noteq> i) (get_children b)"
  "get_parents (add_parent i b) = get_parents b @ [i]" "get_children (add_parent i b) = get_children b"
  "get_parents (rm_parent i b) = filter (\<lambda>x. x \<noteq> i) (get_parents b)" "get_children (rm_parent i b) = get_children b"
  "get_parents (set_parents ps b) = ps" "get_children (set_parents ps b) = get_children b"
  by (simp_all add: add_child_def rm_child_def add_parent_def rm_parent_def set_parents_def get_parents_def get_children_def
      link_list_push link_list_retain) (simp_all add: link_list_def)

lemma vals_kept [simp]: "vals (link_push k i b) = vals b" "vals (link_retain k i b) = vals b"
  by (simp_all add: link_push_def link_retain_def split: option.split)

lemma path_kept [simp]: "get_path (add_child i b) = get_path b" "get_path (rm_child i b) = get_path b"
  by (simp_all add: get_path_def add_child_def rm_child_def)

lemma page_blob_simps [simp]:
  "get_path (page_blob path index parent) = Some path" "get_children (page_blob path index parent) = []"
  "get_parents (page_blob path index parent) = (case parent of Some p \<Rightarrow> [p] | None \<Rightarrow> [])"
  by (simp_all add: page_blob_def get_path_def get_children_def get_parents_def link_list_def split: option.split)

subsection \<open>Paths lead to pages\<close>

text \<open>A path is what its names give when they are joined again, if none of them has a slash in it.\<close>

definition join_path :: "string list \<Rightarrow> string" where
  "join_path names = concat (map (\<lambda>n. CHR ''/'' # n) names)"

lemma split_slash_append: "CHR ''/'' \<notin> set n \<Longrightarrow> split_slash (n @ CHR ''/'' # s) = n # split_slash s"
  by (induction n) (auto split: list.splits)

lemma split_slash_one: "CHR ''/'' \<notin> set n \<Longrightarrow> split_slash n = [n]"
  by (induction n) auto

lemma split_join:
  assumes "\<forall>n \<in> set names. CHR ''/'' \<notin> set n" and "names \<noteq> []"
  shows "split_slash (tl (join_path names)) = names"
  using assms
proof (induction names)
  case (Cons n ns)
  show ?case
  proof (cases ns)
    case Nil
    with Cons.prems show ?thesis by (simp add: join_path_def split_slash_one)
  next
    case (Cons m ms)
    have "tl (join_path (n # ns)) = n @ CHR ''/'' # tl (join_path ns)" by (simp add: join_path_def Cons)
    moreover have "split_slash (tl (join_path ns)) = ns" using Cons.IH Cons.prems Cons by simp
    ultimately show ?thesis using Cons.prems(1) by (simp add: split_slash_append)
  qed
qed simp

lemma trim_join:
  assumes "\<forall>n \<in> set names. CHR ''/'' \<notin> set n" and "names \<noteq> []" and "hd names \<noteq> []"
  shows "dropWhile (\<lambda>c. c = CHR ''/'') (join_path names) = tl (join_path names)"
proof -
  obtain c n ns where "names = (c # n) # ns" using assms(2,3) by (metis list.exhaust_sel)
  with assms(1) show ?thesis by (auto simp: join_path_def)
qed

text \<open>
  The pages that are stored under some identifiers and under those of their cuckoos, each identifier
  before its cuckoos; and a page of them that is the first with its name.
\<close>

definition candidates :: "realm_blobs \<Rightarrow> u256 list \<Rightarrow> page list" where
  "candidates rb ids = List.map_filter (map_of (rb_storage rb)) (concat (map (\<lambda>i. i # cuckoos_of rb i) ids))"

definition first_named :: "realm_blobs \<Rightarrow> u256 list \<Rightarrow> page \<Rightarrow> bool" where
  "first_named rb ids p \<longleftrightarrow> get_path (fw_object p) \<noteq> None \<and>
     (\<exists>before after. candidates rb ids = before @ p # after \<and>
        (\<forall>q \<in> set before. get_path (fw_object q) \<noteq> get_path (fw_object p)))"

lemma find_first: "\<forall>q \<in> set before. \<not> P q \<Longrightarrow> P p \<Longrightarrow> find P (before @ p # after) = Some p"
  by (induction before) auto

lemma first_named_single: "candidates rb ids = [p] \<Longrightarrow> get_path (fw_object p) \<noteq> None \<Longrightarrow> first_named rb ids p"
  unfolding first_named_def by (intro conjI exI [of _ "[]"]) simp_all

lemma first_named_found:
  assumes "first_named rb ids p"
  shows "find_part rb (the (get_path (fw_object p))) ids = Some p"
proof -
  obtain name before after where "get_path (fw_object p) = Some name" "candidates rb ids = before @ p # after"
    "\<forall>q \<in> set before. get_path (fw_object q) \<noteq> Some name"
    using assms unfolding first_named_def by auto
  then show ?thesis
    using find_first [of before "\<lambda>f. get_path (fw_object f) = Some name" p after] by (simp add: find_part_def candidates_def)
qed

text \<open>
  A line of pages from the root down: each one is the first of its name among the children (and their cuckoos) of the
  one before, and names that one as its first parent; the first one is the first of its name among the root and its
  cuckoos, and has no parent.
\<close>

fun line_below :: "realm_view \<Rightarrow> u256 list \<Rightarrow> page \<Rightarrow> page list \<Rightarrow> bool" where
  "line_below rv ids p [] \<longleftrightarrow> first_named (rv_pages rv) ids p"
| "line_below rv ids p (q # qs) \<longleftrightarrow>
     first_named (rv_pages rv) ids p \<and>
     get_children (fw_object p) \<noteq> [] \<and> get_parents (fw_object q) \<noteq> [] \<and>
     map_of (rb_storage (rv_pages rv)) (hd (get_parents (fw_object q))) = Some p \<and> line_below rv (get_children (fw_object p)) q qs"

lemma line_first: "line_below rv ids p qs \<Longrightarrow> first_named (rv_pages rv) ids p"
  by (cases qs) simp_all

definition line_from_root :: "realm_view \<Rightarrow> page list \<Rightarrow> bool" where
  "line_from_root rv ps \<longleftrightarrow> ps \<noteq> [] \<and> get_parents (fw_object (hd ps)) = [] \<and> line_below rv [rb_root (rv_pages rv)] (hd ps) (tl ps)"

definition page_name :: "page \<Rightarrow> string" where
  "page_name p = the (get_path (fw_object p))"

lemma line_found:
  "line_below rv ids p qs \<Longrightarrow> get_path_internal (rv_pages rv) (map page_name (p # qs)) ids = Some (last (p # qs))"
  by (induction qs arbitrary: p ids) (simp_all add: page_name_def first_named_found)

lemma line_named:
  "line_below rv ids p qs \<Longrightarrow> full_path_blob rv (fw_object p) = Some (Some s) \<Longrightarrow>
     full_path_blob rv (fw_object (last (p # qs))) = Some (Some (s @ join_path (map page_name qs)))"
proof (induction qs arbitrary: p ids s)
  case (Cons q qs)
  have q: "get_path (fw_object q) = Some (page_name q)"
    using line_first [of rv "get_children (fw_object p)" q qs] Cons.prems(1) by (auto simp: page_name_def first_named_def)
  obtain pid more where "get_parents (fw_object q) = pid # more" "page_or_tag rv pid = Some p"
    using Cons.prems(1) by (cases "get_parents (fw_object q)") (auto simp: page_or_tag_def)
  with Cons.prems(2) q have "full_path_blob rv (fw_object q) = Some (Some (s @ CHR ''/'' # page_name q))"
    by (subst full_path_blob.simps) simp
  moreover have "line_below rv (get_children (fw_object p)) q qs" using Cons.prems(1) by simp
  ultimately show ?case using Cons.IH by (simp add: join_path_def)
qed (simp add: join_path_def)

lemma line_path:
  assumes "line_from_root rv ps" and "\<forall>p \<in> set ps. CHR ''/'' \<notin> set (page_name p)" and "page_name (hd ps) \<noteq> []"
  shows "full_path_blob rv (fw_object (last ps)) = Some (Some (join_path (map page_name ps))) \<and>
    get_page_from_path (join_path (map page_name ps)) rv = Some (last ps)"
proof -
  obtain p qs where ps: "ps = p # qs" using assms(1) by (cases ps) (auto simp: line_from_root_def)
  have line: "line_below rv [rb_root (rv_pages rv)] p qs" and top: "get_parents (fw_object p) = []"
    using assms(1) by (simp_all add: line_from_root_def ps)
  have "get_path (fw_object p) = Some (page_name p)" using line_first [OF line] by (auto simp: page_name_def first_named_def)
  then have "full_path_blob rv (fw_object p) = Some (Some (CHR ''/'' # page_name p))"
    by (subst full_path_blob.simps) (simp add: top)
  from line_named [OF line this] have up: "full_path_blob rv (fw_object (last ps)) = Some (Some (join_path (map page_name ps)))"
    by (simp add: ps join_path_def)
  have names: "\<forall>n \<in> set (map page_name ps). CHR ''/'' \<notin> set n" "map page_name ps \<noteq> []" "hd (map page_name ps) \<noteq> []"
    using assms(2,3) by (simp_all add: ps)
  have "split_slash (dropWhile (\<lambda>c. c = CHR ''/'') (join_path (map page_name ps))) = map page_name ps"
    unfolding trim_join [OF names] using names(1,2) by (rule split_join)
  then have "get_page_from_path (join_path (map page_name ps)) rv = Some (last ps)"
    using line_found [OF line] by (simp add: get_page_from_path_def blobs_get_path_def ps)
  with up show ?thesis ..
qed

text \<open>
  C20. The path of a page is found from its parents upwards, and leads back to it from the root downwards. Take a line of
  pages from the root page down, each one stored under the first parent of the next, and each the first one of its name
  among the children of the one before and their cuckoos; no name has a slash in it, and the name of the root page is
  not empty. Then the path that is built from the parents of the last page is the names joined by slashes, and looking
  it up gives this very page.
\<close>
theorem path_leads_back:
  assumes "line_from_root rv ps" and "\<forall>p \<in> set ps. CHR ''/'' \<notin> set (page_name p)" and "page_name (hd ps) \<noteq> []"
  shows "full_path_blob rv (fw_object (last ps)) = Some (Some (join_path (map page_name ps))) \<and>
    get_page_from_path (join_path (map page_name ps)) rv = Some (last ps)"
  using line_path [OF assms] .

text \<open>Without the conditions on the names it does not: a page with a slash in its name is found on no path at all.\<close>

lemma split_slash_parts: "n \<in> set (split_slash s) \<Longrightarrow> CHR ''/'' \<notin> set n"
  by (induction s arbitrary: n rule: split_slash.induct) (auto split: if_splits list.splits)

lemma found_name:
  "get_path_internal rb parts ids = Some p \<Longrightarrow> \<exists>n \<in> set parts. get_path (fw_object p) = Some n"
  by (induction rb parts ids rule: get_path_internal.induct)
    (auto simp: find_part_def find_Some_iff split: option.splits if_splits)

lemma slashed_name_not_found:
  "get_path (fw_object p) = Some name \<Longrightarrow> CHR ''/'' \<in> set name \<Longrightarrow> get_page_from_path path rv \<noteq> Some p"
  using found_name split_slash_parts by (fastforce simp: get_page_from_path_def blobs_get_path_def)

text \<open>
  Pages whose first parents lead round in a circle have no path: building it never ends (in the program, the stack
  overflows). Parents are written by whoever publishes a page.
\<close>
theorem parent_circle_diverges:
  assumes "\<forall>b \<in> S. get_path b \<noteq> None \<and>
      (\<exists>pid more p. get_parents b = pid # more \<and> page_or_tag rv pid = Some p \<and> fw_object p \<in> S)"
    and "b \<in> S"
  shows "full_path_blob rv b = None"
proof -
  have "rv = rv \<longrightarrow> b \<notin> S" if "full_path_blob rv b = Some r" for r
  proof (rule full_path_blob.raw_induct [where P = "\<lambda>rv' b r. rv' = rv \<longrightarrow> b \<notin> S", OF _ that], intro impI notI, goal_cases)
    case (1 f rv' b r)
    with assms(1) obtain path pid more p where b: "get_path b = Some path" "get_parents b = pid # more"
      "page_or_tag rv pid = Some p" "fw_object p \<in> S" by fastforce
    with 1(2,3) obtain s where "f rv (fw_object p) = Some s" by (auto simp: bind_eq_Some_conv)
    with 1(1) b(4) show False by blast
  qed
  with assms(2) show ?thesis by (cases "full_path_blob rv b") auto
qed

definition root_id :: u256 where "root_id = U256 [1]"
definition sub_id :: u256 where "sub_id = U256 [2]"

definition toy_page :: "string \<Rightarrow> u256 list \<Rightarrow> u256 list \<Rightarrow> u256 \<Rightarrow> page" where
  "toy_page name ps cs i =
     \<lparr>fw_flo = forced_flo i, fw_object = set_parents ps (set_children cs (set_path name (page_blob [] [] None)))\<rparr>"

definition toy_view :: "u256 list \<Rightarrow> realm_view" where
  "toy_view root_parents =
     \<lparr>rv_realm = \<lparr>fw_flo = forced_flo u256_zero, fw_object = \<lparr>ro_name = [], ro_config = \<lparr>max_space = 0, max_flo_size = 0\<rparr>, ro_services = []\<rparr>\<rparr>,
      rv_pages = \<lparr>rb_realm = u256_zero, rb_root = root_id,
        rb_storage = [(root_id, toy_page ''root'' root_parents [sub_id] root_id), (sub_id, toy_page ''sub'' [root_id] [] sub_id)], rb_cuckoos = []\<rparr>,
      rv_tags = \<lparr>rb_realm = u256_zero, rb_root = root_id, rb_storage = [], rb_cuckoos = []\<rparr>\<rparr>"

lemma toy_page_simps [simp]:
  "get_path (fw_object (toy_page name ps cs i)) = Some name" "get_parents (fw_object (toy_page name ps cs i)) = ps"
  "get_children (fw_object (toy_page name ps cs i)) = cs" "page_name (toy_page name ps cs i) = name"
  by (simp_all add: toy_page_def set_parents_def set_children_def set_path_def page_blob_def get_path_def get_parents_def
      get_children_def link_list_def page_name_def)

lemma page_ids [simp]: "root_id \<noteq> sub_id" "sub_id \<noteq> root_id"
  by (simp_all add: root_id_def sub_id_def)

theorem path_leads_back_witness:
  "get_page_from_path ''/root/sub'' (toy_view []) = Some (toy_page ''sub'' [root_id] [] sub_id) \<and>
   full_path_blob (toy_view []) (fw_object (toy_page ''sub'' [root_id] [] sub_id)) = Some (Some ''/root/sub'')"
proof -
  have "line_from_root (toy_view []) [toy_page ''root'' [] [sub_id] root_id, toy_page ''sub'' [root_id] [] sub_id]"
    by (simp add: line_from_root_def toy_view_def first_named_single candidates_def cuckoos_of_def List.map_filter_def)
  from path_leads_back [OF this] show ?thesis by (simp add: join_path_def)
qed

theorem parent_circle_diverges_witness:
  "full_path_blob (toy_view [sub_id]) (fw_object (toy_page ''sub'' [root_id] [] sub_id)) = None"
  by (rule parent_circle_diverges [of "{fw_object (toy_page ''sub'' [root_id] [] sub_id), fw_object (toy_page ''root'' [sub_id] [sub_id] root_id)}"])
    (auto simp: page_or_tag_def toy_view_def)

subsection \<open>A new page under another one\<close>

lemma edit_data_signers_keeps:
  assumes "edit_data_signers (ce_flo (ve_client e)) cd c edit ss p = Ok p'"
  shows "fw_object p' = edit (fw_object p)" and "blob_id e p' = blob_id e p" and "realm (fw_flo p') = realm (fw_flo p)"
    and "cond (fw_flo p') = cond (fw_flo p)"
  using assms update_data_signers_keeps by (auto simp: edit_data_signers_def bind_outcome_Ok blob_id_def)

text \<open>Every page is filed under its own identifier.\<close>

definition filed :: "view_env \<Rightarrow> realm_view \<Rightarrow> bool" where
  "filed e rv \<longleftrightarrow> (\<forall>i p. map_of (rb_storage (rv_pages rv)) i = Some p \<longrightarrow> blob_id e p = i)"

text \<open>An identifier that nothing in the view mentions.\<close>

definition unknown_id :: "u256 \<Rightarrow> realm_view \<Rightarrow> bool" where
  "unknown_id i rv \<longleftrightarrow> map_of (rb_storage (rv_pages rv)) i = None \<and> i \<noteq> rb_root (rv_pages rv) \<and>
     (\<forall>j is. map_of (rb_cuckoos (rv_pages rv)) j = Some is \<longrightarrow> j \<noteq> i \<and> i \<notin> set is) \<and>
     (\<forall>j p. map_of (rb_storage (rv_pages rv)) j = Some p \<longrightarrow> i \<notin> set (get_children (fw_object p)))"

lemma found_replaced:
  assumes "\<And>i. i \<noteq> new \<Longrightarrow> s' i = map_option g (s i)" and "new \<notin> set xs"
  shows "List.map_filter s' xs = map g (List.map_filter s xs)"
  using assms(2) by (induction xs) (auto simp: List.map_filter_simps assms(1) split: option.split)

lemma candidates_replaced:
  assumes "rb_cuckoos (rv_pages rv') = rb_cuckoos (rv_pages rv)"
    and "\<And>i. i \<noteq> new \<Longrightarrow> map_of (rb_storage (rv_pages rv')) i = map_option g (map_of (rb_storage (rv_pages rv)) i)"
    and "new \<notin> set ids" and "\<And>j is. map_of (rb_cuckoos (rv_pages rv)) j = Some is \<Longrightarrow> new \<notin> set is"
  shows "candidates (rv_pages rv') ids = map g (candidates (rv_pages rv) ids)"
proof -
  have same: "cuckoos_of (rv_pages rv') i = cuckoos_of (rv_pages rv) i" for i by (simp add: cuckoos_of_def assms(1))
  let ?ids = "concat (map (\<lambda>i. i # cuckoos_of (rv_pages rv) i) ids)"
  have "new \<notin> set ?ids" using assms(3,4) by (auto simp: cuckoos_of_def split: option.splits)
  then have "List.map_filter (map_of (rb_storage (rv_pages rv'))) ?ids = map g (List.map_filter (map_of (rb_storage (rv_pages rv))) ?ids)"
    by (intro found_replaced [where new = new]) (simp_all add: assms(2))
  then show ?thesis by (simp add: candidates_def same)
qed

lemma first_named_replaced:
  assumes "first_named rb ids p" and "candidates rb' ids = map g (candidates rb ids)"
    and "\<And>p. get_path (fw_object (g p)) = get_path (fw_object p)"
  shows "first_named rb' ids (g p)"
proof -
  obtain before after where "candidates rb ids = before @ p # after"
    "\<forall>q \<in> set before. get_path (fw_object q) \<noteq> get_path (fw_object p)" "get_path (fw_object p) \<noteq> None"
    using assms(1) unfolding first_named_def by blast
  then show ?thesis unfolding first_named_def assms(2,3)
    by (intro conjI exI [of _ "map g before"] exI [of _ "map g after"]) (simp_all add: assms(3))
qed

text \<open>A page that takes the place of another one of its name and with the children of that one leaves every line in place.\<close>

lemma line_replaced:
  assumes line: "line_below rv ids p qs"
    and same: "rb_cuckoos (rv_pages rv') = rb_cuckoos (rv_pages rv)"
    and replaced: "\<And>i. i \<noteq> new \<Longrightarrow> map_of (rb_storage (rv_pages rv')) i = map_option g (map_of (rb_storage (rv_pages rv)) i)"
    and path: "\<And>p. get_path (fw_object (g p)) = get_path (fw_object p)"
    and parents: "\<And>p. get_parents (fw_object (g p)) = get_parents (fw_object p)"
    and children: "\<And>r. r \<in> set (butlast (p # qs)) \<Longrightarrow> get_children (fw_object (g r)) = get_children (fw_object r)"
    and new: "unknown_id new rv" and ids: "new \<notin> set ids"
  shows "line_below rv' ids (g p) (map g qs)"
  using line children ids
proof (induction qs arbitrary: p ids)
  case Nil
  have "candidates (rv_pages rv') ids = map g (candidates (rv_pages rv) ids)"
    using Nil.prems(3) new by (intro candidates_replaced [OF same replaced]) (auto simp: unknown_id_def)
  with Nil.prems(1) first_named_replaced [OF _ _ path] show ?case by simp
next
  case (Cons q qs)
  let ?pid = "hd (get_parents (fw_object q))"
  have "candidates (rv_pages rv') ids = map g (candidates (rv_pages rv) ids)"
    using Cons.prems(3) new by (intro candidates_replaced [OF same replaced]) (auto simp: unknown_id_def)
  then have named: "first_named (rv_pages rv') ids (g p)"
    using Cons.prems(1) by (intro first_named_replaced [OF _ _ path, where rb = "rv_pages rv"]) simp_all
  have kids: "get_children (fw_object (g p)) = get_children (fw_object p)" using Cons.prems(2) by simp
  have parent: "map_of (rb_storage (rv_pages rv)) ?pid = Some p" using Cons.prems(1) by simp
  with new have "?pid \<noteq> new" "new \<notin> set (get_children (fw_object p))" unfolding unknown_id_def by auto
  moreover have "line_below rv' (get_children (fw_object p)) (g q) (map g qs)"
    using Cons.prems calculation(2) by (intro Cons.IH) auto
  ultimately show ?case
    using Cons.prems(1) named kids replaced [of ?pid] parent by (simp add: parents)
qed

lemma line_append:
  "line_below rv ids p (qs @ [q]) \<longleftrightarrow>
     line_below rv ids p qs \<and> get_children (fw_object (last (p # qs))) \<noteq> [] \<and> get_parents (fw_object q) \<noteq> [] \<and>
     map_of (rb_storage (rv_pages rv)) (hd (get_parents (fw_object q))) = Some (last (p # qs)) \<and>
     first_named (rv_pages rv) (get_children (fw_object (last (p # qs)))) q"
  by (induction qs arbitrary: p ids) auto

lemma candidates_append: "candidates rb (a @ b) = candidates rb a @ candidates rb b"
  by (simp add: candidates_def List.map_filter_def)

lemma last_not_before: "distinct xs \<Longrightarrow> x \<in> set (butlast xs) \<Longrightarrow> x \<noteq> last xs"
  by (cases xs rule: rev_cases) auto

lemma map_last_replaced: "distinct ps \<Longrightarrow> ps \<noteq> [] \<Longrightarrow> map (\<lambda>p. if p = last ps then q else p) ps = butlast ps @ [q]"
  by (cases ps rule: rev_cases) (auto intro: map_idI)

lemma create_http_run:
  assumes "create_http e tap n path content (Some pid) co rnd signers rv = Some (rv', out, Ok fp)"
    and "map_of (rb_storage (rv_pages rv)) pid = Some pp" and "blob_id e fp \<noteq> pid"
    and "convert_cond e tap n pp (realm (fw_flo (rv_realm rv))) = Some c"
    and "can_sign (fe_crypto (ce_flo (ve_client e))) c
      (map (\<lambda>s. verifier_id (fe_crypto (ce_flo (ve_client e))) (signer_verifier (fe_crypto (ce_flo (ve_client e))) s)) signers) = Ok True"
  shows "\<exists>pu. fw_object fp = page_blob path content (Some pid) \<and> fw_object pu = add_child (blob_id e fp) (fw_object pp) \<and>
    blob_id e pu = blob_id e pp \<and> rv' = store_page e pu (store_page e fp rv) \<and> out = [fw_flo fp, fw_flo pu]"
proof -
  let ?new = "new_page e (realm (fw_flo (rv_realm rv))) co path content (Some pid) CuckooNone rnd signers"
  obtain fp' where new: "?new = Ok fp'"
    using assms(1) by (cases ?new) (auto simp: create_http_def create_http_cuckoo_def Let_def)
  let ?rv1 = "store_page e fp' rv" and ?fe = "ce_flo (ve_client e)"
  have run: "(case map_of (rb_storage (rv_pages ?rv1)) pid of
       None \<Rightarrow> Some (?rv1, [fw_flo fp'], Ok fp')
     | Some pp \<Rightarrow> Option.bind (convert_cond e tap n pp (realm (fw_flo (rv_realm rv)))) (\<lambda>c.
         case can_sign (fe_crypto ?fe) c (map (\<lambda>s. verifier_id (fe_crypto ?fe) (signer_verifier (fe_crypto ?fe) s)) signers) of
           Ok can \<Rightarrow>
             if \<not> can then Some (?rv1, [fw_flo fp'], Ok fp')
             else (case edit_data_signers ?fe (ve_page e) c (add_child (blob_id e fp')) signers pp of
                 Ok pu \<Rightarrow> Some (store_page e pu ?rv1, [fw_flo fp', fw_flo pu], Ok fp')
               | Err x \<Rightarrow> Some (?rv1, [fw_flo fp'], Err x)
               | Panic \<Rightarrow> Some (?rv1, [fw_flo fp'], Panic))
         | _ \<Rightarrow> Some (?rv1, [fw_flo fp'], Panic))) = Some (rv', out, Ok fp)"
    using assms(1) new by (simp add: create_http_def create_http_cuckoo_def Let_def)
  have fp: "fp' = fp"
  proof (cases "map_of (rb_storage (rv_pages ?rv1)) pid")
    case (Some q)
    note q = Some
    show ?thesis
    proof (cases "convert_cond e tap n q (realm (fw_flo (rv_realm rv)))")
      case (Some c')
      show ?thesis
      proof (cases "can_sign (fe_crypto ?fe) c' (map (\<lambda>s. verifier_id (fe_crypto ?fe) (signer_verifier (fe_crypto ?fe) s)) signers)")
        case (Ok can)
        with run q Some show ?thesis
          by (cases can; cases "edit_data_signers ?fe (ve_page e) c' (add_child (blob_id e fp')) signers q") simp_all
      qed (use run q Some in simp_all)
    qed (use run q in simp)
  qed (use run in simp)
  then have "map_of (rb_storage (rv_pages ?rv1)) pid = Some pp"
    using assms(2,3) by (simp add: store_page_def)
  with run assms(4,5) obtain pu where
    edit: "edit_data_signers ?fe (ve_page e) c (add_child (blob_id e fp)) signers pp = Ok pu" and
    res: "rv' = store_page e pu (store_page e fp rv)" "out = [fw_flo fp, fw_flo pu]"
    by (simp add: fp split: outcome.splits)
  have "fw_object fp = page_blob path content (Some pid)"
    using new fp by (auto simp: new_page_def fw_from_type_cuckoo_def fw_from_type_config_def bind_outcome_Ok)
  with edit_data_signers_keeps(1,2) [OF edit] res show ?thesis by blast
qed

lemma line_extended:
  assumes "line_from_root rv ps" and "distinct ps" and "filed e rv"
    and "map_of (rb_storage (rv_pages rv)) pid = Some (last ps)"
    and "unknown_id (blob_id e fp) rv" and "blob_id e fp \<noteq> pid" and "blob_id e (last ps) = pid" and "blob_id e pu = pid"
    and "fw_object fp = page_blob path content (Some pid)" and "fw_object pu = add_child (blob_id e fp) (fw_object (last ps))"
    and "\<forall>q \<in> set (candidates (rv_pages rv) (get_children (fw_object (last ps)))). get_path (fw_object q) \<noteq> Some path"
  shows "line_from_root (store_page e pu (store_page e fp rv)) (butlast ps @ [pu, fp])"
proof -
  let ?new = "blob_id e fp" and ?last = "last ps" and ?rv' = "store_page e pu (store_page e fp rv)"
  define g where "g = (\<lambda>p. if p = ?last then pu else p)"
  obtain p qs where ps: "ps = p # qs" using assms(1) by (cases ps) (auto simp: line_from_root_def)
  have stored: "map_of (rb_storage (rv_pages ?rv')) = (map_of (rb_storage (rv_pages rv)))(?new \<mapsto> fp, pid \<mapsto> pu)"
    and cuckoos: "rb_cuckoos (rv_pages ?rv') = rb_cuckoos (rv_pages rv)" and root: "rb_root (rv_pages ?rv') = rb_root (rv_pages rv)"
    by (simp_all add: store_page_def assms(8))
  have replaced: "map_of (rb_storage (rv_pages ?rv')) i = map_option g (map_of (rb_storage (rv_pages rv)) i)" if "i \<noteq> ?new" for i
  proof (cases "map_of (rb_storage (rv_pages rv)) i")
    case (Some r)
    then have "r = ?last \<longleftrightarrow> i = pid" using assms(3,4,7) by (auto simp: filed_def)
    with Some that show ?thesis by (simp add: stored g_def)
  qed (use that assms(4) in \<open>auto simp: stored\<close>)
  have path: "get_path (fw_object (g r)) = get_path (fw_object r)" and parents: "get_parents (fw_object (g r)) = get_parents (fw_object r)" for r
    by (simp_all add: g_def assms(10))
  have kids: "get_children (fw_object (g r)) = get_children (fw_object r)" if "r \<in> set (butlast (p # qs))" for r
    using last_not_before [OF assms(2), of r] that by (simp add: g_def ps)
  have line: "line_below ?rv' [rb_root (rv_pages rv)] (g p) (map g qs)"
    using assms(1,5) by (intro line_replaced [OF _ cuckoos replaced path parents kids]) (auto simp: line_from_root_def ps unknown_id_def)
  have last: "last (g p # map g qs) = pu"
    using last_map [of ps g] ps by (simp add: g_def)
  have old: "candidates (rv_pages ?rv') (get_children (fw_object ?last)) = map g (candidates (rv_pages rv) (get_children (fw_object ?last)))"
    using assms(4,5) by (intro candidates_replaced [OF cuckoos replaced]) (auto simp: unknown_id_def)
  have "cuckoos_of (rv_pages ?rv') ?new = []"
    using assms(5) by (auto simp: cuckoos_of_def cuckoos unknown_id_def split: option.split)
  then have "candidates (rv_pages ?rv') [?new] = [fp]"
    using assms(6) by (simp add: candidates_def List.map_filter_simps stored)
  then have "candidates (rv_pages ?rv') (get_children (fw_object pu)) =
      map g (candidates (rv_pages rv) (get_children (fw_object ?last))) @ [fp]"
    by (simp add: assms(10) candidates_append old)
  moreover have "\<forall>q \<in> set (map g (candidates (rv_pages rv) (get_children (fw_object ?last)))). get_path (fw_object q) \<noteq> Some path"
    using assms(11) path by auto
  ultimately have "first_named (rv_pages ?rv') (get_children (fw_object pu)) fp"
    unfolding first_named_def by (fastforce simp: assms(9))
  with line last have below: "line_below ?rv' [rb_root (rv_pages rv)] (g p) (map g qs @ [fp])"
    unfolding line_append last using assms(6) by (simp add: assms(9,10) stored)
  have "g p # map g qs = butlast ps @ [pu]"
    using map_last_replaced [OF assms(2), of pu] ps by (simp add: g_def)
  then have whole: "butlast ps @ [pu, fp] = g p # (map g qs @ [fp])"
    by (metis append.assoc append_Cons append_Nil)
  show ?thesis
    unfolding whole line_from_root_def using below parents [of p] assms(1) by (simp add: root line_from_root_def ps)
qed

text \<open>
  C21. A page that is created under another one, by somebody who may sign for that one, is found: on the path of its parent
  followed by its own name, and the path that is built from its parents is the same. The parent is at the end of a line
  of different pages from the root down, each the first of its name under the one before; none of these names nor the
  new one has a slash in it, and the name of the root page is not empty. No child of the parent, and no cuckoo of one,
  has the new name yet, and nothing mentions the new identifier. The new page and the new version of its parent are
  what is stored.
\<close>
theorem created_page_found:
  assumes "line_from_root rv ps" and "distinct ps" and "filed e rv"
    and "map_of (rb_storage (rv_pages rv)) pid = Some (last ps)"
    and "convert_cond e tap n (last ps) (realm (fw_flo (rv_realm rv))) = Some c"
    and "can_sign (fe_crypto (ce_flo (ve_client e))) c
      (map (\<lambda>s. verifier_id (fe_crypto (ce_flo (ve_client e))) (signer_verifier (fe_crypto (ce_flo (ve_client e))) s)) signers) = Ok True"
    and "create_http e tap n path content (Some pid) co rnd signers rv = Some (rv', out, Ok fp)"
    and "unknown_id (blob_id e fp) rv" and "\<forall>q \<in> set (candidates (rv_pages rv) (get_children (fw_object (last ps)))). get_path (fw_object q) \<noteq> Some path"
    and "\<forall>p \<in> set ps. CHR ''/'' \<notin> set (page_name p)" and "CHR ''/'' \<notin> set path" and "page_name (hd ps) \<noteq> []"
  shows "\<exists>pu. out = [fw_flo fp, fw_flo pu] \<and> line_from_root rv' (butlast ps @ [pu, fp]) \<and>
    get_page_from_path (join_path (map page_name ps @ [path])) rv' = Some fp \<and>
    full_path_blob rv' (fw_object fp) = Some (Some (join_path (map page_name ps @ [path])))"
proof -
  let ?new = "blob_id e fp" and ?last = "last ps" and ?ps = "butlast ps"
  have pid: "?new \<noteq> pid" "blob_id e ?last = pid" using assms(3,4,8) by (auto simp: unknown_id_def filed_def)
  obtain pu where fp: "fw_object fp = page_blob path content (Some pid)" and pu: "fw_object pu = add_child ?new (fw_object ?last)"
    "blob_id e pu = pid" and rv': "rv' = store_page e pu (store_page e fp rv)" and out: "out = [fw_flo fp, fw_flo pu]"
    using create_http_run [OF assms(7,4) pid(1) assms(5,6)] pid(2) by auto
  have line: "line_from_root rv' (?ps @ [pu, fp])"
    unfolding rv' by (rule line_extended [OF assms(1-4,8) pid pu(2) fp pu(1) assms(9)])
  have ps: "ps = ?ps @ [?last]" using assms(1) by (cases ps) (auto simp: line_from_root_def)
  have names: "map page_name (?ps @ [pu, fp]) = map page_name ps @ [path]"
    using arg_cong [OF ps, of "map page_name"] by (simp add: page_name_def fp pu(1))
  have "\<forall>n \<in> set (map page_name (?ps @ [pu, fp])). CHR ''/'' \<notin> set n"
    unfolding names using assms(10,11) by auto
  then have no_slash: "\<forall>r \<in> set (?ps @ [pu, fp]). CHR ''/'' \<notin> set (page_name r)"
    by (simp only: set_map ball_simps)
  have "ps \<noteq> []" using ps by auto
  then have "page_name (hd (?ps @ [pu, fp])) = page_name (hd ps)"
    using arg_cong [OF names, of hd] hd_map [of "?ps @ [pu, fp]" page_name] hd_map [of ps page_name] by simp
  with assms(12) have "page_name (hd (?ps @ [pu, fp])) \<noteq> []" by simp
  from line_path [OF line no_slash this, unfolded names] line out show ?thesis by (intro exI [of _ pu]) simp
qed

text \<open>An example: a root page that everybody may change, and a page created under it.\<close>

definition ones :: u256 where "ones = U256 (replicate 32 1)"
definition sevens :: u256 where "sevens = U256 (replicate 32 7)"

definition demo_env :: view_env where
  "demo_env = \<lparr>ve_client = \<lparr>ce_flo = toy_env, ce_verifier = constant_codec (VerifierEd25519 []), ce_badge = constant_codec LFail\<rparr>,
     ve_realm = constant_codec \<lparr>ro_name = [], ro_config = \<lparr>max_space = 0, max_flo_size = 0\<rparr>, ro_services = []\<rparr>,
     ve_page = constant_codec (page_blob [] [] None), ve_tag = constant_codec (tag_blob [] None)\<rparr>"

definition open_root :: page where
  "open_root = \<lparr>fw_flo = flo_new u256_zero LPass [] [] \<lparr>cuckoo = CuckooNone, force_id = Some ones\<rparr> u256_zero sig_empty sig_empty,
     fw_object = page_blob ''root'' [] None\<rparr>"

definition open_view :: realm_view where
  "open_view = (toy_view [])\<lparr>rv_pages := \<lparr>rb_realm = u256_zero, rb_root = ones, rb_storage = [(ones, open_root)], rb_cuckoos = []\<rparr>\<rparr>"

lemma toy_hash_last:
  assumes "length bs = 32"
  shows "flo_hash toy_env d (ps @ [bs]) = U256 (rev bs)"
proof -
  have "domain_parts (str_bytes d) (ps @ [bs]) =
      (varint_bytes (str_bytes d) @ to_varint (Suc (length ps)) @ concat (map varint_bytes ps) @ to_varint 32) @ bs"
    using assms by (simp add: domain_parts_def varint_bytes_def)
  then show ?thesis
    using assms by (simp add: flo_hash_def hash_domain_parts_def toy_env_def toy_crypto_def toy_hash_def)
qed

lemma toy_calc_flo_id: "length bs = 32 \<Longrightarrow> calc_flo_id toy_env (U256 bs) = U256 (rev bs)"
  using toy_hash_last [of bs _ "[]"] by (simp add: calc_flo_id_def)

lemma toy_genesis: "length (u256_bytes (nonce f)) = 32 \<Longrightarrow> digest_cond_genesis toy_env f = U256 (rev (u256_bytes (nonce f)))"
  using toy_hash_last [of "u256_bytes (nonce f)" _ "[str_bytes (flo_type f), rmp_config toy_env (fl_config f), rmp_link toy_env (cv_cond (cond_genesis f))]"]
  by (simp add: digest_cond_genesis_def)

lemma open_page_created:
  "\<exists>fp. new_page demo_env u256_zero CPass ''sub'' [] (Some ones) CuckooNone sevens [] = Ok fp \<and>
     fw_object fp = page_blob ''sub'' [] (Some ones) \<and> blob_id demo_env fp = sevens"
  by (simp add: new_page_def fw_from_type_cuckoo_def fw_from_type_config_def new_signer_def sign_data_def demo_env_def
      constant_codec_def Let_def bind_outcome_Ok flo_new_def blob_id_def flo_id_def toy_genesis toy_calc_flo_id sevens_def)


lemma open_edited: "\<exists>fw'. edit_data_signers toy_env cd CPass edit [] fw = Ok fw'"
  by (simp add: edit_data_signers_def update_data_signers_def start_sign_data_def update_data_def
      verify_digest_def sig_new_def Let_def digest_data_def)

lemma open_root_simps [simp]:
  "get_path (fw_object open_root) = Some ''root''" "get_parents (fw_object open_root) = []" "get_children (fw_object open_root) = []"
  "page_name open_root = ''root''" "blob_id demo_env open_root = ones"
  by (simp_all add: open_root_def page_name_def blob_id_def demo_env_def flo_new_def flo_id_def toy_calc_flo_id toy_genesis ones_def)

lemma open_view_filed: "filed demo_env open_view" and open_view_line: "line_from_root open_view [open_root]"
  and open_view_unknown: "unknown_id sevens open_view"
  by (auto simp: filed_def open_view_def line_from_root_def first_named_single candidates_def cuckoos_of_def List.map_filter_def unknown_id_def
      ones_def sevens_def split: if_splits)


theorem created_page_found_witness:
  "\<exists>rv' out fp. create_http demo_env (\<lambda>_. []) 1 ''sub'' [] (Some ones) CPass sevens [] open_view = Some (rv', out, Ok fp) \<and>
     get_page_from_path ''/root/sub'' rv' = Some fp"
proof -
  obtain fp where fp: "new_page demo_env u256_zero CPass ''sub'' [] (Some ones) CuckooNone sevens [] = Ok fp"
    "blob_id demo_env fp = sevens" using open_page_created by blast
  have stored: "map_of (rb_storage (rv_pages open_view)) ones = Some open_root" and rid: "realm (fw_flo (rv_realm open_view)) = u256_zero"
    and e: "ce_flo (ve_client demo_env) = toy_env"
    by (simp_all add: open_view_def toy_view_def forced_flo_def flo_new_def demo_env_def)
  have conv: "convert_cond demo_env (\<lambda>_. []) 1 open_root u256_zero = Some CPass"
    by (simp add: convert_cond_def open_root_def flo_new_def cond_def latest_cond_version_def)
  obtain pu where pu: "edit_data_signers toy_env (ve_page demo_env) CPass (add_child sevens) [] open_root = Ok pu"
    using open_edited by blast
  have "ones \<noteq> sevens" by (simp add: ones_def sevens_def)
  then have run: "create_http demo_env (\<lambda>_. []) 1 ''sub'' [] (Some ones) CPass sevens [] open_view =
      Some (store_page demo_env pu (store_page demo_env fp open_view), [fw_flo fp, fw_flo pu], Ok fp)"
    using fp stored conv pu
    by (simp add: create_http_def create_http_cuckoo_def rid e can_sign_def store_page_def [of demo_env fp open_view])
  have "get_page_from_path (join_path (map page_name [open_root] @ [''sub''])) (store_page demo_env pu (store_page demo_env fp open_view)) = Some fp"
    using created_page_found [OF open_view_line _ open_view_filed _ _ _ run]
    by (simp add: stored conv [simplified] rid can_sign_def fp open_view_unknown) (auto simp: candidates_def List.map_filter_def)
  then show ?thesis using run by (simp add: join_path_def)
qed


subsection \<open>A realm from the builder\<close>

lemma new_signer_type: "new_signer fe r c ftype bs cfg non ss = Ok f \<Longrightarrow> flo_type f = ftype \<and> fl_config f = cfg"
  by (auto simp: new_signer_def sign_data_def Let_def bind_outcome_Ok flo_new_def)

lemma fw_from_type_cuckoo_ok:
  assumes "crypto_ok (fe_crypto fe)" and "may_sign fe c ss" and "self_linked fe c"
  shows "\<exists>fw. fw_from_type_cuckoo fe cd r c cu rnd x ss = Ok fw \<and> flo_verify fe (fw_flo fw) = Ok True \<and>
    realm (fw_flo fw) = r \<and> fw_object fw = x"
  using new_signer_spec [OF assms, of r "fc_type cd" "fc_bytes cd x" "\<lparr>cuckoo = cu, force_id = None\<rparr>" rnd]
  by (auto simp: fw_from_type_cuckoo_def fw_from_type_config_def bind_outcome_Ok)

lemma new_page_ok:
  assumes "crypto_ok (fe_crypto (ce_flo (ve_client e)))" and "may_sign (ce_flo (ve_client e)) c ss" and "self_linked (ce_flo (ve_client e)) c"
  shows "\<exists>fp. new_page e r c path content parent cu rnd ss = Ok fp \<and> flo_verify (ce_flo (ve_client e)) (fw_flo fp) = Ok True \<and>
    realm (fw_flo fp) = r \<and> fw_object fp = page_blob path content parent"
  unfolding new_page_def by (rule fw_from_type_cuckoo_ok [OF assms])

lemma new_tag_ok:
  assumes "crypto_ok (fe_crypto (ce_flo (ve_client e)))" and "may_sign (ce_flo (ve_client e)) c ss" and "self_linked (ce_flo (ve_client e)) c"
  shows "\<exists>ft. new_tag e r c name parent cu rnd ss = Ok ft \<and> flo_verify (ce_flo (ve_client e)) (fw_flo ft) = Ok True \<and>
    realm (fw_flo ft) = r \<and> fw_object ft = tag_blob name parent"
  unfolding new_tag_def by (rule fw_from_type_cuckoo_ok [OF assms])

lemma flo_realm_new_ok:
  assumes "crypto_ok (fe_crypto fe)" and "may_sign fe c ss" and "self_linked fe c"
    and "fc_parse cd (fc_bytes cd (realm_new name cfg)) = Some (realm_new name cfg)"
  shows "\<exists>fr. flo_realm_new fe cd name c cfg rnd ss = Ok fr \<and> flo_verify fe (fw_flo fr) = Ok True \<and>
    realm (fw_flo fr) = flo_id fe (fw_flo fr) \<and> fw_object fr = realm_new name cfg \<and> data_version (fw_flo fr) = 0 \<and>
    to_link (fe_crypto fe) c = Ok (cond (fw_flo fr))"
proof -
  obtain f where f: "new_signer fe u256_zero c (fc_type cd) (fc_bytes cd (realm_new name cfg)) flo_config_default rnd ss = Ok f"
    "flo_verify fe f = Ok True" "to_link (fe_crypto fe) c = Ok (cond f)" "data f = fc_bytes cd (realm_new name cfg)" "data_version f = 0"
    using new_signer_spec [OF assms(1-3)] by blast
  have "flo_verify fe (f\<lparr>realm := flo_id fe f\<rparr>) = Ok True"
    using f(2) by (simp add: flo_verify_Ok)
  then show ?thesis
    using f new_signer_type [OF f(1)] assms(4) by (simp add: flo_realm_new_def new_realm_def fw_try_from_def)
qed

lemma realm_edited:
  assumes "crypto_ok (fe_crypto fe)" and "may_sign fe c ss" and "self_linked fe c"
    and "flo_verify fe (fw_flo fr) = Ok True" and "to_link (fe_crypto fe) c = Ok (cond (fw_flo fr))"
  shows "\<exists>fr'. edit_data_signers fe cd c edit ss fr = Ok fr' \<and> flo_verify fe (fw_flo fr') = Ok True \<and>
    fw_object fr' = edit (fw_object fr) \<and> data_version (fw_flo fr') = data_version (fw_flo fr) + 1 \<and>
    flo_global_id fe (fw_flo fr') = flo_global_id fe (fw_flo fr)"
proof -
  have "equal_link (fe_crypto fe) c (cond (fw_flo fr)) = Ok True"
    using assms(3,5) by (auto simp: self_linked_def)
  from update_data_verifies [OF assms(1,2,4) this, of "fc_bytes cd (edit (fw_object fr))"] show ?thesis
    by (auto simp: edit_data_signers_def flo_global_id_def)
qed

text \<open>A storage that answers reads of a Flo, and knows no cuckoos of it.\<close>

definition serves :: "view_env \<Rightarrow> blob flo_codec \<Rightarrow> tap \<Rightarrow> page \<Rightarrow> bool" where
  "serves e c tap p \<longleftrightarrow>
     client_flo (ce_flo (ve_client e)) c tap (flo_global_id (ce_flo (ve_client e)) (fw_flo p)) = Some p \<and>
     client_cuckoos tap (flo_global_id (ce_flo (ve_client e)) (fw_flo p)) \<in> {None, Some []}"

lemma from_root_served:
  assumes "serves e c tap p"
  shows "from_root e c tap (realm (fw_flo p), blob_id e p) =
    \<lparr>rb_realm = realm (fw_flo p), rb_root = blob_id e p, rb_storage = [(blob_id e p, p)], rb_cuckoos = []\<rparr>"
  using assms by (auto simp: from_root_def update_cuckoos_def fetch_one_def serves_def flo_global_id_def blob_id_def)

lemma view_opens:
  assumes "map_of (ro_services (fw_object fr)) ''http'' = Some (blob_id e fp)" and "map_of (ro_services (fw_object fr)) ''tag'' = Some (blob_id e ft)"
    and "realm (fw_flo fp) = realm (fw_flo fr)" and "realm (fw_flo ft) = realm (fw_flo fr)"
    and "get_path (fw_object fp) = Some path" and "CHR ''/'' \<notin> set path" and "path \<noteq> []"
    and "serves e (ve_page e) tap fp" and "serves e (ve_tag e) tap ft"
  shows "\<exists>rv. new_from_realm e tap fr = Some rv \<and> get_page_from_path (CHR ''/'' # path) rv = Some fp \<and>
    map_of (rb_storage (rv_tags rv)) (rb_root (rv_tags rv)) = Some ft"
proof -
  have opened: "new_from_realm e tap fr = Some \<lparr>rv_realm = fr,
      rv_pages = \<lparr>rb_realm = realm (fw_flo fp), rb_root = blob_id e fp, rb_storage = [(blob_id e fp, fp)], rb_cuckoos = []\<rparr>,
      rv_tags = \<lparr>rb_realm = realm (fw_flo ft), rb_root = blob_id e ft, rb_storage = [(blob_id e ft, ft)], rb_cuckoos = []\<rparr>\<rparr>"
    using from_root_served [OF assms(8)] from_root_served [OF assms(9)]
    by (simp add: new_from_realm_def from_service_def assms(1-4))
  have "dropWhile (\<lambda>c. c = CHR ''/'') (CHR ''/'' # path) = path"
    using assms(6,7) by (cases path) auto
  then show ?thesis
    by (simp add: opened get_page_from_path_def blobs_get_path_def split_slash_one [OF assms(6)] find_part_def cuckoos_of_def
        List.map_filter_def assms(5))
qed

text \<open>
  C22. A realm that is built by signers who may sign for its conditions, those of the realm, the root page and the root tag:
  four Flos are stored, which all verify and are in the realm; the last one is the next version of the realm. If the
  storage serves the new page and tag, the view that is returned finds the page under its name. The conditions are
  ones that are recognised by the link made of them, such as a verifier or Pass, but never a badge or a threshold over
  verifiers, whose Flos do not verify; the name of the page is not empty and has no slash in it, and the
  realm object can be read back from its bytes.
\<close>
theorem realm_built_opens:
  assumes "crypto_ok (fe_crypto (ce_flo (ve_client e)))" and "vb_page b = Some p" and "vb_tag b = Some t" and "bp_content p = Some content"
    and "may_sign (ce_flo (ve_client e)) (vb_cond b) (vb_signers b)" and "self_linked (ce_flo (ve_client e)) (vb_cond b)"
    and "may_sign (ce_flo (ve_client e)) (bp_cond p) (bp_signers p)" and "self_linked (ce_flo (ve_client e)) (bp_cond p)"
    and "may_sign (ce_flo (ve_client e)) (bp_cond t) (bp_signers t)" and "self_linked (ce_flo (ve_client e)) (bp_cond t)"
    and "fc_parse (ve_realm e) (fc_bytes (ve_realm e) (realm_new (vb_name b) (vb_config b))) = Some (realm_new (vb_name b) (vb_config b))"
    and "CHR ''/'' \<notin> set (bp_path p)" and "bp_path p \<noteq> []"
  shows "\<exists>(fr :: realm_object flo_wrapper) ft fp (fr' :: realm_object flo_wrapper).
    (\<forall>f \<in> {fw_flo fr, fw_flo ft, fw_flo fp, fw_flo fr'}. flo_verify (ce_flo (ve_client e)) f = Ok True \<and>
       realm f = flo_id (ce_flo (ve_client e)) (fw_flo fr)) \<and>
    flo_id (ce_flo (ve_client e)) (fw_flo fr') = flo_id (ce_flo (ve_client e)) (fw_flo fr) \<and>
    data_version (fw_flo fr) = 0 \<and> data_version (fw_flo fr') = 1 \<and>
    new_page e (realm (fw_flo fr)) (bp_cond p) (bp_path p) content (bp_parent p) (bp_cuckoo p) (snd (snd rnds)) (bp_signers p) = Ok fp \<and>
    new_tag e (realm (fw_flo fr)) (bp_cond t) (bp_path t) (bp_parent t) (bp_cuckoo t) (fst (snd rnds)) (bp_signers t) = Ok ft \<and>
    (\<forall>tap. fst (build e tap rnds b) = [fw_flo fr, fw_flo ft, fw_flo fp, fw_flo fr'] \<and>
      (serves e (ve_page e) tap fp \<and> serves e (ve_tag e) tap ft \<longrightarrow>
        (\<exists>rv. snd (build e tap rnds b) = Ok rv \<and> get_page_from_path (CHR ''/'' # bp_path p) rv = Some fp \<and>
           map_of (rb_storage (rv_tags rv)) (rb_root (rv_tags rv)) = Some ft)))"
proof -
  let ?fe = "ce_flo (ve_client e)"
  obtain rnd1 rnd2 rnd3 where rnds: "rnds = (rnd1, rnd2, rnd3)" by (cases rnds)
  obtain fr where fr: "flo_realm_new ?fe (ve_realm e) (vb_name b) (vb_cond b) (vb_config b) rnd1 (vb_signers b) = Ok fr"
    "flo_verify ?fe (fw_flo fr) = Ok True" "realm (fw_flo fr) = flo_id ?fe (fw_flo fr)"
    "fw_object fr = realm_new (vb_name b) (vb_config b)" "data_version (fw_flo fr) = 0"
    "to_link (fe_crypto ?fe) (vb_cond b) = Ok (cond (fw_flo fr))"
    using flo_realm_new_ok [OF assms(1,5,6,11), of rnd1] by blast
  obtain ft where ft: "new_tag e (realm (fw_flo fr)) (bp_cond t) (bp_path t) (bp_parent t) (bp_cuckoo t) rnd2 (bp_signers t) = Ok ft"
    "flo_verify ?fe (fw_flo ft) = Ok True" "realm (fw_flo ft) = realm (fw_flo fr)"
    using new_tag_ok [OF assms(1,9,10), of "realm (fw_flo fr)" "bp_path t" "bp_parent t" "bp_cuckoo t" rnd2] by blast
  obtain fp where fp: "new_page e (realm (fw_flo fr)) (bp_cond p) (bp_path p) content (bp_parent p) (bp_cuckoo p) rnd3 (bp_signers p) = Ok fp"
    "flo_verify ?fe (fw_flo fp) = Ok True" "realm (fw_flo fp) = realm (fw_flo fr)"
    "fw_object fp = page_blob (bp_path p) content (bp_parent p)"
    using new_page_ok [OF assms(1,7,8), of "realm (fw_flo fr)" "bp_path p" content "bp_parent p" "bp_cuckoo p" rnd3] by blast
  let ?edit = "\<lambda>r. set_service ''tag'' (blob_id e ft) (set_service ''http'' (blob_id e fp) r)"
  obtain fr' where fr': "edit_data_signers ?fe (ve_realm e) (vb_cond b) ?edit (vb_signers b) fr = Ok fr'"
    "flo_verify ?fe (fw_flo fr') = Ok True" "fw_object fr' = ?edit (fw_object fr)"
    "data_version (fw_flo fr') = data_version (fw_flo fr) + 1" "flo_global_id ?fe (fw_flo fr') = flo_global_id ?fe (fw_flo fr)"
    using realm_edited [OF assms(1,5,6) fr(2,6), of "ve_realm e" ?edit] by blast
  have ids: "realm (fw_flo fr') = realm (fw_flo fr)" "flo_id ?fe (fw_flo fr') = flo_id ?fe (fw_flo fr)"
    using fr'(5) by (simp_all add: flo_global_id_def)
  have run: "build e tap rnds b = ([fw_flo fr, fw_flo ft, fw_flo fp, fw_flo fr'],
      case new_from_realm e tap fr' of Some rv \<Rightarrow> Ok rv | None \<Rightarrow> Err NoService)" for tap
    by (simp add: build_def rnds assms(2-4) fr(1) ft(1) fp(1) fr'(1))
  have services: "map_of (ro_services (fw_object fr')) ''http'' = Some (blob_id e fp)"
    "map_of (ro_services (fw_object fr')) ''tag'' = Some (blob_id e ft)"
    by (simp_all add: fr'(3) fr(4) set_service_def realm_new_def)
  note view = view_opens [OF services, unfolded ids, OF fp(3) ft(3) _ assms(12,13)]
  have final: "\<forall>tap. fst (build e tap rnds b) = [fw_flo fr, fw_flo ft, fw_flo fp, fw_flo fr'] \<and>
      (serves e (ve_page e) tap fp \<and> serves e (ve_tag e) tap ft \<longrightarrow>
        (\<exists>rv. snd (build e tap rnds b) = Ok rv \<and> get_page_from_path (CHR ''/'' # bp_path p) rv = Some fp \<and>
           map_of (rb_storage (rv_tags rv)) (rb_root (rv_tags rv)) = Some ft))"
    unfolding run using view fp(4) by fastforce
  have verified: "\<forall>f \<in> {fw_flo fr, fw_flo ft, fw_flo fp, fw_flo fr'}. flo_verify ?fe f = Ok True \<and> realm f = flo_id ?fe (fw_flo fr)"
    by (simp add: fr(2,3) ft(2,3) fp(2,3) fr'(2) ids(1))
  have last: "data_version (fw_flo fr') = 1" by (simp add: fr(5) fr'(4))
  have made: "new_page e (realm (fw_flo fr)) (bp_cond p) (bp_path p) content (bp_parent p) (bp_cuckoo p) (snd (snd rnds)) (bp_signers p) = Ok fp"
    "new_tag e (realm (fw_flo fr)) (bp_cond t) (bp_path t) (bp_parent t) (bp_cuckoo t) (fst (snd rnds)) (bp_signers t) = Ok ft"
    using fp(1) ft(1) by (simp_all add: rnds)
  show ?thesis
    by (rule exI)+ (rule conjI [OF verified conjI [OF ids(2) conjI [OF fr(5) conjI [OF last conjI [OF made(1) conjI [OF made(2) final]]]]]])
qed

definition home_env :: view_env where
  "home_env = demo_env\<lparr>ve_page := constant_codec (page_blob ''home'' [] None), ve_tag := constant_codec (tag_blob ''tags'' None)\<rparr>"

definition home_builder :: view_builder where
  "home_builder = builder_config \<lparr>max_space = 0, max_flo_size = 0\<rparr>
     (root_tag ''tags'' None CPass [] (root_http ''home'' [] None CPass [] (builder_new [] CPass [])))"

lemma home_made:
  "new_page home_env r CPass ''home'' [] None CuckooNone sevens [] = Ok fp \<Longrightarrow>
     blob_id home_env fp = sevens \<and> fw_object fp = page_blob ''home'' [] None \<and> flo_type (fw_flo fp) = []"
  "new_tag home_env r CPass ''tags'' None CuckooNone ones [] = Ok ft \<Longrightarrow>
     blob_id home_env ft = ones \<and> fw_object ft = tag_blob ''tags'' None \<and> flo_type (fw_flo ft) = []"
  by (auto simp: new_page_def new_tag_def fw_from_type_cuckoo_def fw_from_type_config_def new_signer_def sign_data_def home_env_def
      demo_env_def constant_codec_def Let_def bind_outcome_Ok flo_new_def blob_id_def flo_id_def toy_genesis toy_calc_flo_id
      sevens_def ones_def)

theorem realm_built_opens_witness:
  "\<exists>tap rv fp. snd (build home_env tap (u256_zero, ones, sevens) home_builder) = Ok rv \<and>
     get_page_from_path ''/home'' rv = Some fp \<and> fw_object fp = page_blob ''home'' [] None"
proof -
  have e: "ce_flo (ve_client home_env) = toy_env" by (simp add: home_env_def demo_env_def)
  have may: "may_sign toy_env CPass []" by (simp add: may_sign_def no_id_collision_def)
  let ?p = "\<lparr>bp_path = ''home'', bp_content = Some [], bp_parent = None, bp_cond = CPass, bp_cuckoo = CuckooNone, bp_signers = []\<rparr>"
  let ?t = "\<lparr>bp_path = ''tags'', bp_content = None, bp_parent = None, bp_cond = CPass, bp_cuckoo = CuckooNone, bp_signers = []\<rparr>"
  have b: "vb_page home_builder = Some ?p" "vb_tag home_builder = Some ?t" "vb_cond home_builder = CPass" "vb_signers home_builder = []"
    by (simp_all add: home_builder_def builder_config_def root_tag_def root_tag_cuckoo_def root_http_def root_http_cuckoo_def builder_new_def)
  have parse: "fc_parse (ve_realm home_env) (fc_bytes (ve_realm home_env) (realm_new (vb_name home_builder) (vb_config home_builder))) =
      Some (realm_new (vb_name home_builder) (vb_config home_builder))"
    by (simp add: home_env_def demo_env_def constant_codec_def realm_new_def home_builder_def builder_config_def root_tag_def
        root_tag_cuckoo_def root_http_def root_http_cuckoo_def builder_new_def)
  obtain fr fr' :: "realm_object flo_wrapper" and ft fp where
    made: "new_page home_env (realm (fw_flo fr)) CPass ''home'' [] None CuckooNone sevens [] = Ok fp"
      "new_tag home_env (realm (fw_flo fr)) CPass ''tags'' None CuckooNone ones [] = Ok ft"
    and realms: "realm (fw_flo fp) = flo_id toy_env (fw_flo fr)" "realm (fw_flo ft) = flo_id toy_env (fw_flo fr)"
    and opens: "\<forall>tap. fst (build home_env tap (u256_zero, ones, sevens) home_builder) = [fw_flo fr, fw_flo ft, fw_flo fp, fw_flo fr'] \<and>
      (serves home_env (ve_page home_env) tap fp \<and> serves home_env (ve_tag home_env) tap ft \<longrightarrow>
        (\<exists>rv. snd (build home_env tap (u256_zero, ones, sevens) home_builder) = Ok rv \<and> get_page_from_path ''/home'' rv = Some fp \<and>
           map_of (rb_storage (rv_tags rv)) (rb_root (rv_tags rv)) = Some ft))"
    using realm_built_opens [of home_env home_builder ?p ?t "[]" "(u256_zero, ones, sevens)"] toy_env_ok may parse
    by (simp add: e b) (elim exE conjE, blast)
  let ?tap = "\<lambda>msg. [OutStorage (OutFloValue (fw_flo fp, [])), OutStorage (OutFloValue (fw_flo ft, []))]"
  note ids = home_made(1) [OF made(1)] home_made(2) [OF made(2)]
  have "ones \<noteq> sevens" by (simp add: ones_def sevens_def)
  then have "serves home_env (ve_page home_env) ?tap fp" "serves home_env (ve_tag home_env) ?tap ft"
    using ids by (auto simp: serves_def client_flo_def client_cuckoos_def send_wait_def flo_global_id_def fw_try_from_def e
        blob_id_def home_env_def constant_codec_def)
  with opens ids show ?thesis by blast
qed


subsection \<open>Moving a page\<close>

text \<open>The page of an identifier lists a child exactly if the child lists it as a parent.\<close>

definition object_at :: "realm_view \<Rightarrow> u256 \<Rightarrow> blob option" where
  "object_at rv i = map_option fw_object (map_of (rb_storage (rv_pages rv)) i)"

definition links_ok :: "realm_view \<Rightarrow> bool" where
  "links_ok rv \<longleftrightarrow> (\<forall>i j a b. object_at rv i = Some a \<and> object_at rv j = Some b \<longrightarrow>
     (j \<in> set (get_children a) \<longleftrightarrow> i \<in> set (get_parents b)))"

text \<open>A page whose condition can be resolved and lets the signers through.\<close>

definition editable :: "view_env \<Rightarrow> tap \<Rightarrow> nat \<Rightarrow> signer list \<Rightarrow> page \<Rightarrow> bool" where
  "editable e tap n signers p \<longleftrightarrow> (\<exists>c. convert_cond e tap n p (realm (fw_flo p)) = Some c \<and>
     can_signers (fe_crypto (ce_flo (ve_client e))) c signers = Ok True \<and>
     (\<forall>edit. \<exists>p'. edit_data_signers (ce_flo (ve_client e)) (ve_page e) c edit signers p = Ok p'))"

lemma store_page_filed:
  assumes "filed e rv" and "blob_id e p = i"
  shows "filed e (store_page e p rv)"
    and "map_of (rb_storage (rv_pages (store_page e p rv))) = (map_of (rb_storage (rv_pages rv)))(i \<mapsto> p)"
  using assms by (auto simp: filed_def store_page_def)

lemma update_child_link_run:
  assumes "filed e rv" and "\<forall>p. map_of (rb_storage (rv_pages rv)) pid = Some p \<longrightarrow> editable e tap n signers p"
  shows "\<exists>rv' out. update_child_link e tap n edit signers pid rv = Some (rv', out, Ok ()) \<and> filed e rv' \<and>
    (\<forall>j. j \<noteq> pid \<longrightarrow> map_of (rb_storage (rv_pages rv')) j = map_of (rb_storage (rv_pages rv)) j) \<and>
    object_at rv' pid = map_option edit (object_at rv pid)"
proof (cases "map_of (rb_storage (rv_pages rv)) pid")
  case None
  with assms(1) show ?thesis by (simp add: update_child_link_def object_at_def)
next
  case (Some p)
  with assms(2) obtain c p' where c: "convert_cond e tap n p (realm (fw_flo p)) = Some c"
    "can_signers (fe_crypto (ce_flo (ve_client e))) c signers = Ok True"
    "edit_data_signers (ce_flo (ve_client e)) (ve_page e) c edit signers p = Ok p'"
    unfolding editable_def by blast
  have "blob_id e p' = pid" "fw_object p' = edit (fw_object p)"
    using edit_data_signers_keeps(1,2) [OF c(3)] assms(1) Some by (simp_all add: filed_def)
  with store_page_filed [OF assms(1)] c Some show ?thesis
    by (simp add: update_child_link_def object_at_def)
qed

lemma each_parent_run:
  assumes "filed e rv" and "distinct ps"
    and "\<forall>i \<in> set ps. \<forall>p. map_of (rb_storage (rv_pages rv)) i = Some p \<longrightarrow> editable e tap n signers p"
  shows "\<exists>rv' out. each_parent (update_child_link e tap n edit signers) ps rv = Some (rv', out, Ok ()) \<and> filed e rv' \<and>
    (\<forall>j. j \<notin> set ps \<longrightarrow> map_of (rb_storage (rv_pages rv')) j = map_of (rb_storage (rv_pages rv)) j) \<and>
    (\<forall>j \<in> set ps. object_at rv' j = map_option edit (object_at rv j))"
  using assms
proof (induction ps arbitrary: rv)
  case (Cons p ps)
  obtain rv1 out1 where one: "update_child_link e tap n edit signers p rv = Some (rv1, out1, Ok ())" "filed e rv1"
    "\<forall>j. j \<noteq> p \<longrightarrow> map_of (rb_storage (rv_pages rv1)) j = map_of (rb_storage (rv_pages rv)) j"
    "object_at rv1 p = map_option edit (object_at rv p)"
    using update_child_link_run [OF Cons.prems(1), of p tap n signers edit] Cons.prems(3) by auto
  have "\<forall>i \<in> set ps. \<forall>q. map_of (rb_storage (rv_pages rv1)) i = Some q \<longrightarrow> editable e tap n signers q"
    using Cons.prems(2,3) one(3) by auto
  from Cons.IH [OF one(2) _ this] Cons.prems(2) obtain rv2 out2 where
    two: "each_parent (update_child_link e tap n edit signers) ps rv1 = Some (rv2, out2, Ok ())" "filed e rv2"
    "\<forall>j. j \<notin> set ps \<longrightarrow> map_of (rb_storage (rv_pages rv2)) j = map_of (rb_storage (rv_pages rv1)) j"
    "\<forall>j \<in> set ps. object_at rv2 j = map_option edit (object_at rv1 j)" by auto
  have "object_at rv2 j = map_option edit (object_at rv j)" if "j \<in> set (p # ps)" for j
    using that two(3,4) one(3,4) Cons.prems(2) by (cases "j = p") (auto simp: object_at_def)
  with one two show ?case by (simp add: run_then_def)
qed simp


lemma update_child_links_run:
  assumes "filed e rv" and "\<forall>i \<in> set before - set after. \<forall>p. map_of (rb_storage (rv_pages rv)) i = Some p \<longrightarrow> editable e tap n signers p"
  shows "\<exists>rv' out. update_child_links e tap n before after edit signers rv = Some (rv', out, Ok ()) \<and> filed e rv' \<and>
    (\<forall>j. j \<notin> set before - set after \<longrightarrow> map_of (rb_storage (rv_pages rv')) j = map_of (rb_storage (rv_pages rv)) j) \<and>
    (\<forall>j \<in> set before - set after. object_at rv' j = map_option edit (object_at rv j))"
proof -
  have ids: "set (filter (\<lambda>p. p \<notin> set after) (remdups before)) = set before - set after" by auto
  have "distinct (filter (\<lambda>p. p \<notin> set after) (remdups before))" by simp
  from each_parent_run [OF assms(1) this, unfolded ids, OF assms(2)] show ?thesis
    unfolding update_child_links_def by blast
qed

text \<open>How the objects of a view change when the page \<open>i\<close> leaves some parents and gets others.\<close>

definition relinked :: "u256 \<Rightarrow> blob \<Rightarrow> blob \<Rightarrow> realm_view \<Rightarrow> realm_view \<Rightarrow> bool" where
  "relinked i x y rv rv' \<longleftrightarrow> object_at rv i = Some x \<and> object_at rv' i = Some y \<and>
     (\<forall>j. j \<noteq> i \<longrightarrow> object_at rv' j = map_option (\<lambda>b.
        if j \<in> set (get_parents x) - set (get_parents y) then rm_child i b
        else if j \<in> set (get_parents y) - set (get_parents x) then add_child i (rm_child i b) else b) (object_at rv j))"

lemma relinked_links:
  assumes "relinked i x y rv rv'" and "links_ok rv" and "get_children y = get_children x"
    and "i \<notin> set (get_parents x)" and "i \<notin> set (get_parents y)"
  shows "links_ok rv'"
  unfolding links_ok_def
proof (intro allI impI, elim conjE)
  fix k j a b
  assume a: "object_at rv' k = Some a" and b: "object_at rv' j = Some b"
  have link: "j' \<in> set (get_children u) \<longleftrightarrow> k' \<in> set (get_parents v)"
    if "object_at rv k' = Some u" "object_at rv j' = Some v" for k' j' u v
    using assms(2) that unfolding links_ok_def by blast
  have old: "object_at rv i = Some x" and new: "object_at rv' i = Some y"
    using assms(1) by (simp_all add: relinked_def)
  have other: "\<exists>u. object_at rv m = Some u \<and> get_parents c = get_parents u \<and>
      c = (if m \<in> set (get_parents x) - set (get_parents y) then rm_child i u
           else if m \<in> set (get_parents y) - set (get_parents x) then add_child i (rm_child i u) else u)"
    if "m \<noteq> i" "object_at rv' m = Some c" for m c
    using assms(1) that by (cases "object_at rv m") (auto simp: relinked_def)
  show "j \<in> set (get_children a) \<longleftrightarrow> k \<in> set (get_parents b)"
  proof (cases "k = i")
    case True
    then have a': "a = y" using a new by simp
    show ?thesis
    proof (cases "j = i")
      case True
      then have b': "b = y" using b new by simp
      show ?thesis using assms(3-5) link [OF old old] by (simp add: a' b' \<open>k = i\<close> True)
    next
      case False
      then show ?thesis using other [OF False b] link [OF old] assms(3) a' True by auto
    qed
  next
    case False
    then obtain u where u: "object_at rv k = Some u" "a = (if k \<in> set (get_parents x) - set (get_parents y) then rm_child i u
        else if k \<in> set (get_parents y) - set (get_parents x) then add_child i (rm_child i u) else u)"
      using other [OF False a] by blast
    show ?thesis
    proof (cases "j = i")
      case True
      then have "b = y" using b new by simp
      then show ?thesis unfolding u(2) using link [OF u(1) old] True by auto
    next
      case False
      then show ?thesis unfolding u(2) using other [OF False b] link [OF u(1)] by auto
    qed
  qed
qed

lemma update_page_run:
  assumes "filed e rv" and "map_of (rb_storage (rv_pages rv)) i = Some p" and "editable e tap n signers p"
    and "i \<notin> set (get_parents (fw_object p))" and "i \<notin> set (get_parents (edit (fw_object p)))"
    and "\<forall>j q. map_of (rb_storage (rv_pages rv)) j = Some q \<and>
      (j \<in> set (get_parents (fw_object p)) \<longleftrightarrow> j \<notin> set (get_parents (edit (fw_object p)))) \<longrightarrow> editable e tap n signers q"
  shows "\<exists>rv' out newp. update_page e tap n i edit signers rv = Some (rv', out, Ok (Some newp)) \<and> filed e rv' \<and>
    map_of (rb_storage (rv_pages rv')) i = Some newp \<and> relinked i (fw_object p) (edit (fw_object p)) rv rv'"
proof -
  let ?before = "get_parents (fw_object p)" and ?after = "get_parents (edit (fw_object p))"
  obtain c newp where c: "convert_cond e tap n p (realm (fw_flo p)) = Some c"
    "edit_data_signers (ce_flo (ve_client e)) (ve_page e) c edit signers p = Ok newp"
    using assms(3) unfolding editable_def by blast
  have newp: "blob_id e newp = i" "fw_object newp = edit (fw_object p)"
    using edit_data_signers_keeps(1,2) [OF c(2)] assms(1,2) by (simp_all add: filed_def)
  let ?rv1 = "store_page e newp rv"
  note rv1 = store_page_filed [OF assms(1) newp(1)]
  have may: "\<forall>j \<in> set ?before - set ?after. \<forall>q. map_of (rb_storage (rv_pages ?rv1)) j = Some q \<longrightarrow> editable e tap n signers q"
    using assms(4,6) rv1(2) by auto
  obtain rv2 out2 where two: "update_child_links e tap n ?before ?after (rm_child i) signers ?rv1 = Some (rv2, out2, Ok ())" "filed e rv2"
    "\<forall>j. j \<notin> set ?before - set ?after \<longrightarrow> map_of (rb_storage (rv_pages rv2)) j = map_of (rb_storage (rv_pages ?rv1)) j"
    "\<forall>j \<in> set ?before - set ?after. object_at rv2 j = map_option (rm_child i) (object_at ?rv1 j)"
    using update_child_links_run [OF rv1(1) may, where edit = "rm_child i"] by blast
  have may': "\<forall>j \<in> set ?after - set ?before. \<forall>q. map_of (rb_storage (rv_pages rv2)) j = Some q \<longrightarrow> editable e tap n signers q"
    using assms(5,6) rv1(2) two(3) by auto
  obtain rv3 out3 where three: "update_child_links e tap n ?after ?before (\<lambda>b. add_child i (rm_child i b)) signers rv2 = Some (rv3, out3, Ok ())"
    "filed e rv3"
    "\<forall>j. j \<notin> set ?after - set ?before \<longrightarrow> map_of (rb_storage (rv_pages rv3)) j = map_of (rb_storage (rv_pages rv2)) j"
    "\<forall>j \<in> set ?after - set ?before. object_at rv3 j = map_option (\<lambda>b. add_child i (rm_child i b)) (object_at rv2 j)"
    using update_child_links_run [OF two(2) may', where edit = "\<lambda>b. add_child i (rm_child i b)"] by blast
  have run: "update_page e tap n i edit signers rv = Some (rv3, [fw_flo newp] @ out2 @ out3, Ok (Some newp))"
    using assms(2) c two(1) three(1) by (simp add: update_page_def run_then_def newp(2))
  have here: "map_of (rb_storage (rv_pages rv3)) i = Some newp"
    using two(3) three(3) rv1(2) assms(4,5) by simp
  have "object_at rv3 j = map_option (\<lambda>b. if j \<in> set ?before - set ?after then rm_child i b
      else if j \<in> set ?after - set ?before then add_child i (rm_child i b) else b) (object_at rv j)" if "j \<noteq> i" for j
    using that two(3,4) three(3,4) rv1(2)
    by (cases "j \<in> set ?before"; cases "j \<in> set ?after") (auto simp: object_at_def option.map_comp comp_def)
  then have "relinked i (fw_object p) (edit (fw_object p)) rv rv3"
    by (simp add: relinked_def object_at_def assms(2) here newp(2))
  with run three(2) here show ?thesis by blast
qed

text \<open>
  C23. Moving a page keeps the links of parents and children in step: if the signers may sign for the page and for every
  parent that it leaves or gets, and the new versions of these pages can be signed and written, the edit succeeds, the page is stored with its new parents, the parents that it has
  left have lost their link to it, and the new ones have one.
\<close>
theorem moved_page_linked:
  assumes "filed e rv" and "links_ok rv" and "map_of (rb_storage (rv_pages rv)) i = Some p" and "editable e tap n signers p"
    and "get_children (edit (fw_object p)) = get_children (fw_object p)"
    and "i \<notin> set (get_parents (fw_object p))" and "i \<notin> set (get_parents (edit (fw_object p)))"
    and "\<forall>j q. map_of (rb_storage (rv_pages rv)) j = Some q \<and>
      (j \<in> set (get_parents (fw_object p)) \<longleftrightarrow> j \<notin> set (get_parents (edit (fw_object p)))) \<longrightarrow> editable e tap n signers q"
  shows "\<exists>rv' out newp. update_page e tap n i edit signers rv = Some (rv', out, Ok (Some newp)) \<and> filed e rv' \<and> links_ok rv' \<and>
    map_of (rb_storage (rv_pages rv')) i = Some newp \<and> fw_object newp = edit (fw_object p)"
proof -
  obtain rv' out newp where run: "update_page e tap n i edit signers rv = Some (rv', out, Ok (Some newp))" "filed e rv'"
    "map_of (rb_storage (rv_pages rv')) i = Some newp" and moved: "relinked i (fw_object p) (edit (fw_object p)) rv rv'"
    using update_page_run [where edit = edit, OF assms(1,3,4,6-8)] by blast
  have "links_ok rv'" by (rule relinked_links [OF moved assms(2,5,6,7)])
  moreover have "fw_object newp = edit (fw_object p)"
    using moved run(3) by (simp add: relinked_def object_at_def)
  ultimately show ?thesis using run by blast
qed

text \<open>An example: a page under the root is moved under another page.\<close>

definition threes :: u256 where "threes = U256 (replicate 32 3)"

definition open_page :: "u256 \<Rightarrow> string \<Rightarrow> u256 list \<Rightarrow> u256 list \<Rightarrow> page" where
  "open_page i name ps cs = \<lparr>fw_flo = flo_new u256_zero LPass [] [] \<lparr>cuckoo = CuckooNone, force_id = Some i\<rparr> u256_zero sig_empty sig_empty,
     fw_object = set_parents ps (set_children cs (page_blob name [] None))\<rparr>"

definition family_view :: realm_view where
  "family_view = (toy_view [])\<lparr>rv_pages := \<lparr>rb_realm = u256_zero, rb_root = ones, rb_storage =
     [(ones, open_page ones ''root'' [] [sevens, threes]), (sevens, open_page sevens ''sub'' [ones] []),
      (threes, open_page threes ''other'' [ones] [])], rb_cuckoos = []\<rparr>\<rparr>"

lemma open_page_editable: "editable demo_env tap (Suc n) [] (open_page i name ps cs)"
proof -
  have "convert_cond demo_env tap (Suc n) (open_page i name ps cs) rid = Some CPass" for rid
    by (simp add: convert_cond_def open_page_def cond_def latest_cond_version_def flo_new_def)
  moreover have "ce_flo (ve_client demo_env) = toy_env" by (simp add: demo_env_def)
  ultimately show ?thesis by (auto simp: editable_def can_signers_def can_sign_def intro: open_edited)
qed

lemma demo_ids [simp]: "ones \<noteq> sevens" "sevens \<noteq> ones" "ones \<noteq> threes" "threes \<noteq> ones" "sevens \<noteq> threes" "threes \<noteq> sevens"
  by (simp_all add: ones_def sevens_def threes_def)

lemma open_page_simps [simp]:
  "fw_object (open_page i name ps cs) = set_parents ps (set_children cs (page_blob name [] None))"
  "blob_id demo_env (open_page ones name ps cs) = ones" "blob_id demo_env (open_page sevens name ps cs) = sevens"
  "blob_id demo_env (open_page threes name ps cs) = threes"
  by (simp_all add: open_page_def blob_id_def demo_env_def flo_id_def flo_new_def toy_calc_flo_id ones_def sevens_def threes_def)

lemma set_children_simps [simp]: "get_children (set_children cs b) = cs" "get_parents (set_children cs b) = get_parents b"
  by (simp_all add: set_children_def get_children_def get_parents_def link_list_def)

theorem moved_page_linked_witness:
  "\<exists>rv' out newp. update_page demo_env (\<lambda>_. []) 1 sevens (set_parents [threes]) [] family_view = Some (rv', out, Ok (Some newp)) \<and>
     links_ok rv'"
proof -
  have stored: "map_of (rb_storage (rv_pages family_view)) = (\<lambda>_. None)(threes \<mapsto> open_page threes ''other'' [ones] [],
      sevens \<mapsto> open_page sevens ''sub'' [ones] [], ones \<mapsto> open_page ones ''root'' [] [sevens, threes])"
    by (auto simp: family_view_def fun_eq_iff)
  have "filed demo_env family_view" by (auto simp: filed_def stored split: if_splits)
  moreover have "links_ok family_view"
    by (auto simp: links_ok_def object_at_def stored split: if_splits)
  moreover have sub: "map_of (rb_storage (rv_pages family_view)) sevens = Some (open_page sevens ''sub'' [ones] [])"
    by (simp add: stored)
  moreover have "editable demo_env (\<lambda>_. []) 1 [] (open_page sevens ''sub'' [ones] [])"
    using open_page_editable [of "\<lambda>_. []" 0] by simp
  ultimately have "\<exists>rv' out newp. update_page demo_env (\<lambda>_. []) 1 sevens (set_parents [threes]) [] family_view = Some (rv', out, Ok (Some newp)) \<and>
      filed demo_env rv' \<and> links_ok rv' \<and> map_of (rb_storage (rv_pages rv')) sevens = Some newp \<and>
      fw_object newp = set_parents [threes] (fw_object (open_page sevens ''sub'' [ones] []))"
    by (rule moved_page_linked)
      (use open_page_editable [of "\<lambda>_. []" 0] in \<open>auto simp: stored split: if_splits\<close>)
  then show ?thesis by blast
qed

end
