(* ===== verification/Template.thy ===== *)
theory Template
  imports Subsystem RandomConnections
begin

text \<open>
  The pattern for new modules, \<open>flmodules/src/template\<close> (\<open>core.rs\<close>, \<open>messages.rs\<close> and the links of
  \<open>broker.rs\<close>): a counter that any node can increase, and whose new value goes to all the nodes that are
  connected. The counter has 32 bits and wraps around, as in a release build. The saved storage is the
  field \<open>tp_saved\<close>, the value of the watch channel \<open>tp_published\<close>; the codec of the saved storage and that
  of the messages are parameters.
\<close>

subsection \<open>Core\<close>

record template_config =
  tp_multiplier :: u32

record template_storage =
  counter :: u32

datatype template_storage_save = TemplateV1 template_storage

record template_core =
  tp_storage :: template_storage
  tp_config :: template_config

definition template_config_default :: template_config where
  "template_config_default = \<lparr>tp_multiplier = 1\<rparr>"

definition template_storage_default :: template_storage where
  "template_storage_default = \<lparr>counter = 0\<rparr>"

definition template_core_new :: "template_storage \<Rightarrow> template_config \<Rightarrow> template_core" where
  "template_core_new storage config = \<lparr>tp_storage = storage, tp_config = config\<rparr>"

definition increase :: "u32 \<Rightarrow> template_core \<Rightarrow> template_core" where
  "increase i c = c\<lparr>tp_storage := (tp_storage c)\<lparr>counter := counter (tp_storage c) + i * tp_multiplier (tp_config c)\<rparr>\<rparr>"

fun template_to_latest :: "template_storage_save \<Rightarrow> template_storage" where
  "template_to_latest (TemplateV1 es) = es"

definition template_from_str :: "template_storage_save codec \<Rightarrow> string \<Rightarrow> template_storage option" where
  "template_from_str c s = map_option template_to_latest (from_yaml c s)"

definition template_to_yaml :: "template_storage_save codec \<Rightarrow> template_storage \<Rightarrow> string option" where
  "template_to_yaml c s = to_yaml c (TemplateV1 s)"

subsection \<open>Messages\<close>

datatype template_message = Increase u32 | Counter u32

datatype template_in = TpFromNetwork u256 template_message | TpUpdateNodeList node_ids

datatype template_out = TpToNetwork u256 template_message

record template =
  tp_core :: template_core
  tp_saved :: "string option"
  tp_nodes :: node_ids
  tp_our_id :: u256
  tp_published :: template_storage

definition template_new :: "template_storage_save codec \<Rightarrow> string option \<Rightarrow> template_config \<Rightarrow> u256 \<Rightarrow> template" where
  "template_new c saved cfg our_id =
     (let str = (case saved of Some s \<Rightarrow> s | None \<Rightarrow> []);
          ts = (case template_from_str c str of Some t \<Rightarrow> t | None \<Rightarrow> template_storage_default)
      in \<lparr>tp_core = template_core_new ts cfg, tp_saved = saved, tp_nodes = [], tp_our_id = our_id, tp_published = ts\<rparr>)"

definition template_store :: "template_storage_save codec \<Rightarrow> template \<Rightarrow> template" where
  "template_store c t =
     (let t1 = t\<lparr>tp_published := tp_storage (tp_core t)\<rparr>
      in case template_to_yaml c (tp_storage (tp_core t)) of Some val \<Rightarrow> t1\<lparr>tp_saved := Some val\<rparr> | None \<Rightarrow> t1)"

definition template_node_list :: "node_ids \<Rightarrow> template \<Rightarrow> template \<times> template_out list" where
  "template_node_list ids t = (t\<lparr>tp_nodes := snd (ids_remove_missing ids [tp_our_id t])\<rparr>, [])"

definition process_node_message ::
  "template_storage_save codec \<Rightarrow> u256 \<Rightarrow> template_message \<Rightarrow> template \<Rightarrow> template \<times> template_out list" where
  "process_node_message c src msg t = (case msg of
     Increase i \<Rightarrow>
       (let t1 = template_store c (t\<lparr>tp_core := increase i (tp_core t)\<rparr>)
        in (t1, map (\<lambda>j. TpToNetwork j (Counter (counter (tp_storage (tp_core t1))))) (tp_nodes t1)))
   | Counter _ \<Rightarrow> (t, []))"

definition template_process :: "template_storage_save codec \<Rightarrow> template_in \<Rightarrow> template \<Rightarrow> template \<times> template_out list" where
  "template_process c msg t = (case msg of
     TpFromNetwork src node_msg \<Rightarrow> process_node_message c src node_msg t
   | TpUpdateNodeList ids \<Rightarrow> template_node_list ids t)"

fun template_messages :: "template_storage_save codec \<Rightarrow> template_in list \<Rightarrow> template \<Rightarrow> template \<times> template_out list" where
  "template_messages c [] t = (t, [])"
| "template_messages c (m # ms) t =
     (let (t1, out1) = template_process c m t; (t2, out2) = template_messages c ms t1 in (t2, out1 @ out2))"

subsection \<open>Links to the random connections\<close>

definition template_module :: string where
  "template_module = ''Template''"

definition link_rnd_template :: "template_message codec \<Rightarrow> random_out \<Rightarrow> template_in option" where
  "link_rnd_template mc msg = (case msg of
     RcNodeIDsConnected list \<Rightarrow> Some (TpUpdateNodeList list)
   | RcWrapperFromNetwork i w \<Rightarrow> map_option (TpFromNetwork i) (unwrap_yaml mc template_module w)
   | _ \<Rightarrow> None)"

definition link_template_rnd :: "template_message codec \<Rightarrow> template_out \<Rightarrow> (unit, random_in option) outcome" where
  "link_template_rnd mc msg = (case msg of TpToNetwork i msg_node \<Rightarrow>
     bind_outcome (expect (wrap_yaml mc template_module msg_node)) (\<lambda>w. Ok (Some (RcWrapperToNetwork i w))))"

subsection \<open>Properties\<close>

text \<open>The counter is what it was and the sum of all increases, each times the multiplier.\<close>

fun increases :: "template_in list \<Rightarrow> u32" where
  "increases [] = 0"
| "increases (TpFromNetwork _ (Increase i) # ms) = i + increases ms"
| "increases (_ # ms) = increases ms"

lemma template_store_simps [simp]:
  "tp_core (template_store c t) = tp_core t" "tp_nodes (template_store c t) = tp_nodes t" "tp_our_id (template_store c t) = tp_our_id t"
  "tp_published (template_store c t) = tp_storage (tp_core t)"
  by (simp_all add: template_store_def Let_def split: option.split)

lemma template_process_core:
  "tp_config (tp_core (fst (template_process c m t))) = tp_config (tp_core t)"
  "counter (tp_storage (tp_core (fst (template_process c m t)))) =
     counter (tp_storage (tp_core t)) + increases [m] * tp_multiplier (tp_config (tp_core t))"
  by (cases m; simp add: template_process_def template_node_list_def process_node_message_def increase_def Let_def
      split: template_message.split)+

lemma increases_Cons: "increases (m # ms) = increases [m] + increases ms"
proof (cases m)
  case (TpFromNetwork i x)
  then show ?thesis by (cases x) auto
qed simp

theorem counter_adds_up:
  "counter (tp_storage (tp_core (fst (template_messages c ms t)))) =
     counter (tp_storage (tp_core t)) + increases ms * tp_multiplier (tp_config (tp_core t))"
proof (induction ms arbitrary: t)
  case (Cons m ms)
  have "increases (m # ms) = increases [m] + increases ms" by (rule increases_Cons)
  with Cons.IH [of "fst (template_process c m t)"] show ?case
    by (simp add: case_prod_unfold Let_def template_process_core ring_distribs)
qed simp

text \<open>A node never sends to itself, whatever the lists say that it is given.\<close>

definition not_to :: "u256 \<Rightarrow> template_out \<Rightarrow> bool" where
  "not_to i out = (case out of TpToNetwork j _ \<Rightarrow> j \<noteq> i)"

definition template_ok :: "u256 \<Rightarrow> template \<Rightarrow> bool" where
  "template_ok own t \<longleftrightarrow> tp_our_id t = own \<and> own \<notin> set (tp_nodes t) \<and> tp_published t = tp_storage (tp_core t)"

interpretation tp: subsystem "\<lambda>m t. Ok (template_process c m t)" "\<lambda>_. True" "template_ok own" "not_to own" for c own
proof (unfold_locales, goal_cases)
  case (1 t m)
  then show ?case
    by (cases m) (auto simp: template_process_def template_node_list_def process_node_message_def template_ok_def not_to_def
        ids_remove_missing_filter Let_def list_all_iff split: template_message.split)
qed

lemma template_messages_handle_all:
  "handle_all (\<lambda>m t. Ok (template_process c m t)) ms t = Ok (template_messages c ms t)"
  by (induction ms arbitrary: t) (simp_all add: case_prod_unfold Let_def)

theorem never_sent_to_itself:
  assumes "template_ok own t"
  shows "template_ok own (fst (template_messages c ms t)) \<and> list_all (not_to own) (snd (template_messages c ms t))"
  using tp.all_kept [OF assms, of ms c] by (auto simp: template_messages_handle_all list_all_iff)

theorem never_sent_to_itself_witness:
  "list_all (not_to u256_zero) (snd (template_messages c ms (template_new c None template_config_default u256_zero)))"
  by (rule never_sent_to_itself [THEN conjunct2])
    (simp add: template_ok_def template_new_def template_core_new_def Let_def)

text \<open>
  All the other nodes of the list that a node was given hear the new value, if the messages can be written; what
  they get is read back as the counter by the same module of the other side.
\<close>
theorem new_value_announced:
  assumes "\<forall>m. reads_back mc m" and "j \<in> set ids" and "j \<noteq> tp_our_id t"
    and "template_messages c [TpUpdateNodeList ids, TpFromNetwork src (Increase i)] t = (t', out)"
  shows "\<exists>w. TpToNetwork j (Counter (counter (tp_published t'))) \<in> set out \<and>
    link_template_rnd mc (TpToNetwork j (Counter (counter (tp_published t')))) = Ok (Some (RcWrapperToNetwork j w)) \<and>
    link_rnd_template mc (RcWrapperFromNetwork own w) = Some (TpFromNetwork own (Counter (counter (tp_published t'))))"
proof -
  obtain w where w: "wrap_yaml mc template_module (Counter (counter (tp_published t'))) = Some w"
    using assms(1) by (fastforce simp: reads_back_def wrap_yaml_def bind_eq_Some_conv)
  then have "unwrap_yaml mc template_module w = Some (Counter (counter (tp_published t')))"
    by (rule unwrap_wrap [OF spec [OF assms(1)]])
  moreover have "TpToNetwork j (Counter (counter (tp_published t'))) \<in> set out"
    using assms(2-4) by (auto simp: template_process_def template_node_list_def process_node_message_def Let_def ids_remove_missing_filter)
  ultimately show ?thesis
    using w by (auto simp: link_template_rnd_def link_rnd_template_def expect_def)
qed

text \<open>What is saved is what a restarted node goes on with.\<close>

theorem counter_survives_restart:
  assumes "\<forall>s. reads_back c s" and "template_process c (TpFromNetwork src (Increase i)) t = (t', out)"
  shows "tp_storage (tp_core (template_new c (tp_saved t') cfg own)) = tp_storage (tp_core t')"
proof -
  let ?s = "tp_storage (increase i (tp_core t))"
  obtain s where s: "to_yaml c (TemplateV1 ?s) = Some s" "from_yaml c s = Some (TemplateV1 ?s)"
    using assms(1) by (auto simp: reads_back_def bind_eq_Some_conv)
  then show ?thesis
    using assms(2) by (auto simp: template_process_def process_node_message_def template_store_def template_to_yaml_def Let_def
        template_new_def template_from_str_def template_core_new_def)
qed

end
