(* ===== verification/Experiment.thy ===== *)
theory Experiment
  imports RealmView
begin

text \<open>
  The reliability experiments of the command-line node, \<open>cli/fledger/src\<close>: what a node reports
  (\<open>state.rs\<close>, \<open>hermes/snapshot.rs\<close>, \<open>influx/lines.rs\<close>) and the two sides of an experiment,
  \<open>run_create_pages\<close> and \<open>run_fetch_pages\<close> of \<open>simulation_dht/simulation.rs\<close>: one node publishes filler
  and target pages, the others wait until the dashboard tells them the targets and then fetch them until they
  have all of them or run out of time.

  The dashboard (Hermes) and the time series database are on other machines: their answers are part of the input
  of a round, what is sent to them part of the output. So are the clock and what a fetch finds. A \<open>HashSet\<close> is a
  list without repetitions and is gone through in the order of the list. Logging is left out.
\<close>

subsection \<open>What a node reports\<close>

record sim_page =
  sp_name :: string
  sp_id :: string

record sim_state =
  ss_experiment_id :: u32
  ss_node_id :: u32
  ss_node_name :: string
  ss_node_status :: string
  ss_pages_stored :: "sim_page list"
  ss_connected :: u32
  ss_ds_size :: nat
  ss_evil :: bool
  ss_fetched_total :: u32
  ss_requests_total :: u32
  ss_metrics :: ds_metrics

text \<open>\<open>new_id\<close> is the identifier that Hermes gives the node.\<close>

definition sim_state_new :: "u32 \<Rightarrow> string \<Rightarrow> u32 \<Rightarrow> sim_state" where
  "sim_state_new experiment name new_id = \<lparr>ss_experiment_id = experiment, ss_node_id = new_id, ss_node_name = name,
     ss_node_status = ''active'', ss_pages_stored = [], ss_connected = 0, ss_ds_size = 0, ss_evil = False,
     ss_fetched_total = 0, ss_requests_total = 0, ss_metrics = ds_metrics_new\<rparr>"

definition increment_requests :: "sim_state \<Rightarrow> sim_state" where
  "increment_requests s = s\<lparr>ss_requests_total := ss_requests_total s + 1\<rparr>"

definition sim_success :: "sim_state \<Rightarrow> sim_state" where "sim_success s = s\<lparr>ss_node_status := ''success''\<rparr>"
definition sim_timeout :: "sim_state \<Rightarrow> sim_state" where "sim_timeout s = s\<lparr>ss_node_status := ''timeout''\<rparr>"

text \<open>The name of a page is the first of its values. Both \<open>unwrap\<close>s panic.\<close>

definition page_of_flo :: "flo_env \<Rightarrow> blob flo_codec \<Rightarrow> flo \<Rightarrow> (unit, sim_page) outcome" where
  "page_of_flo e c f =
     bind_outcome (expect (fc_parse c (data f))) (\<lambda>b.
     case vals b of (_, name) # _ \<Rightarrow> Ok \<lparr>sp_name = name, sp_id = u256_display (flo_id e f)\<rparr> | [] \<Rightarrow> Panic)"

definition pages_held :: "flo_env \<Rightarrow> blob flo_codec \<Rightarrow> tap \<Rightarrow> (unit, sim_page list) outcome" where
  "pages_held e c tap =
     collect_ok (map (page_of_flo e c)
       (filter (\<lambda>f. flo_type f = fc_type c) (case client_flos tap of Some fs \<Rightarrow> fs | None \<Rightarrow> [])))"

definition refresh_pages :: "flo_env \<Rightarrow> blob flo_codec \<Rightarrow> tap \<Rightarrow> sim_state \<Rightarrow> (unit, sim_state) outcome" where
  "refresh_pages e c tap s = bind_outcome (pages_held e c tap) (\<lambda>ps. Ok (s\<lparr>ss_pages_stored := ps\<rparr>))"

definition stored_targets :: "flo_env \<Rightarrow> blob flo_codec \<Rightarrow> tap \<Rightarrow> (unit, sim_page list) outcome" where
  "stored_targets e c tap =
     bind_outcome (pages_held e c tap) (\<lambda>ps. Ok (filter (\<lambda>p. take 6 (sp_name p) = ''target'') ps))"

type_synonym metric = "string \<times> u32"

record snapshot =
  sn_node_status :: string
  sn_pages_stored :: "sim_page list"
  sn_evil :: bool
  sn_timed :: "metric list"
  sn_timeless :: "metric list"

definition snapshot_make :: "sim_state \<Rightarrow> snapshot" where
  "snapshot_make s = \<lparr>sn_node_status = ss_node_status s, sn_pages_stored = ss_pages_stored s, sn_evil = ss_evil s,
     sn_timed = [(''pages_stored'', word_of_nat (length (ss_pages_stored s)))],
     sn_timeless = [
       (''connected_nodes_total'', ss_connected s),
       (''pages_stored_total'', word_of_nat (length (ss_pages_stored s))),
       (''ds_size_bytes'', word_of_nat (ss_ds_size s)),
       (''evil_no_forward'', if ss_evil s then 1 else 0),
       (''store_flo_total'', store_flo_total (ss_metrics s)),
       (''request_flo_metas_sent_total'', request_flo_metas_sent_total (ss_metrics s)),
       (''flo_value_sent_total'', flo_value_sent_total (ss_metrics s)),
       (''flo_value_sent_blocked_total'', flo_value_sent_blocked_total (ss_metrics s)),
       (''available_flos_sent_total'', available_flos_sent_total (ss_metrics s)),
       (''available_flos_sent_blocked_total'', available_flos_sent_blocked_total (ss_metrics s)),
       (''flos_sent_total'', flos_sent_total (ss_metrics s)),
       (''flos_sent_blocked_total'', flos_sent_blocked_total (ss_metrics s)),
       (''max_flo_metas_received_in_available_flos'', max_flo_metas_received_in_available_flos (ss_metrics s)),
       (''max_flo_metas_requested_in_request_flos'', max_flo_metas_requested_in_request_flos (ss_metrics s)),
       (''max_flo_ids_received_in_request_flos'', max_flo_ids_received_in_request_flos (ss_metrics s)),
       (''max_flos_sent_in_flos'', max_flos_sent_in_flos (ss_metrics s)),
       (''max_flos_received_in_flos'', max_flos_received_in_flos (ss_metrics s)),
       (''target_successfully_fetched_total'', ss_fetched_total s),
       (''fetch_requests_total'', ss_requests_total s)]\<rparr>"

fun dec_digits :: "nat \<Rightarrow> string" where
  "dec_digits n = (if n < 10 then [char_of (48 + n)] else dec_digits (n div 10) @ [char_of (48 + n mod 10)])"

declare dec_digits.simps [simp del]

definition influx_line :: "string \<Rightarrow> string \<Rightarrow> u32 \<Rightarrow> string" where
  "influx_line node measurement v = measurement @ '',node_name='' @ node @ '' value='' @ dec_digits (unat v)"

definition influx_metrics :: "sim_state \<Rightarrow> metric list" where
  "influx_metrics s = [
     (''fledger_realm_storage_bytes'', word_of_nat (ss_ds_size s)),
     (''fledger_pages_total'', word_of_nat (length (ss_pages_stored s))),
     (''fledger_connected_total'', ss_connected s),
     (''fledger_forwarded_flo_meta_requests_total'', available_flos_sent_total (ss_metrics s)),
     (''fledger_blocked_flo_meta_requests_total'', available_flos_sent_blocked_total (ss_metrics s)),
     (''fledger_flos_metas_received_from_neighbour'', max_flo_metas_received_in_available_flos (ss_metrics s)),
     (''fledger_flos_requested_from_neighbour'', max_flo_metas_requested_in_request_flos (ss_metrics s)),
     (''fledger_flos_ids_received_from_neighbour'', max_flo_ids_received_in_request_flos (ss_metrics s)),
     (''fledger_forwarded_flo_requests_total'', flos_sent_total (ss_metrics s)),
     (''fledger_flos_sent_to_neighbour'', max_flos_sent_in_flos (ss_metrics s)),
     (''fledger_blocked_flo_requests_total'', flos_sent_blocked_total (ss_metrics s)),
     (''fledger_flo_value_sent_total'', flo_value_sent_total (ss_metrics s)),
     (''fledger_flo_value_blocked_total'', flo_value_sent_blocked_total (ss_metrics s)),
     (''fledger_blocked_flo_requests_total'', flos_sent_blocked_total (ss_metrics s)),
     (''fledger_flos_received_from_neighbour'', max_flos_received_in_flos (ss_metrics s)),
     (''fledger_ds_store_flo_total'', store_flo_total (ss_metrics s))]"

fun join_lines :: "string list \<Rightarrow> string" where
  "join_lines [] = []"
| "join_lines [l] = l"
| "join_lines (l # ls) = l @ CHR 0x0A # join_lines ls"

definition make_influx_data :: "string \<Rightarrow> sim_state \<Rightarrow> string" where
  "make_influx_data node s = join_lines (map (\<lambda>(k, v). influx_line node k v) (influx_metrics s))"


subsection \<open>Fetching the targets\<close>

text \<open>What a node sees of itself when it reports: the active nodes of its router, the statistics of its storage, and its Flos.\<close>

record observation =
  ob_active :: nat
  ob_stats :: stats
  ob_tap :: tap

datatype sim_out = Influx string | HermesUpdate snapshot | HermesTargets "string list" | SyncDht | FetchFlo global_id

record fetch_env =
  fv_flo :: flo_env
  fv_page :: "blob flo_codec"
  fv_realm :: u256
  fv_loop_delay :: nat
  fv_sync :: bool
  fv_propagation_timeout :: nat
  fv_timeout :: nat
  fv_evil :: bool

text \<open>\<open>None\<close> of \<open>realm_stats.iter().next()\<close> panics. The argument \<open>evil_noforward\<close> is reported, not the state of the node.\<close>

definition sim_upload :: "sim_state \<Rightarrow> sim_out list" where
  "sim_upload s = [Influx (make_influx_data (ss_node_name s) s), HermesUpdate (snapshot_make s)]"

definition update_and_upload :: "fetch_env \<Rightarrow> observation \<Rightarrow> sim_state \<Rightarrow> (unit, sim_state \<times> sim_out list) outcome" where
  "update_and_upload e ob s =
     (case sts_realms (ob_stats ob) of [] \<Rightarrow> Panic
      | (_, rs) # _ \<Rightarrow>
          bind_outcome (refresh_pages (fv_flo e) (fv_page e) (ob_tap ob)
            (s\<lparr>ss_metrics := sts_metrics (ob_stats ob), ss_connected := word_of_nat (ob_active ob), ss_ds_size := rs_size rs,
               ss_evil := fv_evil e\<rparr>)) (\<lambda>s1. Ok (s1, sim_upload s1)))"

definition send_target_pages :: "fetch_env \<Rightarrow> observation \<Rightarrow> (unit, sim_out list) outcome" where
  "send_target_pages e ob =
     bind_outcome (stored_targets (fv_flo e) (fv_page e) (ob_tap ob)) (\<lambda>ps. Ok [HermesTargets (map sp_id ps)])"

record fetch_run =
  fr_state :: sim_state
  fr_start :: nat
  fr_targets :: "string list"
  fr_fetched :: "string list"
  fr_iteration :: u32
  fr_no_forward :: bool

definition fetch_start :: "sim_state \<Rightarrow> nat \<Rightarrow> bool \<Rightarrow> fetch_run" where
  "fetch_start s now no_forward =
     \<lparr>fr_state = s, fr_start = now, fr_targets = [], fr_fetched = [], fr_iteration = 0, fr_no_forward = no_forward\<rparr>"

text \<open>
  One round of the loop: the clock when it begins and when Hermes has answered, the observation, the answer of Hermes to
  the targets the node holds (\<open>None\<close> also for a failed request), and which Flos can be fetched.
\<close>

record round =
  rd_now :: nat
  rd_later :: nat
  rd_seen :: observation
  rd_response :: "string list option"
  rd_found :: "u256 \<Rightarrow> bool"

datatype run_end = Running | EndedTimeout | EndedSuccess | EndedError | EndedPanic

definition set_insert :: "'a \<Rightarrow> 'a list \<Rightarrow> 'a list" where
  "set_insert x xs = (if x \<in> set xs then xs else xs @ [x])"

fun fetch_targets :: "fetch_env \<Rightarrow> (u256 \<Rightarrow> bool) \<Rightarrow> string list \<Rightarrow> fetch_run \<Rightarrow> fetch_run \<times> sim_out list \<times> run_end" where
  "fetch_targets e found [] r = (r, [], Running)"
| "fetch_targets e found (p # ps) r =
     (if p \<in> set (fr_fetched r) then fetch_targets e found ps r
      else case u256_from_str p of
        Ok i \<Rightarrow>
          (let r1 = r\<lparr>fr_state := increment_requests (fr_state r)\<rparr>;
               r2 = (if found i then r1\<lparr>fr_fetched := set_insert p (fr_fetched r1)\<rparr> else r1);
               (r3, out, fin) = fetch_targets e found ps r2
           in (r3, FetchFlo (fv_realm e, i) # out, fin))
      | Err _ \<Rightarrow> (r, [], EndedError)
      | Panic \<Rightarrow> (r, [], EndedPanic))"

text \<open>A stage of a round, after which the round goes on if the stage did not end the run.\<close>

type_synonym stage = "fetch_run \<Rightarrow> fetch_run \<times> sim_out list \<times> run_end"

definition stage_then :: "stage \<Rightarrow> stage \<Rightarrow> stage" where
  "stage_then a b r =
     (let (r1, out1, fin1) = a r
      in if fin1 = Running then (let (r2, out2, fin2) = b r1 in (r2, out1 @ out2, fin2)) else (r1, out1, fin1))"

definition report_stage :: "fetch_env \<Rightarrow> observation \<Rightarrow> run_end \<Rightarrow> stage" where
  "report_stage e ob fin r = (case update_and_upload e ob (fr_state r) of
     Ok (s, out) \<Rightarrow> (r\<lparr>fr_state := s\<rparr>, out, fin) | _ \<Rightarrow> (r, [], EndedPanic))"

definition timeout_stage :: "fetch_env \<Rightarrow> round \<Rightarrow> stage" where
  "timeout_stage e rd r =
     (let elapsed = rd_now rd - fr_start r
      in if fr_targets r = [] \<and> fv_propagation_timeout e < elapsed \<or> fr_targets r \<noteq> [] \<and> fv_timeout e < elapsed
         then report_stage e (rd_seen rd) EndedTimeout (r\<lparr>fr_state := sim_timeout (fr_state r)\<rparr>)
         else (r, [], Running))"

definition count_stage :: "fetch_env \<Rightarrow> stage" where
  "count_stage e r = (r\<lparr>fr_iteration := fr_iteration r + 1\<rparr>, if fv_sync e then [SyncDht] else [], Running)"

definition first_stage :: "fetch_env \<Rightarrow> round \<Rightarrow> stage" where
  "first_stage e rd r = (if fr_iteration r = 1 then report_stage e (rd_seen rd) Running r else (r, [], Running))"

definition ask_stage :: "fetch_env \<Rightarrow> round \<Rightarrow> stage" where
  "ask_stage e rd r =
     (if fr_iteration r mod 10 = 0 \<and> fr_targets r = [] then
        (case send_target_pages e (rd_seen rd) of
           Ok out \<Rightarrow>
             (case rd_response rd of
                Some (i # is) \<Rightarrow> (r\<lparr>fr_start := rd_later rd, fr_targets := fold set_insert (i # is) [],
                   fr_no_forward := fr_no_forward r \<or> fv_evil e\<rparr>, out, Running)
              | _ \<Rightarrow> (r, out, Running))
         | _ \<Rightarrow> (r, [], EndedPanic))
      else (r, [], Running))"

definition progress_stage :: "fetch_env \<Rightarrow> round \<Rightarrow> stage" where
  "progress_stage e rd r =
     (if fr_iteration r mod 30 = 0 \<and> fr_targets r \<noteq> [] then report_stage e (rd_seen rd) Running r else (r, [], Running))"

definition fetch_stage :: "fetch_env \<Rightarrow> round \<Rightarrow> stage" where
  "fetch_stage e rd r = fetch_targets e (rd_found rd) (fr_targets r) r"

definition success_stage :: "fetch_env \<Rightarrow> round \<Rightarrow> stage" where
  "success_stage e rd r =
     (let s = (fr_state r)\<lparr>ss_fetched_total := word_of_nat (length (fr_fetched r))\<rparr>; r1 = r\<lparr>fr_state := s\<rparr>
      in if fr_targets r \<noteq> [] \<and> set (fr_targets r) \<subseteq> set (fr_fetched r)
         then report_stage e (rd_seen rd) EndedSuccess (r1\<lparr>fr_state := sim_success s\<rparr>)
         else (r1, [], Running))"

definition fetch_round :: "fetch_env \<Rightarrow> round \<Rightarrow> stage" where
  "fetch_round e rd =
     stage_then (timeout_stage e rd) (stage_then (count_stage e) (stage_then (first_stage e rd) (stage_then (ask_stage e rd)
     (stage_then (progress_stage e rd) (stage_then (fetch_stage e rd) (success_stage e rd))))))"

fun fetch_loop :: "fetch_env \<Rightarrow> round list \<Rightarrow> stage" where
  "fetch_loop e [] = (\<lambda>r. (r, [], Running))"
| "fetch_loop e (rd # rds) = stage_then (fetch_round e rd) (fetch_loop e rds)"


subsection \<open>A report of success is true\<close>

definition run_ok :: "fetch_run \<Rightarrow> bool" where
  "run_ok r \<longleftrightarrow> distinct (fr_targets r) \<and> distinct (fr_fetched r) \<and> set (fr_fetched r) \<subseteq> set (fr_targets r)"

text \<open>What was fetched was asked for and found.\<close>

definition got :: "fetch_env \<Rightarrow> (u256 \<Rightarrow> bool) \<Rightarrow> sim_out list \<Rightarrow> string \<Rightarrow> bool" where
  "got e found out p \<longleftrightarrow> (\<exists>i. u256_from_str p = Ok i \<and> found i \<and> FetchFlo (fv_realm e, i) \<in> set out)"

text \<open>The report that goes with a successful end.\<close>

definition reported :: "fetch_run \<Rightarrow> sim_out list \<Rightarrow> bool" where
  "reported r out \<longleftrightarrow> fr_targets r \<noteq> [] \<and> set (fr_targets r) \<subseteq> set (fr_fetched r) \<and>
     ss_node_status (fr_state r) = ''success'' \<and> ss_fetched_total (fr_state r) = word_of_nat (length (fr_fetched r)) \<and>
     HermesUpdate (snapshot_make (fr_state r)) \<in> set out"

definition honest :: "fetch_env \<Rightarrow> (u256 \<Rightarrow> bool) \<Rightarrow> stage \<Rightarrow> bool" where
  "honest e found st \<longleftrightarrow> (\<forall>r r' out fin. st r = (r', out, fin) \<longrightarrow>
     (\<forall>p \<in> set (fr_fetched r'). p \<in> set (fr_fetched r) \<or> got e found out p) \<and> (run_ok r \<longrightarrow> run_ok r') \<and>
     (fin = EndedSuccess \<longrightarrow> reported r' out))"

lemma honestI:
  assumes "\<And>r r' out fin. st r = (r', out, fin) \<Longrightarrow> fr_fetched r' = fr_fetched r \<and> (run_ok r \<longrightarrow> run_ok r') \<and> (fin = EndedSuccess \<longrightarrow> reported r' out)"
  shows "honest e found st"
  using assms by (fastforce simp: honest_def)

lemma honest_then: "honest e found a \<Longrightarrow> honest e found b \<Longrightarrow> honest e found (stage_then a b)"
  unfolding honest_def
proof (intro allI impI, goal_cases)
  case (1 r r' out fin)
  obtain r1 out1 fin1 where a: "a r = (r1, out1, fin1)" by (cases "a r")
  obtain r2 out2 fin2 where b: "b r1 = (r2, out2, fin2)" by (cases "b r1")
  show ?case
  proof (cases "fin1 = Running")
    case True
    with 1(3) a b have eq: "r' = r2" "out = out1 @ out2" "fin = fin2" by (simp_all add: stage_then_def)
    have "\<forall>p \<in> set (fr_fetched r1). p \<in> set (fr_fetched r) \<or> got e found out1 p" "run_ok r \<longrightarrow> run_ok r1"
      using 1(1) a by blast+
    moreover have "\<forall>p \<in> set (fr_fetched r2). p \<in> set (fr_fetched r1) \<or> got e found out2 p" "run_ok r1 \<longrightarrow> run_ok r2"
      "fin2 = EndedSuccess \<longrightarrow> reported r2 out2"
      using 1(2) b by blast+
    ultimately show ?thesis unfolding eq by (auto simp: got_def reported_def)
  next
    case False
    with 1(3) a have "r' = r1" "out = out1" "fin = fin1" by (simp_all add: stage_then_def)
    with 1(1) a show ?thesis by blast
  qed
qed

lemma honest_mono: "honest e f st \<Longrightarrow> (\<And>i. f i \<Longrightarrow> g i) \<Longrightarrow> honest e g st"
  unfolding honest_def got_def by blast

lemma run_ok_frame [simp]:
  "run_ok (r\<lparr>fr_state := s\<rparr>) = run_ok r" "run_ok (r\<lparr>fr_iteration := n\<rparr>) = run_ok r"
  by (simp_all add: run_ok_def)

lemma upload_frame:
  "update_and_upload e ob s = Ok (s', out) \<Longrightarrow>
     ss_node_status s' = ss_node_status s \<and> ss_fetched_total s' = ss_fetched_total s \<and> HermesUpdate (snapshot_make s') \<in> set out"
  by (auto simp: update_and_upload_def bind_outcome_Ok sim_upload_def refresh_pages_def split: list.splits)

lemma report_frame:
  "report_stage e ob fin r = (r', out, fin') \<Longrightarrow>
     fr_targets r' = fr_targets r \<and> fr_fetched r' = fr_fetched r \<and> fr_start r' = fr_start r \<and> run_ok r' = run_ok r \<and> fin' \<in> {fin, EndedPanic}"
  by (auto simp: report_stage_def split: outcome.splits)

lemma set_fold_insert: "set (fold set_insert xs ys) = set xs \<union> set ys" "distinct ys \<Longrightarrow> distinct (fold set_insert xs ys)"
  by (induction xs arbitrary: ys) (auto simp: set_insert_def)

lemma fetch_targets_run:
  assumes "fetch_targets e found ps r = (r', out, fin)"
  shows "(\<forall>p \<in> set (fr_fetched r'). p \<in> set (fr_fetched r) \<or> p \<in> set ps \<and> got e found out p) \<and>
    (distinct (fr_fetched r) \<longrightarrow> distinct (fr_fetched r')) \<and> fr_targets r' = fr_targets r \<and> fr_start r' = fr_start r \<and> fin \<noteq> EndedSuccess"
  using assms
proof (induction ps arbitrary: r r' out fin)
  case (Cons p ps)
  show ?case
  proof (cases "p \<in> set (fr_fetched r)")
    case True
    then show ?thesis using Cons.prems Cons.IH [of r r' out fin] by auto
  next
    case False
    show ?thesis
    proof (cases "u256_from_str p")
      case (Ok i)
      let ?r1 = "r\<lparr>fr_state := increment_requests (fr_state r)\<rparr>"
      let ?r2 = "if found i then ?r1\<lparr>fr_fetched := set_insert p (fr_fetched ?r1)\<rparr> else ?r1"
      obtain r3 out3 fin3 where rest: "fetch_targets e found ps ?r2 = (r3, out3, fin3)" by (cases "fetch_targets e found ps ?r2")
      have eq: "r' = r3" "out = FetchFlo (fv_realm e, i) # out3" "fin = fin3"
        using Cons.prems False Ok rest by (simp_all add: Let_def)
      show ?thesis
        using Cons.IH [OF rest] Ok False unfolding eq by (auto simp: got_def set_insert_def split: if_splits)
    qed (use Cons.prems False in auto)
  qed
qed simp


lemma stage_frames:
  "timeout_stage e rd r = (r', out, fin) \<Longrightarrow> fr_fetched r' = fr_fetched r \<and> fr_targets r' = fr_targets r \<and> fr_start r' = fr_start r \<and>
     run_ok r' = run_ok r \<and> fin \<noteq> EndedSuccess"
  "count_stage e r = (r', out, fin) \<Longrightarrow> fr_fetched r' = fr_fetched r \<and> fr_targets r' = fr_targets r \<and> fr_start r' = fr_start r \<and>
     run_ok r' = run_ok r \<and> fin = Running"
  "first_stage e rd r = (r', out, fin) \<Longrightarrow> fr_fetched r' = fr_fetched r \<and> fr_targets r' = fr_targets r \<and> fr_start r' = fr_start r \<and>
     run_ok r' = run_ok r \<and> fin \<noteq> EndedSuccess"
  "progress_stage e rd r = (r', out, fin) \<Longrightarrow> fr_fetched r' = fr_fetched r \<and> fr_targets r' = fr_targets r \<and> fr_start r' = fr_start r \<and>
     run_ok r' = run_ok r \<and> fin \<noteq> EndedSuccess"
  by (auto simp: timeout_stage_def count_stage_def first_stage_def progress_stage_def Let_def split: if_splits dest!: report_frame)

lemma ask_stage_frame:
  assumes "ask_stage e rd r = (r', out, fin)"
  shows "fr_fetched r' = fr_fetched r \<and> (run_ok r \<longrightarrow> run_ok r') \<and> fin \<noteq> EndedSuccess \<and>
    (fr_targets r' = fr_targets r \<and> fr_start r' = fr_start r \<or> fr_targets r = [] \<and> fr_targets r' \<noteq> [] \<and> fr_start r' = rd_later rd)"
proof -
  have "fold set_insert (i # is) [] \<noteq> []" for i and "is" :: "string list"
    using set_fold_insert(1) [of "i # is" "[]"] by (metis list.set_intros(1) list.set(1) empty_iff Un_iff)
  then show ?thesis
    using assms by (auto simp: ask_stage_def run_ok_def set_fold_insert set_insert_def split: if_splits outcome.splits option.splits list.splits)
qed

lemma honest_round: "honest e (rd_found rd) (fetch_round e rd)"
  unfolding fetch_round_def
proof (intro honest_then)
  show "honest e (rd_found rd) (fetch_stage e rd)"
    unfolding honest_def fetch_stage_def by (fastforce dest!: fetch_targets_run simp: run_ok_def)
  show "honest e (rd_found rd) (success_stage e rd)"
  proof (rule honestI)
    fix r r' out fin
    assume *: "success_stage e rd r = (r', out, fin)"
    show "fr_fetched r' = fr_fetched r \<and> (run_ok r \<longrightarrow> run_ok r') \<and> (fin = EndedSuccess \<longrightarrow> reported r' out)"
      using * by (auto simp: success_stage_def Let_def report_stage_def sim_success_def reported_def split: if_splits outcome.splits dest!: upload_frame)
  qed
qed (auto intro!: honestI dest!: stage_frames ask_stage_frame)

lemma honest_loop: "honest e (\<lambda>i. \<exists>rd \<in> set rds. rd_found rd i) (fetch_loop e rds)"
proof (induction rds)
  case (Cons rd rds)
  have "honest e (\<lambda>i. \<exists>rd \<in> set (rd # rds). rd_found rd i) (fetch_round e rd)"
    by (rule honest_mono [OF honest_round]) simp
  moreover have "honest e (\<lambda>i. \<exists>rd \<in> set (rd # rds). rd_found rd i) (fetch_loop e rds)"
    by (rule honest_mono [OF Cons.IH]) auto
  ultimately show ?case by (simp add: honest_then)
qed (simp add: honest_def)

text \<open>
  A node that reports success has fetched every target: each of them is an identifier for which the node has sent a
  request, and the Flo was found in one of the rounds. The number it reports is the number of the targets.
\<close>
theorem success_is_true:
  assumes "fetch_loop e rds (fetch_start s now no_forward) = (r, out, EndedSuccess)"
  shows "fr_targets r \<noteq> [] \<and> (\<forall>p \<in> set (fr_targets r). \<exists>i rd. u256_from_str p = Ok i \<and> rd \<in> set rds \<and> rd_found rd i \<and>
      FetchFlo (fv_realm e, i) \<in> set out) \<and>
    ss_node_status (fr_state r) = ''success'' \<and> ss_fetched_total (fr_state r) = word_of_nat (length (fr_targets r)) \<and>
    HermesUpdate (snapshot_make (fr_state r)) \<in> set out"
proof -
  let ?found = "\<lambda>i. \<exists>rd \<in> set rds. rd_found rd i"
  have "run_ok (fetch_start s now no_forward)" by (simp add: run_ok_def fetch_start_def)
  then have r: "\<forall>p \<in> set (fr_fetched r). got e ?found out p" "run_ok r" "reported r out"
    using honest_loop [of e rds] assms unfolding honest_def by (fastforce simp: fetch_start_def)+
  then have same: "set (fr_fetched r) = set (fr_targets r)" by (auto simp: run_ok_def reported_def)
  then have "length (fr_fetched r) = length (fr_targets r)"
    using r(2) by (metis run_ok_def distinct_card)
  with r same show ?thesis by (fastforce simp: reported_def got_def)
qed


subsection \<open>Every experiment ends\<close>

lemma stage_then_Running:
  "stage_then a b r = (r', out, Running) \<longleftrightarrow> (\<exists>r1 out1 out2. a r = (r1, out1, Running) \<and> b r1 = (r', out2, Running) \<and> out = out1 @ out2)"
  by (cases "a r"; cases "b (fst (a r))") (auto simp: stage_then_def)

lemma round_running:
  assumes "fetch_round e rd r = (r', out, Running)"
  shows "(if fr_targets r = [] then rd_now rd - fr_start r \<le> fv_propagation_timeout e else rd_now rd - fr_start r \<le> fv_timeout e) \<and>
    (fr_targets r' = fr_targets r \<and> fr_start r' = fr_start r \<or> fr_targets r = [] \<and> fr_targets r' \<noteq> [] \<and> fr_start r' = rd_later rd)"
proof -
  obtain r1 r2 r3 r4 r5 r6 o1 o2 o3 o4 o5 o6 o7 where st: "timeout_stage e rd r = (r1, o1, Running)"
    "count_stage e r1 = (r2, o2, Running)" "first_stage e rd r2 = (r3, o3, Running)" "ask_stage e rd r3 = (r4, o4, Running)"
    "progress_stage e rd r4 = (r5, o5, Running)" "fetch_stage e rd r5 = (r6, o6, Running)" "success_stage e rd r6 = (r', o7, Running)"
    using assms unfolding fetch_round_def stage_then_Running by blast
  have "fr_targets r3 = fr_targets r \<and> fr_start r3 = fr_start r"
    using stage_frames(1) [OF st(1)] stage_frames(2) [OF st(2)] stage_frames(3) [OF st(3)] by simp
  moreover have "fr_targets r' = fr_targets r4 \<and> fr_start r' = fr_start r4"
    using stage_frames(4) [OF st(5)] fetch_targets_run [OF st(6) [unfolded fetch_stage_def]] st(7)
    by (auto simp: success_stage_def Let_def split: if_splits dest!: report_frame)
  moreover have "if fr_targets r = [] then rd_now rd - fr_start r \<le> fv_propagation_timeout e else rd_now rd - fr_start r \<le> fv_timeout e"
    using st(1) by (auto simp: timeout_stage_def Let_def split: if_splits dest!: report_frame)
  ultimately show ?thesis using ask_stage_frame [OF st(4)] by auto
qed

text \<open>A clock with at least \<open>d\<close> milliseconds from the beginning of a round to the answer of Hermes: the wait of the loop.\<close>

fun clock_ok :: "nat \<Rightarrow> nat \<Rightarrow> round list \<Rightarrow> bool" where
  "clock_ok d t [] \<longleftrightarrow> True"
| "clock_ok d t (rd # rds) \<longleftrightarrow> t \<le> rd_now rd \<and> rd_now rd + d \<le> rd_later rd \<and> clock_ok d (rd_later rd) rds"

lemma fetching_ends:
  assumes "clock_ok d t rds" and "fr_targets r \<noteq> []" and "fr_start r \<le> t" and "fv_timeout e < (t - fr_start r) + k * d" and "k < length rds"
    and "fetch_loop e rds r = (r', out, fin)"
  shows "fin \<noteq> Running"
  using assms
proof (induction rds arbitrary: t r r' out fin k)
  case (Cons rd rds)
  show ?case
  proof
    assume "fin = Running"
    with Cons.prems(6) obtain r1 out1 out2 where one: "fetch_round e rd r = (r1, out1, Running)" "fetch_loop e rds r1 = (r', out2, Running)"
      by (auto simp: stage_then_Running)
    note r1 = round_running [OF one(1)]
    have same: "fr_targets r1 = fr_targets r" "fr_start r1 = fr_start r" using r1 Cons.prems(2) by auto
    show False
    proof (cases k)
      case 0
      with r1 Cons.prems(1-4) show False by auto
    next
      case (Suc j)
      have clock: "clock_ok d (rd_later rd) rds" "t + d \<le> rd_later rd" using Cons.prems(1) by auto
      then have "fv_timeout e < (rd_later rd - fr_start r1) + j * d" "fr_start r1 \<le> rd_later rd"
        using Cons.prems(3,4) Suc same(2) by auto
      with Cons.IH [OF clock(1), of r1 j r' out2 Running] one(2) Cons.prems(2,5) same(1) Suc show False by simp
    qed
  qed
qed simp

text \<open>
  C36. However the dashboard and the network behave, a node that waits \<open>d\<close> milliseconds in every round stops after at most
  as many rounds as the two time-outs take together: with success, a time-out or an error, or because the program
  panics; it does not go on.
\<close>
theorem experiment_ends:
  assumes "clock_ok d t rds" and "fr_targets r = []" and "fr_start r \<le> t"
    and "fv_propagation_timeout e < (t - fr_start r) + k * d" and "fv_timeout e < m * d" and "k + m + 1 < length rds"
    and "fetch_loop e rds r = (r', out, fin)"
  shows "fin \<noteq> Running"
  using assms
proof (induction rds arbitrary: t r r' out fin k)
  case (Cons rd rds)
  show ?case
  proof
    assume "fin = Running"
    with Cons.prems(7) obtain r1 out1 out2 where one: "fetch_round e rd r = (r1, out1, Running)" "fetch_loop e rds r1 = (r', out2, Running)"
      by (auto simp: stage_then_Running)
    note r1 = round_running [OF one(1)]
    have clock: "clock_ok d (rd_later rd) rds" "t + d \<le> rd_later rd" "t \<le> rd_now rd" using Cons.prems(1) by auto
    from r1 consider "fr_targets r1 = []" "fr_start r1 = fr_start r" | "fr_targets r1 \<noteq> []" "fr_start r1 = rd_later rd"
      using Cons.prems(2) by auto
    then show False
    proof cases
      case 1
      show False
      proof (cases k)
        case 0
        with r1 Cons.prems(2-4) clock(3) show False by auto
      next
        case (Suc j)
        then have "fv_propagation_timeout e < (rd_later rd - fr_start r1) + j * d" "fr_start r1 \<le> rd_later rd"
          using Cons.prems(3,4) clock(2) 1(2) by auto
        with Cons.IH [OF clock(1) 1(1), of j r' out2 Running] one(2) Cons.prems(5,6) Suc show False by simp
      qed
    next
      case 2
      have "m < length rds" using Cons.prems(6) by simp
      with fetching_ends [OF clock(1) 2(1), of e m r' out2 Running] one(2) 2(2) Cons.prems(5) show False by simp
    qed
  qed
qed simp


text \<open>An example: a node that is given one target after ten rounds and finds it at once.\<close>

definition demo_observation :: observation where
  "demo_observation = \<lparr>ob_active = 3, ob_stats = \<lparr>sts_realms = [(u256_zero, \<lparr>rs_real_size = 0, rs_size = 0, rs_flos = 0, rs_distribution = [],
     rs_config = \<lparr>max_space = 0, max_flo_size = 0\<rparr>\<rparr>)], sts_system_realms = [], sts_metrics = ds_metrics_new\<rparr>, ob_tap = (\<lambda>_. [])\<rparr>"

definition demo_fetch_env :: fetch_env where
  "demo_fetch_env = \<lparr>fv_flo = toy_env, fv_page = constant_codec (page_blob [] [] None), fv_realm = u256_zero, fv_loop_delay = 10,
     fv_sync = False, fv_propagation_timeout = 1000, fv_timeout = 1000, fv_evil = False\<rparr>"

definition demo_round :: "string \<Rightarrow> nat \<Rightarrow> round" where
  "demo_round p t = \<lparr>rd_now = t, rd_later = t + 10, rd_seen = demo_observation, rd_response = Some [p], rd_found = (\<lambda>_. True)\<rparr>"

lemma demo_pages: "pages_held e c (\<lambda>_. []) = Ok []"
  by (simp add: pages_held_def client_flos_def send_wait_def)

lemma demo_upload: "\<exists>s' out. update_and_upload demo_fetch_env demo_observation s = Ok (s', out)"
  by (simp add: update_and_upload_def demo_observation_def refresh_pages_def demo_pages)

lemma demo_quiet:
  assumes "fr_targets r = []" and "fr_start r = 0" and "t \<le> 1000" and "(fr_iteration r + 1) mod 10 \<noteq> 0"
  shows "\<exists>r' out. fetch_round demo_fetch_env (demo_round p t) r = (r', out, Running) \<and> fr_targets r' = [] \<and> fr_fetched r' = fr_fetched r \<and>
    fr_start r' = 0 \<and> fr_iteration r' = fr_iteration r + 1"
proof -
  have timeout: "timeout_stage demo_fetch_env (demo_round p t) r = (r, [], Running)"
    using assms(1-3) by (simp add: timeout_stage_def demo_fetch_env_def demo_round_def)
  let ?r1 = "r\<lparr>fr_iteration := fr_iteration r + 1\<rparr>"
  have count: "count_stage demo_fetch_env r = (?r1, [], Running)" by (simp add: count_stage_def demo_fetch_env_def)
  obtain s out where first: "first_stage demo_fetch_env (demo_round p t) ?r1 = (?r1\<lparr>fr_state := s\<rparr>, out, Running)"
  proof (cases "fr_iteration r + 1 = 1")
    case True
    obtain s out where "update_and_upload demo_fetch_env demo_observation (fr_state r) = Ok (s, out)" using demo_upload by blast
    with True show thesis by (intro that [of s out]) (simp add: first_stage_def report_stage_def demo_round_def)
  qed (use that [of "fr_state r" "[]"] in \<open>simp add: first_stage_def\<close>)
  show ?thesis
    using assms by (simp add: fetch_round_def stage_then_def timeout count first ask_stage_def progress_stage_def fetch_stage_def success_stage_def Let_def)
qed

lemma demo_answer:
  assumes id: "u256_from_str p = Ok i" and "fr_targets r = []" and "fr_fetched r = []" and "fr_start r = 0" and "t \<le> 1000" and "fr_iteration r = 9"
  shows "\<exists>r' out. fetch_round demo_fetch_env (demo_round p t) r = (r', out, EndedSuccess)"
proof -
  have timeout: "timeout_stage demo_fetch_env (demo_round p t) r = (r, [], Running)"
    using assms by (simp add: timeout_stage_def demo_fetch_env_def demo_round_def)
  have report: "\<exists>r' out. report_stage demo_fetch_env demo_observation EndedSuccess r = (r', out, EndedSuccess)" for r
    using demo_upload [of "fr_state r"] by (auto simp: report_stage_def)
  have targets: "stored_targets e c (\<lambda>_. []) = Ok []" for e c by (simp add: stored_targets_def demo_pages)
  have obs: "ob_tap demo_observation = (\<lambda>_. [])" by (simp add: demo_observation_def)
  let ?r1 = "r\<lparr>fr_iteration := 10\<rparr>"
  let ?r2 = "?r1\<lparr>fr_start := t + 10, fr_targets := [p]\<rparr>"
  let ?r3 = "?r2\<lparr>fr_state := increment_requests (fr_state r), fr_fetched := [p]\<rparr>"
  have count: "count_stage demo_fetch_env r = (?r1, [], Running)"
    using assms(6) by (simp add: count_stage_def demo_fetch_env_def)
  have first: "first_stage demo_fetch_env (demo_round p t) ?r1 = (?r1, [], Running)" by (simp add: first_stage_def)
  have ask: "ask_stage demo_fetch_env (demo_round p t) ?r1 = (?r2, [HermesTargets []], Running)"
    using assms(2) by (simp add: ask_stage_def demo_round_def send_target_pages_def targets obs set_insert_def demo_fetch_env_def)
  have progress: "progress_stage demo_fetch_env (demo_round p t) ?r2 = (?r2, [], Running)" by (simp add: progress_stage_def)
  have fetch: "\<exists>out. fetch_stage demo_fetch_env (demo_round p t) ?r2 = (?r3, out, Running)"
    using assms(3) by (simp add: fetch_stage_def id Let_def set_insert_def demo_round_def)
  have success: "\<exists>r' out. success_stage demo_fetch_env (demo_round p t) ?r3 = (r', out, EndedSuccess)"
    using report by (simp add: success_stage_def Let_def demo_round_def)
  from fetch success show ?thesis
    by (auto simp: fetch_round_def stage_then_def timeout count first ask progress)
qed


lemma demo_rounds:
  assumes id: "u256_from_str p = Ok i" and "fr_targets r = []" and "fr_fetched r = []" and "fr_start r = 0" and "fr_iteration r = of_nat n" and "n \<le> 9"
  shows "\<exists>r' out. fetch_loop demo_fetch_env (map (\<lambda>k. demo_round p (10 * k)) [n..<10]) r = (r', out, EndedSuccess)"
  using assms(2-)
proof (induction "9 - n" arbitrary: n r)
  case 0
  then have n: "n = 9" by simp
  obtain r' out where "fetch_round demo_fetch_env (demo_round p 90) r = (r', out, EndedSuccess)"
    using demo_answer [OF id, of r 90] 0 n by auto
  then show ?case by (simp add: n upt_rec stage_then_def)
next
  case (Suc d)
  then have n: "n < 9" "d = 9 - Suc n" by auto
  have "(of_nat n + 1 :: u32) mod 10 \<noteq> 0"
  proof -
    have "(of_nat n + 1 :: u32) = of_nat (n + 1)" by simp
    also have "unat (of_nat (n + 1) :: u32) = n + 1" using n(1) by (simp only: unat_of_nat) (simp add: take_bit_nat_eq_self)
    finally have "unat (of_nat n + 1 :: u32) = n + 1" .
    then have "unat ((of_nat n + 1 :: u32) mod 10) = (n + 1) mod 10" by (simp add: unat_mod_distrib)
    moreover have "(n + 1) mod 10 = n + 1" using n(1) by simp
    ultimately show ?thesis by (metis unat_0 Suc_eq_plus1 nat.distinct(1))
  qed
  then obtain r1 out1 where one: "fetch_round demo_fetch_env (demo_round p (10 * n)) r = (r1, out1, Running)" "fr_targets r1 = []"
    "fr_fetched r1 = []" "fr_start r1 = 0" "fr_iteration r1 = of_nat (Suc n)"
    using demo_quiet [of r "10 * n" p] Suc.prems n(1) by (auto simp: add.commute)
  have "[n..<10] = n # [Suc n..<10]" using n(1) by (simp add: upt_conv_Cons)
  with Suc.hyps(1) [OF n(2) one(2-5)] n(1) one(1) show ?case by (auto simp: stage_then_def)
qed

theorem success_is_true_witness:
  "\<exists>r out. fetch_loop demo_fetch_env (map (\<lambda>k. demo_round ''07'' (10 * k)) [0..<10]) (fetch_start (sim_state_new 1 ''node'' 7) 0 False) = (r, out, EndedSuccess) \<and>
     fr_targets r \<noteq> [] \<and> HermesUpdate (snapshot_make (fr_state r)) \<in> set out"
proof -
  have id: "u256_from_str ''07'' = Ok (U256 (7 # replicate 31 0))" by code_simp
  obtain r out where run: "fetch_loop demo_fetch_env (map (\<lambda>k. demo_round ''07'' (10 * k)) [0..<10])
      (fetch_start (sim_state_new 1 ''node'' 7) 0 False) = (r, out, EndedSuccess)"
    using demo_rounds [OF id, of "fetch_start (sim_state_new 1 ''node'' 7) 0 False" 0] by (auto simp: fetch_start_def)
  with success_is_true [OF run] show ?thesis by blast
qed

theorem experiment_ends_witness:
  "snd (snd (fetch_loop demo_fetch_env (map (\<lambda>k. demo_round ''07'' (10 * k)) [0..<300]) (fetch_start (sim_state_new 1 ''node'' 7) 0 False))) \<noteq> Running"
proof -
  have "clock_ok 10 (10 * m) (map (\<lambda>k. demo_round ''07'' (10 * k)) [m..<n])" for m n
  proof (induction "n - m" arbitrary: m)
    case (Suc d)
    then have "[m..<n] = m # [Suc m..<n]" by (simp add: upt_conv_Cons)
    moreover have "clock_ok 10 (10 * Suc m) (map (\<lambda>k. demo_round ''07'' (10 * k)) [Suc m..<n])" using Suc by (intro Suc.hyps(1)) auto
    ultimately show ?case by (simp add: demo_round_def add.commute)
  qed simp
  from this [of 0 300] have clock: "clock_ok 10 0 (map (\<lambda>k. demo_round ''07'' (10 * k)) [0..<300])" by simp
  obtain r out fin where run: "fetch_loop demo_fetch_env (map (\<lambda>k. demo_round ''07'' (10 * k)) [0..<300]) (fetch_start (sim_state_new 1 ''node'' 7) 0 False) = (r, out, fin)"
    by (cases "fetch_loop demo_fetch_env (map (\<lambda>k. demo_round ''07'' (10 * k)) [0..<300]) (fetch_start (sim_state_new 1 ''node'' 7) 0 False)")
  have "fin \<noteq> Running"
    by (rule experiment_ends [OF clock _ _ _ _ _ run, where k = 101 and m = 101]) (simp_all add: fetch_start_def demo_fetch_env_def)
  with run show ?thesis by simp
qed


subsection \<open>Publishing the targets\<close>

definition create_flo_page :: "view_env \<Rightarrow> tap \<Rightarrow> nat \<Rightarrow> string \<Rightarrow> bytes \<Rightarrow> u256 \<Rightarrow> realm_view \<Rightarrow> page view_run" where
  "create_flo_page e tap n name content rnd rv = create_http e tap n name content None CPass rnd [] rv"

text \<open>The pages of one kind, \<open>label\<close> with their numbers; the random numbers are the nonces of their Flos.\<close>

fun create_pages :: "view_env \<Rightarrow> tap \<Rightarrow> nat \<Rightarrow> string \<Rightarrow> bytes \<Rightarrow> u256 list \<Rightarrow> nat \<Rightarrow> realm_view \<Rightarrow> page list view_run" where
  "create_pages e tap n label content [] i rv = Some (rv, [], Ok [])"
| "create_pages e tap n label content (rnd # rnds) i rv =
     run_then (create_flo_page e tap n (label @ dec_digits i) content rnd rv) (\<lambda>p rv1.
     run_then (create_pages e tap n label content rnds (Suc i) rv1) (\<lambda>ps rv2. Some (rv2, [], Ok (p # ps))))"

text \<open>What Hermes is told, and then asked until no target is lost: the clock and its answer, \<open>None\<close> for an error.\<close>

definition target_page :: "view_env \<Rightarrow> page \<Rightarrow> (unit, sim_page) outcome" where
  "target_page e p = (case vals (fw_object p) of
     (_, name) # _ \<Rightarrow> Ok \<lparr>sp_name = name, sp_id = u256_display (blob_id e p)\<rparr> | [] \<Rightarrow> Panic)"

datatype propagation = Propagating | Propagated | PropagationTimeout | PropagationFailed

fun propagate :: "view_env \<Rightarrow> page list \<Rightarrow> (nat \<times> string list option) list \<Rightarrow> flo list \<times> propagation" where
  "propagate e targets [] = ([], Propagating)"
| "propagate e targets ((elapsed, answer) # rest) = (case answer of
     None \<Rightarrow> ([], PropagationFailed)
   | Some lost \<Rightarrow>
       if 15 * 60 * 1000 < elapsed then ([], PropagationTimeout)
       else if lost = [] then ([], Propagated)
       else (let again = filter (\<lambda>p. u256_display (blob_id e p) \<in> set lost) targets; (out, fin) = propagate e targets rest
             in (map fw_flo again @ out, fin)))"

lemma create_flo_page_ok:
  assumes "crypto_ok (fe_crypto (ce_flo (ve_client e)))"
  shows "\<exists>p. create_flo_page e tap n name content rnd rv = Some (store_page e p rv, [fw_flo p], Ok p) \<and>
    flo_verify (ce_flo (ve_client e)) (fw_flo p) = Ok True \<and> realm (fw_flo p) = realm (fw_flo (rv_realm rv)) \<and>
    fw_object p = page_blob name content None"
proof -
  have "may_sign (ce_flo (ve_client e)) CPass []" by (simp add: may_sign_def no_id_collision_def)
  from new_page_ok [OF assms this self_linked_simple(2), of "realm (fw_flo (rv_realm rv))" name content None CuckooNone rnd]
  show ?thesis by (auto simp: create_flo_page_def create_http_def create_http_cuckoo_def Let_def)
qed

lemma create_pages_ok:
  assumes "crypto_ok (fe_crypto (ce_flo (ve_client e)))"
  shows "\<exists>rv' ps. create_pages e tap n label content rnds i rv = Some (rv', map fw_flo ps, Ok ps) \<and> length ps = length rnds \<and>
    rv_realm rv' = rv_realm rv \<and> (\<forall>k < length ps. page_name (ps ! k) = label @ dec_digits (i + k)) \<and>
    (\<forall>p \<in> set ps. flo_verify (ce_flo (ve_client e)) (fw_flo p) = Ok True \<and> realm (fw_flo p) = realm (fw_flo (rv_realm rv)) \<and>
       target_page e p = Ok \<lparr>sp_name = page_name p, sp_id = u256_display (blob_id e p)\<rparr>)"
proof (induction rnds arbitrary: i rv)
  case (Cons rnd rnds)
  obtain p where p: "create_flo_page e tap n (label @ dec_digits i) content rnd rv = Some (store_page e p rv, [fw_flo p], Ok p)"
    "flo_verify (ce_flo (ve_client e)) (fw_flo p) = Ok True" "realm (fw_flo p) = realm (fw_flo (rv_realm rv))"
    "fw_object p = page_blob (label @ dec_digits i) content None"
    using create_flo_page_ok [OF assms] by blast
  have realm: "rv_realm (store_page e p rv) = rv_realm rv" by (simp add: store_page_def)
  obtain rv' ps where ps: "create_pages e tap n label content rnds (Suc i) (store_page e p rv) = Some (rv', map fw_flo ps, Ok ps)"
    "length ps = length rnds" "rv_realm rv' = rv_realm rv" "\<forall>k < length ps. page_name (ps ! k) = label @ dec_digits (Suc i + k)"
    "\<forall>p \<in> set ps. flo_verify (ce_flo (ve_client e)) (fw_flo p) = Ok True \<and> realm (fw_flo p) = realm (fw_flo (rv_realm rv)) \<and>
       target_page e p = Ok \<lparr>sp_name = page_name p, sp_id = u256_display (blob_id e p)\<rparr>"
    using Cons.IH [of "Suc i" "store_page e p rv"] unfolding realm by blast
  have name: "page_name p = label @ dec_digits i" and target: "target_page e p = Ok \<lparr>sp_name = page_name p, sp_id = u256_display (blob_id e p)\<rparr>"
    by (simp_all add: page_name_def target_page_def p(4)) (simp add: page_blob_def)
  have "page_name ((p # ps) ! k) = label @ dec_digits (i + k)" if "k < length (p # ps)" for k
    using that ps(4) name by (cases k) auto
  with ps p(1-3) target show ?case by (intro exI [of _ rv'] exI [of _ "p # ps"]) (simp add: run_then_def)
qed simp

text \<open>What is published again is what is lost, and only targets are.\<close>

lemma propagate_again:
  assumes "propagate e targets answers = (out, fin)" and "f \<in> set out"
  shows "\<exists>p \<in> set targets. f = fw_flo p \<and> (\<exists>a lost. a \<in> set answers \<and> snd a = Some lost \<and> u256_display (blob_id e p) \<in> set lost)"
  using assms
proof (induction answers arbitrary: out fin)
  case (Cons a answers)
  obtain elapsed answer where a: "a = (elapsed, answer)" by (cases a)
  obtain out' fin' where rest: "propagate e targets answers = (out', fin')" by (cases "propagate e targets answers")
  let ?again = "\<lambda>lost. map fw_flo (filter (\<lambda>p. u256_display (blob_id e p) \<in> set lost) targets)"
  from Cons.prems obtain lost where lost: "answer = Some lost" and f: "f \<in> set (?again lost) \<or> f \<in> set out'"
    unfolding a by (cases answer) (auto simp: Let_def rest split: if_splits)
  from f show ?case
  proof
    assume "f \<in> set (?again lost)"
    then obtain p where "p \<in> set targets" "f = fw_flo p" "u256_display (blob_id e p) \<in> set lost" by auto
    with lost a show ?thesis by (intro bexI [of _ p] conjI exI [of _ a] exI [of _ lost]) simp_all
  next
    assume "f \<in> set out'"
    from Cons.IH [OF _ this] rest obtain p a' lost' where "p \<in> set targets" "f = fw_flo p" "a' \<in> set answers" "snd a' = Some lost'"
      "u256_display (blob_id e p) \<in> set lost'"
      by blast
    then show ?thesis by (intro bexI [of _ p] conjI exI [of _ a'] exI [of _ lost']) simp_all
  qed
qed simp


subsection \<open>What is published is what is fetched\<close>

text \<open>The targets of a run are all those of \<open>T\<close>, or none yet.\<close>

definition aims :: "string set \<Rightarrow> stage \<Rightarrow> bool" where
  "aims T st \<longleftrightarrow> (\<forall>r r' out fin. st r = (r', out, fin) \<longrightarrow> set (fr_targets r) \<in> {{}, T} \<longrightarrow> set (fr_targets r') \<in> {{}, T})"

lemma aimsI: "(\<And>r r' out fin. st r = (r', out, fin) \<Longrightarrow> fr_targets r' = fr_targets r) \<Longrightarrow> aims T st"
  unfolding aims_def by metis

lemma aims_then: "aims T a \<Longrightarrow> aims T b \<Longrightarrow> aims T (stage_then a b)"
  unfolding aims_def
proof (intro allI impI, goal_cases)
  case (1 r r' out fin)
  obtain r1 out1 fin1 where a: "a r = (r1, out1, fin1)" by (cases "a r")
  obtain r2 out2 fin2 where b: "b r1 = (r2, out2, fin2)" by (cases "b r1")
  have "set (fr_targets r1) \<in> {{}, T}" using 1(1,4) a by blast
  moreover from this have "set (fr_targets r2) \<in> {{}, T}" using 1(2) b by blast
  ultimately show ?case using 1(3) a b by (simp add: stage_then_def split: if_splits)
qed

lemma aims_ask:
  assumes "\<forall>is. rd_response rd = Some is \<longrightarrow> set is \<in> {{}, T}"
  shows "aims T (ask_stage e rd)"
proof -
  have "set (fold set_insert (i # is) []) = T" if "rd_response rd = Some (i # is)" for i "is"
    using assms that unfolding set_fold_insert by auto
  then show ?thesis
    unfolding aims_def by (auto simp: ask_stage_def split: if_splits outcome.splits option.splits list.splits)
qed

lemma aims_round:
  assumes "\<forall>is. rd_response rd = Some is \<longrightarrow> set is \<in> {{}, T}"
  shows "aims T (fetch_round e rd)"
  unfolding fetch_round_def
proof (intro aims_then aims_ask assms)
  show "aims T (fetch_stage e rd)" by (rule aimsI) (auto simp: fetch_stage_def dest!: fetch_targets_run)
  show "aims T (success_stage e rd)"
    by (rule aimsI) (auto simp: success_stage_def Let_def split: if_splits dest!: report_frame)
qed (auto intro!: aimsI dest!: stage_frames)

lemma aims_loop: "\<forall>rd \<in> set rds. \<forall>is. rd_response rd = Some is \<longrightarrow> set is \<in> {{}, T} \<Longrightarrow> aims T (fetch_loop e rds)"
  by (induction rds) (auto simp: aims_def [of _ "\<lambda>r. (r, [], Running)"] intro!: aims_then aims_round)

lemma published_ids:
  assumes "\<forall>f. u256_ok (flo_id (ce_flo (ve_client e)) f)"
  shows "u256_from_str (u256_display (blob_id e p)) = Ok (blob_id e p)"
  using u256_from_str_display [of "blob_id e p" "[]"] assms by (simp add: blob_id_def)

text \<open>
  C31. The two sides of an experiment together: one node publishes the pages, the dashboard gives the others the identifiers
  of these pages or nothing, and a node that reports success has requested and found every page that was published.
  Hypothesis: the hash gives 32 bytes.
\<close>
theorem success_finds_published:
  assumes "crypto_ok (fe_crypto (ce_flo (ve_client e)))" and "\<forall>f. u256_ok (flo_id (ce_flo (ve_client e)) f)"
    and "create_pages e tap n label content rnds i rv = Some (rv', published, Ok ps)"
    and "\<forall>rd \<in> set rds. \<forall>is. rd_response rd = Some is \<longrightarrow> is = [] \<or> is = map (\<lambda>p. u256_display (blob_id e p)) ps"
    and "fetch_loop fe rds (fetch_start s now no_forward) = (r, out, EndedSuccess)"
  shows "length ps = length rnds \<and> published = map fw_flo ps \<and> (\<forall>p \<in> set ps. flo_verify (ce_flo (ve_client e)) (fw_flo p) = Ok True \<and>
    FetchFlo (fv_realm fe, blob_id e p) \<in> set out \<and> (\<exists>rd \<in> set rds. rd_found rd (blob_id e p)))"
proof -
  let ?T = "(\<lambda>p. u256_display (blob_id e p)) ` set ps"
  have pages: "length ps = length rnds" "published = map fw_flo ps" "\<forall>p \<in> set ps. flo_verify (ce_flo (ve_client e)) (fw_flo p) = Ok True"
    using create_pages_ok [OF assms(1), of tap n label content rnds i rv] assms(3) by auto
  have found: "fr_targets r \<noteq> []" "\<forall>t \<in> set (fr_targets r). \<exists>i. u256_from_str t = Ok i \<and> (\<exists>rd \<in> set rds. rd_found rd i) \<and>
      FetchFlo (fv_realm fe, i) \<in> set out"
    using success_is_true [OF assms(5)] by blast+
  have "aims ?T (fetch_loop fe rds)" using assms(4) by (intro aims_loop) auto
  then have "set (fr_targets r) = ?T"
    using assms(5) found(1) unfolding aims_def by (fastforce simp: fetch_start_def)
  with found(2) have "FetchFlo (fv_realm fe, blob_id e p) \<in> set out \<and> (\<exists>rd \<in> set rds. rd_found rd (blob_id e p))" if "p \<in> set ps" for p
    using that published_ids [OF assms(2), of p] by fastforce
  with pages show ?thesis by blast
qed

theorem success_finds_published_witness:
  "\<exists>p rv' out r. create_pages demo_env (\<lambda>_. []) 1 ''target-'' [111] [sevens] 0 open_view = Some (rv', [fw_flo p], Ok [p]) \<and>
     fetch_loop demo_fetch_env (map (\<lambda>k. demo_round (u256_display (blob_id demo_env p)) (10 * k)) [0..<10])
       (fetch_start (sim_state_new 1 ''node'' 7) 0 False) = (r, out, EndedSuccess) \<and>
     FetchFlo (u256_zero, blob_id demo_env p) \<in> set out"
proof -
  have ok: "crypto_ok (fe_crypto (ce_flo (ve_client demo_env)))" by (simp add: demo_env_def toy_env_ok)
  have "u256_ok (toy_hash b)" for b by (simp add: toy_hash_def u256_ok_def min_def)
  then have ids: "\<forall>f. u256_ok (flo_id (ce_flo (ve_client demo_env)) f)"
    by (simp add: demo_env_def flo_id_def calc_flo_id_def flo_hash_def hash_domain_parts_def toy_env_def toy_crypto_def)
  obtain rv' ps where ps: "create_pages demo_env (\<lambda>_. []) 1 ''target-'' [111] [sevens] 0 open_view = Some (rv', map fw_flo ps, Ok ps)" "length ps = 1"
    using create_pages_ok [OF ok, of "\<lambda>_. []" 1 "''target-''" "[111]" "[sevens]" 0 open_view] by auto
  then obtain p where p: "ps = [p]" by (auto simp: length_Suc_conv)
  let ?rds = "map (\<lambda>k. demo_round (u256_display (blob_id demo_env p)) (10 * k)) [0..<10]"
  obtain r out where run: "fetch_loop demo_fetch_env ?rds (fetch_start (sim_state_new 1 ''node'' 7) 0 False) = (r, out, EndedSuccess)"
    using demo_rounds [OF published_ids [OF ids, of p], of "fetch_start (sim_state_new 1 ''node'' 7) 0 False" 0] by (auto simp: fetch_start_def)
  have "FetchFlo (fv_realm demo_fetch_env, blob_id demo_env p) \<in> set out"
    using success_finds_published [OF ok ids ps(1) _ run] by (auto simp: p demo_round_def)
  with ps p run show ?thesis
    by (intro exI [of _ p] exI [of _ rv'] exI [of _ out] exI [of _ r]) (simp add: demo_fetch_env_def)
qed

end
