(* ===== verification/PageCommand.thy ===== *)
theory PageCommand
  imports RealmView
begin

text \<open>
  The commands of the command-line node that work on pages and realms, \<open>cli/fledger/src/page.rs\<close> and
  \<open>realm.rs\<close>: creating and modifying a page, printing one of its files, and creating a realm. What they print, and
  the waiting for connections and for the synchronisation before and after, are left out. A command ends with the
  Flos it has stored and its result; \<open>None\<close> is not returning, which resolving a condition can do.
\<close>

subsection \<open>The commands\<close>

datatype command_error = EmptyPath | RealmUnknown | PageUnknown | NotAllowed | FileUnreadable | CommandSigner signer_error

type_synonym 'a command = "(flo list \<times> (command_error, 'a) outcome) option"

definition ascii_lower :: "string \<Rightarrow> string" where
  "ascii_lower = map (\<lambda>c. let n = (of_char c :: nat) in if 65 \<le> n \<and> n \<le> 90 then char_of (n + 32) else c)"

text \<open>A realm is named by the first digits of its identifier.\<close>

definition get_rv :: "(u256, realm_view) hashmap \<Rightarrow> string \<Rightarrow> (command_error, realm_view) outcome" where
  "get_rv views name =
     (case find (\<lambda>(i, _). take (length name) (u256_display i) = ascii_lower name) views of
        Some (_, rv) \<Rightarrow> Ok rv | None \<Rightarrow> Err RealmUnknown)"

definition page_at :: "string \<Rightarrow> realm_view \<Rightarrow> (command_error, page) outcome" where
  "page_at path rv = (case get_page_from_path path rv of Some p \<Rightarrow> Ok p | None \<Rightarrow> Err PageUnknown)"

fun join_slash :: "string list \<Rightarrow> string" where
  "join_slash [] = []"
| "join_slash [p] = p"
| "join_slash (p # ps) = p @ CHR ''/'' # join_slash ps"

text \<open>The operator \<open>?\<close>, before anything is stored.\<close>

fun attempt :: "(command_error, 'a) outcome \<Rightarrow> ('a \<Rightarrow> 'b command) \<Rightarrow> 'b command" where
  "attempt (Ok x) k = k x"
| "attempt (Err x) k = Some ([], Err x)"
| "attempt Panic k = Some ([], Panic)"

text \<open>The cases of a path with one part stand after the check that excludes them.\<close>

definition page_create ::
  "view_env \<Rightarrow> tap \<Rightarrow> nat \<Rightarrow> (u256, realm_view) hashmap \<Rightarrow> string \<Rightarrow> string \<Rightarrow> bytes \<Rightarrow> u256 \<Rightarrow> signer \<Rightarrow> page command" where
  "page_create e tap n views path realm_name content rnd signer =
     (let parts = butlast (split_slash path); new_path = last (split_slash path)
      in if parts = [] then Some ([], Err EmptyPath)
         else attempt (get_rv views realm_name) (\<lambda>rv.
              attempt (if parts = [] then Ok None else bind_outcome (page_at (join_slash parts) rv) (\<lambda>p. Ok (Some (blob_id e p)))) (\<lambda>parent.
              let cu = (if parts = [] then CuckooParent (rb_root (rv_pages rv)) else CuckooNone)
              in map_option (\<lambda>(rv', out, r). (out, map_err CommandSigner r))
                (create_http_cuckoo e tap n new_path content parent
                  (CVerifier (signer_verifier (fe_crypto (ce_flo (ve_client e))) signer)) cu rnd [signer] rv))))"

datatype modify_command = ModifyContent bytes | ModifyPath string

text \<open>
  A content that is the name of a file stands for the text of that file; \<open>files\<close> gives \<open>None\<close> for a name without a
  file and \<open>Some None\<close> for a file that is no text or cannot be read.
\<close>

definition content_of :: "(bytes \<Rightarrow> bytes option option) \<Rightarrow> bytes \<Rightarrow> (command_error, bytes) outcome" where
  "content_of files content = (case files content of
     None \<Rightarrow> Ok content | Some (Some text) \<Rightarrow> Ok text | Some None \<Rightarrow> Err FileUnreadable)"

definition set_index :: "bytes \<Rightarrow> blob \<Rightarrow> blob" where
  "set_index content b = b\<lparr>datas := AList.update ''index.html'' content (datas b)\<rparr>"

definition modify_edit :: "(bytes \<Rightarrow> bytes option option) \<Rightarrow> modify_command \<Rightarrow> (command_error, blob \<Rightarrow> blob) outcome" where
  "modify_edit files cmd = (case cmd of
     ModifyContent content \<Rightarrow> bind_outcome (content_of files content) (\<lambda>text. Ok (set_index text))
   | ModifyPath new_path \<Rightarrow> Ok (set_path new_path))"

definition page_modify ::
  "view_env \<Rightarrow> tap \<Rightarrow> nat \<Rightarrow> (bytes \<Rightarrow> bytes option option) \<Rightarrow> (u256, realm_view) hashmap \<Rightarrow> string \<Rightarrow> string \<Rightarrow>
     modify_command \<Rightarrow> signer \<Rightarrow> page command" where
  "page_modify e tap n files views realm_name path cmd signer =
     (let fe = ce_flo (ve_client e); cr = fe_crypto fe
      in attempt (get_rv views realm_name) (\<lambda>rv.
         attempt (page_at path rv) (\<lambda>p.
         Option.bind (convert_cond e tap n p (realm (fw_flo (rv_realm rv)))) (\<lambda>c.
         attempt (map_err (\<lambda>_. NotAllowed) (can_sign cr c [signer_id cr signer])) (\<lambda>can.
         if \<not> can then Some ([], Err NotAllowed)
         else attempt (modify_edit files cmd) (\<lambda>edit.
              attempt (map_err CommandSigner (edit_data_signers fe (ve_page e) c edit [signer] p)) (\<lambda>p'.
              Some ([fw_flo p'], Ok p'))))))))"

definition page_print :: "(u256, realm_view) hashmap \<Rightarrow> string \<Rightarrow> string \<Rightarrow> string \<Rightarrow> (command_error, bytes option) outcome" where
  "page_print views realm_name path file =
     bind_outcome (get_rv views realm_name) (\<lambda>rv. bind_outcome (page_at path rv) (\<lambda>p. Ok (map_of (datas (fw_object p)) file)))"

text \<open>Whoever may sign for the realm, its root page and its root tag can be edited by everybody.\<close>

definition realm_create ::
  "view_env \<Rightarrow> tap \<Rightarrow> u256 \<times> u256 \<times> u256 \<Rightarrow> bytes \<Rightarrow> string \<Rightarrow> nat option \<Rightarrow> nat option \<Rightarrow> bool \<Rightarrow> signer \<Rightarrow>
     flo list \<times> (build_error, realm_view) outcome" where
  "realm_create e tap rnds index name spc largest cond_pass signer =
     build e tap rnds (root_tag ''danu'' None CPass [] (root_http ''danu'' index None CPass []
       (builder_config \<lparr>max_space = (case spc of Some m \<Rightarrow> m | None \<Rightarrow> 1000000),
           max_flo_size = (case largest of Some m \<Rightarrow> m | None \<Rightarrow> 10000)\<rparr>
         (builder_new name (if cond_pass then CPass else CVerifier (signer_verifier (fe_crypto (ce_flo (ve_client e))) signer)) [signer]))))"


subsection \<open>What they do\<close>

lemma attempt_Some:
  "attempt m k = Some r \<longleftrightarrow> (\<exists>x. m = Ok x \<and> k x = Some r) \<or> (\<exists>x. m = Err x \<and> r = ([], Err x)) \<or> m = Panic \<and> r = ([], Panic)"
  by (cases m) auto

lemma attempt_Ok: "attempt m k = Some (out, Ok y) \<longleftrightarrow> (\<exists>x. m = Ok x \<and> k x = Some (out, Ok y))"
  by (cases m) auto

lemma map_err_Ok [simp]: "map_err g m = Ok x \<longleftrightarrow> m = Ok x"
  by (cases m) auto

lemma page_at_Ok [simp]: "page_at path rv = Ok p \<longleftrightarrow> get_page_from_path path rv = Some p"
  by (simp add: page_at_def split: option.split)

text \<open>The prefix of a realm in upper case is as good as in lower case, and the realm that is found has it.\<close>

lemma get_rv_found:
  assumes "get_rv views name = Ok rv"
  shows "\<exists>i. (i, rv) \<in> set views \<and> take (length name) (u256_display i) = ascii_lower name"
  using assms by (auto simp: get_rv_def find_Some_iff split: option.splits) (metis nth_mem)

text \<open>A page on the top level cannot be created, although the code that follows is written for it too.\<close>

theorem top_level_refused:
  assumes "CHR ''/'' \<notin> set path"
  shows "page_create e tap n views path realm_name content rnd signer = Some ([], Err EmptyPath)"
  using assms by (simp add: page_create_def split_slash_one)

theorem top_level_refused_witness:
  "page_create demo_env (\<lambda>_. []) 1 [] ''page'' ''00'' [] sevens (SignerEd25519 [1]) = Some ([], Err EmptyPath)"
  by (rule top_level_refused) simp

text \<open>
  Modifying a page stores one Flo, which replaces the page: it has the identifier, the realm, the condition and the
  links of the page, is signed under a condition that the signer may sign for, and only the content or the name differs.
\<close>

theorem modified_page_replaces:
  assumes "page_modify e tap n files views realm_name path cmd signer = Some (out, Ok p')"
  shows "\<exists>rv p c. get_rv views realm_name = Ok rv \<and> get_page_from_path path rv = Some p \<and> out = [fw_flo p'] \<and>
    blob_id e p' = blob_id e p \<and> realm (fw_flo p') = realm (fw_flo p) \<and> cond (fw_flo p') = cond (fw_flo p) \<and>
    links (fw_object p') = links (fw_object p) \<and>
    can_sign (fe_crypto (ce_flo (ve_client e))) c [signer_id (fe_crypto (ce_flo (ve_client e))) signer] = Ok True \<and>
    cs_condition (data_signature (fw_flo p')) = c \<and>
    (case cmd of
       ModifyContent content \<Rightarrow> vals (fw_object p') = vals (fw_object p) \<and>
         (\<exists>text. content_of files content = Ok text \<and> map_of (datas (fw_object p')) = (map_of (datas (fw_object p)))(''index.html'' \<mapsto> text))
     | ModifyPath new_path \<Rightarrow> datas (fw_object p') = datas (fw_object p) \<and> get_path (fw_object p') = Some new_path)"
proof -
  let ?fe = "ce_flo (ve_client e)"
  obtain rv p c edit where run: "get_rv views realm_name = Ok rv" "get_page_from_path path rv = Some p"
    "can_sign (fe_crypto ?fe) c [signer_id (fe_crypto ?fe) signer] = Ok True" "modify_edit files cmd = Ok edit"
    "edit_data_signers ?fe (ve_page e) c edit [signer] p = Ok p'" "out = [fw_flo p']"
    using assms by (auto simp: page_modify_def Let_def attempt_Ok Option.bind_eq_Some_conv split: if_splits)
  have "cs_condition (data_signature (fw_flo p')) = c"
    using run(5) by (auto simp: edit_data_signers_def bind_outcome_Ok dest: update_data_signers_keeps(4))
  moreover have "fw_object p' = edit (fw_object p)" by (rule edit_data_signers_keeps(1) [OF run(5)])
  ultimately show ?thesis
    using run(1-3,4,6) edit_data_signers_keeps(2-4) [OF run(5)]
    by (cases cmd) (auto simp: modify_edit_def bind_outcome_Ok set_index_def set_path_def get_path_def)
qed

text \<open>Nobody else modifies it.\<close>

theorem modify_refused:
  assumes "get_rv views realm_name = Ok rv" and "get_page_from_path path rv = Some p"
    and "convert_cond e tap n p (realm (fw_flo (rv_realm rv))) = Some c"
    and "can_sign (fe_crypto (ce_flo (ve_client e))) c [signer_id (fe_crypto (ce_flo (ve_client e))) signer] \<noteq> Ok True"
  shows "page_modify e tap n files views realm_name path cmd signer = Some ([], Err NotAllowed)"
  using assms by (auto simp: page_modify_def Let_def can_sign_def page_at_def)

end
