(* ===== verification/Spec2Isabelle.thy ===== *)
theory Spec2Isabelle
  imports Main JsBrowser JsPage TrixToolbar FilamentTable Access DhtRouter GossipNode RouterNet Signalling WebRtcConn
    Broker Ping WebProxy RealmView Template Experiment PageCommand
begin

text \<open>
  A verification development of fledger, a peer-to-peer network whose nodes run in a browser or on the
  command line, and of the dashboard (Hermes) with which its reliability is measured.

  \<^bold>\<open>The program and its parts.\<close>
  A node is a set of modules, each an actor behind a broker. At the bottom, WebRTC connections carry texts between
  two nodes; a signalling server introduces the nodes to each other. On top of the network broker a router gives
  each module a channel to the same module of other nodes. The modules are: random connections (whom to connect to),
  gossip (events that every node should have), ping (who is alive), the web proxy (a node fetches a web page for
  another one), the router of the distributed hash table (Kademlia) and its storage. The storage holds Flos: records
  that are signed, versioned and guarded by conditions; they form realms. A client reads and writes typed Flos, and
  a realm view shows the pages and tags of a realm and edits them. In the browser, \<open>main.js\<close> puts a page into the
  document. The command-line node runs the experiments whose results the dashboard shows in Filament tables and
  whose texts are edited in a Trix editor.

  \<^bold>\<open>The theories.\<close> Paths without a directory are below \<open>fledger/flmodules/src\<close>.
  \<^item> \<open>Prelude\<close>: machine types, \<open>outcome\<close> (a value, an error, a panic), hash maps as association lists, and the
    lemmas that several theories share. \<open>Subsystem\<close>: the locale of a message handler (see below).
  \<^item> \<open>JsText\<close>, \<open>JsPage\<close>, \<open>JsBrowser\<close>: \<open>fledger/flbrowser/src/main.js\<close>. \<open>JsText\<close> is the rewriting of scripts in
    \<open>appendScript\<close>; \<open>JsPage\<close> is \<open>embedPage\<close> with the fetches as events that arrive in any order and the timer of the
    race, over a document tree; \<open>JsBrowser\<close> is \<open>downloadFile\<close> and the accessors of the editor.
  \<^item> \<open>TrixToolbar\<close>: of \<open>rich-editor.js\<close> the template of the toolbar, the style sheets and their registration.
    \<open>FilamentTable\<close>: \<open>table.js\<close>, the selection of records; a record \<open>table\<close> is the state of the component, one
    function per method, and \<open>table_step\<close> dispatches the events.
  \<^item> \<open>NodeIds\<close>: \<open>flarch/src/nodeids.rs\<close>, \<open>U256\<close> with its text form, hashing of parts, and lists of identifiers; the
    derived order is an instance of \<open>linorder\<close>. \<open>Signer\<close>, \<open>Access\<close>: \<open>flcrypto\<close>, key pairs, conditions, badges,
    N-of-T signatures. \<open>NodeInfo\<close>: the description of a node in \<open>nodeconfig.rs\<close>.
  \<^item> \<open>Flo\<close>: \<open>flo/flo.rs\<close>, creation, updates of the data and of the condition, verification of the chain of updates.
  \<^item> \<open>RealmStore\<close>, \<open>DhtMessages\<close>: \<open>dht_storage/core.rs\<close> and \<open>messages.rs\<close>. A record \<open>realm_storage\<close> is the store of
    one realm with its size accounting and cuckoos; \<open>dht\<close> is the module with all its realms, its disk and its
    statistics, and \<open>dht_messages\<close> its handler. \<open>RouterMsg\<close>: the messages between the modules.
  \<^item> \<open>DhtClient\<close>, \<open>RealmView\<close>: \<open>dht_storage/broker.rs\<close> and \<open>realm_view.rs\<close>, with \<open>flo/blob.rs\<close>, \<open>flo/realm.rs\<close>
    and \<open>flo/crypto.rs\<close>: typed Flos, requests with their time-outs, resolving conditions, and the pages and tags of
    a realm: fetching, paths, creating, editing and moving pages, and the builder of realms.
  \<^item> \<open>KBucket\<close>, \<open>Kademlia\<close>, \<open>KadRouting\<close>: \<open>dht_router/kademlia.rs\<close>: distances, buckets, splitting and merging, the
    clock, and the two routing functions. \<open>DhtRouter\<close>: \<open>dht_router/messages.rs\<close> on top of them.
  \<^item> \<open>GossipCore\<close>, \<open>GossipNode\<close>: \<open>gossip_events\<close>: the event store with its limits and its old formats, and the
    messages. \<open>RandomConnections\<close>, \<open>Ping\<close>, \<open>WebProxy\<close>, \<open>Template\<close>: the modules of the same names.
  \<^item> \<open>SignalServer\<close>, \<open>NetworkBroker\<close>, \<open>Signalling\<close>: \<open>network/signal.rs\<close>, \<open>network/broker.rs\<close>, and both of them
    together with the websocket between them. \<open>TextFormat\<close>: an example of a message format.
  \<^item> \<open>WebRtc\<close>, \<open>WebRtcConn\<close>: \<open>flarch/src/web_rtc\<close>: one connection with its queue and its packets, and the table of
    connections below the network broker. \<open>RouterNet\<close>: \<open>router/broker.rs\<close>. \<open>Broker\<close>: \<open>flarch/src/broker.rs\<close>.
  \<^item> \<open>Experiment\<close>: \<open>fledger/cli/fledger/src\<close>: the reports of a node and the two sides of an experiment.
    \<open>PageCommand\<close>: the commands for pages and realms.

  \<^bold>\<open>How the code is modelled.\<close>
  A struct is a record, an enum a datatype, both with the names of the code as far as Isabelle allows. A handler is
  a function from a message and the state to an \<open>outcome\<close> of the new state and the messages it sends; \<open>unwrap\<close>,
  \<open>todo!\<close>, an index out of range and an explicit \<open>panic!\<close> are \<open>Panic\<close>, and \<open>?\<close> passes on \<open>Err\<close>. Counters are \<open>u32\<close> or
  \<open>u16\<close> words and wrap around. Hash maps are association lists with distinct keys, and no theorem fixes their order.
  Random choices, the clock, the answers of other systems and the order in which tasks run are arguments or events,
  and the theorems hold for all of them. Third-party code is a parameter: the hash, the signature scheme
  (\<open>crypto_ok\<close>: what is signed is verified, signatures have 64 bytes), MessagePack and YAML (\<open>reads_back\<close>: what is
  written can be read), the HTTP client. The packets of a connection are written as JSON and read as YAML; they are
  read back only if their text has no control character from U+007F on (\<open>packets_read\<close>, \<open>plain_packet\<close>). Each theorem with such a hypothesis has a witness at a concrete instance.

  \<^bold>\<open>The interfaces.\<close>
  \<^item> \<open>subsystem\<close> (in \<open>Subsystem\<close>): what a broker expects of a module. Its operation is one message, its laws are that
    every accepted message keeps the invariant, does not panic and sends only messages in order; the lemmas lift
    this to every sequence of batches. It is interpreted for the signalling server (\<open>sg\<close>), random connections
    (\<open>rc\<close>), the network broker (\<open>nb\<close>, \<open>user\<close>), the router (\<open>own\<close>), ping (\<open>pg\<close>), the web proxy (\<open>wp\<close>) and the module
    template (\<open>tp\<close>).
  \<^item> \<open>realm_store\<close> (in \<open>DhtMessages\<close>, interpretation \<open>rs\<close>): what the storage module needs of the store of a realm.
  \<^item> \<open>event_store\<close> (in \<open>GossipNode\<close>, interpretation \<open>gs\<close>): what the gossip messages need of the event store.
  \<^item> \<open>node_table\<close> (in \<open>KadRouting\<close>, interpretation \<open>nt\<close>): what the DHT router needs of the Kademlia table.

  \<^bold>\<open>What the lemmas show.\<close>
  \<^item> Invariants of the state under every message: the stores of the realms and their accounting, the routing table
    and its books, the lists of random connections, the registered nodes and live connections of the network.
  \<^item> Security: a Flo that passes verification was signed under the condition right before each update, back to the
    one that its identifier is made of; signing what may be signed gives what is verified; verification agrees with
    counting the valid signatures; only the owner of a page can change it; a node is only registered by its key.
  \<^item> Refinement: the limited event stores of two nodes converge to the newest events of both, in any order of
    delivery; a round of gossip merges the stores; a connection is a queue in order whatever the state of its
    channel; the books of the router are those of the network; a broker hands every message to its handler.
  \<^item> Routing: each hop of a direct message comes nearer to its destination, so that a path ends after at most 256
    hops; to which node a message for a key goes on, and when it stays, is known exactly.
  \<^item> Round trips: packets of long texts, paths of pages, text forms of identifiers, signatures.
  \<^item> Termination: splitting of buckets, eviction, forwarding between brokers, resolving of conditions, experiments.
  \<^item> The browser: what is in the shadow root of each page after any interleaving of loads, fetches and timers, and
    that a registered style sheet selects only below its own element, read from the text of the sheet.
  \<^item> Compositions: a web page through two nodes and their tasks; the handshake and the connection set-up through
    the signalling server; a published Flo in the stores and read back by a client; a realm that is built, opened
    and edited; what one node of an experiment publishes and what another one reports as fetched.
  \<^item> Where the code does not do what it should, a lemma shows it on the model: a realm that is too small hangs the
    eviction, two badges that name each other are followed for ever, a lost connection is never dialled again, answers
    lose the trail that stops circles, pages that are each other's parents have no path, a page with a slash in its
    name is found on no path, a description of a node whose key has not 32 bytes stops the routers with a panic.

  \<^bold>\<open>Loops, bounds and fuel.\<close>
  The splitting loop of the routing table and the eviction loop of a store are \<open>while_option\<close>: \<open>None\<close> is not
  returning. Splitting is shown to end for every table that keeps its invariant, since each round takes away one of
  256 depths; eviction ends if the Flo of the realm fits, and is shown not to end otherwise. The full path of a page
  is a \<open>partial_function (option)\<close>: it returns if the parents lead to the top, and does not if they form a circle.
  \<open>convert\<close> and \<open>to_condition\<close> have a fuel, the nesting of the conditions and badges that are followed: if everything
  can be resolved, the depth of the resulting condition is enough; if badges name each other in a circle, no amount
  is. The brokers run as an inductive step relation; if the handlers send nothing of their own, it has no infinite
  run, since a forwarded message carries the brokers it has gone through. The loop of an experiment consumes a list of rounds and is
  shown to end within the number of rounds that the time-outs and the delay of the loop allow.

  \<^bold>\<open>Not modelled.\<close>
  \<^item> The bundled third-party JavaScript: Trix itself and DOMPurify in \<open>rich-editor.js\<close>, FilePond in \<open>file-upload.js\<close>,
    EasyMDE, chart.js, Pusher, floating-ui and Alpine, in minified form, and Bootstrap; the Vite configuration.
  \<^item> The PHP side of the dashboard: Laravel models, controllers and Filament resources.
  \<^item> The platform layer of \<open>flarch\<close>: tasks, timers, data storage, and the set-up of connections with the WebRTC
    libraries of the browser and of native nodes. \<open>settle\<close> of the brokers, which waits for the queues of the linked ones.
  \<^item> ML-DSA signatures, \<open>NodeConfig\<close> files, names, the byte formats of \<open>serde\<close>, the derive macros of \<open>flmacro\<close>.
  \<^item> The start-up and wiring in \<open>flnode\<close> and the command-line programs, the display in the Rust part of the browser
    front end, and the forked metrics exporter.
\<close>

end
